(* ===== verification/Prelude.thy ===== *)
theory Prelude
  imports Main "HOL-Library.Sublist" "HOL-Library.List_Lexorder" "HOL-Library.Char_ord"
    "HOL-Library.Signed_Division"
begin

text \<open>
  What every component shares: Go's errors as values, the two-complement int64 arithmetic, the
  byte strings and the functions of \<open>strings\<close>, \<open>bytes\<close>, \<open>strconv\<close> and \<open>fmt\<close> that the code calls,
  instants and durations, and the generic lemmas on lists, prefixes and the byte-wise order that
  the component theories use.  A Go string is a sequence of bytes, so it is a list of \<open>char\<close>
  (a HOL \<open>char\<close> is one byte).
\<close>

named_theorems go_defs \<open>definitions of the modelled Go library functions\<close>

section \<open>Errors\<close>

text \<open>
  The sentinel errors of \<open>internal/errs\<close>, the errors of the Go library and of Badger that the code
  compares against, \<open>errors.New\<close> and \<open>fmt.Errorf\<close> texts, any other library error, and a panic.
\<close>

datatype gerr =
    ErrNotFound | ErrConflict | ErrBadRequest | ErrValidation
  | ErrKeyNotFound
  | ErrUnmarshal
  | ErrCanceled
  | ErrDeadlineExceeded
  | ErrEOF
  | ErrUnexpectedEOF
  | ErrText string
  | ErrOther string
  | ErrPanic string

type_synonym 'a res = "gerr + 'a"

definition bindE :: "'a res \<Rightarrow> ('a \<Rightarrow> 'b res) \<Rightarrow> 'b res" where
  "bindE m f = (case m of Inl e \<Rightarrow> Inl e | Inr x \<Rightarrow> f x)"

lemma bindE_simps [simp]:
  "bindE (Inl e) f = Inl e"
  "bindE (Inr x) f = f x"
  by (simp_all add: bindE_def)

lemma bindE_eq_Inr: "bindE m f = Inr y \<longleftrightarrow> (\<exists>x. m = Inr x \<and> f x = Inr y)"
  by (cases m) simp_all

lemma bindE_eq_Inl: "bindE m f = Inl e \<longleftrightarrow> m = Inl e \<or> (\<exists>x. m = Inr x \<and> f x = Inl e)"
  by (cases m) simp_all

text \<open>An error check \<open>if err != nil { return err }\<close> on a possible error.\<close>

definition failE :: "gerr option \<Rightarrow> unit res" where
  "failE e = (case e of None \<Rightarrow> Inr () | Some e \<Rightarrow> Inl e)"

lemma failE_simps [simp]: "failE None = Inr ()" "failE (Some e) = Inl e"
  by (simp_all add: failE_def)

lemma failE_Inr [simp]: "failE e = Inr u \<longleftrightarrow> e = None"
  by (cases e) simp_all

section \<open>Integers of 64 bits\<close>

text \<open>Go's \<open>int\<close> (on the 64-bit platforms the service is built for) and \<open>int64\<close> wrap around.\<close>

definition wrap64 :: "int \<Rightarrow> int" where
  "wrap64 x = signed_take_bit 63 x"

definition add64 :: "int \<Rightarrow> int \<Rightarrow> int" where "add64 a b = wrap64 (a + b)"
definition sub64 :: "int \<Rightarrow> int \<Rightarrow> int" where "sub64 a b = wrap64 (a - b)"
definition mul64 :: "int \<Rightarrow> int \<Rightarrow> int" where "mul64 a b = wrap64 (a * b)"
definition div64 :: "int \<Rightarrow> int \<Rightarrow> int" where "div64 a b = wrap64 (a sdiv b)"

definition in64 :: "int \<Rightarrow> bool" where
  "in64 x \<longleftrightarrow> - (2 ^ 63) \<le> x \<and> x < 2 ^ 63"

lemma wrap64_id [simp]: "in64 x \<Longrightarrow> wrap64 x = x"
  by (simp add: wrap64_def in64_def signed_take_bit_int_eq_self)

lemma in64_wrap64 [simp]: "in64 (wrap64 x)"
  using signed_take_bit_int_greater_eq_minus_exp [of 63 x] signed_take_bit_int_less_exp [of 63 x]
  by (simp add: wrap64_def in64_def)

lemma in64_between: "in64 a \<Longrightarrow> in64 b \<Longrightarrow> a \<le> x \<Longrightarrow> x \<le> b \<Longrightarrow> in64 x"
  by (simp add: in64_def)

lemma add64_id: "in64 (a + b) \<Longrightarrow> add64 a b = a + b" by (simp add: add64_def)
lemma sub64_id: "in64 (a - b) \<Longrightarrow> sub64 a b = a - b" by (simp add: sub64_def)
lemma mul64_id: "in64 (a * b) \<Longrightarrow> mul64 a b = a * b" by (simp add: mul64_def)

lemma div64_nonneg:
  assumes "0 \<le> a" "0 < b" "in64 a"
  shows "div64 a b = a div b"
proof -
  have "a div b \<le> a" "0 \<le> a div b"
    using assms zdiv_mono2 [of a 1 b] by (simp_all add: pos_imp_zdiv_nonneg_iff)
  with assms(3) have "in64 (a div b)" by (simp add: in64_def)
  with assms show ?thesis by (cases "a = 0") (simp_all add: div64_def signed_divide_int_def)
qed

lemmas int64_defs = wrap64_def add64_def sub64_def mul64_def div64_def

section \<open>Instants and durations\<close>

text \<open>
  A \<open>time.Time\<close> is the number of nanoseconds since the Unix epoch, UTC, without bound (Go keeps 64
  bits of seconds); the zero value is the first instant of year 1.  A \<open>time.Duration\<close> is an int64
  number of nanoseconds, and \<open>Sub\<close> saturates.
\<close>

type_synonym gtime = int
type_synonym duration = int

definition zero_time :: gtime where
  "zero_time = - 62135596800000000000"

definition IsZero :: "gtime \<Rightarrow> bool" where
  "IsZero t \<longleftrightarrow> t = zero_time"

definition time_Sub :: "gtime \<Rightarrow> gtime \<Rightarrow> duration" where
  "time_Sub t u = max (- (2 ^ 63)) (min (2 ^ 63 - 1) (t - u))"

definition time_Second :: duration where "time_Second = 1000000000"
definition time_Minute :: duration where "time_Minute = 60 * time_Second"

text \<open>
  Two parameters of the operations: the readings of the clock (\<open>ck k\<close> is what the \<open>k\<close>-th
  \<open>time.Now()\<close> of the call returns) and of the context (\<open>cx k\<close> is what its \<open>k\<close>-th \<open>ctx.Err()\<close>
  returns, \<open>None\<close> for nil).  Nothing is assumed of either, so a context may be cancelled between any
  two checks.
\<close>

type_synonym clock = "nat \<Rightarrow> gtime"
type_synonym gctx = "nat \<Rightarrow> gerr option"

definition live :: gctx where "live = (\<lambda>_. None)"
definition cancelled :: gctx where "cancelled = (\<lambda>_. Some ErrCanceled)"

definition skip :: "nat \<Rightarrow> (nat \<Rightarrow> 'a) \<Rightarrow> nat \<Rightarrow> 'a" where
  "skip n f = (\<lambda>k. f (n + k))"

lemma skip_apply: "skip n f k = f (n + k)" by (simp add: skip_def)
lemma skip_at [simp]:
  "skip n f 0 = f n" "skip n f (Suc 0) = f (Suc n)" "skip n f (numeral w) = f (n + numeral w)"
  by (simp_all add: skip_def)
lemma skip_live [simp]: "skip n live = live" by (simp add: skip_def live_def)
lemma skip_const [simp]: "skip n (\<lambda>_. c) = (\<lambda>_. c)" by (simp add: skip_def)
lemma skip_skip [simp]: "skip m (skip n f) = skip (n + m) f" by (simp add: skip_def fun_eq_iff add.assoc)
lemma live_apply: "live k = None" by (simp add: live_def)
lemma live_at [simp]: "live 0 = None" "live (Suc k) = None" "live (numeral w) = None"
  by (simp_all add: live_def)
lemma cancelled_at [simp]:
  "cancelled 0 = Some ErrCanceled" "cancelled (Suc k) = Some ErrCanceled"
  "cancelled (numeral w) = Some ErrCanceled"
  by (simp_all add: cancelled_def)

section \<open>Byte strings\<close>

definition bar :: char where "bar = CHR ''|''"
definition slash :: char where "slash = CHR ''/''"

text \<open>\<open>bytes.Join(parts, sep)\<close> and \<open>bytes.Split(key, sep)\<close> for a separator of one byte.\<close>

fun join_with :: "char \<Rightarrow> string list \<Rightarrow> string" where
  "join_with c [] = []"
| "join_with c [x] = x"
| "join_with c (x # y # ys) = x @ c # join_with c (y # ys)"

fun split_on :: "char \<Rightarrow> string \<Rightarrow> string list" where
  "split_on c [] = [[]]"
| "split_on c (x # xs) =
     (if x = c then [] # split_on c xs
      else (case split_on c xs of [] \<Rightarrow> [[x]] | y # ys \<Rightarrow> (x # y) # ys))"

lemma split_on_nonempty [simp]: "split_on c s \<noteq> []"
  by (induction s) (auto split: list.splits)

lemma split_on_free [simp]: "c \<notin> set s \<Longrightarrow> split_on c s = [s]"
  by (induction s) auto

lemma split_on_append: "split_on c (a @ c # b) = split_on c a @ split_on c b"
proof (induction a)
  case (Cons x a)
  then show ?case by (cases "split_on c a") auto
qed simp

lemma last_split_on: "c \<notin> set b \<Longrightarrow> last (split_on c (a @ c # b)) = b"
  by (simp add: split_on_append)

lemma split_on_join:
  "xs \<noteq> [] \<Longrightarrow> (\<And>x. x \<in> set xs \<Longrightarrow> c \<notin> set x) \<Longrightarrow> split_on c (join_with c xs) = xs"
  by (induction c xs rule: join_with.induct) (auto simp: split_on_append)

text \<open>
  \<open>strings.ToLower\<close> and \<open>strings.EqualFold\<close>: a string of ASCII bytes is handled byte by byte, any
  other goes to the Unicode case tables, which are parameters (\<open>u\<close>, \<open>f\<close>).
\<close>

definition lower_byte :: "char \<Rightarrow> char" where
  "lower_byte c =
     (let n = of_char c :: nat in if 65 \<le> n \<and> n \<le> 90 then char_of (n + 32) else c)"

definition is_ascii :: "string \<Rightarrow> bool" where
  "is_ascii s = list_all (\<lambda>c. (of_char c :: nat) < 128) s"

definition ToLower :: "(string \<Rightarrow> string) \<Rightarrow> string \<Rightarrow> string" where
  "ToLower u s = (if is_ascii s then map lower_byte s else u s)"

definition EqualFold :: "(string \<Rightarrow> string \<Rightarrow> bool) \<Rightarrow> string \<Rightarrow> string \<Rightarrow> bool" where
  "EqualFold f s t =
     (if is_ascii s \<and> is_ascii t then map lower_byte s = map lower_byte t else f s t)"

text \<open>\<open>strings.TrimSpace\<close>; \<open>u\<close> is what it does with a string that has other than ASCII bytes.\<close>

definition is_space :: "char \<Rightarrow> bool" where
  "is_space c \<longleftrightarrow> (of_char c :: nat) \<in> {9, 10, 11, 12, 13, 32}"

definition TrimSpace :: "(string \<Rightarrow> string) \<Rightarrow> string \<Rightarrow> string" where
  "TrimSpace u s =
     (if is_ascii s then rev (dropWhile is_space (rev (dropWhile is_space s))) else u s)"

lemma TrimSpace_id:
  assumes "\<And>c. c \<in> set s \<Longrightarrow> \<not> is_space c \<and> (of_char c :: nat) < 128"
  shows "TrimSpace u s = s"
proof -
  have "dropWhile is_space xs = xs" if "set xs \<subseteq> set s" for xs
    using that assms by (cases xs) auto
  moreover have "is_ascii s" using assms by (simp add: is_ascii_def list_all_iff)
  ultimately show ?thesis by (simp add: TrimSpace_def)
qed

text \<open>\<open>strings.Contains(s, q)\<close>, \<open>strings.HasPrefix\<close>, \<open>HasSuffix\<close>, \<open>TrimPrefix\<close> and \<open>TrimSuffix\<close>.\<close>

fun contains :: "string \<Rightarrow> string \<Rightarrow> bool" where
  "contains [] q = (q = [])"
| "contains (c # s) q = (prefix q (c # s) \<or> contains s q)"

lemma contains_iff: "contains s q \<longleftrightarrow> sublist q s"
  by (induction s) (auto simp: sublist_Cons_right)

definition HasPrefix :: "string \<Rightarrow> string \<Rightarrow> bool" where
  "HasPrefix s p \<longleftrightarrow> prefix p s"
definition HasSuffix :: "string \<Rightarrow> string \<Rightarrow> bool" where
  "HasSuffix s p \<longleftrightarrow> suffix p s"
definition TrimPrefix :: "string \<Rightarrow> string \<Rightarrow> string" where
  "TrimPrefix s p = (if prefix p s then drop (length p) s else s)"
definition TrimSuffix :: "string \<Rightarrow> string \<Rightarrow> string" where
  "TrimSuffix s p = (if suffix p s then take (length s - length p) s else s)"

declare ToLower_def [go_defs] EqualFold_def [go_defs] HasPrefix_def [go_defs]
  HasSuffix_def [go_defs] TrimPrefix_def [go_defs] TrimSuffix_def [go_defs]

lemma TrimPrefix_append [simp]: "TrimPrefix (p @ s) p = s"
  by (simp add: TrimPrefix_def)

lemma TrimSuffix_append [simp]: "TrimSuffix (s @ p) p = s"
  by (simp add: TrimSuffix_def suffix_def)

section \<open>Decimal numbers\<close>

definition digit :: "nat \<Rightarrow> char" where
  "digit d = char_of (48 + d)"

fun digits :: "nat \<Rightarrow> string" where
  "digits n = (if n < 10 then [digit n] else digits (n div 10) @ [digit (n mod 10)])"

declare digits.simps [simp del]

text \<open>\<open>strconv.FormatInt(i, 10)\<close> and \<open>strconv.Itoa\<close>; \<open>fmt.Sprintf("%0wd", i)\<close>, whose width counts the sign.\<close>

definition FormatInt :: "int \<Rightarrow> string" where
  "FormatInt i = (if i < 0 then CHR ''-'' # digits (nat (- i)) else digits (nat i))"

definition Sprintf_0d :: "nat \<Rightarrow> int \<Rightarrow> string" where
  "Sprintf_0d w i =
     (let ds = digits (nat \<bar>i\<bar>); sgn = (if i < 0 then ''-'' else [])
      in sgn @ replicate (w - length sgn - length ds) (CHR ''0'') @ ds)"

fun fixed :: "nat \<Rightarrow> nat \<Rightarrow> string" where
  "fixed 0 n = []"
| "fixed (Suc w) n = fixed w (n div 10) @ [digit (n mod 10)]"

text \<open>\<open>strconv.ParseInt(s, 10, 64)\<close>: \<open>None\<close> for a syntax or a range error.\<close>

definition is_digit :: "char \<Rightarrow> bool" where
  "is_digit c \<longleftrightarrow> 48 \<le> (of_char c :: nat) \<and> (of_char c :: nat) \<le> 57"

fun digits_value :: "nat \<Rightarrow> string \<Rightarrow> nat option" where
  "digits_value a [] = Some a"
| "digits_value a (c # s) =
     (if is_digit c then digits_value (10 * a + (of_char c - 48)) s else None)"

definition ParseInt :: "string \<Rightarrow> int option" where
  "ParseInt s =
     (let neg = (s \<noteq> [] \<and> hd s = CHR ''-'');
          body = (if s \<noteq> [] \<and> (hd s = CHR ''-'' \<or> hd s = CHR ''+'') then tl s else s)
      in if body = [] then None
         else case digits_value 0 body of None \<Rightarrow> None
           | Some n \<Rightarrow> (let i = (if neg then - int n else int n)
                        in if in64 i then Some i else None))"

lemma digit_0: "digit 0 = CHR ''0''"
  by code_simp

lemma of_char_digit: "d < 10 \<Longrightarrow> (of_char (digit d) :: nat) = 48 + d"
  by (simp add: digit_def)

lemma is_digit_digit [simp]: "d < 10 \<Longrightarrow> is_digit (digit d)"
  by (simp add: is_digit_def of_char_digit)

lemma digits_all: "c \<in> set (digits n) \<Longrightarrow> is_digit c"
proof (induction n arbitrary: c rule: digits.induct)
  case (1 n)
  show ?case
  proof (cases "n < 10")
    case True
    with "1.prems" show ?thesis by (simp add: digits.simps [of n])
  next
    case False
    with 1 show ?thesis by (auto simp: digits.simps [of n])
  qed
qed

lemma digits_nonempty [simp]: "digits n \<noteq> []"
  by (subst digits.simps) simp

lemma digits_value_append:
  "digits_value a (s @ t) = (case digits_value a s of None \<Rightarrow> None | Some b \<Rightarrow> digits_value b t)"
  by (induction s arbitrary: a) auto

lemma digits_value_digits: "digits_value 0 (digits n) = Some n"
proof (induction n rule: digits.induct)
  case (1 n)
  show ?case
  proof (cases "n < 10")
    case True
    then show ?thesis by (simp add: digits.simps [of n] of_char_digit)
  next
    case False
    with 1 show ?thesis
      by (simp add: digits.simps [of n] digits_value_append of_char_digit)
  qed
qed

lemma hd_digits: "is_digit (hd (digits n))"
  by (rule digits_all [of _ n]) simp

lemma not_is_digit [simp]:
  "\<not> is_digit (CHR ''-'')" "\<not> is_digit (CHR ''+'')" "\<not> is_digit (CHR ''|'')"
  "\<not> is_digit (CHR ''/'')"
  by (simp_all add: is_digit_def)

lemma hd_digits_neq: "\<not> is_digit c \<Longrightarrow> hd (digits n) \<noteq> c"
  using hd_digits [of n] by auto

text \<open>Parsing what \<open>FormatInt\<close> prints gives the number back.\<close>

lemma ParseInt_FormatInt: "in64 i \<Longrightarrow> ParseInt (FormatInt i) = Some i"
  by (auto simp: ParseInt_def FormatInt_def Let_def digits_value_digits hd_digits_neq)

lemma TrimSpace_FormatInt [simp]: "TrimSpace u (FormatInt i) = FormatInt i"
proof (rule TrimSpace_id)
  fix c assume "c \<in> set (FormatInt i)"
  then have "is_digit c \<or> c = CHR ''-''" by (auto simp: FormatInt_def dest: digits_all split: if_splits)
  then show "\<not> is_space c \<and> (of_char c :: nat) < 128" by (auto simp: is_space_def is_digit_def)
qed

lemma Sprintf_0d_chars:
  "c \<in> set (Sprintf_0d w i) \<Longrightarrow> is_digit c \<or> c = CHR ''-''"
  by (auto simp: Sprintf_0d_def Let_def is_digit_def dest: digits_all split: if_splits)

lemma Sprintf_0d_no_bar [simp]: "bar \<notin> set (Sprintf_0d w i)"
  using Sprintf_0d_chars [of bar w i] by (auto simp: bar_def)

subsection \<open>Zero padding is a fixed-width encoding that keeps the order\<close>

lemma length_fixed [simp]: "length (fixed w n) = w"
  by (induction w arbitrary: n) auto

lemma fixed_digits:
  "n < 10 ^ w \<Longrightarrow> 0 < w \<Longrightarrow> fixed w n = replicate (w - length (digits n)) (CHR ''0'') @ digits n"
proof (induction n arbitrary: w rule: digits.induct)
  case (1 n)
  show ?case
  proof (cases "n < 10")
    case True
    have "fixed w 0 = replicate w (CHR ''0'')" for w
      by (induction w) (simp_all add: digit_0 replicate_append_same [symmetric])
    with True 1 show ?thesis
      by (cases w) (auto simp: digits.simps [of n])
  next
    case False
    with "1.prems" obtain v where w: "w = Suc v" "0 < v" by (cases w; cases "w - 1") auto
    from "1.prems" w have "n div 10 < 10 ^ v" by auto
    with 1 False w show ?thesis by (simp add: digits.simps [of n])
  qed
qed

lemma length_digits: "n < 10 ^ w \<Longrightarrow> 0 < w \<Longrightarrow> length (digits n) \<le> w"
proof (induction n arbitrary: w rule: digits.induct)
  case (1 n)
  show ?case
  proof (cases "n < 10")
    case True
    with "1.prems" show ?thesis by (simp add: digits.simps [of n])
  next
    case False
    with "1.prems" obtain v where w: "w = Suc v" "0 < v" by (cases w; cases "w - 1") auto
    from "1.prems" w have "n div 10 < 10 ^ v" by auto
    with 1 False w have "length (digits (n div 10)) \<le> v" by blast
    with False w show ?thesis by (simp add: digits.simps [of n])
  qed
qed

lemma Sprintf_0d_fixed:
  "0 \<le> i \<Longrightarrow> nat i < 10 ^ w \<Longrightarrow> 0 < w \<Longrightarrow> Sprintf_0d w i = fixed w (nat i)"
  by (simp add: Sprintf_0d_def Let_def fixed_digits)

lemma digit_less: "a < 10 \<Longrightarrow> b < 10 \<Longrightarrow> digit a < digit b \<longleftrightarrow> a < b"
  by (simp add: less_char_def of_char_digit)

lemma digit_inj: "a < 10 \<Longrightarrow> b < 10 \<Longrightarrow> digit a = digit b \<longleftrightarrow> a = b"
  by (metis of_char_digit add_left_cancel)

lemma append_less_same_length:
  fixes a b :: "'a :: linorder list"
  assumes "length a = length b"
  shows "a @ x < b @ y \<longleftrightarrow> a < b \<or> a = b \<and> x < y"
  using assms by (induction a b rule: list_induct2) auto

lemma div_mod_eq_iff: "m = n \<longleftrightarrow> m div 10 = n div 10 \<and> m mod 10 = (n :: nat) mod 10"
  by (metis div_mult_mod_eq)

lemma div_mod_less_iff:
  "m < n \<longleftrightarrow> m div 10 < n div 10 \<or> m div 10 = n div 10 \<and> m mod 10 < (n :: nat) mod 10"
proof -
  have "10 * a + b < 10 * c + d \<longleftrightarrow> a < c \<or> a = c \<and> b < d" if "b < 10" "d < 10" for a b c d :: nat
    using that by arith
  from this [of "m mod 10" "n mod 10" "m div 10" "n div 10"] show ?thesis by simp
qed

lemma fixed_inj: "m < 10 ^ w \<Longrightarrow> n < 10 ^ w \<Longrightarrow> fixed w m = fixed w n \<longleftrightarrow> m = n"
proof (induction w arbitrary: m n)
  case (Suc w)
  from Suc.prems have b: "m div 10 < 10 ^ w" "n div 10 < 10 ^ w" by auto
  show ?case
    unfolding div_mod_eq_iff [of m n] fixed.simps
    by (simp add: Suc.IH [OF b] digit_inj)
qed simp

lemma fixed_less: "m < 10 ^ w \<Longrightarrow> n < 10 ^ w \<Longrightarrow> fixed w m < fixed w n \<longleftrightarrow> m < n"
proof (induction w arbitrary: m n)
  case (Suc w)
  from Suc.prems have b: "m div 10 < 10 ^ w" "n div 10 < 10 ^ w" by auto
  show ?case
    unfolding div_mod_less_iff [of m n] fixed.simps
    by (simp add: append_less_same_length digit_less fixed_inj [OF b] Suc.IH [OF b])
qed simp

section \<open>Related lists\<close>

lemma list_all2_mem1: "list_all2 P xs ys \<Longrightarrow> x \<in> set xs \<Longrightarrow> \<exists>y \<in> set ys. P x y"
  by (induction rule: list_all2_induct) auto

lemma list_all2_mem2: "list_all2 P xs ys \<Longrightarrow> y \<in> set ys \<Longrightarrow> \<exists>x \<in> set xs. P x y"
  by (induction rule: list_all2_induct) auto

section \<open>Byte-wise order and prefixes\<close>

lemma prefix_not_less:
  fixes p :: "'a :: linorder list"
  shows "prefix p k \<Longrightarrow> \<not> k < p"
proof (induction p arbitrary: k)
  case (Cons x p)
  then show ?case by (cases k) auto
qed simp

lemma prefix_convex:
  fixes p :: "'a :: linorder list"
  shows "\<not> k < p \<Longrightarrow> \<not> prefix p k \<Longrightarrow> k < k' \<Longrightarrow> \<not> prefix p k'"
proof (induction p arbitrary: k k')
  case (Cons x p)
  then show ?case
    by (cases k; cases k') (auto dest: order.strict_trans)
qed simp

text \<open>
  An iterator over sorted keys that seeks to a prefix and stops at the first key without it visits
  exactly the keys with the prefix.
\<close>

lemma takeWhile_prefix_filter:
  fixes p :: "'a :: linorder list"
  assumes "sorted_wrt (<) ks" "\<And>k. k \<in> set ks \<Longrightarrow> \<not> k < p"
  shows "takeWhile (prefix p) ks = filter (prefix p) ks"
  using assms
proof (induction ks)
  case (Cons k ks)
  show ?case
  proof (cases "prefix p k")
    case True
    with Cons show ?thesis by simp
  next
    case False
    with Cons.prems have "\<forall>k' \<in> set ks. \<not> prefix p k'"
      by (metis list.set_intros(1) prefix_convex sorted_wrt.simps(2))
    with False show ?thesis by (simp add: filter_empty_conv)
  qed
qed simp

lemma iterate_prefix:
  fixes p :: "'a :: linorder list"
  assumes "sorted_wrt (<) ks"
  shows "takeWhile (prefix p) (dropWhile (\<lambda>k. k < p) ks) = filter (prefix p) ks"
  using assms
proof (induction ks)
  case (Cons k ks)
  show ?case
  proof (cases "k < p")
    case True
    with Cons show ?thesis by (auto dest: prefix_not_less)
  next
    case False
    with Cons.prems have "\<And>k'. k' \<in> set (k # ks) \<Longrightarrow> \<not> k' < p" by auto
    with Cons.prems False show ?thesis
      by (metis dropWhile.simps(2) takeWhile_prefix_filter)
  qed
qed simp

end
