(* ===== verification/Models.thy ===== *)
theory Models
  imports Prelude Complex_Main "HOL-Library.Multiset"
begin

text \<open>
  The data of \<open>internal/models/models.go\<close> and the option, event and request types of
  \<open>internal/models/interfaces.go\<close>: each struct is a record with the source's fields in the source's
  order (a prefix tells the records apart), a pointer field is an option, a nil or empty slice is
  the empty list, and a \<open>map[string]string\<close> is an association list.  The string types of statuses
  and events stay strings, because the API lets any string in.  A finite \<open>float64\<close> is a rational;
  what rounds is a parameter of the operations that compute with one.
\<close>

named_theorems const_defs \<open>the constants of package models\<close>

type_synonym float64 = rat
type_synonym smap = "(string \<times> string) list"

section \<open>Network and request options\<close>

record Proxy =
  px_IP :: string
  px_Port :: int
  px_Type :: string
  px_Username :: string
  px_Password :: string
  px_TLSVerify :: bool
  px_Timeout :: duration
  px_Failover :: "string list"
  px_MaxConns :: int
  px_AuthType :: string

record Auth =
  au_Type :: string
  au_Username :: string
  au_Password :: string
  au_BearerToken :: string
  au_ClientCertPath :: string
  au_ClientKeyPath :: string

record TLSOptions =
  tl_InsecureSkipVerify :: bool
  tl_CACertPath :: string
  tl_ServerName :: string
  tl_MinVersion :: int
  tl_MaxVersion :: int

record RetryPolicy =
  rp_MaxRetries :: int
  rp_RetryDelay :: duration
  rp_BackoffFactor :: float64
  rp_Jitter :: duration

record DownloadConfig =
  c_MaxConnections :: int
  c_BufferSize :: int
  c_Proxy :: "Proxy option"
  c_Timeout :: duration
  c_FollowRedirects :: bool
  c_RedirectsLimit :: int
  c_AllowInsecureTLS :: bool
  c_TLS :: "TLSOptions option"
  c_Auth :: "Auth option"
  c_AcceptRanges :: bool
  c_Resume :: bool
  c_Retries :: int
  c_RetryDelay :: duration
  c_RetryJitter :: duration
  c_BackoffFactor :: float64
  c_Retry :: RetryPolicy
  c_RateLimit :: int
  c_GlobalRateLimit :: bool
  c_OnlyOnUnmetered :: bool
  c_VerifyContentType :: bool
  c_Mime :: string
  c_Headers :: smap
  c_Cookies :: smap
  c_DisableHead :: bool
  c_SegmentChecksumType :: string

record FileOptions =
  f_Path :: string
  f_Filename :: string
  f_TempDir :: string
  f_Overwrite :: bool
  f_UniqueFilename :: bool
  f_Checksum :: string
  f_ChecksumType :: string
  f_MaxFileSize :: int

record RequestExtra =
  x_Method :: string
  x_QueryParams :: smap
  x_Headers :: smap
  x_Cookies :: smap
  x_Body :: string
  x_ContentLength :: int
  x_ContentType :: string
  x_Protocol :: string
  x_FollowRedirects :: bool
  x_AllowInsecureTLS :: bool

record RequestOptions =
  r_URL :: string
  r_UserAgent :: string
  r_MirrorURLs :: "string list"
  r_Extra :: "RequestExtra option"

record ResponseMetadata =
  m_ETag :: string
  m_LastModified :: string
  m_AcceptRanges :: bool
  m_ContentType :: string
  m_ContentLength :: int

section \<open>Downloads, segments and queues\<close>

type_synonym DownloadStatus = string
type_synonym SegmentStatus = string
type_synonym DownloadEventType = string

definition DefaultQueueName :: string where [const_defs]: "DefaultQueueName = ''main''"

definition StatusPending :: DownloadStatus where [const_defs]: "StatusPending = ''pending''"
definition StatusQueued :: DownloadStatus where [const_defs]: "StatusQueued = ''queued''"
definition StatusRunning :: DownloadStatus where [const_defs]: "StatusRunning = ''running''"
definition StatusPaused :: DownloadStatus where [const_defs]: "StatusPaused = ''paused''"
definition StatusCompleted :: DownloadStatus where [const_defs]: "StatusCompleted = ''completed''"
definition StatusFailed :: DownloadStatus where [const_defs]: "StatusFailed = ''failed''"
definition StatusCancelled :: DownloadStatus where [const_defs]: "StatusCancelled = ''cancelled''"

definition SegmentPending :: SegmentStatus where [const_defs]: "SegmentPending = ''pending''"
definition SegmentRunning :: SegmentStatus where [const_defs]: "SegmentRunning = ''running''"
definition SegmentCompleted :: SegmentStatus where [const_defs]: "SegmentCompleted = ''completed''"
definition SegmentFailed :: SegmentStatus where [const_defs]: "SegmentFailed = ''failed''"

record Queue =
  q_ID :: string
  q_Name :: string
  q_Concurrency :: int
  q_RateLimit :: int
  q_Default :: bool
  q_Paused :: bool
  q_RetryPolicy :: RetryPolicy
  q_Config :: DownloadConfig
  q_CreatedAt :: gtime
  q_UpdatedAt :: gtime

record QueueStats =
  qs_QueueID :: string
  qs_NumPending :: int
  qs_NumRunning :: int
  qs_NumCompleted :: int
  qs_NumFailed :: int
  qs_BytesPerSec :: int

record Segment =
  s_ID :: string
  s_DownloadID :: string
  s_Index :: int
  s_Start :: int
  s_End :: int
  s_BytesCompleted :: int
  s_Status :: SegmentStatus
  s_Retries :: int
  s_Checksum :: string
  s_TempPath :: string
  s_CreatedAt :: gtime
  s_UpdatedAt :: gtime

record Download =
  d_ID :: string
  d_URL :: string
  d_QueueID :: string
  d_Priority :: int
  d_Tags :: "string list"
  d_Request :: "RequestOptions option"
  d_Config :: "DownloadConfig option"
  d_File :: "FileOptions option"
  d_Status :: DownloadStatus
  d_Error :: string
  d_RetriesAttempted :: int
  d_BytesTotal :: int
  d_BytesCompleted :: int
  d_Progress :: float64
  d_AvgSpeed :: int
  d_CurrentSpeed :: int
  d_Segments :: "Segment list"
  d_Response :: "ResponseMetadata option"
  d_CreatedAt :: gtime
  d_UpdatedAt :: gtime
  d_RequestedAt :: "gtime option"
  d_StartedAt :: "gtime option"
  d_CompletedAt :: "gtime option"

record EnqueueDownloadRequest =
  e_URL :: string
  e_Request :: "RequestOptions option"
  e_Config :: "DownloadConfig option"
  e_File :: "FileOptions option"
  e_QueueID :: string
  e_Priority :: int
  e_Tags :: "string list"

record EnqueueDownloadResponse =
  er_ID :: string
  er_QueueID :: string
  er_Status :: DownloadStatus

section \<open>Listing options and events\<close>

record ListDownloadsOptions =
  o_Statuses :: "DownloadStatus list"
  o_QueueIDs :: "string list"
  o_Tags :: "string list"
  o_Search :: string
  o_CreatedAfter :: "gtime option"
  o_CreatedBefore :: "gtime option"
  o_OrderBy :: string
  o_OrderDesc :: bool

definition EventEnqueued :: DownloadEventType where [const_defs]: "EventEnqueued = ''enqueued''"
definition EventStarted :: DownloadEventType where [const_defs]: "EventStarted = ''started''"
definition EventProgress :: DownloadEventType where [const_defs]: "EventProgress = ''progress''"
definition EventPaused :: DownloadEventType where [const_defs]: "EventPaused = ''paused''"
definition EventResumed :: DownloadEventType where [const_defs]: "EventResumed = ''resumed''"
definition EventCompleted :: DownloadEventType where [const_defs]: "EventCompleted = ''completed''"
definition EventFailed :: DownloadEventType where [const_defs]: "EventFailed = ''failed''"
definition EventCancelled :: DownloadEventType where [const_defs]: "EventCancelled = ''cancelled''"

text \<open>The \<open>Data\<close> of an event holds at most one entry in this program: a count, a flag or a text.\<close>

datatype event_data = NoData | BytesData int | DeletedData bool | ErrorData gerr

record DownloadEvent =
  ev_Type :: DownloadEventType
  ev_Download :: Download
  ev_Timestamp :: gtime
  ev_Data :: event_data

section \<open>Zero values, for composite literals that name some fields\<close>

definition zero_RetryPolicy :: RetryPolicy where
  "zero_RetryPolicy =
     \<lparr>rp_MaxRetries = 0, rp_RetryDelay = 0, rp_BackoffFactor = 0, rp_Jitter = 0\<rparr>"

definition zero_DownloadConfig :: DownloadConfig where
  "zero_DownloadConfig =
     \<lparr>c_MaxConnections = 0, c_BufferSize = 0, c_Proxy = None, c_Timeout = 0,
      c_FollowRedirects = False, c_RedirectsLimit = 0, c_AllowInsecureTLS = False, c_TLS = None,
      c_Auth = None, c_AcceptRanges = False, c_Resume = False, c_Retries = 0, c_RetryDelay = 0,
      c_RetryJitter = 0, c_BackoffFactor = 0, c_Retry = zero_RetryPolicy, c_RateLimit = 0,
      c_GlobalRateLimit = False, c_OnlyOnUnmetered = False, c_VerifyContentType = False,
      c_Mime = [], c_Headers = [], c_Cookies = [], c_DisableHead = False,
      c_SegmentChecksumType = []\<rparr>"

definition zero_FileOptions :: FileOptions where
  "zero_FileOptions =
     \<lparr>f_Path = [], f_Filename = [], f_TempDir = [], f_Overwrite = False, f_UniqueFilename = False,
      f_Checksum = [], f_ChecksumType = [], f_MaxFileSize = 0\<rparr>"

definition zero_RequestOptions :: RequestOptions where
  "zero_RequestOptions = \<lparr>r_URL = [], r_UserAgent = [], r_MirrorURLs = [], r_Extra = None\<rparr>"

definition zero_Queue :: Queue where
  "zero_Queue =
     \<lparr>q_ID = [], q_Name = [], q_Concurrency = 0, q_RateLimit = 0, q_Default = False,
      q_Paused = False, q_RetryPolicy = zero_RetryPolicy, q_Config = zero_DownloadConfig,
      q_CreatedAt = zero_time, q_UpdatedAt = zero_time\<rparr>"

definition zero_Segment :: Segment where
  "zero_Segment =
     \<lparr>s_ID = [], s_DownloadID = [], s_Index = 0, s_Start = 0, s_End = 0, s_BytesCompleted = 0,
      s_Status = [], s_Retries = 0, s_Checksum = [], s_TempPath = [], s_CreatedAt = zero_time,
      s_UpdatedAt = zero_time\<rparr>"

definition zero_Download :: Download where
  "zero_Download =
     \<lparr>d_ID = [], d_URL = [], d_QueueID = [], d_Priority = 0, d_Tags = [], d_Request = None,
      d_Config = None, d_File = None, d_Status = [], d_Error = [], d_RetriesAttempted = 0,
      d_BytesTotal = 0, d_BytesCompleted = 0, d_Progress = 0, d_AvgSpeed = 0, d_CurrentSpeed = 0,
      d_Segments = [], d_Response = None, d_CreatedAt = zero_time, d_UpdatedAt = zero_time,
      d_RequestedAt = None, d_StartedAt = None, d_CompletedAt = None\<rparr>"

definition zero_Options :: ListDownloadsOptions where
  "zero_Options =
     \<lparr>o_Statuses = [], o_QueueIDs = [], o_Tags = [], o_Search = [], o_CreatedAfter = None,
      o_CreatedBefore = None, o_OrderBy = [], o_OrderDesc = False\<rparr>"

lemmas zero_defs = zero_RetryPolicy_def zero_DownloadConfig_def zero_FileOptions_def
  zero_RequestOptions_def zero_Queue_def zero_Segment_def zero_Download_def zero_Options_def

lemma zero_Download_sel [simp]:
  "d_ID zero_Download = []" "d_CreatedAt zero_Download = zero_time" "d_Tags zero_Download = []"
  "d_Status zero_Download = []" "d_QueueID zero_Download = []" "d_Config zero_Download = None"
  "d_File zero_Download = None" "d_Request zero_Download = None"
  by (simp_all add: zero_Download_def)

section \<open>Library functions that stay parameters\<close>

text \<open>
  The Unicode case tables behind \<open>strings.ToLower\<close> and \<open>strings.EqualFold\<close> (used only for strings
  that are not ASCII), and \<open>sort.Slice\<close> on downloads.  \<open>sort.Slice\<close> is not stable, so it is a
  parameter with its documented contract: for a strict weak order it returns a permutation in which
  no element is less than an earlier one.
\<close>

record stdlib =
  lib_lower :: "string \<Rightarrow> string"
  lib_fold :: "string \<Rightarrow> string \<Rightarrow> bool"
  lib_sort :: "(Download \<Rightarrow> Download \<Rightarrow> bool) \<Rightarrow> Download list \<Rightarrow> Download list"

definition strict_weak :: "('a \<Rightarrow> 'a \<Rightarrow> bool) \<Rightarrow> bool" where
  "strict_weak lt \<longleftrightarrow>
     (\<forall>x. \<not> lt x x) \<and> (\<forall>x y z. lt x y \<longrightarrow> lt y z \<longrightarrow> lt x z) \<and>
     (\<forall>x y z. lt x z \<longrightarrow> lt x y \<or> lt y z)"

definition sort_contract :: "stdlib \<Rightarrow> bool" where
  "sort_contract L \<longleftrightarrow>
     (\<forall>lt xs. strict_weak lt \<longrightarrow>
        mset (lib_sort L lt xs) = mset xs \<and>
        sorted_wrt (\<lambda>x y. \<not> lt y x) (lib_sort L lt xs))"

text \<open>An instance: insertion sort, and case tables that change nothing.\<close>

fun insert_less :: "('a \<Rightarrow> 'a \<Rightarrow> bool) \<Rightarrow> 'a \<Rightarrow> 'a list \<Rightarrow> 'a list" where
  "insert_less lt x [] = [x]"
| "insert_less lt x (y # ys) = (if lt y x then y # insert_less lt x ys else x # y # ys)"

definition insertion_sort :: "('a \<Rightarrow> 'a \<Rightarrow> bool) \<Rightarrow> 'a list \<Rightarrow> 'a list" where
  "insertion_sort lt xs = foldr (insert_less lt) xs []"

definition basic_lib :: stdlib where
  "basic_lib = \<lparr>lib_lower = (\<lambda>s. s), lib_fold = (=), lib_sort = insertion_sort\<rparr>"

lemma mset_insert_less: "mset (insert_less lt x ys) = add_mset x (mset ys)"
  by (induction ys) auto

lemma strict_weak_asym: "strict_weak lt \<Longrightarrow> lt x y \<Longrightarrow> \<not> lt y x"
  unfolding strict_weak_def by blast

lemma strict_weak_neg_trans:
  "strict_weak lt \<Longrightarrow> \<not> lt x y \<Longrightarrow> \<not> lt y z \<Longrightarrow> \<not> lt x z"
  unfolding strict_weak_def by blast

lemma set_insert_less: "set (insert_less lt x ys) = insert x (set ys)"
  by (induction ys) auto

lemma insert_less_sorted:
  assumes "strict_weak lt"
  shows "sorted_wrt (\<lambda>x y. \<not> lt y x) ys \<Longrightarrow> sorted_wrt (\<lambda>x y. \<not> lt y x) (insert_less lt x ys)"
proof (induction ys)
  case (Cons y ys)
  then have ys: "\<forall>z \<in> set ys. \<not> lt z y" "sorted_wrt (\<lambda>x y. \<not> lt y x) ys" by simp_all
  show ?case
  proof (cases "lt y x")
    case True
    with Cons.IH [OF ys(2)] ys(1) show ?thesis
      by (simp add: set_insert_less strict_weak_asym [OF assms])
  next
    case False
    then have "\<forall>z \<in> set ys. \<not> lt z x"
      using ys(1) strict_weak_neg_trans [OF assms] by blast
    with False ys show ?thesis by simp
  qed
qed simp

lemma basic_lib_sort_contract: "sort_contract basic_lib"
proof -
  have "mset (insertion_sort lt xs) = mset xs" for lt and xs :: "Download list"
    by (induction xs) (simp_all add: insertion_sort_def mset_insert_less)
  moreover have "sorted_wrt (\<lambda>x y. \<not> lt y x) (insertion_sort lt xs)"
    if "strict_weak lt" for lt and xs :: "Download list"
    by (induction xs) (simp_all add: insertion_sort_def insert_less_sorted [OF that])
  ultimately show ?thesis by (simp add: sort_contract_def basic_lib_def)
qed

end
