(* ===== verification/Badger.thy ===== *)
theory Badger
  imports Models
begin

text \<open>
  The boundary to BadgerDB (\<open>github.com/dgraph-io/badger/v4\<close>, not under \<open>src/\<close>): the record
  \<open>badger\<close> holds the operations the repository calls as parameters of the model, and \<open>badger_laws\<close>
  and \<open>badger_quiet\<close> name what Badger documents of them.  A transaction is its snapshot and the
  writes issued in it so far.  A stored value is what \<open>json.Marshal\<close> was given: encoding and
  decoding a struct gives it back (its strings are UTF-8, its floats finite and its years four
  digits long, as everything that reaches the store through the JSON API is).
\<close>

section \<open>Keys, values and writes\<close>

type_synonym key = string

datatype dbval = DownloadJ Download | QueueJ Queue | SegmentJ Segment | StatsJ QueueStats | NilV

type_synonym store = "key \<rightharpoonup> dbval"

datatype wr = WSet key dbval | WDel key

fun apply_write :: "store \<Rightarrow> wr \<Rightarrow> store" where
  "apply_write m (WSet k v) = m(k \<mapsto> v)"
| "apply_write m (WDel k) = m(k := None)"

definition apply_writes :: "wr list \<Rightarrow> store \<Rightarrow> store" where
  "apply_writes ws m = foldl apply_write m ws"

lemma apply_writes_simps [simp]:
  "apply_writes [] m = m"
  "apply_writes (w # ws) m = apply_writes ws (apply_write m w)"
  "apply_writes (ws @ vs) m = apply_writes vs (apply_writes ws m)"
  by (simp_all add: apply_writes_def)

lemma apply_sets: "apply_writes (map (\<lambda>k. WSet k v) ks) m k = (if k \<in> set ks then Some v else m k)"
  by (induction ks arbitrary: m) auto

lemma apply_dels: "apply_writes (map WDel ks) m k = (if k \<in> set ks then None else m k)"
  by (induction ks arbitrary: m) auto

datatype wbcall = Write wr | Flush

section \<open>The operations of Badger\<close>

text \<open>
  \<open>bdata\<close>: what the database holds.  \<open>bbegin\<close>: the error of opening a transaction.  \<open>bget\<close>,
  \<open>bput\<close>, \<open>bkeys\<close>: \<open>txn.Get\<close>, the error of \<open>txn.Set\<close> or \<open>txn.Delete\<close>, and the keys an iterator
  walks, in a transaction given by its snapshot and its writes.  \<open>bcommit\<close>: the commit of such a
  transaction against the current database.  \<open>bbatch\<close>: the error of a call on a \<open>WriteBatch\<close> after
  the given earlier calls, and \<open>bbatch_db\<close> the database once the batch is released.
\<close>

record 's badger =
  bdata :: "'s \<Rightarrow> store"
  bbegin :: "'s \<Rightarrow> gerr option"
  bget :: "'s \<Rightarrow> wr list \<Rightarrow> key \<Rightarrow> dbval res"
  bput :: "'s \<Rightarrow> wr list \<Rightarrow> wr \<Rightarrow> gerr option"
  bkeys :: "'s \<Rightarrow> wr list \<Rightarrow> key list"
  bcommit :: "'s \<Rightarrow> wr list \<Rightarrow> 's \<Rightarrow> 's res"
  bbatch :: "'s \<Rightarrow> wbcall list \<Rightarrow> wbcall \<Rightarrow> gerr option"
  bbatch_db :: "'s \<Rightarrow> wbcall list \<Rightarrow> 's"

text \<open>What a transaction reads: the snapshot under its own writes.\<close>

definition txview :: "'s badger \<Rightarrow> 's \<Rightarrow> wr list \<Rightarrow> store" where
  "txview B s tx = apply_writes tx (bdata B s)"

fun batch_accepts :: "'s badger \<Rightarrow> 's \<Rightarrow> wbcall list \<Rightarrow> wbcall list \<Rightarrow> bool" where
  "batch_accepts B s hist [] = True"
| "batch_accepts B s hist (c # cs) = (bbatch B s hist c = None \<and> batch_accepts B s (hist @ [c]) cs)"

text \<open>
  The laws: \<open>Get\<close> reads the transaction's view and reports a missing key as \<open>ErrKeyNotFound\<close>; the
  iterator walks the keys of the view in strictly increasing byte order; a commit that succeeds
  applies the transaction's writes; a batch of accepted writes closed by one accepted \<open>Flush\<close>
  applies them in order.
\<close>

definition badger_laws :: "'s badger \<Rightarrow> bool" where
  "badger_laws B \<longleftrightarrow>
     (\<forall>s tx k v. bget B s tx k = Inr v \<longrightarrow> txview B s tx k = Some v) \<and>
     (\<forall>s tx k. bget B s tx k = Inl ErrKeyNotFound \<longrightarrow> txview B s tx k = None) \<and>
     (\<forall>s tx. sorted_wrt (<) (bkeys B s tx) \<and> set (bkeys B s tx) = dom (txview B s tx)) \<and>
     (\<forall>s tx cur s'. bcommit B s tx cur = Inr s' \<longrightarrow> bdata B s' = apply_writes tx (bdata B cur)) \<and>
     (\<forall>s ws. batch_accepts B s [] (map Write ws @ [Flush]) \<longrightarrow>
        bdata B (bbatch_db B s (map Write ws @ [Flush])) = apply_writes ws (bdata B s))"

text \<open>A database without faults: no I/O error, conflict or size limit is met.\<close>

definition badger_quiet :: "'s badger \<Rightarrow> bool" where
  "badger_quiet B \<longleftrightarrow>
     (\<forall>s. bbegin B s = None) \<and>
     (\<forall>s tx k e. bget B s tx k = Inl e \<longrightarrow> e = ErrKeyNotFound) \<and>
     (\<forall>s tx w. bput B s tx w = None) \<and>
     (\<forall>s tx cur. \<exists>s'. bcommit B s tx cur = Inr s') \<and>
     (\<forall>s ws c. bbatch B s (map Write ws) c = None)"

lemma badger_get: "badger_laws B \<Longrightarrow> bget B s tx k = Inr v \<Longrightarrow> txview B s tx k = Some v"
  by (simp add: badger_laws_def)

lemma badger_get_missing:
  "badger_laws B \<Longrightarrow> bget B s tx k = Inl ErrKeyNotFound \<Longrightarrow> txview B s tx k = None"
  by (simp add: badger_laws_def)

lemma badger_keys_sorted: "badger_laws B \<Longrightarrow> sorted_wrt (<) (bkeys B s tx)"
  by (simp add: badger_laws_def)

lemma badger_keys_set: "badger_laws B \<Longrightarrow> set (bkeys B s tx) = dom (txview B s tx)"
  by (simp add: badger_laws_def)

lemma badger_commit:
  "badger_laws B \<Longrightarrow> bcommit B s tx cur = Inr s' \<Longrightarrow> bdata B s' = apply_writes tx (bdata B cur)"
  by (simp add: badger_laws_def)

lemma badger_batch:
  "badger_laws B \<Longrightarrow> batch_accepts B s [] (map Write ws @ [Flush]) \<Longrightarrow>
     bdata B (bbatch_db B s (map Write ws @ [Flush])) = apply_writes ws (bdata B s)"
  by (simp add: badger_laws_def)

lemma quiet_get:
  assumes "badger_laws B" "badger_quiet B"
  shows "bget B s tx k =
    (case txview B s tx k of None \<Rightarrow> Inl ErrKeyNotFound | Some v \<Rightarrow> Inr v)"
proof (cases "bget B s tx k")
  case (Inl e)
  with assms(2) have "e = ErrKeyNotFound" by (simp add: badger_quiet_def)
  with Inl badger_get_missing [OF assms(1)] show ?thesis by auto
next
  case (Inr v)
  with badger_get [OF assms(1)] show ?thesis by auto
qed

lemma quiet_put: "badger_quiet B \<Longrightarrow> bput B s tx w = None"
  by (simp add: badger_quiet_def)

lemma quiet_begin: "badger_quiet B \<Longrightarrow> bbegin B s = None"
  by (simp add: badger_quiet_def)

lemma quiet_commit: "badger_quiet B \<Longrightarrow> \<exists>s'. bcommit B s tx cur = Inr s'"
  by (simp add: badger_quiet_def)

lemma quiet_batch: "badger_quiet B \<Longrightarrow> bbatch B s (map Write ws) c = None"
  by (simp add: badger_quiet_def)

lemma quiet_batch_accepts:
  assumes "badger_quiet B"
  shows "batch_accepts B s (map Write ws) (map Write vs @ [Flush])"
proof (induction vs arbitrary: ws)
  case Nil
  with assms show ?case by (simp add: quiet_batch)
next
  case (Cons v vs)
  from Cons [of "ws @ [v]"] assms show ?case by (simp add: quiet_batch)
qed

section \<open>Transactions and iterators as the repository uses them\<close>

definition txn_write :: "'s badger \<Rightarrow> 's \<Rightarrow> wr list \<Rightarrow> wr \<Rightarrow> wr list res" where
  "txn_write B s tx w = (case bput B s tx w of None \<Rightarrow> Inr (tx @ [w]) | Some e \<Rightarrow> Inl e)"

text \<open>\<open>_ = txn.Delete(k)\<close>: the error is dropped, and a refused write is not part of the transaction.\<close>

definition txn_try :: "'s badger \<Rightarrow> 's \<Rightarrow> wr list \<Rightarrow> wr \<Rightarrow> wr list" where
  "txn_try B s tx w = (case bput B s tx w of None \<Rightarrow> tx @ [w] | Some e \<Rightarrow> tx)"

definition iter_forward :: "'s badger \<Rightarrow> 's \<Rightarrow> wr list \<Rightarrow> key \<Rightarrow> key list" where
  "iter_forward B s tx p = takeWhile (prefix p) (dropWhile (\<lambda>k. k < p) (bkeys B s tx))"

definition iter_reverse :: "'s badger \<Rightarrow> 's \<Rightarrow> wr list \<Rightarrow> key \<Rightarrow> key list" where
  "iter_reverse B s tx p =
     takeWhile (prefix p) (dropWhile (\<lambda>k. p @ [CHR 0xFF] < k) (rev (bkeys B s tx)))"

text \<open>\<open>db.Update(fn)\<close> and \<open>db.View(fn)\<close>: an error of \<open>fn\<close> discards the transaction.\<close>

definition db_update ::
    "'s badger \<Rightarrow> 's \<Rightarrow> (wr list \<Rightarrow> ('a \<times> wr list) res) \<Rightarrow> 'a res \<times> 's" where
  "db_update B s f =
     (case bbegin B s of Some e \<Rightarrow> (Inl e, s)
      | None \<Rightarrow> (case f [] of Inl e \<Rightarrow> (Inl e, s)
        | Inr (a, tx) \<Rightarrow> (case bcommit B s tx s of Inl e \<Rightarrow> (Inl e, s)
          | Inr s' \<Rightarrow> (Inr a, s'))))"

definition db_view :: "'s badger \<Rightarrow> 's \<Rightarrow> 'a res \<Rightarrow> 'a res" where
  "db_view B s r = (case bbegin B s of Some e \<Rightarrow> Inl e | None \<Rightarrow> r)"

text \<open>\<open>db.Update\<close> is atomic: an error of the function or of the commit leaves the database alone.\<close>

lemma db_update_error: "db_update B s f = (Inl e, s') \<Longrightarrow> s' = s"
  by (auto simp: db_update_def split: option.splits sum.splits prod.splits)

lemma db_update_ok:
  assumes "badger_laws B" "db_update B s f = (Inr a, s')"
  obtains tx where "f [] = Inr (a, tx)" "bdata B s' = apply_writes tx (bdata B s)"
  using assms badger_commit [OF assms(1)]
  by (auto simp: db_update_def split: option.splits sum.splits prod.splits)

lemma db_update_quiet:
  assumes "badger_laws B" "badger_quiet B" "f [] = Inr (a, tx)"
  shows "\<exists>s'. db_update B s f = (Inr a, s') \<and> bdata B s' = apply_writes tx (bdata B s)"
proof -
  from quiet_commit [OF assms(2)] obtain s' where c: "bcommit B s tx s = Inr s'" by blast
  with assms have "db_update B s f = (Inr a, s')"
    by (simp add: db_update_def quiet_begin)
  with badger_commit [OF assms(1) c] show ?thesis by blast
qed

text \<open>
  \<open>r.update\<close> and \<open>r.view\<close> of the repository: \<open>ctx.Err()\<close> is checked before the transaction is
  opened and again inside it.
\<close>

definition repo_update ::
    "'s badger \<Rightarrow> gctx \<Rightarrow> 's \<Rightarrow> (wr list \<Rightarrow> ('a \<times> wr list) res) \<Rightarrow> 'a res \<times> 's" where
  "repo_update B cx s f =
     (case cx 0 of Some e \<Rightarrow> (Inl e, s)
      | None \<Rightarrow> db_update B s (\<lambda>tx. case cx 1 of Some e \<Rightarrow> Inl e | None \<Rightarrow> f tx))"

definition repo_view :: "'s badger \<Rightarrow> gctx \<Rightarrow> 's \<Rightarrow> 'a res \<Rightarrow> 'a res" where
  "repo_view B cx s r =
     (case cx 0 of Some e \<Rightarrow> Inl e
      | None \<Rightarrow> db_view B s (case cx 1 of Some e \<Rightarrow> Inl e | None \<Rightarrow> r))"

lemma repo_update_error: "repo_update B cx s f = (Inl e, s') \<Longrightarrow> s' = s"
  by (auto simp: repo_update_def dest: db_update_error split: option.splits)

lemma repo_update_ok:
  assumes "badger_laws B" "repo_update B cx s f = (Inr a, s')"
  obtains tx where "f [] = Inr (a, tx)" "bdata B s' = apply_writes tx (bdata B s)"
  using assms by (auto simp: repo_update_def elim!: db_update_ok split: option.splits)

lemma repo_update_quiet:
  assumes "badger_laws B" "badger_quiet B" "cx 0 = None" "cx 1 = None" "f [] = Inr (a, tx)"
  shows "\<exists>s'. repo_update B cx s f = (Inr a, s') \<and> bdata B s' = apply_writes tx (bdata B s)"
  using db_update_quiet [OF assms(1,2), of "\<lambda>tx. case cx 1 of Some e \<Rightarrow> Inl e | None \<Rightarrow> f tx"] assms
  by (simp add: repo_update_def)

lemma repo_view_Inr: "repo_view B cx s r = Inr a \<Longrightarrow> r = Inr a"
  by (auto simp: repo_view_def db_view_def split: option.splits)

lemma repo_view_quiet:
  "badger_quiet B \<Longrightarrow> cx 0 = None \<Longrightarrow> cx 1 = None \<Longrightarrow> repo_view B cx s r = r"
  by (simp add: repo_view_def db_view_def quiet_begin)

lemma iter_forward_filter:
  assumes "badger_laws B"
  shows "iter_forward B s tx p = filter (prefix p) (bkeys B s tx)"
  using iterate_prefix [OF badger_keys_sorted [OF assms]] by (simp add: iter_forward_def)

section \<open>A reference database\<close>

text \<open>
  An association list that follows the laws: it shows that the hypotheses of the theorems can hold,
  and the witnesses run the repository on it.
\<close>

type_synonym mem = "(key \<times> dbval) list"

fun mem_write :: "mem \<Rightarrow> wr \<Rightarrow> mem" where
  "mem_write s (WSet k v) = (k, v) # s"
| "mem_write s (WDel k) = filter (\<lambda>p. fst p \<noteq> k) s"

definition mem_replay :: "mem \<Rightarrow> wr list \<Rightarrow> mem" where
  "mem_replay s tx = foldl mem_write s tx"

definition mem_batch_writes :: "wbcall list \<Rightarrow> wr list" where
  "mem_batch_writes hist = concat (map (\<lambda>c. case c of Write w \<Rightarrow> [w] | Flush \<Rightarrow> []) hist)"

definition mem_badger :: "mem badger" where
  "mem_badger =
     \<lparr>bdata = map_of,
      bbegin = (\<lambda>s. None),
      bget = (\<lambda>s tx k. case map_of (mem_replay s tx) k of
                None \<Rightarrow> Inl ErrKeyNotFound | Some v \<Rightarrow> Inr v),
      bput = (\<lambda>s tx w. None),
      bkeys = (\<lambda>s tx. sort (remdups (map fst (mem_replay s tx)))),
      bcommit = (\<lambda>s tx cur. Inr (mem_replay cur tx)),
      bbatch = (\<lambda>s hist c. if Flush \<in> set hist then Some (ErrOther ''finished'') else None),
      bbatch_db = (\<lambda>s hist. if Flush \<in> set hist then mem_replay s (mem_batch_writes hist) else s)\<rparr>"

lemma mem_badger_sel [simp]:
  "bdata mem_badger = map_of"
  "bbegin mem_badger s = None"
  "bget mem_badger s tx k =
     (case map_of (mem_replay s tx) k of None \<Rightarrow> Inl ErrKeyNotFound | Some v \<Rightarrow> Inr v)"
  "bput mem_badger s tx w = None"
  "bkeys mem_badger s tx = sort (remdups (map fst (mem_replay s tx)))"
  "bcommit mem_badger s tx cur = Inr (mem_replay cur tx)"
  "bbatch mem_badger s hist c = (if Flush \<in> set hist then Some (ErrOther ''finished'') else None)"
  "bbatch_db mem_badger s hist =
     (if Flush \<in> set hist then mem_replay s (mem_batch_writes hist) else s)"
  by (simp_all add: mem_badger_def)

lemma map_of_filter_neq: "map_of (filter (\<lambda>p. fst p \<noteq> k) s) = (map_of s)(k := None)"
  by (induction s) (auto simp: fun_eq_iff)

lemma map_of_mem_replay: "map_of (mem_replay s tx) = apply_writes tx (map_of s)"
proof (induction tx arbitrary: s)
  case (Cons w tx)
  have "map_of (mem_write s w) = apply_write (map_of s) w"
    by (cases w) (simp_all add: map_of_filter_neq)
  with Cons show ?case by (simp add: mem_replay_def)
qed (simp add: mem_replay_def)

lemma mem_batch_writes_Write [simp]: "mem_batch_writes (map Write ws @ [Flush]) = ws"
  by (induction ws) (simp_all add: mem_batch_writes_def)

lemma mem_badger_laws: "badger_laws mem_badger"
  unfolding badger_laws_def txview_def
  by (auto simp: map_of_mem_replay dom_map_of_conv_image_fst [symmetric] strict_sorted_iff
      split: option.splits)

lemma mem_badger_quiet: "badger_quiet mem_badger"
  by (auto simp: badger_quiet_def split: option.splits)

end
