(* ===== verification/Keys.thy ===== *)
theory Keys
  imports Badger
begin

text \<open>
  The key space of \<open>internal/repository/repository.go\<close> (lines 37 to 78) and the index entries of a
  download.  The index prefixes already end in \<open>|\<close>, and \<open>bytes.Join\<close> adds another one, so an index
  key reads \<open>dq||<queue>|<time>|<id>\<close>.  The lemmas show that the families of keys are disjoint and
  that the last part of an index key is the download's id.
\<close>

section \<open>Key construction\<close>

definition pDownload :: key where "pDownload = ''d|''"
definition pDownloadByCreatedAt :: key where "pDownloadByCreatedAt = ''dca|''"
definition pDownloadByStatus :: key where "pDownloadByStatus = ''dst|''"
definition pDownloadByQueue :: key where "pDownloadByQueue = ''dq|''"
definition pDownloadByTag :: key where "pDownloadByTag = ''dt|''"
definition pQueue :: key where "pQueue = ''q|''"
definition pQueueStats :: key where "pQueueStats = ''qs|''"
definition pSegment :: key where "pSegment = ''s|''"

lemmas prefix_defs = pDownload_def pDownloadByCreatedAt_def pDownloadByStatus_def
  pDownloadByQueue_def pDownloadByTag_def pQueue_def pQueueStats_def pSegment_def

definition UnixNano :: "gtime \<Rightarrow> int" where
  "UnixNano t = wrap64 t"

text \<open>\<open>now\<close> is the clock reading taken when the instant is the zero value.\<close>

definition timeToKey :: "gtime \<Rightarrow> gtime \<Rightarrow> string" where
  "timeToKey now t = (let t' = (if IsZero t then now else t) in Sprintf_0d 20 (UnixNano t'))"

definition kDownload :: "string \<Rightarrow> key" where "kDownload did = pDownload @ did"

definition kDownloadByCreatedAt :: "gtime \<Rightarrow> gtime \<Rightarrow> string \<Rightarrow> key" where
  "kDownloadByCreatedAt now t did = join_with bar [pDownloadByCreatedAt, timeToKey now t, did]"

definition kDownloadByStatus :: "gtime \<Rightarrow> DownloadStatus \<Rightarrow> gtime \<Rightarrow> string \<Rightarrow> key" where
  "kDownloadByStatus now status t did =
     join_with bar [pDownloadByStatus, status, timeToKey now t, did]"

definition kDownloadByQueue :: "gtime \<Rightarrow> string \<Rightarrow> gtime \<Rightarrow> string \<Rightarrow> key" where
  "kDownloadByQueue now queueID t did =
     join_with bar [pDownloadByQueue, queueID, timeToKey now t, did]"

definition kDownloadByTag :: "gtime \<Rightarrow> string \<Rightarrow> gtime \<Rightarrow> string \<Rightarrow> key" where
  "kDownloadByTag now tag t did = join_with bar [pDownloadByTag, tag, timeToKey now t, did]"

definition kQueue :: "string \<Rightarrow> key" where "kQueue did = pQueue @ did"
definition kQueueStats :: "string \<Rightarrow> key" where "kQueueStats did = pQueueStats @ did"

definition kSegment :: "string \<Rightarrow> int \<Rightarrow> key" where
  "kSegment downloadID index = join_with bar [pSegment, downloadID, Sprintf_0d 9 index]"

text \<open>The prefix under which a download's segments are listed and deleted.\<close>

definition segment_prefix :: "string \<Rightarrow> key" where
  "segment_prefix downloadID = join_with bar [pSegment, downloadID]"

text \<open>The prefix under which the bulk operations walk a queue: it does not end in the separator.\<close>

definition queue_prefix :: "string \<Rightarrow> key" where
  "queue_prefix queueID = join_with bar [pDownloadByQueue, queueID]"

text \<open>\<open>parts := bytes.Split(key, "|"); parts[len(parts)-1]\<close>.\<close>

definition key_id :: "key \<Rightarrow> string" where
  "key_id k = last (split_on bar k)"

section \<open>Shape of the keys\<close>

lemma prefix_join_unfold:
  "kDownload did = ''d|'' @ did"
  "kDownloadByCreatedAt now t did = ''dca||'' @ timeToKey now t @ bar # did"
  "kDownloadByStatus now st t did = ''dst||'' @ st @ bar # timeToKey now t @ bar # did"
  "kDownloadByQueue now q t did = ''dq||'' @ q @ bar # timeToKey now t @ bar # did"
  "kDownloadByTag now tag t did = ''dt||'' @ tag @ bar # timeToKey now t @ bar # did"
  "kQueue did = ''q|'' @ did"
  "kQueueStats did = ''qs|'' @ did"
  "kSegment did n = ''s||'' @ did @ bar # Sprintf_0d 9 n"
  "segment_prefix did = ''s||'' @ did"
  "queue_prefix q = ''dq||'' @ q"
  by (simp_all add: kDownload_def kDownloadByCreatedAt_def kDownloadByStatus_def
      kDownloadByQueue_def kDownloadByTag_def kQueue_def kQueueStats_def kSegment_def
      segment_prefix_def queue_prefix_def prefix_defs bar_def)

text \<open>The family of a key, read off its first bytes.\<close>

datatype family = FDownload | FCreated | FStatus | FQueueIx | FTag | FQueue | FStats | FSegment | FOther

fun key_family :: "key \<Rightarrow> family" where
  "key_family k =
     (if prefix ''d|'' k then FDownload
      else if prefix ''dca|'' k then FCreated
      else if prefix ''dst|'' k then FStatus
      else if prefix ''dq|'' k then FQueueIx
      else if prefix ''dt|'' k then FTag
      else if prefix ''q|'' k then FQueue
      else if prefix ''qs|'' k then FStats
      else if prefix ''s|'' k then FSegment
      else FOther)"

declare key_family.simps [simp del]

lemma key_family_simps [simp]:
  "key_family (kDownload did) = FDownload"
  "key_family (kDownloadByCreatedAt now t did) = FCreated"
  "key_family (kDownloadByStatus now st t did) = FStatus"
  "key_family (kDownloadByQueue now q t did) = FQueueIx"
  "key_family (kDownloadByTag now tag t did) = FTag"
  "key_family (kQueue did) = FQueue"
  "key_family (kQueueStats did) = FStats"
  "key_family (kSegment did n) = FSegment"
  by (simp_all add: key_family.simps prefix_join_unfold)

definition is_index :: "key \<Rightarrow> bool" where
  "is_index k \<longleftrightarrow> key_family k \<in> {FCreated, FStatus, FQueueIx, FTag}"

lemma is_index_simps [simp]:
  "\<not> is_index (kDownload did)" "\<not> is_index (kQueue did)" "\<not> is_index (kQueueStats did)"
  "\<not> is_index (kSegment did n)"
  "is_index (kDownloadByCreatedAt now t did)" "is_index (kDownloadByStatus now st t did)"
  "is_index (kDownloadByQueue now q t did)" "is_index (kDownloadByTag now tag t did)"
  by (simp_all add: is_index_def)

lemma kDownload_inj [simp]: "kDownload a = kDownload b \<longleftrightarrow> a = b"
  by (simp add: kDownload_def)
lemma kQueue_inj [simp]: "kQueue a = kQueue b \<longleftrightarrow> a = b"
  by (simp add: kQueue_def)
lemma kQueueStats_inj [simp]: "kQueueStats a = kQueueStats b \<longleftrightarrow> a = b"
  by (simp add: kQueueStats_def)

lemma family_FDownload: "key_family k = FDownload \<longleftrightarrow> (\<exists>did. k = kDownload did)"
  by (auto simp: key_family.simps prefix_join_unfold prefix_def split: if_splits)

lemma neq_by_family: "key_family a \<noteq> key_family b \<Longrightarrow> a \<noteq> b"
  by auto

lemma segment_prefix_family: "prefix (segment_prefix did) k \<Longrightarrow> key_family k = FSegment"
  by (auto simp: prefix_join_unfold key_family.simps prefix_def)

lemma queue_prefix_family: "prefix (queue_prefix q) k \<Longrightarrow> key_family k = FQueueIx"
  by (auto simp: prefix_join_unfold key_family.simps prefix_def)

lemma timeToKey_no_bar [simp]: "bar \<notin> set (timeToKey now t)"
  by (simp add: timeToKey_def Let_def)

lemma timeToKey_nonzero: "\<not> IsZero t \<Longrightarrow> timeToKey now t = timeToKey now' t"
  by (simp add: timeToKey_def)

text \<open>The last part of an index key is the id, as long as the id has no separator in it.\<close>

lemma key_id_last: "bar \<notin> set did \<Longrightarrow> key_id (p @ bar # did) = did"
  by (simp add: key_id_def last_split_on)

lemma key_id_simps:
  assumes "bar \<notin> set did"
  shows "key_id (kDownloadByCreatedAt now t did) = did"
    "key_id (kDownloadByStatus now st t did) = did"
    "key_id (kDownloadByQueue now q t did) = did"
    "key_id (kDownloadByTag now tag t did) = did"
  using key_id_last [OF assms, of "''dca||'' @ timeToKey now t"]
    key_id_last [OF assms, of "''dst||'' @ st @ bar # timeToKey now t"]
    key_id_last [OF assms, of "''dq||'' @ q @ bar # timeToKey now t"]
    key_id_last [OF assms, of "''dt||'' @ tag @ bar # timeToKey now t"]
  by (simp_all add: prefix_join_unfold)

text \<open>
  The created-at index is chronological: for instants from 1970 on that \<open>UnixNano\<close> represents, the
  byte order of the keys is the order of the instants.
\<close>

lemma timeToKey_fixed:
  assumes "0 \<le> t" "in64 t" shows "timeToKey now t = fixed 20 (nat t)"
proof -
  have "\<not> IsZero t" using assms by (auto simp: IsZero_def zero_time_def)
  moreover have "nat t < 10 ^ 20" using assms by (simp add: in64_def)
  ultimately show ?thesis
    using assms by (simp add: timeToKey_def UnixNano_def Sprintf_0d_fixed)
qed

lemma timeToKey_less:
  assumes "0 \<le> t" "in64 t" "0 \<le> u" "in64 u"
  shows "timeToKey n t < timeToKey m u \<longleftrightarrow> t < u"
  using assms by (simp add: timeToKey_fixed fixed_less in64_def) linarith

lemma timeToKey_inj:
  assumes "0 \<le> t" "in64 t" "0 \<le> u" "in64 u"
  shows "timeToKey n t = timeToKey m u \<longleftrightarrow> t = u"
  using assms by (simp add: timeToKey_fixed fixed_inj in64_def eq_nat_nat_iff)

lemma length_timeToKey: "0 \<le> t \<Longrightarrow> in64 t \<Longrightarrow> length (timeToKey n t) = 20"
  by (simp add: timeToKey_fixed)

lemma created_key_order:
  assumes "0 \<le> t" "in64 t" "0 \<le> u" "in64 u"
  shows "kDownloadByCreatedAt n t a < kDownloadByCreatedAt m u b \<longleftrightarrow> t < u \<or> t = u \<and> a < b"
  using assms
  by (simp add: prefix_join_unfold append_less_same_length length_timeToKey timeToKey_less
      timeToKey_inj)

end
