(* ===== verification/Repo_Core.thy ===== *)
theory Repo_Core
  imports Keys
begin

text \<open>
  Downloads in the repository (\<open>internal/repository/repository.go\<close>): the secondary index
  (\<open>indexDownload\<close>, \<open>unindexDownload\<close>), the transactional create and update, reads and deletion.
  The abstract state is the map \<open>stored\<close> from ids to downloads; the invariant \<open>repo_ok\<close> says that
  the index entries are exactly those of the stored downloads.
\<close>

section \<open>Decoding and reads\<close>

text \<open>\<open>item.Value(... json.Unmarshal(b, &d))\<close>: the keys hold values of their own kind only (\<open>repo_ok\<close>).\<close>

fun decode_download :: "dbval \<Rightarrow> Download res" where
  "decode_download (DownloadJ d) = Inr d"
| "decode_download v = Inl ErrUnmarshal"

definition txGetDownload :: "'s badger \<Rightarrow> gctx \<Rightarrow> 's \<Rightarrow> wr list \<Rightarrow> string \<Rightarrow> Download res" where
  "txGetDownload B cx s tx did =
     (case cx 0 of Some e \<Rightarrow> Inl e
      | None \<Rightarrow> (case bget B s tx (kDownload did) of
          Inl e \<Rightarrow> (if e = ErrKeyNotFound then Inl ErrNotFound else Inl e)
        | Inr v \<Rightarrow> decode_download v))"

definition GetDownload :: "'s badger \<Rightarrow> gctx \<Rightarrow> 's \<Rightarrow> string \<Rightarrow> Download res" where
  "GetDownload B cx s did =
     (case cx 0 of Some e \<Rightarrow> Inl e
      | None \<Rightarrow> repo_view B (skip 1 cx) s
          (case bget B s [] (kDownload did) of
             Inl e \<Rightarrow> (if e = ErrKeyNotFound then Inl ErrNotFound else Inl e)
           | Inr v \<Rightarrow> decode_download v))"

section \<open>The secondary index\<close>

fun index_tags ::
    "'s badger \<Rightarrow> stdlib \<Rightarrow> clock \<Rightarrow> 's \<Rightarrow> gtime \<Rightarrow> string \<Rightarrow> string list \<Rightarrow> wr list \<Rightarrow> wr list res" where
  "index_tags B L ck s createdKey did [] tx = Inr tx"
| "index_tags B L ck s createdKey did (tag # tags) tx =
     (if tag = [] then index_tags B L (skip 1 ck) s createdKey did tags tx
      else bindE (txn_write B s tx
             (WSet (kDownloadByTag (ck 0) (ToLower (lib_lower L) tag) createdKey did) NilV))
           (index_tags B L (skip 1 ck) s createdKey did tags))"

definition indexDownload ::
    "'s badger \<Rightarrow> stdlib \<Rightarrow> clock \<Rightarrow> 's \<Rightarrow> wr list \<Rightarrow> Download \<Rightarrow> wr list res" where
  "indexDownload B L ck s tx d =
     (let createdKey = d_CreatedAt d in
      bindE (txn_write B s tx (WSet (kDownloadByCreatedAt (ck 0) createdKey (d_ID d)) NilV)) (\<lambda>tx.
      bindE (if d_Status d \<noteq> []
             then txn_write B s tx
               (WSet (kDownloadByStatus (ck 1) (d_Status d) createdKey (d_ID d)) NilV)
             else Inr tx) (\<lambda>tx.
      bindE (if d_QueueID d \<noteq> []
             then txn_write B s tx
               (WSet (kDownloadByQueue (ck 2) (d_QueueID d) createdKey (d_ID d)) NilV)
             else Inr tx) (\<lambda>tx.
      index_tags B L (skip 3 ck) s createdKey (d_ID d) (d_Tags d) tx))))"

fun unindex_tags ::
    "'s badger \<Rightarrow> stdlib \<Rightarrow> clock \<Rightarrow> 's \<Rightarrow> gtime \<Rightarrow> string \<Rightarrow> string list \<Rightarrow> wr list \<Rightarrow> wr list" where
  "unindex_tags B L ck s createdKey did [] tx = tx"
| "unindex_tags B L ck s createdKey did (tag # tags) tx =
     unindex_tags B L (skip 1 ck) s createdKey did tags
       (if tag \<noteq> []
        then txn_try B s tx
          (WDel (kDownloadByTag (ck 0) (ToLower (lib_lower L) tag) createdKey did))
        else tx)"

definition unindexDownload ::
    "'s badger \<Rightarrow> stdlib \<Rightarrow> clock \<Rightarrow> 's \<Rightarrow> wr list \<Rightarrow> Download \<Rightarrow> wr list" where
  "unindexDownload B L ck s tx d =
     (if IsZero (d_CreatedAt d) then tx
      else let createdKey = d_CreatedAt d;
               tx = txn_try B s tx (WDel (kDownloadByCreatedAt (ck 0) createdKey (d_ID d)));
               tx = (if d_Status d \<noteq> []
                     then txn_try B s tx
                       (WDel (kDownloadByStatus (ck 1) (d_Status d) createdKey (d_ID d)))
                     else tx);
               tx = (if d_QueueID d \<noteq> []
                     then txn_try B s tx
                       (WDel (kDownloadByQueue (ck 2) (d_QueueID d) createdKey (d_ID d)))
                     else tx)
           in unindex_tags B L (skip 3 ck) s createdKey (d_ID d) (d_Tags d) tx)"

section \<open>Create, update, delete\<close>

definition createDownloadTxn ::
    "'s badger \<Rightarrow> stdlib \<Rightarrow> gctx \<Rightarrow> clock \<Rightarrow> 's \<Rightarrow> Download \<Rightarrow> wr list \<Rightarrow> (Download \<times> wr list) res" where
  "createDownloadTxn B L cx ck s d tx =
     (case cx 0 of Some e \<Rightarrow> Inl e
      | None \<Rightarrow>
          if d_ID d = [] then Inl (ErrText ''download id is required'')
          else let d = (if IsZero (d_CreatedAt d) then d\<lparr>d_CreatedAt := ck 0\<rparr> else d);
                   d = d\<lparr>d_UpdatedAt := ck 1\<rparr>
               in bindE (txn_write B s tx (WSet (kDownload (d_ID d)) (DownloadJ d))) (\<lambda>tx.
                  bindE (indexDownload B L (skip 2 ck) s tx d) (\<lambda>tx. Inr (d, tx))))"

definition CreateDownload ::
    "'s badger \<Rightarrow> stdlib \<Rightarrow> gctx \<Rightarrow> clock \<Rightarrow> 's \<Rightarrow> Download \<Rightarrow> Download res \<times> 's" where
  "CreateDownload B L cx ck s d =
     repo_update B cx s (createDownloadTxn B L (skip 2 cx) ck s d)"

definition updateDownloadTxn ::
    "'s badger \<Rightarrow> stdlib \<Rightarrow> gctx \<Rightarrow> clock \<Rightarrow> 's \<Rightarrow> Download \<Rightarrow> wr list \<Rightarrow> (Download \<times> wr list) res" where
  "updateDownloadTxn B L cx ck s d tx =
     (case cx 0 of Some e \<Rightarrow> Inl e
      | None \<Rightarrow>
          if d_ID d = [] then Inl (ErrText ''download id is required'')
          else bindE (bget B s tx (kDownload (d_ID d))) (\<lambda>v.
               bindE (decode_download v) (\<lambda>old.
                 let tx = unindexDownload B L ck s tx old;
                     d = (if IsZero (d_CreatedAt d) then d\<lparr>d_CreatedAt := d_CreatedAt old\<rparr> else d);
                     d = d\<lparr>d_UpdatedAt := ck 0\<rparr>
                 in bindE (txn_write B s tx (WSet (kDownload (d_ID d)) (DownloadJ d))) (\<lambda>tx.
                    bindE (indexDownload B L (skip 1 ck) s tx d) (\<lambda>tx. Inr (d, tx))))))"

definition UpdateDownload ::
    "'s badger \<Rightarrow> stdlib \<Rightarrow> gctx \<Rightarrow> clock \<Rightarrow> 's \<Rightarrow> Download \<Rightarrow> Download res \<times> 's" where
  "UpdateDownload B L cx ck s d =
     repo_update B cx s (updateDownloadTxn B L (skip 2 cx) ck s d)"

text \<open>\<open>deleteByPrefix\<close>: one iterator, whose keys are those of the moment it is opened.\<close>

fun delete_keys :: "'s badger \<Rightarrow> gctx \<Rightarrow> 's \<Rightarrow> key list \<Rightarrow> wr list \<Rightarrow> wr list res" where
  "delete_keys B cx s [] tx = Inr tx"
| "delete_keys B cx s (k # ks) tx =
     (case cx 0 of Some e \<Rightarrow> Inl e
      | None \<Rightarrow> bindE (txn_write B s tx (WDel k)) (delete_keys B (skip 1 cx) s ks))"

definition deleteByPrefix :: "'s badger \<Rightarrow> gctx \<Rightarrow> 's \<Rightarrow> key \<Rightarrow> wr list \<Rightarrow> wr list res" where
  "deleteByPrefix B cx s p tx = delete_keys B cx s (iter_forward B s tx p) tx"

definition DeleteDownload ::
    "'s badger \<Rightarrow> stdlib \<Rightarrow> gctx \<Rightarrow> clock \<Rightarrow> 's \<Rightarrow> string \<Rightarrow> unit res \<times> 's" where
  "DeleteDownload B L cx ck s did =
     repo_update B cx s (\<lambda>tx.
       case bget B s tx (kDownload did) of
         Inl e \<Rightarrow> (if e = ErrKeyNotFound then Inl ErrNotFound else Inl e)
       | Inr v \<Rightarrow>
           bindE (decode_download v) (\<lambda>d.
           bindE (txn_write B s tx (WDel (kDownload did))) (\<lambda>tx.
             let tx = unindexDownload B L ck s tx d
             in bindE (deleteByPrefix B (skip 2 cx) s (segment_prefix (d_ID d)) tx) (\<lambda>tx.
                Inr ((), tx)))))"

end
