(* ===== verification/Repo_Index.thy ===== *)
theory Repo_Index
  imports Repo_Core
begin

text \<open>
  The abstract state and the invariant of the repository.  \<open>index_keys\<close> lists the entries a download
  should have; the routines of \<open>Repo_Core\<close> are shown to issue exactly these writes; \<open>repo_ok\<close> says
  that the entries present are those of the stored downloads and that every key holds a value of
  its kind.  \<open>put_store\<close> and \<open>del_store\<close> are the net effects of a create or update and of a deletion.
\<close>

named_theorems repo_simps \<open>simplification of the net effects of the repository operations\<close>

section \<open>The entries of a download\<close>

definition tag_keys :: "stdlib \<Rightarrow> gtime \<Rightarrow> string \<Rightarrow> string list \<Rightarrow> key list" where
  "tag_keys L t did tags =
     map (\<lambda>tag. kDownloadByTag 0 (ToLower (lib_lower L) tag) t did) (filter (\<lambda>tag. tag \<noteq> []) tags)"

definition index_keys :: "stdlib \<Rightarrow> Download \<Rightarrow> key list" where
  "index_keys L d =
     kDownloadByCreatedAt 0 (d_CreatedAt d) (d_ID d) #
     (if d_Status d \<noteq> [] then [kDownloadByStatus 0 (d_Status d) (d_CreatedAt d) (d_ID d)] else []) @
     (if d_QueueID d \<noteq> [] then [kDownloadByQueue 0 (d_QueueID d) (d_CreatedAt d) (d_ID d)] else []) @
     tag_keys L (d_CreatedAt d) (d_ID d) (d_Tags d)"

lemma key_now:
  assumes "\<not> IsZero t"
  shows "kDownloadByCreatedAt now t did = kDownloadByCreatedAt 0 t did"
    "kDownloadByStatus now st t did = kDownloadByStatus 0 st t did"
    "kDownloadByQueue now q t did = kDownloadByQueue 0 q t did"
    "kDownloadByTag now tag t did = kDownloadByTag 0 tag t did"
  using timeToKey_nonzero [OF assms, of now 0]
  by (simp_all add: kDownloadByCreatedAt_def kDownloadByStatus_def kDownloadByQueue_def
      kDownloadByTag_def)

lemma index_keys_is_index: "k \<in> set (index_keys L d) \<Longrightarrow> is_index k"
  by (auto simp: index_keys_def tag_keys_def split: if_splits)

lemma index_keys_id:
  "bar \<notin> set (d_ID d) \<Longrightarrow> k \<in> set (index_keys L d) \<Longrightarrow> key_id k = d_ID d"
  by (auto simp: index_keys_def tag_keys_def key_id_simps split: if_splits)

lemma index_keys_not_download [simp]: "kDownload did \<notin> set (index_keys L d)"
  using index_keys_is_index [of "kDownload did" L d] by auto

lemma index_keys_cong:
  "d_CreatedAt d = d_CreatedAt d' \<Longrightarrow> d_ID d = d_ID d' \<Longrightarrow> d_Status d = d_Status d' \<Longrightarrow>
   d_QueueID d = d_QueueID d' \<Longrightarrow> d_Tags d = d_Tags d' \<Longrightarrow> index_keys L d = index_keys L d'"
  by (simp add: index_keys_def)

section \<open>What the index routines write\<close>

lemma txn_write_Inr: "txn_write B s tx w = Inr tx' \<longleftrightarrow> bput B s tx w = None \<and> tx' = tx @ [w]"
  by (auto simp: txn_write_def split: option.splits)

lemma txn_write_quiet [repo_simps]: "badger_quiet B \<Longrightarrow> txn_write B s tx w = Inr (tx @ [w])"
  by (simp add: txn_write_def quiet_put)

lemma txn_try_quiet [repo_simps]: "badger_quiet B \<Longrightarrow> txn_try B s tx w = tx @ [w]"
  by (simp add: txn_try_def quiet_put)

lemma index_tags_log:
  assumes "\<not> IsZero t"
  shows "index_tags B L ck s t did tags tx = Inr tx' \<Longrightarrow>
    tx' = tx @ map (\<lambda>k. WSet k NilV) (tag_keys L t did tags)"
proof (induction tags arbitrary: tx ck)
  case (Cons tag tags)
  then show ?case
    by (cases "tag = []")
      (auto simp: tag_keys_def bindE_eq_Inr txn_write_Inr key_now(4) [OF assms, of "ck 0"]
        dest!: Cons.IH)
qed (simp add: tag_keys_def)

lemma indexDownload_log:
  assumes "\<not> IsZero (d_CreatedAt d)" "indexDownload B L ck s tx d = Inr tx'"
  shows "tx' = tx @ map (\<lambda>k. WSet k NilV) (index_keys L d)"
  using assms(2)
  by (auto simp: indexDownload_def Let_def bindE_eq_Inr txn_write_Inr index_keys_def
      key_now [OF assms(1), of "ck 0"] key_now [OF assms(1), of "ck 1"]
      key_now [OF assms(1), of "ck 2"] key_now [OF assms(1), of "ck (Suc 0)"]
      dest!: index_tags_log [OF assms(1)] split: if_splits)

lemma index_tags_quiet:
  assumes "badger_quiet B" "\<not> IsZero t"
  shows "index_tags B L ck s t did tags tx =
    Inr (tx @ map (\<lambda>k. WSet k NilV) (tag_keys L t did tags))"
proof (induction tags arbitrary: tx ck)
  case (Cons tag tags)
  then show ?case
    by (cases "tag = []")
      (auto simp: tag_keys_def txn_write_quiet [OF assms(1)] key_now(4) [OF assms(2), of "ck 0"])
qed (simp add: tag_keys_def)

lemma indexDownload_quiet:
  assumes "badger_quiet B" "\<not> IsZero (d_CreatedAt d)"
  shows "indexDownload B L ck s tx d = Inr (tx @ map (\<lambda>k. WSet k NilV) (index_keys L d))"
  using assms
  by (simp add: indexDownload_def Let_def txn_write_quiet index_tags_quiet index_keys_def
      key_now [OF assms(2), of "ck 0"] key_now [OF assms(2), of "ck 1"]
      key_now [OF assms(2), of "ck 2"] key_now [OF assms(2), of "ck (Suc 0)"])

lemma unindex_tags_quiet:
  assumes "badger_quiet B" "\<not> IsZero t"
  shows "unindex_tags B L ck s t did tags tx = tx @ map WDel (tag_keys L t did tags)"
proof (induction tags arbitrary: tx ck)
  case (Cons tag tags)
  then show ?case
    by (cases "tag = []")
      (auto simp: tag_keys_def txn_try_quiet [OF assms(1)] key_now(4) [OF assms(2), of "ck 0"])
qed (simp add: tag_keys_def)

lemma unindexDownload_quiet:
  assumes "badger_quiet B" "\<not> IsZero (d_CreatedAt d)"
  shows "unindexDownload B L ck s tx d = tx @ map WDel (index_keys L d)"
  using assms
  by (simp add: unindexDownload_def Let_def txn_try_quiet unindex_tags_quiet index_keys_def
      key_now [OF assms(2), of "ck 0"] key_now [OF assms(2), of "ck 1"]
      key_now [OF assms(2), of "ck 2"] key_now [OF assms(2), of "ck (Suc 0)"])

section \<open>The abstract state and the invariant\<close>

definition stored :: "store \<Rightarrow> string \<rightharpoonup> Download" where
  "stored m did = (case m (kDownload did) of Some (DownloadJ d) \<Rightarrow> Some d | _ \<Rightarrow> None)"

definition valid_download :: "string \<Rightarrow> Download \<Rightarrow> bool" where
  "valid_download did d \<longleftrightarrow>
     d_ID d = did \<and> did \<noteq> [] \<and> bar \<notin> set did \<and> \<not> IsZero (d_CreatedAt d)"

definition kind_ok :: "key \<Rightarrow> dbval \<Rightarrow> bool" where
  "kind_ok k v =
     (case key_family k of
        FDownload \<Rightarrow> (\<exists>did d. k = kDownload did \<and> v = DownloadJ d \<and> valid_download did d)
      | FQueue \<Rightarrow> (\<exists>q. k = kQueue (q_ID q) \<and> v = QueueJ q \<and> q_ID q \<noteq> [])
      | FStats \<Rightarrow> (\<exists>qs. k = kQueueStats (qs_QueueID qs) \<and> v = StatsJ qs)
      | FSegment \<Rightarrow> (\<exists>g. k = kSegment (s_DownloadID g) (s_Index g) \<and> v = SegmentJ g)
      | FOther \<Rightarrow> False
      | _ \<Rightarrow> v = NilV)"

definition indexed :: "stdlib \<Rightarrow> store \<Rightarrow> key \<Rightarrow> bool" where
  "indexed L m k \<longleftrightarrow> (\<exists>did d. stored m did = Some d \<and> k \<in> set (index_keys L d))"

definition repo_ok :: "stdlib \<Rightarrow> store \<Rightarrow> bool" where
  "repo_ok L m \<longleftrightarrow>
     (\<forall>k v. m k = Some v \<longrightarrow> kind_ok k v) \<and>
     (\<forall>k. is_index k \<longrightarrow> (k \<in> dom m \<longleftrightarrow> indexed L m k))"

lemma repo_ok_empty [simp]: "repo_ok L Map.empty"
  by (simp add: repo_ok_def indexed_def stored_def)

lemma repo_ok_kind: "repo_ok L m \<Longrightarrow> m k = Some v \<Longrightarrow> kind_ok k v"
  by (simp add: repo_ok_def)

lemma repo_ok_index: "repo_ok L m \<Longrightarrow> is_index k \<Longrightarrow> k \<in> dom m \<longleftrightarrow> indexed L m k"
  by (simp add: repo_ok_def)

lemma kind_ok_download:
  "kind_ok (kDownload did) v \<longleftrightarrow> (\<exists>d. v = DownloadJ d \<and> valid_download did d)"
  by (auto simp: kind_ok_def)

lemma kind_ok_index: "is_index k \<Longrightarrow> kind_ok k v \<longleftrightarrow> v = NilV"
  by (auto simp: kind_ok_def is_index_def)

lemma repo_ok_get:
  assumes "repo_ok L m"
  shows "m (kDownload did) = map_option DownloadJ (stored m did)"
  using repo_ok_kind [OF assms, of "kDownload did"]
  by (cases "m (kDownload did)") (auto simp: stored_def kind_ok_download)

lemma repo_ok_valid:
  assumes "repo_ok L m" "stored m did = Some d"
  shows "valid_download did d"
  using repo_ok_kind [OF assms(1), of "kDownload did"] repo_ok_get [OF assms(1), of did] assms(2)
  by (auto simp: kind_ok_download)

lemma stored_cong: "(\<And>did. m (kDownload did) = m' (kDownload did)) \<Longrightarrow> stored m = stored m'"
  by (simp add: fun_eq_iff stored_def)

section \<open>Net effects\<close>

definition old_index :: "stdlib \<Rightarrow> store \<Rightarrow> string \<Rightarrow> key list" where
  "old_index L m did = (case stored m did of None \<Rightarrow> [] | Some d \<Rightarrow> index_keys L d)"

definition put_store :: "stdlib \<Rightarrow> Download \<Rightarrow> store \<Rightarrow> store" where
  "put_store L d m =
     (\<lambda>k. if k \<in> set (index_keys L d) then Some NilV
          else if k = kDownload (d_ID d) then Some (DownloadJ d)
          else if k \<in> set (old_index L m (d_ID d)) then None else m k)"

definition del_store :: "stdlib \<Rightarrow> string \<Rightarrow> store \<Rightarrow> store" where
  "del_store L did m =
     (\<lambda>k. if k = kDownload did \<or> k \<in> set (old_index L m did) \<or> prefix (segment_prefix did) k
          then None else m k)"

lemma old_index_iff:
  "k \<in> set (old_index L m did) \<longleftrightarrow> (\<exists>d. stored m did = Some d \<and> k \<in> set (index_keys L d))"
  by (cases "stored m did") (simp_all add: old_index_def)

lemma old_index_is_index: "k \<in> set (old_index L m did) \<Longrightarrow> is_index k"
  by (auto simp: old_index_iff index_keys_is_index)

lemma old_index_not_download [simp]: "kDownload x \<notin> set (old_index L m did)"
  using old_index_is_index [of "kDownload x" L m did] by auto

lemma old_index_id:
  assumes "repo_ok L m" "k \<in> set (old_index L m did)"
  shows "key_id k = did"
proof -
  from assms(2) obtain d where d: "stored m did = Some d" "k \<in> set (index_keys L d)"
    by (auto simp: old_index_iff)
  with repo_ok_valid [OF assms(1) d(1)] index_keys_id [OF _ d(2)] show ?thesis
    by (simp add: valid_download_def)
qed

text \<open>Entries of two downloads never coincide.\<close>

lemma old_index_disjoint:
  assumes "repo_ok L m" "stored m did' = Some d'" "k \<in> set (index_keys L d')" "did' \<noteq> did"
  shows "k \<notin> set (old_index L m did)"
  using assms(4) repo_ok_valid [OF assms(1,2)] index_keys_id [OF _ assms(3)]
    old_index_id [OF assms(1), of k did]
  by (auto simp: valid_download_def)

lemma indexed_others:
  assumes "repo_ok L m"
  shows "k \<notin> set (old_index L m did) \<and> indexed L m k \<longleftrightarrow>
    (\<exists>did' d'. did' \<noteq> did \<and> stored m did' = Some d' \<and> k \<in> set (index_keys L d'))"
proof -
  have "k \<notin> set (old_index L m did)"
    if "did' \<noteq> did" "stored m did' = Some d'" "k \<in> set (index_keys L d')" for did' d'
    by (rule old_index_disjoint [OF assms that(2,3,1)])
  moreover have "did' \<noteq> did"
    if "k \<notin> set (old_index L m did)" "stored m did' = Some d'" "k \<in> set (index_keys L d')" for did' d'
    using that by (auto simp: old_index_iff)
  ultimately show ?thesis unfolding indexed_def by blast
qed

lemma stored_put_store [simp]: "stored (put_store L d m) = (stored m)(d_ID d \<mapsto> d)"
  by (auto simp: fun_eq_iff stored_def put_store_def)

lemma segment_prefix_not_download [simp]: "\<not> prefix (segment_prefix did) (kDownload x)"
  using segment_prefix_family [of did "kDownload x"] by auto

lemma segment_prefix_not_index: "is_index k \<Longrightarrow> \<not> prefix (segment_prefix did) k"
  using segment_prefix_family [of did k] by (auto simp: is_index_def)

lemma stored_del_store [simp]: "stored (del_store L did m) = (stored m)(did := None)"
  by (auto simp: fun_eq_iff stored_def del_store_def)

text \<open>
  What a deletion does to the segments: the prefix of their keys has no closing separator, so those of
  an id that extends the given one go too; ids of one length do not extend each other.
\<close>

lemma del_store_segment:
  "del_store L did m (kSegment i n) = (if prefix did (i @ bar # Sprintf_0d 9 n) then None else m (kSegment i n))"
proof -
  have "kSegment i n \<noteq> kDownload did" using key_family_simps(1,8) by (metis family.distinct(13))
  moreover have "kSegment i n \<notin> set (old_index L m did)" using old_index_is_index by fastforce
  moreover have "prefix (segment_prefix did) (kSegment i n) \<longleftrightarrow> prefix did (i @ bar # Sprintf_0d 9 n)"
    by (simp add: prefix_join_unfold)
  ultimately show ?thesis by (simp add: del_store_def)
qed

lemma del_store_untouched:
  "key_family k \<notin> {FDownload, FSegment} \<Longrightarrow> \<not> is_index k \<Longrightarrow> del_store L did m k = m k"
  using old_index_is_index [of k L m did] segment_prefix_family [of did k]
  by (auto simp: del_store_def)

lemma prefix_same_length: "length i = length did \<Longrightarrow> prefix did (i @ x) \<longleftrightarrow> i = did"
  by (auto simp: prefix_def)

lemma put_store_untouched:
  "\<not> is_index k \<Longrightarrow> k \<noteq> kDownload (d_ID d) \<Longrightarrow> put_store L d m k = m k"
  using index_keys_is_index [of k L d] old_index_is_index [of k L m "d_ID d"]
  by (auto simp: put_store_def)

text \<open>The rows that are neither downloads nor index entries.\<close>

definition others :: "store \<Rightarrow> store" where
  "others m k = (if key_family k = FDownload \<or> is_index k then None else m k)"

lemma others_put_store [simp]: "others (put_store L d m) = others m"
proof
  fix k show "others (put_store L d m) k = others m k"
    using put_store_untouched [of k d L m] by (cases "k = kDownload (d_ID d)") (auto simp: others_def)
qed

lemma others_cong:
  assumes "others m = others m'" "key_family k \<noteq> FDownload" "\<not> is_index k"
  shows "m k = m' k"
proof -
  have "others m k = others m' k" using assms(1) by simp
  then show ?thesis using assms(2,3) by (simp add: others_def)
qed

lemma repo_ok_put_store:
  assumes ok: "repo_ok L m" and valid: "valid_download did d"
  shows "repo_ok L (put_store L d m)"
proof -
  let ?m = "put_store L d m"
  from valid have [simp]: "d_ID d = did" by (simp add: valid_download_def)
  have kind: "kind_ok k v" if "?m k = Some v" for k v
    using that repo_ok_kind [OF ok, of k v] index_keys_is_index [of k L d] valid
    by (auto simp: put_store_def kind_ok_index kind_ok_download split: if_splits)
  have "k \<in> dom ?m \<longleftrightarrow> indexed L ?m k" if k: "is_index k" for k
  proof -
    have nd: "k \<noteq> kDownload did" using k by auto
    have dom: "k \<in> dom ?m \<longleftrightarrow> k \<in> set (index_keys L d) \<or> k \<notin> set (old_index L m did) \<and> indexed L m k"
      using nd repo_ok_index [OF ok k] by (auto simp: put_store_def dom_def)
    show ?thesis unfolding dom indexed_others [OF ok] by (auto simp: indexed_def)
  qed
  with kind show ?thesis by (simp add: repo_ok_def)
qed

lemma repo_ok_del_store:
  assumes ok: "repo_ok L m"
  shows "repo_ok L (del_store L did m)"
proof -
  let ?m = "del_store L did m"
  have kind: "kind_ok k v" if "?m k = Some v" for k v
    using that repo_ok_kind [OF ok, of k v] by (auto simp: del_store_def split: if_splits)
  have "k \<in> dom ?m \<longleftrightarrow> indexed L ?m k" if k: "is_index k" for k
  proof -
    have "k \<noteq> kDownload did" using k by auto
    then have dom: "k \<in> dom ?m \<longleftrightarrow> k \<notin> set (old_index L m did) \<and> indexed L m k"
      using repo_ok_index [OF ok k] segment_prefix_not_index [OF k]
      by (auto simp: del_store_def dom_def)
    show ?thesis unfolding dom indexed_others [OF ok] by (auto simp: indexed_def)
  qed
  with kind show ?thesis by (simp add: repo_ok_def)
qed

end
