(* ===== verification/Interfaces.thy ===== *)
theory Interfaces
  imports Models
begin

text \<open>
  The contracts between the components (\<open>internal/models/interfaces.go\<close>), as locales: what a client
  calls and what the provider promises.  Each is interpreted in the theory of the component that
  provides it, on the model of the code.
\<close>

section \<open>Reading and updating a download inside a transaction\<close>

text \<open>
  The part of \<open>models.Repository\<close> that the callbacks of \<open>RunInTx\<close> use.  \<open>tab\<close> is the table a
  transaction sees; \<open>stamp old d\<close> is what an update stores for \<open>d\<close> in place of \<open>old\<close>; \<open>rest\<close> is
  what the transaction sees outside the table and its indexes.
\<close>

locale download_txn =
  fixes wf :: "'t \<Rightarrow> bool"
    and tab :: "'t \<Rightarrow> string \<rightharpoonup> Download"
    and get :: "'t \<Rightarrow> string \<Rightarrow> Download res"
    and upd :: "'t \<Rightarrow> Download \<Rightarrow> (Download \<times> 't) res"
    and stamp :: "Download \<Rightarrow> Download \<Rightarrow> Download"
    and rest :: "'t \<Rightarrow> 'r"
  assumes get_found: "wf t \<Longrightarrow> tab t i = Some d \<Longrightarrow> get t i = Inr d"
    and get_missing: "wf t \<Longrightarrow> tab t i = None \<Longrightarrow> get t i = Inl ErrNotFound"
    and row_id: "wf t \<Longrightarrow> tab t i = Some d \<Longrightarrow> d_ID d = i"
    and upd_found: "wf t \<Longrightarrow> tab t (d_ID d) = Some old \<Longrightarrow>
      \<exists>t'. upd t d = Inr (stamp old d, t') \<and> wf t' \<and>
        tab t' = (tab t)(d_ID d \<mapsto> stamp old d) \<and> rest t' = rest t"
begin

text \<open>A read-modify-write callback stores the mutated row and touches no other.\<close>

lemma modify_found:
  assumes "wf t" "tab t i = Some d" "d_ID (f d) = i"
  shows "\<exists>t'. bindE (get t i) (\<lambda>d. upd t (f d)) = Inr (stamp d (f d), t') \<and> wf t' \<and>
    tab t' = (tab t)(i \<mapsto> stamp d (f d)) \<and> rest t' = rest t"
  using upd_found [OF assms(1), of "f d" d] assms get_found [OF assms(1,2)] by simp

lemma modify_missing:
  assumes "wf t" "tab t i = None"
  shows "bindE (get t i) (\<lambda>d. upd t (f d)) = Inl ErrNotFound"
  using get_missing [OF assms] by simp

lemma modify_frame:
  assumes "wf t" "d_ID (f d) = i" "tab t i = Some d" "j \<noteq> i"
    "bindE (get t i) (\<lambda>d. upd t (f d)) = Inr (r, t')"
  shows "tab t' j = tab t j"
  using modify_found [of t i d f] assms by auto

end

section \<open>Planning segments\<close>

text \<open>
  \<open>models.SegmentPlanner\<close>.  An end of \<open>-1\<close> means that the length is unknown; otherwise a segment is
  the bytes from its start to its end, both included.  \<open>conns\<close> is the number of segments wanted.
\<close>

definition slice :: "'b list \<Rightarrow> Segment \<Rightarrow> 'b list" where
  "slice body g = map (\<lambda>i. body ! nat i) [s_Start g..s_End g]"

locale segment_planner =
  fixes plan :: "Download \<Rightarrow> int \<Rightarrow> bool \<Rightarrow> Segment list res"
    and conns :: "Download \<Rightarrow> int"
  assumes plan_whole: "\<not> ranges \<or> n \<le> 0 \<Longrightarrow>
      \<exists>g. plan d n ranges = Inr [g] \<and> s_Start g = 0 \<and> s_End g = - 1"
    and plan_tiles: "0 < n \<Longrightarrow> in64 n \<Longrightarrow> conns d \<le> n \<Longrightarrow>
      \<exists>gs. plan d n True = Inr gs \<and> concat (map (\<lambda>g. [s_Start g..s_End g]) gs) = [0..n - 1] \<and>
        (\<forall>g \<in> set gs. 0 \<le> s_Start g \<and> s_Start g \<le> s_End g)"
begin

text \<open>What the merge relies on: the slices of a file, in the order of the plan, are the file.\<close>

lemma slices_are_body:
  assumes "body \<noteq> []" "in64 (int (length body))" "conns d \<le> int (length body)"
  shows "\<exists>gs. plan d (int (length body)) True = Inr gs \<and> concat (map (slice body) gs) = body"
proof -
  from plan_tiles [OF _ assms(2,3)] assms(1) obtain gs where
    gs: "plan d (int (length body)) True = Inr gs"
    "concat (map (\<lambda>g. [s_Start g..s_End g]) gs) = [0..int (length body) - 1]" by auto
  have "concat (map (slice body) gs) =
      map (\<lambda>i. body ! nat i) (concat (map (\<lambda>g. [s_Start g..s_End g]) gs))"
    by (simp add: slice_def [abs_def] map_concat comp_def)
  also have "\<dots> = body"
    unfolding gs(2) by (rule nth_equalityI) simp_all
  finally show ?thesis using gs(1) by blast
qed

end

section \<open>Limiting the rate\<close>

text \<open>
  \<open>models.RateLimiter\<close> as the runner uses it: it reserves under several keys, one after the other, and
  sleeps for what each reservation asks.  \<open>limited l k\<close> says that a limit is set for the key.
\<close>

fun reserve_all ::
    "('l \<Rightarrow> string \<Rightarrow> int \<Rightarrow> duration \<times> 'l) \<Rightarrow> 'l \<Rightarrow> string list \<Rightarrow> int \<Rightarrow> duration list \<times> 'l" where
  "reserve_all reserve l [] n = ([], l)"
| "reserve_all reserve l (k # ks) n =
     (let (wait, l) = reserve l k n; (waits, l) = reserve_all reserve l ks n
      in (if 0 < wait then wait # waits else waits, l))"

locale rate_limiter =
  fixes reserve :: "'l \<Rightarrow> string \<Rightarrow> int \<Rightarrow> duration \<times> 'l"
    and limited :: "'l \<Rightarrow> string \<Rightarrow> bool"
  assumes free: "\<not> limited l k \<Longrightarrow> reserve l k n = (0, l)"
    and keeps: "limited (snd (reserve l k n)) j \<longleftrightarrow> limited l j"
begin

lemma no_limit_no_wait:
  "\<forall>k \<in> set ks. \<not> limited l k \<Longrightarrow> reserve_all reserve l ks n = ([], l)"
  by (induction ks) (simp_all add: free)

lemma limits_kept: "limited (snd (reserve_all reserve l ks n)) j \<longleftrightarrow> limited l j"
proof (induction ks arbitrary: l)
  case (Cons k ks)
  then show ?case using keeps [of l k n j] by (simp add: case_prod_beta Let_def)
qed simp

end

section \<open>Publishing events\<close>

text \<open>
  \<open>models.EventPublisher\<close> as the services use it: in a state that satisfies \<open>ok\<close> a publication
  returns without error or panic.
\<close>

fun publish_all :: "('p \<Rightarrow> DownloadEvent \<Rightarrow> 'p res) \<Rightarrow> 'p \<Rightarrow> DownloadEvent list \<Rightarrow> 'p res" where
  "publish_all pub p [] = Inr p"
| "publish_all pub p (e # es) = bindE (pub p e) (\<lambda>p. publish_all pub p es)"

locale event_publisher =
  fixes ok :: "'p \<Rightarrow> bool"
    and pub :: "'p \<Rightarrow> DownloadEvent \<Rightarrow> 'p res"
  assumes pub_returns: "ok p \<Longrightarrow> \<exists>p'. pub p e = Inr p' \<and> ok p'"
begin

lemma never_blocks: "ok p \<Longrightarrow> \<exists>p'. publish_all pub p es = Inr p' \<and> ok p'"
proof (induction es arbitrary: p)
  case (Cons e es)
  from pub_returns [OF Cons.prems] obtain p' where "pub p e = Inr p'" "ok p'" by blast
  with Cons.IH [of p'] show ?case by simp
qed simp

lemma no_error: "ok p \<Longrightarrow> pub p e \<noteq> Inl x"
  using pub_returns [of p e] by auto

end

end
