(* ===== verification/Repo_Crud.thy ===== *)
theory Repo_Crud
  imports Repo_Index Interfaces
begin

text \<open>
  Correctness of the single-download operations: on the abstract table \<open>stored\<close>, a create or an
  update is a map update, a deletion removes the row, a read is a lookup; each keeps \<open>repo_ok\<close>; and
  an operation that fails, at whatever check or write, leaves the database as it was.
\<close>

definition clock_ok :: "clock \<Rightarrow> bool" where
  "clock_ok ck \<longleftrightarrow> (\<forall>k. \<not> IsZero (ck k))"

lemma clock_ok_apply: "clock_ok ck \<Longrightarrow> \<not> IsZero (ck k)"
  by (simp add: clock_ok_def)

lemma clock_ok_skip [simp]: "clock_ok ck \<Longrightarrow> clock_ok (skip n ck)"
  by (simp add: clock_ok_def skip_apply)

section \<open>The writes of each routine, as net effects\<close>

lemma put_store_writes:
  assumes "set old = set (old_index L m (d_ID d))"
  shows "apply_writes (map WDel old @ WSet (kDownload (d_ID d)) (DownloadJ d) #
      map (\<lambda>k. WSet k NilV) (index_keys L d)) m = put_store L d m"
  using assms by (auto simp: fun_eq_iff apply_sets apply_dels put_store_def)

definition created :: "clock \<Rightarrow> Download \<Rightarrow> Download" where
  "created ck d =
     d\<lparr>d_CreatedAt := (if IsZero (d_CreatedAt d) then ck 0 else d_CreatedAt d), d_UpdatedAt := ck 1\<rparr>"

definition updated :: "clock \<Rightarrow> Download \<Rightarrow> Download \<Rightarrow> Download" where
  "updated ck old d =
     d\<lparr>d_CreatedAt := (if IsZero (d_CreatedAt d) then d_CreatedAt old else d_CreatedAt d),
       d_UpdatedAt := ck 0\<rparr>"

lemma created_sel [simp]:
  "d_ID (created ck d) = d_ID d" "d_Status (created ck d) = d_Status d"
  "d_QueueID (created ck d) = d_QueueID d"
  by (simp_all add: created_def)

lemma updated_keep: "\<not> IsZero (d_CreatedAt d) \<Longrightarrow> updated ck old d = d\<lparr>d_UpdatedAt := ck 0\<rparr>"
  for d :: Download
  by (cases d) (simp add: updated_def)

lemma updated_sel [simp]:
  "d_ID (updated ck old d) = d_ID d" "d_Status (updated ck old d) = d_Status d"
  "d_QueueID (updated ck old d) = d_QueueID d" "d_Priority (updated ck old d) = d_Priority d"
  "d_Tags (updated ck old d) = d_Tags d"
  by (simp_all add: updated_def)

lemma created_nonzero: "clock_ok ck \<Longrightarrow> \<not> IsZero (d_CreatedAt (created ck d))"
  by (simp add: created_def clock_ok_def)

lemma updated_nonzero:
  "\<not> IsZero (d_CreatedAt old) \<Longrightarrow> \<not> IsZero (d_CreatedAt (updated ck old d))"
  by (simp add: updated_def)

lemma create_stamp:
  "(if IsZero (d_CreatedAt d) then d\<lparr>d_CreatedAt := ck 0\<rparr> else d)\<lparr>d_UpdatedAt := ck 1\<rparr> = created ck d"
  by (simp add: created_def)

lemma update_stamp:
  "(if IsZero (d_CreatedAt d) then d\<lparr>d_CreatedAt := d_CreatedAt old\<rparr> else d)\<lparr>d_UpdatedAt := ck 0\<rparr> =
     updated ck old d"
  by (simp add: updated_def)

lemma createDownloadTxn_log:
  assumes "clock_ok ck" "createDownloadTxn B L cx ck s d tx = Inr (d', tx')"
  shows "d' = created ck d \<and> d_ID d \<noteq> [] \<and>
    tx' = tx @ WSet (kDownload (d_ID d)) (DownloadJ d') # map (\<lambda>k. WSet k NilV) (index_keys L d')"
proof -
  from assms(2) obtain tx1 where d': "d' = created ck d" and "d_ID d \<noteq> []"
    and "txn_write B s tx (WSet (kDownload (d_ID d)) (DownloadJ d')) = Inr tx1"
    and ix: "indexDownload B L (skip 2 ck) s tx1 d' = Inr tx'"
    by (auto simp: createDownloadTxn_def Let_def bindE_eq_Inr create_stamp [unfolded One_nat_def]
        create_stamp split: option.splits if_splits)
  with indexDownload_log [OF _ ix] created_nonzero [OF assms(1)] show ?thesis
    by (auto simp: txn_write_Inr)
qed

lemma createDownloadTxn_quiet:
  assumes "badger_quiet B" "clock_ok ck" "cx 0 = None" "d_ID d \<noteq> []"
  shows "createDownloadTxn B L cx ck s d tx = Inr (created ck d,
    tx @ WSet (kDownload (d_ID d)) (DownloadJ (created ck d)) #
      map (\<lambda>k. WSet k NilV) (index_keys L (created ck d)))"
  using assms created_nonzero [OF assms(2), of d]
  by (simp add: createDownloadTxn_def Let_def create_stamp [unfolded One_nat_def] create_stamp
      txn_write_quiet indexDownload_quiet)

lemma updateDownloadTxn_quiet:
  assumes "badger_laws B" "badger_quiet B" "cx 0 = None" "d_ID d \<noteq> []"
    "txview B s tx (kDownload (d_ID d)) = Some (DownloadJ old)" "\<not> IsZero (d_CreatedAt old)"
  shows "updateDownloadTxn B L cx ck s d tx = Inr (updated ck old d,
    tx @ map WDel (index_keys L old) @ WSet (kDownload (d_ID d)) (DownloadJ (updated ck old d)) #
      map (\<lambda>k. WSet k NilV) (index_keys L (updated ck old d)))"
  using assms updated_nonzero [OF assms(6), of ck d]
  by (simp add: updateDownloadTxn_def Let_def update_stamp quiet_get unindexDownload_quiet
      txn_write_quiet indexDownload_quiet)

lemma updateDownloadTxn_missing:
  assumes "badger_laws B" "badger_quiet B" "cx 0 = None" "d_ID d \<noteq> []"
    "txview B s tx (kDownload (d_ID d)) = None"
  shows "updateDownloadTxn B L cx ck s d tx = Inl ErrKeyNotFound"
  using assms by (simp add: updateDownloadTxn_def quiet_get)

section \<open>Inside a transaction: the contract of the update callbacks\<close>

definition txn_wf :: "'s badger \<Rightarrow> stdlib \<Rightarrow> gctx \<Rightarrow> 's \<Rightarrow> wr list \<Rightarrow> bool" where
  "txn_wf B L cx s tx \<longleftrightarrow>
     badger_laws B \<and> badger_quiet B \<and> cx 0 = None \<and> cx 1 = None \<and> repo_ok L (txview B s tx)"

lemma txview_append: "txview B s (tx @ ws) = apply_writes ws (txview B s tx)"
  by (simp add: txview_def)

lemma txview_Nil [simp]: "txview B s [] = bdata B s"
  by (simp add: txview_def)

lemma txGetDownload_refines:
  assumes "badger_laws B" "badger_quiet B" "cx 0 = None" "repo_ok L (txview B s tx)"
  shows "txGetDownload B cx s tx did =
    (case stored (txview B s tx) did of None \<Rightarrow> Inl ErrNotFound | Some d \<Rightarrow> Inr d)"
  using assms repo_ok_get [OF assms(4), of did]
  by (cases "stored (txview B s tx) did") (simp_all add: txGetDownload_def quiet_get)

lemma update_effect:
  assumes ok: "repo_ok L (txview B s tx)" and laws: "badger_laws B" "badger_quiet B" and "cx 0 = None"
    and old: "stored (txview B s tx) (d_ID d) = Some old"
  obtains tx' where "updateDownloadTxn B L cx ck s d tx = Inr (updated ck old d, tx')"
    "txview B s tx' = put_store L (updated ck old d) (txview B s tx)"
    "valid_download (d_ID d) (updated ck old d)"
proof -
  have v: "valid_download (d_ID d) old" by (rule repo_ok_valid [OF ok old])
  then have nz: "\<not> IsZero (d_CreatedAt old)" and id: "d_ID d \<noteq> []" "d_ID old = d_ID d"
    by (simp_all add: valid_download_def)
  have row: "txview B s tx (kDownload (d_ID d)) = Some (DownloadJ old)"
    using repo_ok_get [OF ok] old by simp
  let ?new = "updated ck old d"
  let ?ws = "map WDel (index_keys L old) @ WSet (kDownload (d_ID d)) (DownloadJ ?new) #
    map (\<lambda>k. WSet k NilV) (index_keys L ?new)"
  have "updateDownloadTxn B L cx ck s d tx = Inr (?new, tx @ ?ws)"
    by (rule updateDownloadTxn_quiet [where cx = cx, OF laws assms(4) id(1) row nz])
  moreover have "txview B s (tx @ ?ws) = put_store L ?new (txview B s tx)"
    using put_store_writes [where old = "index_keys L old" and m = "txview B s tx" and d = ?new and L = L] old
    by (simp add: txview_append old_index_def)
  moreover have "valid_download (d_ID d) ?new"
    using v updated_nonzero [OF nz] by (simp add: valid_download_def)
  ultimately show ?thesis by (rule that)
qed

interpretation tx: download_txn "txn_wf B L cx s" "\<lambda>tx. stored (txview B s tx)"
  "txGetDownload B cx s" "\<lambda>tx d. updateDownloadTxn B L (skip 1 cx) ck s d tx" "updated ck"
  "\<lambda>tx. others (txview B s tx)"
  for B L cx ck s
proof unfold_locales
  fix tx :: "wr list" and d old :: Download
  assume wf: "txn_wf B L cx s tx" and old: "stored (txview B s tx) (d_ID d) = Some old"
  then have ok: "repo_ok L (txview B s tx)" "badger_laws B" "badger_quiet B" "skip 1 cx 0 = None"
    by (simp_all add: txn_wf_def)
  from update_effect [where cx = "skip 1 cx", OF ok(1,2,3,4) old] obtain tx' where
    u: "updateDownloadTxn B L (skip 1 cx) ck s d tx = Inr (updated ck old d, tx')"
    "txview B s tx' = put_store L (updated ck old d) (txview B s tx)"
    "valid_download (d_ID d) (updated ck old d)" by blast
  with repo_ok_put_store [OF ok(1) u(3)] wf show "\<exists>tx'.
      updateDownloadTxn B L (skip 1 cx) ck s d tx = Inr (updated ck old d, tx') \<and>
      txn_wf B L cx s tx' \<and>
      stored (txview B s tx') = (stored (txview B s tx))(d_ID d \<mapsto> updated ck old d) \<and>
      others (txview B s tx') = others (txview B s tx)"
    by (auto simp: txn_wf_def)
qed (auto simp: txn_wf_def txGetDownload_refines valid_download_def dest: repo_ok_valid)

section \<open>The operations on the database\<close>

lemma CreateDownload_net:
  assumes "badger_laws B" "clock_ok ck" "stored (bdata B s) (d_ID d) = None"
    "CreateDownload B L cx ck s d = (Inr d', s')"
  shows "d' = created ck d \<and> bdata B s' = put_store L d' (bdata B s)"
proof -
  from repo_update_ok [OF assms(1) assms(4) [unfolded CreateDownload_def]] obtain tx where
    tx: "createDownloadTxn B L (skip 2 cx) ck s d [] = Inr (d', tx)"
    and m: "bdata B s' = apply_writes tx (bdata B s)" by blast
  from createDownloadTxn_log [OF assms(2) tx] assms(3) m show ?thesis
    using put_store_writes [where old = "[]" and d = d' and L = L and m = "bdata B s"]
    by (auto simp: old_index_def)
qed

lemma CreateDownload_quiet:
  assumes "badger_laws B" "badger_quiet B" "clock_ok ck" "d_ID d \<noteq> []"
    "cx 0 = None" "cx 1 = None" "cx 2 = None"
  shows "\<exists>s'. CreateDownload B L cx ck s d = (Inr (created ck d), s')"
proof -
  have cx: "skip 2 cx 0 = None" using assms(7) by simp
  show ?thesis
    unfolding CreateDownload_def
    using repo_update_quiet [where cx = cx and f = "createDownloadTxn B L (skip 2 cx) ck s d" and s = s,
        OF assms(1,2,5,6) createDownloadTxn_quiet [where cx = "skip 2 cx", OF assms(2,3) cx assms(4)]]
    by blast
qed

lemma created_valid:
  "clock_ok ck \<Longrightarrow> d_ID d \<noteq> [] \<Longrightarrow> bar \<notin> set (d_ID d) \<Longrightarrow>
     valid_download (d_ID d) (created ck d)"
  by (simp add: valid_download_def created_nonzero)

lemma UpdateDownload_quiet:
  assumes "badger_laws B" "badger_quiet B" "repo_ok L (bdata B s)" "cx 0 = None" "cx 1 = None"
    "cx 2 = None" "stored (bdata B s) (d_ID d) = Some old"
  shows "\<exists>s'. UpdateDownload B L cx ck s d = (Inr (updated ck old d), s') \<and>
    bdata B s' = put_store L (updated ck old d) (bdata B s) \<and>
    valid_download (d_ID d) (updated ck old d)"
proof -
  have cx: "skip 2 cx 0 = None" using assms(6) by simp
  have view: "repo_ok L (txview B s [])" "stored (txview B s []) (d_ID d) = Some old"
    using assms by simp_all
  from update_effect [where cx = "skip 2 cx" and ck = ck, OF view(1) assms(1,2) cx view(2)]
  obtain tx where u: "updateDownloadTxn B L (skip 2 cx) ck s d [] = Inr (updated ck old d, tx)"
    "txview B s tx = put_store L (updated ck old d) (bdata B s)"
    "valid_download (d_ID d) (updated ck old d)" by auto
  from repo_update_quiet [where cx = cx and f = "updateDownloadTxn B L (skip 2 cx) ck s d" and s = s,
      OF assms(1,2,4,5) u(1)] u(2,3) show ?thesis
    by (auto simp: UpdateDownload_def txview_def)
qed

lemma delete_keys_live:
  assumes "badger_quiet B"
  shows "delete_keys B live s ks tx = Inr (tx @ map WDel ks)"
  by (induction ks arbitrary: tx) (simp_all add: txn_write_quiet [OF assms])

lemma deleteByPrefix_live:
  assumes "badger_laws B" "badger_quiet B"
  shows "deleteByPrefix B live s p tx = Inr (tx @ map WDel (filter (prefix p) (bkeys B s tx)))"
  using assms by (simp add: deleteByPrefix_def delete_keys_live iter_forward_filter)

lemma DeleteDownload_live:
  assumes "badger_laws B" "badger_quiet B" "repo_ok L (bdata B s)"
    "stored (bdata B s) did = Some d"
  shows "\<exists>s'. DeleteDownload B L live ck s did = (Inr (), s') \<and>
    bdata B s' = del_store L did (bdata B s)"
proof -
  have v: "valid_download did d" by (rule repo_ok_valid [OF assms(3,4)])
  then have nz: "\<not> IsZero (d_CreatedAt d)" and [simp]: "d_ID d = did"
    by (simp_all add: valid_download_def)
  let ?tx = "WDel (kDownload did) # map WDel (index_keys L d)"
  let ?ws = "?tx @ map WDel (filter (prefix (segment_prefix did)) (bkeys B s ?tx))"
  let ?f = "\<lambda>tx. case bget B s tx (kDownload did) of
         Inl e \<Rightarrow> (if e = ErrKeyNotFound then Inl ErrNotFound else Inl e)
       | Inr v \<Rightarrow>
           bindE (decode_download v) (\<lambda>d.
           bindE (txn_write B s tx (WDel (kDownload did))) (\<lambda>tx.
             let tx = unindexDownload B L ck s tx d
             in bindE (deleteByPrefix B (skip 2 live) s (segment_prefix (d_ID d)) tx) (\<lambda>tx.
                Inr ((), tx))))"
  have row: "bdata B s (kDownload did) = Some (DownloadJ d)"
    using repo_ok_get [OF assms(3)] assms(4) by simp
  have f: "?f [] = Inr ((), ?ws)"
    using row nz assms(1,2)
    by (simp add: quiet_get txn_write_quiet unindexDownload_quiet Let_def deleteByPrefix_live)
  have "apply_writes ?ws (bdata B s) = del_store L did (bdata B s)"
    using assms(4) badger_keys_set [OF assms(1), of s ?tx]
    by (auto simp: fun_eq_iff apply_dels del_store_def old_index_def txview_def dom_def)
  with repo_update_quiet [where cx = live and f = ?f and s = s, OF assms(1,2) _ _ f] show ?thesis
    by (simp add: DeleteDownload_def)
qed

section \<open>A small database for the witnesses\<close>

definition demo_clock :: clock where "demo_clock = (\<lambda>k. 1000 + int k)"

definition demo_download :: Download where
  "demo_download =
     zero_Download\<lparr>d_ID := ''a1'', d_URL := ''http://h/f'', d_QueueID := ''main'',
       d_Tags := [''Iso''], d_Status := StatusQueued\<rparr>"

definition demo_store :: mem where
  "demo_store = snd (CreateDownload mem_badger basic_lib live demo_clock [] demo_download)"

lemma demo_clock_ok [simp]: "clock_ok demo_clock"
  by (simp add: clock_ok_def demo_clock_def IsZero_def zero_time_def)

lemma demo_download_sel [simp]:
  "d_ID demo_download = ''a1''" "d_QueueID demo_download = ''main''"
  "d_Status demo_download = ''queued''" "d_CreatedAt demo_download = zero_time"
  by (simp_all add: demo_download_def const_defs)

lemma demo_created:
  "CreateDownload mem_badger basic_lib live demo_clock [] demo_download =
     (Inr (created demo_clock demo_download), demo_store)"
  using CreateDownload_quiet [OF mem_badger_laws mem_badger_quiet demo_clock_ok,
      of demo_download live basic_lib "[]"]
  by (auto simp: demo_store_def)

lemma stored_empty [simp]: "stored Map.empty did = None"
  by (simp add: stored_def)

lemma demo_net:
  "map_of demo_store = put_store basic_lib (created demo_clock demo_download) Map.empty"
  using CreateDownload_net [OF mem_badger_laws demo_clock_ok _ demo_created] by simp

lemma demo_repo_ok: "repo_ok basic_lib (map_of demo_store)"
  unfolding demo_net
  using repo_ok_put_store [OF repo_ok_empty created_valid, of demo_clock demo_download basic_lib]
  by (simp add: bar_def)

lemma demo_stored: "stored (map_of demo_store) = [''a1'' \<mapsto> created demo_clock demo_download]"
  unfolding demo_net by (simp add: fun_eq_iff)

section \<open>Properties\<close>

text \<open>
  C13.  Creating a download under a fresh id that has no separator in it stores exactly that download
  (with its creation time filled in when it was zero, and its update time stamped), keeps every other
  row, and leaves an index that matches the stored downloads.
\<close>

theorem create_download_correct:
  assumes "badger_laws B" "clock_ok ck" "repo_ok L (bdata B s)"
    and "bar \<notin> set (d_ID d)" "stored (bdata B s) (d_ID d) = None"
    and "CreateDownload B L cx ck s d = (Inr d', s')"
  shows "d' = d\<lparr>d_CreatedAt := (if IsZero (d_CreatedAt d) then ck 0 else d_CreatedAt d),
               d_UpdatedAt := ck 1\<rparr> \<and>
    stored (bdata B s') = (stored (bdata B s))(d_ID d \<mapsto> d') \<and>
    repo_ok L (bdata B s')"
proof -
  from CreateDownload_net [OF assms(1,2,5,6)]
  have d': "d' = created ck d" and m: "bdata B s' = put_store L d' (bdata B s)" by simp_all
  from assms(6) have "d_ID d \<noteq> []"
    by (auto simp: CreateDownload_def createDownloadTxn_def elim!: repo_update_ok [OF assms(1)]
        split: option.splits if_splits)
  then have "valid_download (d_ID d) d'"
    using created_valid [OF assms(2)] assms(4) d' by simp
  then show ?thesis
    using repo_ok_put_store [OF assms(3)] m d' by (simp add: created_def)
qed

theorem create_download_correct_witness:
  "\<exists>d' s'. CreateDownload mem_badger basic_lib live demo_clock [] demo_download = (Inr d', s') \<and>
     stored (bdata mem_badger s') = [''a1'' \<mapsto> d'] \<and> repo_ok basic_lib (bdata mem_badger s')"
  using create_download_correct [OF mem_badger_laws demo_clock_ok _ _ _ demo_created] demo_created
  by (auto simp: bar_def)

text \<open>
  C14.  Updating a stored download succeeds on a database without faults: the row becomes the given
  download (which keeps the stored creation time when it brings none), no other row changes, the
  entries of the old version are removed and those of the new one present.
\<close>

theorem update_download_correct:
  assumes "badger_laws B" "badger_quiet B" "repo_ok L (bdata B s)"
    and "stored (bdata B s) (d_ID d) = Some old" "cx 0 = None" "cx 1 = None" "cx 2 = None"
  shows "\<exists>d' s'. UpdateDownload B L cx ck s d = (Inr d', s') \<and>
    d' = d\<lparr>d_CreatedAt := (if IsZero (d_CreatedAt d) then d_CreatedAt old else d_CreatedAt d),
           d_UpdatedAt := ck 0\<rparr> \<and>
    stored (bdata B s') = (stored (bdata B s))(d_ID d \<mapsto> d') \<and>
    repo_ok L (bdata B s')"
  using UpdateDownload_quiet [OF assms(1-3,5-7,4), of ck] repo_ok_put_store [OF assms(3)]
  by (auto simp: updated_def)

theorem update_download_correct_witness:
  "\<exists>d' s'. UpdateDownload mem_badger basic_lib live demo_clock demo_store
       (demo_download\<lparr>d_Status := StatusRunning\<rparr>) = (Inr d', s') \<and>
     d_Status d' = StatusRunning \<and> d_CreatedAt d' = 1000 \<and>
     stored (bdata mem_badger s') = [''a1'' \<mapsto> d'] \<and> repo_ok basic_lib (bdata mem_badger s')"
  using update_download_correct [OF mem_badger_laws mem_badger_quiet, of basic_lib demo_store
      "demo_download\<lparr>d_Status := StatusRunning\<rparr>" "created demo_clock demo_download" live demo_clock]
    demo_repo_ok demo_stored
  by (auto simp: created_def IsZero_def demo_clock_def)

text \<open>
  C15.  Deleting a stored download succeeds on a database without faults and a live context: its row and
  its index entries are gone and no other row or queue changes.  Of the segments exactly those go whose
  key, the id, the separator and nine digits, begins with the given id: all of the download, and those
  of other downloads whose id extends it, because the prefix of the deletion lacks the separator.  With
  ids of one length, as the service makes them, no other download loses a segment.
\<close>

theorem delete_download_correct:
  assumes "badger_laws B" "badger_quiet B" "repo_ok L (bdata B s)"
    and "stored (bdata B s) did = Some d"
  shows "\<exists>s'. DeleteDownload B L live ck s did = (Inr (), s') \<and>
    stored (bdata B s') = (stored (bdata B s))(did := None) \<and> repo_ok L (bdata B s') \<and>
    (\<forall>i n. bdata B s' (kSegment i n) =
       (if prefix did (i @ bar # Sprintf_0d 9 n) then None else bdata B s (kSegment i n))) \<and>
    (\<forall>i n. length i = length did \<longrightarrow>
       bdata B s' (kSegment i n) = (if i = did then None else bdata B s (kSegment i n))) \<and>
    (\<forall>i. bdata B s' (kQueue i) = bdata B s (kQueue i) \<and> bdata B s' (kQueueStats i) = bdata B s (kQueueStats i))"
proof -
  from DeleteDownload_live [OF assms, of ck] obtain s' where
    s': "DeleteDownload B L live ck s did = (Inr (), s')" "bdata B s' = del_store L did (bdata B s)" by blast
  show ?thesis
    by (rule exI [of _ s'])
      (simp add: s' repo_ok_del_store [OF assms(3)] del_store_segment prefix_same_length del_store_untouched)
qed

theorem delete_download_correct_witness:
  "\<exists>s'. DeleteDownload mem_badger basic_lib live demo_clock demo_store ''a1'' = (Inr (), s') \<and>
     stored (bdata mem_badger s') = Map.empty \<and> repo_ok basic_lib (bdata mem_badger s') \<and>
     bdata mem_badger s' (kSegment ''b2'' 0) = bdata mem_badger demo_store (kSegment ''b2'' 0)"
  using delete_download_correct [OF mem_badger_laws mem_badger_quiet, of basic_lib demo_store "''a1''"
      "created demo_clock demo_download" demo_clock] demo_repo_ok demo_stored
  by auto

text \<open>
  A read returns the stored download, or \<open>errs.ErrNotFound\<close> for an id that is not stored.
\<close>

lemma get_download_refines:
  assumes "badger_laws B" "badger_quiet B" "repo_ok L (bdata B s)"
    and "cx 0 = None" "cx 1 = None" "cx 2 = None"
  shows "GetDownload B cx s did =
    (case stored (bdata B s) did of None \<Rightarrow> Inl ErrNotFound | Some d \<Rightarrow> Inr d)"
  using assms repo_ok_get [OF assms(3), of did]
  by (cases "stored (bdata B s) did")
    (simp_all add: GetDownload_def repo_view_quiet quiet_get numeral_2_eq_2)

lemma get_download_refines_witness:
  "GetDownload mem_badger live demo_store ''a1'' = Inr (created demo_clock demo_download) \<and>
   GetDownload mem_badger live demo_store ''b2'' = Inl ErrNotFound"
  using get_download_refines [OF mem_badger_laws mem_badger_quiet demo_repo_ok [folded mem_badger_sel(1)],
      of live] demo_stored
  by simp



end
