(* ===== verification/Repo_Queues.thy ===== *)
theory Repo_Queues
  imports Repo_Crud
begin

text \<open>
  Segments, queues and queue statistics in the repository (lines 828 to 969 of
  \<open>internal/repository/repository.go\<close>, and the transaction-scoped reads of \<open>txRepo\<close>).  The
  abstract states are \<open>queues\<close>, \<open>stats\<close> and the segments under a download's prefix.
\<close>

fun decode_queue :: "dbval \<Rightarrow> Queue res" where
  "decode_queue (QueueJ q) = Inr q"
| "decode_queue v = Inl ErrUnmarshal"

fun decode_segment :: "dbval \<Rightarrow> Segment res" where
  "decode_segment (SegmentJ g) = Inr g"
| "decode_segment v = Inl ErrUnmarshal"

fun decode_stats :: "dbval \<Rightarrow> QueueStats res" where
  "decode_stats (StatsJ q) = Inr q"
| "decode_stats v = Inl ErrUnmarshal"

text \<open>The loop over an iterator that decodes every item; the item's value is that of its key.\<close>

fun collect_items ::
    "'s badger \<Rightarrow> gctx \<Rightarrow> 's \<Rightarrow> (dbval \<Rightarrow> 'a res) \<Rightarrow> key list \<Rightarrow> 'a list res" where
  "collect_items B cx s dec [] = Inr []"
| "collect_items B cx s dec (k # ks) =
     (case cx 0 of Some e \<Rightarrow> Inl e
      | None \<Rightarrow> bindE (bget B s [] k) (\<lambda>v. bindE (dec v) (\<lambda>x.
          bindE (collect_items B (skip 1 cx) s dec ks) (\<lambda>xs. Inr (x # xs)))))"

section \<open>Segments\<close>

definition UpsertSegment :: "'s badger \<Rightarrow> gctx \<Rightarrow> 's \<Rightarrow> Segment \<Rightarrow> unit res \<times> 's" where
  "UpsertSegment B cx s g =
     repo_update B cx s (\<lambda>tx.
       if s_DownloadID g = [] then Inl (ErrText ''segment download_id is required'')
       else bindE (txn_write B s tx (WSet (kSegment (s_DownloadID g) (s_Index g)) (SegmentJ g)))
              (\<lambda>tx. Inr ((), tx)))"

definition ListSegments :: "'s badger \<Rightarrow> gctx \<Rightarrow> 's \<Rightarrow> string \<Rightarrow> Segment list res" where
  "ListSegments B cx s did =
     repo_view B cx s
       (collect_items B (skip 2 cx) s decode_segment (iter_forward B s [] (segment_prefix did)))"

definition UpdateSegment :: "'s badger \<Rightarrow> gctx \<Rightarrow> 's \<Rightarrow> Segment \<Rightarrow> unit res \<times> 's" where
  "UpdateSegment B cx s g = UpsertSegment B cx s g"

definition DeleteSegments :: "'s badger \<Rightarrow> gctx \<Rightarrow> 's \<Rightarrow> string \<Rightarrow> unit res \<times> 's" where
  "DeleteSegments B cx s did =
     repo_update B cx s (\<lambda>tx.
       bindE (deleteByPrefix B (skip 2 cx) s (segment_prefix did) tx) (\<lambda>tx. Inr ((), tx)))"

section \<open>Queues and their statistics\<close>

definition SaveQueue :: "'s badger \<Rightarrow> gctx \<Rightarrow> clock \<Rightarrow> 's \<Rightarrow> Queue \<Rightarrow> Queue res \<times> 's" where
  "SaveQueue B cx ck s q =
     repo_update B cx s (\<lambda>tx.
       if q_ID q = [] then Inl (ErrText ''queue id is required'')
       else let q = (if IsZero (q_CreatedAt q) then q\<lparr>q_CreatedAt := ck 0\<rparr> else q);
                q = q\<lparr>q_UpdatedAt := ck 1\<rparr>
            in bindE (txn_write B s tx (WSet (kQueue (q_ID q)) (QueueJ q))) (\<lambda>tx. Inr (q, tx)))"

definition txGetQueue :: "'s badger \<Rightarrow> gctx \<Rightarrow> 's \<Rightarrow> wr list \<Rightarrow> string \<Rightarrow> Queue res" where
  "txGetQueue B cx s tx qid =
     (case cx 0 of Some e \<Rightarrow> Inl e
      | None \<Rightarrow> (case bget B s tx (kQueue qid) of
          Inl e \<Rightarrow> (if e = ErrKeyNotFound then Inl ErrNotFound else Inl e)
        | Inr v \<Rightarrow> decode_queue v))"

definition GetQueue :: "'s badger \<Rightarrow> gctx \<Rightarrow> 's \<Rightarrow> string \<Rightarrow> Queue res" where
  "GetQueue B cx s qid =
     repo_view B cx s
       (case bget B s [] (kQueue qid) of
          Inl e \<Rightarrow> (if e = ErrKeyNotFound then Inl ErrNotFound else Inl e)
        | Inr v \<Rightarrow> decode_queue v)"

definition ListQueues :: "'s badger \<Rightarrow> gctx \<Rightarrow> 's \<Rightarrow> Queue list res" where
  "ListQueues B cx s =
     repo_view B cx s (collect_items B (skip 2 cx) s decode_queue (iter_forward B s [] pQueue))"

definition DeleteQueue :: "'s badger \<Rightarrow> gctx \<Rightarrow> 's \<Rightarrow> string \<Rightarrow> unit res \<times> 's" where
  "DeleteQueue B cx s qid =
     repo_update B cx s (\<lambda>tx.
       bindE (txn_write B s tx (WDel (kQueue qid))) (\<lambda>tx.
         Inr ((), txn_try B s tx (WDel (kQueueStats qid)))))"

definition SaveQueueStats :: "'s badger \<Rightarrow> gctx \<Rightarrow> 's \<Rightarrow> QueueStats \<Rightarrow> unit res \<times> 's" where
  "SaveQueueStats B cx s st =
     repo_update B cx s (\<lambda>tx.
       bindE (txn_write B s tx (WSet (kQueueStats (qs_QueueID st)) (StatsJ st))) (\<lambda>tx. Inr ((), tx)))"

definition txGetQueueStats :: "'s badger \<Rightarrow> gctx \<Rightarrow> 's \<Rightarrow> wr list \<Rightarrow> string \<Rightarrow> QueueStats res" where
  "txGetQueueStats B cx s tx qid =
     (case cx 0 of Some e \<Rightarrow> Inl e
      | None \<Rightarrow> (case bget B s tx (kQueueStats qid) of
          Inl e \<Rightarrow> (if e = ErrKeyNotFound then Inl ErrNotFound else Inl e)
        | Inr v \<Rightarrow> decode_stats v))"

definition GetQueueStats :: "'s badger \<Rightarrow> gctx \<Rightarrow> 's \<Rightarrow> string \<Rightarrow> QueueStats res" where
  "GetQueueStats B cx s qid =
     repo_view B cx s
       (case bget B s [] (kQueueStats qid) of
          Inl e \<Rightarrow> (if e = ErrKeyNotFound then Inl ErrNotFound else Inl e)
        | Inr v \<Rightarrow> decode_stats v)"

section \<open>The invariant under writes outside the index\<close>

definition outside_index :: "key \<Rightarrow> bool" where
  "outside_index k \<longleftrightarrow> key_family k \<in> {FQueue, FStats, FSegment}"

lemma outside_index_simps [simp]:
  "outside_index (kQueue i)" "outside_index (kQueueStats i)" "outside_index (kSegment i n)"
  "\<not> outside_index (kDownload i)"
  by (simp_all add: outside_index_def)

lemma outside_index_neq: "outside_index k \<Longrightarrow> k \<noteq> kDownload i \<and> \<not> is_index k"
  by (auto simp: outside_index_def is_index_def)

lemma stored_outside [simp]: "outside_index k \<Longrightarrow> stored (m(k := v)) = stored m"
  using outside_index_neq [of k] by (auto intro!: stored_cong)

lemma repo_ok_outside:
  assumes "repo_ok L m" "outside_index k" "\<And>x. v = Some x \<Longrightarrow> kind_ok k x"
  shows "repo_ok L (m(k := v))"
  using assms outside_index_neq [OF assms(2)]
  by (auto simp: repo_ok_def indexed_def)

lemma kind_ok_simps [simp]:
  "kind_ok (kQueue i) v \<longleftrightarrow> (\<exists>q. v = QueueJ q \<and> q_ID q = i \<and> i \<noteq> [])"
  "kind_ok (kQueueStats i) v \<longleftrightarrow> (\<exists>q. v = StatsJ q \<and> qs_QueueID q = i)"
  "kind_ok (kSegment i n) (SegmentJ g) \<longleftrightarrow> kSegment i n = kSegment (s_DownloadID g) (s_Index g)"
  by (auto simp: kind_ok_def)

lemma repo_ok_puts:
  assumes "repo_ok L m"
  shows "q_ID q = i \<Longrightarrow> i \<noteq> [] \<Longrightarrow> repo_ok L (m(kQueue i \<mapsto> QueueJ q))"
    and "repo_ok L (m(kQueueStats (qs_QueueID st) \<mapsto> StatsJ st))"
    and "repo_ok L (m(kSegment (s_DownloadID g) (s_Index g) \<mapsto> SegmentJ g))"
    and "repo_ok L (m(kQueue j := None))"
    and "repo_ok L (m(kQueueStats j := None))"
  by (rule repo_ok_outside [OF assms]; auto)+

section \<open>Tables of queues and statistics\<close>

definition queues :: "store \<Rightarrow> string \<rightharpoonup> Queue" where
  "queues m qid = (case m (kQueue qid) of Some (QueueJ q) \<Rightarrow> Some q | _ \<Rightarrow> None)"

definition stats :: "store \<Rightarrow> string \<rightharpoonup> QueueStats" where
  "stats m qid = (case m (kQueueStats qid) of Some (StatsJ q) \<Rightarrow> Some q | _ \<Rightarrow> None)"

lemma repo_ok_queue:
  assumes "repo_ok L m"
  shows "m (kQueue i) = map_option QueueJ (queues m i)"
  using repo_ok_kind [OF assms, of "kQueue i"]
  by (cases "m (kQueue i)") (auto simp: queues_def)

lemma repo_ok_queue_id: "repo_ok L m \<Longrightarrow> queues m i = Some q \<Longrightarrow> q_ID q = i \<and> i \<noteq> []"
  using repo_ok_queue [of L m i] repo_ok_kind [of L m "kQueue i" "QueueJ q"] by auto

lemma repo_ok_stats:
  assumes "repo_ok L m"
  shows "m (kQueueStats i) = map_option StatsJ (stats m i)"
  using repo_ok_kind [OF assms, of "kQueueStats i"]
  by (cases "m (kQueueStats i)") (auto simp: stats_def)

lemma queue_stats_keys_neq [simp]:
  "kQueue i \<noteq> kQueueStats j" "kQueueStats j \<noteq> kQueue i" "kDownload i \<noteq> kQueue j"
  "kQueue j \<noteq> kDownload i" "kDownload i \<noteq> kQueueStats j" "kQueueStats j \<noteq> kDownload i"
  by (rule neq_by_family, simp)+

lemma queues_upd [simp]:
  "queues (m(kQueue i \<mapsto> QueueJ q)) = (queues m)(i \<mapsto> q)"
  "queues (m(kQueue i := None)) = (queues m)(i := None)"
  "queues (m(kQueueStats j := v)) = queues m"
  by (auto simp: fun_eq_iff queues_def)

lemma stats_upd [simp]:
  "stats (m(kQueueStats i \<mapsto> StatsJ q)) = (stats m)(i \<mapsto> q)"
  "stats (m(kQueueStats i := None)) = (stats m)(i := None)"
  "stats (m(kQueue j := v)) = stats m"
  by (auto simp: fun_eq_iff stats_def)

text \<open>The operations on downloads leave the queues alone, and the other way round.\<close>

lemma queues_put_store [simp]: "queues (put_store L d m) = queues m"
  by (simp add: fun_eq_iff queues_def put_store_untouched)

lemma queues_del_store [simp]: "queues (del_store L did m) = queues m"
proof -
  have "\<not> prefix (segment_prefix did) (kQueue i)" for i
    using segment_prefix_family [of did "kQueue i"] by auto
  moreover have "kQueue i \<notin> set (old_index L m did)" for i
    using old_index_is_index [of "kQueue i" L m did] by auto
  ultimately show ?thesis by (auto simp: fun_eq_iff queues_def del_store_def)
qed

lemma SaveQueue_net:
  assumes "badger_laws B" "SaveQueue B cx ck s q = (Inr q', s')"
  shows "q_ID q \<noteq> [] \<and>
    q' = q\<lparr>q_CreatedAt := (if IsZero (q_CreatedAt q) then ck 0 else q_CreatedAt q), q_UpdatedAt := ck 1\<rparr> \<and>
    bdata B s' = (bdata B s)(kQueue (q_ID q) \<mapsto> QueueJ q')"
  using assms(2) unfolding SaveQueue_def
  by (rule repo_update_ok [OF assms(1)])
    (auto simp: Let_def bindE_eq_Inr txn_write_Inr split: if_splits)

lemma SaveQueue_quiet:
  assumes "badger_laws B" "badger_quiet B" "cx 0 = None" "cx 1 = None" "q_ID q \<noteq> []"
  shows "\<exists>q' s'. SaveQueue B cx ck s q = (Inr q', s')"
proof -
  let ?q = "(if IsZero (q_CreatedAt q) then q\<lparr>q_CreatedAt := ck 0\<rparr> else q)\<lparr>q_UpdatedAt := ck 1\<rparr>"
  let ?f = "\<lambda>tx. if q_ID q = [] then Inl (ErrText ''queue id is required'')
       else let q = (if IsZero (q_CreatedAt q) then q\<lparr>q_CreatedAt := ck 0\<rparr> else q);
                q = q\<lparr>q_UpdatedAt := ck 1\<rparr>
            in bindE (txn_write B s tx (WSet (kQueue (q_ID q)) (QueueJ q))) (\<lambda>tx. Inr (q, tx))"
  have "?f [] = Inr (?q, [WSet (kQueue (q_ID ?q)) (QueueJ ?q)])"
    using assms(5) by (simp add: Let_def txn_write_quiet [OF assms(2)])
  from repo_update_quiet [where f = ?f and cx = cx and s = s, OF assms(1-4) this] show ?thesis
    unfolding SaveQueue_def by blast
qed

lemma GetQueue_quiet:
  assumes "badger_laws B" "badger_quiet B" "repo_ok L (bdata B s)" "cx 0 = None" "cx 1 = None"
  shows "GetQueue B cx s i = (case queues (bdata B s) i of None \<Rightarrow> Inl ErrNotFound | Some q \<Rightarrow> Inr q)"
  using assms repo_ok_queue [OF assms(3), of i]
  by (cases "queues (bdata B s) i") (simp_all add: GetQueue_def repo_view_quiet quiet_get)

section \<open>Walking a prefix\<close>

lemma collect_items_live:
  assumes "badger_laws B" "badger_quiet B"
    and "\<And>k. k \<in> set ks \<Longrightarrow> \<exists>v x. bdata B s k = Some v \<and> dec v = Inr x \<and> f k = x"
  shows "collect_items B live s dec ks = Inr (map f ks)"
  using assms(3)
proof (induction ks)
  case (Cons k ks)
  from Cons.prems [of k] obtain v x where "bdata B s k = Some v" "dec v = Inr x" "f k = x" by auto
  with Cons show ?case by (simp add: quiet_get [OF assms(1,2)])
qed simp

text \<open>
  A table whose rows live under a prefix: walking the prefix returns every row once, in the order of
  the keys.
\<close>

lemma walk_table:
  assumes laws: "badger_laws B" "badger_quiet B"
    and row: "\<And>k v. bdata B s k = Some v \<Longrightarrow> prefix p k \<Longrightarrow> \<exists>x. v = C x \<and> k = g x"
    and dec: "\<And>x. dec (C x) = Inr x"
    and order: "\<And>x y. bdata B s (g x) = Some (C x) \<Longrightarrow> bdata B s (g y) = Some (C y) \<Longrightarrow>
      prefix p (g x) \<Longrightarrow> prefix p (g y) \<Longrightarrow> g x < g y \<Longrightarrow> R x y"
  shows "\<exists>xs. collect_items B live s dec (iter_forward B s [] p) = Inr xs \<and> sorted_wrt R xs \<and>
    set xs = {x. bdata B s (g x) = Some (C x) \<and> prefix p (g x)}"
proof -
  let ?m = "bdata B s"
  let ?ks = "filter (prefix p) (bkeys B s [])"
  define f where "f k = (case dec (the (?m k)) of Inr x \<Rightarrow> x | Inl e \<Rightarrow> undefined)" for k
  have dom: "k \<in> set ?ks \<longleftrightarrow> k \<in> dom ?m \<and> prefix p k" for k
    using badger_keys_set [OF laws(1), of s "[]"] by auto
  have f: "?m k = Some (C (f k)) \<and> k = g (f k) \<and> prefix p k" if k: "k \<in> set ?ks" for k
  proof -
    from k obtain v where v: "?m k = Some v" "prefix p k" using dom by blast
    from row [OF this] obtain x where "v = C x" "k = g x" by blast
    with v dec show ?thesis by (simp add: f_def)
  qed
  have "collect_items B live s dec (iter_forward B s [] p) = Inr (map f ?ks)"
    unfolding iter_forward_filter [OF laws(1)]
    by (rule collect_items_live [OF laws]) (use f dec in blast)
  moreover have "sorted_wrt R (map f ?ks)"
  proof -
    have "sorted_wrt (<) ?ks" using badger_keys_sorted [OF laws(1)] by (rule sorted_wrt_filter)
    then have "sorted_wrt (\<lambda>a b. R (f a) (f b)) ?ks"
      by (rule sorted_wrt_mono_rel [rotated]) (metis f order)
    then show ?thesis by (simp add: sorted_wrt_map)
  qed
  moreover have "set (map f ?ks) = {x. ?m (g x) = Some (C x) \<and> prefix p (g x)}"
  proof (rule equalityI; rule subsetI)
    fix x assume "x \<in> set (map f ?ks)"
    then obtain k where "k \<in> set ?ks" "x = f k" by auto
    with f [of k] show "x \<in> {x. ?m (g x) = Some (C x) \<and> prefix p (g x)}" by simp
  next
    fix x assume "x \<in> {x. ?m (g x) = Some (C x) \<and> prefix p (g x)}"
    then have m: "?m (g x) = Some (C x)" and "prefix p (g x)" by simp_all
    then have k: "g x \<in> set ?ks" using dom by blast
    from f [OF k] m have "C (f (g x)) = C x" by simp
    then have "f (g x) = x" using dec [of x] dec [of "f (g x)"] by simp
    with k show "x \<in> set (map f ?ks)" by (metis image_eqI list.set_map)
  qed
  ultimately show ?thesis by blast
qed

lemma sorted_singleton: "sorted_wrt R xs \<Longrightarrow> set xs = {x} \<Longrightarrow> \<not> R x x \<Longrightarrow> xs = [x]"
  by (cases xs; cases "tl xs") auto

lemma less_append_same: "p @ x < p @ y \<longleftrightarrow> x < (y :: 'a :: linorder list)"
  by (induction p) auto

lemma kQueue_prefix: "prefix pQueue (kQueue i)"
  by (simp add: kQueue_def)

lemma ListQueues_live:
  assumes "badger_laws B" "badger_quiet B" "repo_ok L (bdata B s)"
  shows "\<exists>qs. ListQueues B live s = Inr qs \<and> sorted_wrt (\<lambda>a b. q_ID a < q_ID b) qs \<and>
    set qs = ran (queues (bdata B s))"
proof -
  let ?m = "bdata B s"
  have row: "\<exists>q. v = QueueJ q \<and> k = kQueue (q_ID q)" if "?m k = Some v" "prefix pQueue k" for k v
  proof -
    from that(2) obtain i where "k = kQueue i" by (auto simp: prefix_def kQueue_def)
    with repo_ok_kind [OF assms(3) that(1)] show ?thesis by auto
  qed
  obtain qs where qs: "collect_items B live s decode_queue (iter_forward B s [] pQueue) = Inr qs"
    "sorted_wrt (\<lambda>a b. q_ID a < q_ID b) qs"
    "set qs = {q. ?m (kQueue (q_ID q)) = Some (QueueJ q) \<and> prefix pQueue (kQueue (q_ID q))}"
    using walk_table [where s = s and p = pQueue and C = QueueJ and g = "\<lambda>q. kQueue (q_ID q)"
        and dec = decode_queue and R = "\<lambda>a b. q_ID a < q_ID b", OF assms(1,2) row]
    by (auto simp: less_append_same kQueue_def)
  have "q \<in> set qs \<longleftrightarrow> q \<in> ran (queues ?m)" for q
  proof -
    have "q \<in> set qs \<longleftrightarrow> queues ?m (q_ID q) = Some q"
      using repo_ok_queue [OF assms(3), of "q_ID q"] by (auto simp: qs(3) kQueue_prefix)
    also have "\<dots> \<longleftrightarrow> q \<in> ran (queues ?m)"
      using repo_ok_queue_id [OF assms(3)] by (auto simp: ran_def)
    finally show ?thesis .
  qed
  with qs(1,2) show ?thesis
    by (auto simp: ListQueues_def repo_view_quiet [OF assms(2)])
qed

section \<open>Segments of a download\<close>

text \<open>
  The prefix \<open>s||<id>\<close> under which a download's segments are walked does not end in the separator, so
  it also covers the segments of any download whose id continues \<open><id>\<close>.  \<open>segs_ok\<close> is what holds of
  the store as long as all ids have one length (the service makes them with \<open>uuid.NewString\<close>).
\<close>

definition segs :: "store \<Rightarrow> string \<Rightarrow> int \<rightharpoonup> Segment" where
  "segs m did n = (case m (kSegment did n) of Some (SegmentJ g) \<Rightarrow> Some g | _ \<Rightarrow> None)"

definition segs_ok :: "nat \<Rightarrow> store \<Rightarrow> bool" where
  "segs_ok len m \<longleftrightarrow>
     (\<forall>k g. m k = Some (SegmentJ g) \<longrightarrow>
        length (s_DownloadID g) = len \<and> 0 \<le> s_Index g \<and> s_Index g < 10 ^ 9)"

lemma kSegment_fixed:
  "0 \<le> n \<Longrightarrow> n < 10 ^ 9 \<Longrightarrow> kSegment did n = segment_prefix did @ bar # fixed 9 (nat n)"
  by (simp add: prefix_join_unfold Sprintf_0d_fixed)

lemma segment_prefix_same_length:
  "length a = length b \<Longrightarrow> prefix (segment_prefix a) (kSegment b n) \<longleftrightarrow> a = b"
  by (auto simp: prefix_join_unfold prefix_def append_eq_append_conv2)

lemma kSegment_less:
  assumes "0 \<le> i" "i < 10 ^ 9" "0 \<le> j" "j < 10 ^ 9"
  shows "kSegment did i < kSegment did j \<longleftrightarrow> i < j"
  using assms by (auto simp: kSegment_fixed less_append_same fixed_less)

lemma ListSegments_live:
  assumes "badger_laws B" "badger_quiet B" "repo_ok L (bdata B s)"
    and ok: "segs_ok (length did) (bdata B s)"
  shows "\<exists>gs. ListSegments B live s did = Inr gs \<and> sorted_wrt (\<lambda>a b. s_Index a < s_Index b) gs \<and>
    (\<forall>g. g \<in> set gs \<longleftrightarrow> s_DownloadID g = did \<and> segs (bdata B s) did (s_Index g) = Some g)"
proof -
  let ?m = "bdata B s" and ?key = "\<lambda>g. kSegment (s_DownloadID g) (s_Index g)"
  have kind: "\<exists>g. v = SegmentJ g \<and> k = ?key g" if "?m k = Some v" "prefix (segment_prefix did) k" for k v
    using repo_ok_kind [OF assms(3) that(1)] segment_prefix_family [OF that(2)]
    by (auto simp: kind_ok_def)
  have own: "s_DownloadID g = did \<and> 0 \<le> s_Index g \<and> s_Index g < 10 ^ 9"
    if "?m (?key g) = Some (SegmentJ g)" "prefix (segment_prefix did) (?key g)" for g
  proof -
    from ok that(1) have g: "length (s_DownloadID g) = length did" "0 \<le> s_Index g \<and> s_Index g < 10 ^ 9"
      unfolding segs_ok_def by blast+
    from segment_prefix_same_length [OF g(1) [symmetric]] that(2) have "did = s_DownloadID g" by blast
    with g(2) show ?thesis by blast
  qed
  have order: "s_Index g < s_Index h"
    if "?m (?key g) = Some (SegmentJ g)" "?m (?key h) = Some (SegmentJ h)"
      "prefix (segment_prefix did) (?key g)" "prefix (segment_prefix did) (?key h)" "?key g < ?key h"
    for g h
    using own [OF that(1,3)] own [OF that(2,4)] that(5) by (simp add: kSegment_less)
  obtain gs where gs:
    "collect_items B live s decode_segment (iter_forward B s [] (segment_prefix did)) = Inr gs"
    "sorted_wrt (\<lambda>a b. s_Index a < s_Index b) gs"
    "set gs = {g. ?m (?key g) = Some (SegmentJ g) \<and> prefix (segment_prefix did) (?key g)}"
    using walk_table [where s = s and p = "segment_prefix did" and C = SegmentJ and g = ?key
        and dec = decode_segment and R = "\<lambda>a b. s_Index a < s_Index b",
        OF assms(1,2) kind decode_segment.simps(1) order] by blast
  have "g \<in> set gs \<longleftrightarrow> s_DownloadID g = did \<and> segs ?m did (s_Index g) = Some g" for g
    using own [of g] segment_prefix_same_length [of did did "s_Index g"]
    by (auto simp: gs(3) segs_def split: option.splits dbval.splits)
  with gs(1,2) show ?thesis
    by (auto simp: ListSegments_def repo_view_quiet [OF assms(2)])
qed

lemma UpsertSegment_quiet:
  assumes "badger_laws B" "badger_quiet B" "cx 0 = None" "cx 1 = None" "s_DownloadID g \<noteq> []"
  shows "\<exists>s'. UpsertSegment B cx s g = (Inr (), s') \<and>
    bdata B s' = (bdata B s)(kSegment (s_DownloadID g) (s_Index g) \<mapsto> SegmentJ g)"
proof -
  let ?f = "\<lambda>tx. if s_DownloadID g = [] then Inl (ErrText ''segment download_id is required'')
       else bindE (txn_write B s tx (WSet (kSegment (s_DownloadID g) (s_Index g)) (SegmentJ g)))
              (\<lambda>tx. Inr ((), tx))"
  have "?f [] = Inr ((), [WSet (kSegment (s_DownloadID g) (s_Index g)) (SegmentJ g)])"
    using assms(5) by (simp add: txn_write_quiet [OF assms(2)])
  from repo_update_quiet [where f = ?f and cx = cx and s = s, OF assms(1-4) this] show ?thesis
    unfolding UpsertSegment_def by simp
qed

lemma SaveQueue_keeps:
  assumes "badger_laws B" "badger_quiet B" "repo_ok L (bdata B s)" "SaveQueue B cx ck s q = (Inr q', s')"
  shows "q' = q\<lparr>q_CreatedAt := (if IsZero (q_CreatedAt q) then ck 0 else q_CreatedAt q),
           q_UpdatedAt := ck 1\<rparr>"
    and "queues (bdata B s') = (queues (bdata B s))(q_ID q \<mapsto> q')"
    and "stored (bdata B s') = stored (bdata B s)" and "repo_ok L (bdata B s')"
proof -
  from SaveQueue_net [OF assms(1,4)] have ne: "q_ID q \<noteq> []"
    and q': "q' = q\<lparr>q_CreatedAt := (if IsZero (q_CreatedAt q) then ck 0 else q_CreatedAt q),
      q_UpdatedAt := ck 1\<rparr>"
    and m: "bdata B s' = (bdata B s)(kQueue (q_ID q) \<mapsto> QueueJ q')" by simp_all
  show "repo_ok L (bdata B s')"
    unfolding m by (rule repo_ok_puts(1) [OF assms(3)]) (use ne q' in simp_all)
  from m q' show "q' = q\<lparr>q_CreatedAt := (if IsZero (q_CreatedAt q) then ck 0 else q_CreatedAt q),
      q_UpdatedAt := ck 1\<rparr>" "queues (bdata B s') = (queues (bdata B s))(q_ID q \<mapsto> q')"
    "stored (bdata B s') = stored (bdata B s)" by simp_all
qed

section \<open>Properties\<close>

definition demo_queue :: Queue where
  "demo_queue = zero_Queue\<lparr>q_ID := ''main'', q_Concurrency := 4\<rparr>"

lemma demo_queue_id [simp]: "q_ID demo_queue = ''main''"
  by (simp add: demo_queue_def)

text \<open>
  C23.  Saving a queue and reading it back gives the saved queue (with the creation time filled in when
  it was zero and the update time stamped); no other queue and no download changes, and the
  repository invariant is kept.
\<close>

theorem save_queue_roundtrip:
  assumes "badger_laws B" "badger_quiet B" "repo_ok L (bdata B s)" "cx 0 = None" "cx 1 = None"
    and "SaveQueue B cx ck s q = (Inr q', s')"
  shows "GetQueue B cx s' (q_ID q) = Inr q' \<and>
    q' = q\<lparr>q_CreatedAt := (if IsZero (q_CreatedAt q) then ck 0 else q_CreatedAt q),
           q_UpdatedAt := ck 1\<rparr> \<and>
    queues (bdata B s') = (queues (bdata B s))(q_ID q \<mapsto> q') \<and>
    stored (bdata B s') = stored (bdata B s) \<and> repo_ok L (bdata B s')"
proof -
  from SaveQueue_keeps [OF assms(1-3,6)] have r: ?thesis if "GetQueue B cx s' (q_ID q) = Inr q'"
    using that by simp
  from SaveQueue_keeps [OF assms(1-3,6)] have "repo_ok L (bdata B s')" "queues (bdata B s') (q_ID q) = Some q'"
    by simp_all
  with GetQueue_quiet [where cx = cx, OF assms(1,2) _ assms(4,5)] show ?thesis
    by (intro r) simp
qed

theorem save_queue_roundtrip_witness:
  "\<exists>q' s'. SaveQueue mem_badger live demo_clock demo_store demo_queue = (Inr q', s') \<and>
     GetQueue mem_badger live s' ''main'' = Inr q' \<and> q_Concurrency q' = 4 \<and>
     stored (bdata mem_badger s') = [''a1'' \<mapsto> created demo_clock demo_download]"
proof -
  obtain q' s' where r: "SaveQueue mem_badger live demo_clock demo_store demo_queue = (Inr q', s')"
    using SaveQueue_quiet [OF mem_badger_laws mem_badger_quiet, of live demo_queue demo_clock demo_store]
    by auto
  from save_queue_roundtrip [OF mem_badger_laws mem_badger_quiet
      demo_repo_ok [folded mem_badger_sel(1)] _ _ r] r show ?thesis
    by (auto simp: demo_stored demo_queue_def)
qed

text \<open>Listing the queues returns every stored queue exactly once, in the byte order of their ids.\<close>

lemma list_queues_complete:
  assumes "badger_laws B" "badger_quiet B" "repo_ok L (bdata B s)"
  shows "\<exists>qs. ListQueues B live s = Inr qs \<and> sorted_wrt (\<lambda>a b. q_ID a < q_ID b) qs \<and>
    set qs = ran (queues (bdata B s))"
  by (rule ListQueues_live [OF assms])

lemma list_queues_complete_witness:
  "\<exists>q' s'. SaveQueue mem_badger live demo_clock demo_store demo_queue = (Inr q', s') \<and>
     ListQueues mem_badger live s' = Inr [q']"
proof -
  obtain q' s' where r: "SaveQueue mem_badger live demo_clock demo_store demo_queue = (Inr q', s')"
    using SaveQueue_quiet [OF mem_badger_laws mem_badger_quiet, of live demo_queue demo_clock demo_store]
    by auto
  from SaveQueue_net [OF mem_badger_laws r]
  have m: "bdata mem_badger s' = (bdata mem_badger demo_store)(kQueue ''main'' \<mapsto> QueueJ q')"
    and id: "q_ID q' = ''main''" by simp_all
  have "queues (map_of demo_store) = Map.empty"
    unfolding demo_net by (simp add: fun_eq_iff queues_def put_store_untouched)
  then have "queues (bdata mem_badger s') = [''main'' \<mapsto> q']" unfolding m by simp
  moreover have "repo_ok basic_lib (bdata mem_badger s')"
    unfolding m unfolding mem_badger_sel(1) by (rule repo_ok_puts(1) [OF demo_repo_ok id]) simp
  from list_queues_complete [OF mem_badger_laws mem_badger_quiet this] obtain qs where
    qs: "ListQueues mem_badger live s' = Inr qs" "sorted_wrt (\<lambda>a b. q_ID a < q_ID b) qs"
    "set qs = ran (queues (bdata mem_badger s'))" by blast
  ultimately have "set qs = {q'}" by simp
  with qs(2) have "qs = [q']" by (rule sorted_singleton) simp
  with qs(1) r show ?thesis by auto
qed

text \<open>
  As long as all download ids have one length, the segments listed for a download are exactly
  those stored for it, in the order of their indices.
\<close>

lemma list_segments_complete:
  assumes "badger_laws B" "badger_quiet B" "repo_ok L (bdata B s)"
    and "segs_ok (length did) (bdata B s)"
  shows "\<exists>gs. ListSegments B live s did = Inr gs \<and> sorted_wrt (\<lambda>a b. s_Index a < s_Index b) gs \<and>
    (\<forall>g. g \<in> set gs \<longleftrightarrow> s_DownloadID g = did \<and> segs (bdata B s) did (s_Index g) = Some g)"
  by (rule ListSegments_live [OF assms])

definition demo_segment :: "int \<Rightarrow> Segment" where
  "demo_segment n = zero_Segment\<lparr>s_DownloadID := ''a1'', s_Index := n, s_Status := SegmentCompleted\<rparr>"

lemma demo_segment_sel [simp]: "s_DownloadID (demo_segment n) = ''a1''" "s_Index (demo_segment n) = n"
  by (simp_all add: demo_segment_def)

lemma demo_store_segs: "segs_ok len (map_of demo_store)" "segs (map_of demo_store) did n = None"
  unfolding demo_net
  by (auto simp: segs_ok_def segs_def put_store_def old_index_def split: if_splits)

lemma list_segments_complete_witness:
  "\<exists>s'. UpsertSegment mem_badger live demo_store (demo_segment 3) = (Inr (), s') \<and>
     ListSegments mem_badger live s' ''a1'' = Inr [demo_segment 3]"
proof -
  let ?m = "(map_of demo_store)(kSegment ''a1'' 3 \<mapsto> SegmentJ (demo_segment 3))"
  obtain s' where u: "UpsertSegment mem_badger live demo_store (demo_segment 3) = (Inr (), s')"
    and m: "map_of s' = ?m"
    using UpsertSegment_quiet [OF mem_badger_laws mem_badger_quiet, of live "demo_segment 3" demo_store]
    by auto
  have ok: "repo_ok basic_lib (bdata mem_badger s')"
    unfolding mem_badger_sel(1) m using repo_ok_puts(3) [OF demo_repo_ok, of "demo_segment 3"] by simp
  have sok: "segs_ok (length ''a1'') (bdata mem_badger s')"
    unfolding mem_badger_sel(1) m using demo_store_segs(1) [of 2] by (auto simp: segs_ok_def)
  have rows: "segs (bdata mem_badger s') ''a1'' (s_Index g) = Some g \<longleftrightarrow> g = demo_segment 3" for g
    using demo_store_segs(2) [of "''a1''" "s_Index g"]
    by (cases "kSegment ''a1'' (s_Index g) = kSegment ''a1'' 3") (auto simp: m segs_def)
  from list_segments_complete [OF mem_badger_laws mem_badger_quiet ok sok] obtain gs where
    gs: "ListSegments mem_badger live s' ''a1'' = Inr gs" "sorted_wrt (\<lambda>a b. s_Index a < s_Index b) gs"
    "\<forall>g. g \<in> set gs \<longleftrightarrow> s_DownloadID g = ''a1'' \<and> segs (bdata mem_badger s') ''a1'' (s_Index g) = Some g"
    by blast
  from gs(3) rows have "set gs = {demo_segment 3}" by auto
  with gs(2) have "gs = [demo_segment 3]" by (rule sorted_singleton) simp
  with u gs(1) show ?thesis by auto
qed

end
