(* ===== verification/Repo_List.thy ===== *)
theory Repo_List
  imports Repo_Queues
begin

text \<open>
  Listing and counting downloads (\<open>listDownloadsTxn\<close>, \<open>ListDownloads\<close> and \<open>CountDownloads\<close> of
  \<open>internal/repository/repository.go\<close>): the choice of the index to walk, the in-memory filters, the
  loop with its offset and limit, and the ordering afterwards.  The specification is the set of
  stored downloads that match; \<open>hits\<close> is the list in which the walk meets them.
\<close>

section \<open>Filters\<close>

definition queue_filter :: "ListDownloadsOptions \<Rightarrow> Download \<Rightarrow> bool" where
  "queue_filter opt d = (o_QueueIDs opt \<noteq> [] \<longrightarrow> list_ex (\<lambda>q. d_QueueID d = q) (o_QueueIDs opt))"

definition status_filter :: "ListDownloadsOptions \<Rightarrow> Download \<Rightarrow> bool" where
  "status_filter opt d = (o_Statuses opt \<noteq> [] \<longrightarrow> list_ex (\<lambda>st. d_Status d = st) (o_Statuses opt))"

definition tag_filter :: "stdlib \<Rightarrow> ListDownloadsOptions \<Rightarrow> Download \<Rightarrow> bool" where
  "tag_filter L opt d =
     (o_Tags opt \<noteq> [] \<longrightarrow>
        list_ex (\<lambda>t. list_ex (\<lambda>dt. EqualFold (lib_fold L) dt t) (d_Tags d)) (o_Tags opt))"

definition search_filter :: "stdlib \<Rightarrow> ListDownloadsOptions \<Rightarrow> Download \<Rightarrow> bool" where
  "search_filter L opt d =
     (o_Search opt \<noteq> [] \<longrightarrow>
        (let q = ToLower (lib_lower L) (o_Search opt);
             candidate = (case d_File d of None \<Rightarrow> d_URL d
                          | Some f \<Rightarrow> d_URL d @ ''|'' @ f_Filename f)
         in contains (ToLower (lib_lower L) candidate) q))"

definition created_filter :: "ListDownloadsOptions \<Rightarrow> Download \<Rightarrow> bool" where
  "created_filter opt d =
     ((case o_CreatedAfter opt of None \<Rightarrow> True | Some t \<Rightarrow> \<not> d_CreatedAt d < t) \<and>
      (case o_CreatedBefore opt of None \<Rightarrow> True | Some t \<Rightarrow> \<not> t < d_CreatedAt d))"

definition matches :: "stdlib \<Rightarrow> ListDownloadsOptions \<Rightarrow> Download \<Rightarrow> bool" where
  "matches L opt d \<longleftrightarrow>
     queue_filter opt d \<and> status_filter opt d \<and> tag_filter L opt d \<and> search_filter L opt d \<and>
     created_filter opt d"

section \<open>Listing\<close>

definition list_prefix :: "ListDownloadsOptions \<Rightarrow> key" where
  "list_prefix opt =
     (if length (o_QueueIDs opt) = 1
      then butlast (join_with bar [pDownloadByQueue, hd (o_QueueIDs opt), []])
      else if length (o_Statuses opt) = 1
      then butlast (join_with bar [pDownloadByStatus, hd (o_Statuses opt), []])
      else pDownloadByCreatedAt)"

definition fetch ::
    "'s badger \<Rightarrow> stdlib \<Rightarrow> 's \<Rightarrow> wr list \<Rightarrow> ListDownloadsOptions \<Rightarrow> string \<Rightarrow> Download option res" where
  "fetch B L s tx opt did =
     bindE (bget B s tx (kDownload did)) (\<lambda>v. bindE (decode_download v) (\<lambda>d.
       Inr (if matches L opt d then Some d else None)))"

fun list_loop ::
    "'s badger \<Rightarrow> stdlib \<Rightarrow> gctx \<Rightarrow> 's \<Rightarrow> wr list \<Rightarrow> ListDownloadsOptions \<Rightarrow> int \<Rightarrow> int \<Rightarrow> key list \<Rightarrow>
       Download list res" where
  "list_loop B L cx s tx opt discard collect [] = Inr []"
| "list_loop B L cx s tx opt discard collect (k # ks) =
     (case cx 0 of Some e \<Rightarrow> Inl e
      | None \<Rightarrow> (case fetch B L s tx opt (key_id k) of
          Inl e \<Rightarrow> (if e = ErrKeyNotFound then list_loop B L (skip 1 cx) s tx opt discard collect ks
                   else Inl e)
        | Inr None \<Rightarrow> list_loop B L (skip 1 cx) s tx opt discard collect ks
        | Inr (Some d) \<Rightarrow>
            if 0 < discard then list_loop B L (skip 1 cx) s tx opt (discard - 1) collect ks
            else let collect = (if 0 < collect then collect - 1 else collect)
                 in if collect = 0 then Inr [d]
                    else bindE (list_loop B L (skip 1 cx) s tx opt discard collect ks)
                           (\<lambda>ds. Inr (d # ds))))"

definition created_less :: "bool \<Rightarrow> Download \<Rightarrow> Download \<Rightarrow> bool" where
  "created_less desc a b =
     (if desc then d_CreatedAt b < d_CreatedAt a else d_CreatedAt a < d_CreatedAt b)"

definition priority_less :: "bool \<Rightarrow> Download \<Rightarrow> Download \<Rightarrow> bool" where
  "priority_less desc a b =
     (if desc
      then if d_Priority a = d_Priority b then d_CreatedAt b < d_CreatedAt a
           else d_Priority b < d_Priority a
      else if d_Priority a = d_Priority b then d_CreatedAt a < d_CreatedAt b
           else d_Priority a < d_Priority b)"

definition sort_result :: "stdlib \<Rightarrow> ListDownloadsOptions \<Rightarrow> Download list \<Rightarrow> Download list" where
  "sort_result L opt ds =
     (if o_OrderBy opt = ''created_at'' \<or> o_OrderBy opt = []
      then lib_sort L (created_less (o_OrderDesc opt)) ds
      else if o_OrderBy opt = ''priority'' then lib_sort L (priority_less (o_OrderDesc opt)) ds
      else ds)"

definition list_keys :: "'s badger \<Rightarrow> 's \<Rightarrow> wr list \<Rightarrow> ListDownloadsOptions \<Rightarrow> key list" where
  "list_keys B s tx opt =
     (if o_OrderDesc opt then iter_reverse B s tx (list_prefix opt)
      else iter_forward B s tx (list_prefix opt))"

definition listDownloadsTxn ::
    "'s badger \<Rightarrow> stdlib \<Rightarrow> gctx \<Rightarrow> 's \<Rightarrow> wr list \<Rightarrow> ListDownloadsOptions \<Rightarrow> int \<Rightarrow> int \<Rightarrow>
       Download list res" where
  "listDownloadsTxn B L cx s tx opt limit offset =
     bindE (list_loop B L cx s tx opt offset limit (list_keys B s tx opt))
       (\<lambda>ds. Inr (sort_result L opt ds))"

definition ListDownloads ::
    "'s badger \<Rightarrow> stdlib \<Rightarrow> gctx \<Rightarrow> 's \<Rightarrow> ListDownloadsOptions \<Rightarrow> int \<Rightarrow> int \<Rightarrow> Download list res" where
  "ListDownloads B L cx s opt limit offset =
     repo_view B cx s (listDownloadsTxn B L (skip 2 cx) s [] opt limit offset)"

section \<open>Counting\<close>

text \<open>A key whose download cannot be read or decoded is passed over.\<close>

fun count_loop ::
    "'s badger \<Rightarrow> stdlib \<Rightarrow> gctx \<Rightarrow> 's \<Rightarrow> ListDownloadsOptions \<Rightarrow> int \<Rightarrow> key list \<Rightarrow> int res" where
  "count_loop B L cx s opt n [] = Inr n"
| "count_loop B L cx s opt n (k # ks) =
     (case cx 0 of Some e \<Rightarrow> Inl e
      | None \<Rightarrow> (case bindE (bget B s [] (kDownload (key_id k))) decode_download of
          Inl e \<Rightarrow> count_loop B L (skip 1 cx) s opt n ks
        | Inr d \<Rightarrow> count_loop B L (skip 1 cx) s opt (if matches L opt d then n + 1 else n) ks))"

definition CountDownloads ::
    "'s badger \<Rightarrow> stdlib \<Rightarrow> gctx \<Rightarrow> 's \<Rightarrow> ListDownloadsOptions \<Rightarrow> int res" where
  "CountDownloads B L cx s opt =
     repo_view B cx s
       (count_loop B L (skip 2 cx) s opt 0 (iter_forward B s [] (list_prefix opt)))"

section \<open>The loop as a page of the hits\<close>

text \<open>What the counters \<open>discard\<close> and \<open>collect\<close> select; a limit of zero lets one download through.\<close>

definition page :: "int \<Rightarrow> int \<Rightarrow> 'a list \<Rightarrow> 'a list" where
  "page limit offset xs =
     (let r = drop (nat offset) xs
      in if limit < 0 then r else if limit = 0 then take 1 r else take (nat limit) r)"

lemma page_Nil [simp]: "page limit offset [] = []"
  by (simp add: page_def)

lemma page_Cons:
  "page limit offset (x # xs) =
     (if 0 < offset then page limit (offset - 1) xs
      else if limit = 0 \<or> limit = 1 then [x]
      else x # page (if 0 < limit then limit - 1 else limit) offset xs)"
proof (cases "0 < offset")
  case True
  then have "nat offset = Suc (nat (offset - 1))" by simp
  with True show ?thesis by (simp add: page_def)
next
  case False
  then have [simp]: "nat offset = 0" by simp
  have "nat limit = Suc (nat (limit - 1))" if "0 < limit" using that by simp
  with False show ?thesis by (auto simp: page_def Let_def)
qed

definition row :: "store \<Rightarrow> key \<Rightarrow> Download" where
  "row m k = the (stored m (key_id k))"

lemma fetch_quiet:
  assumes "badger_laws B" "badger_quiet B" "repo_ok L (txview B s tx)"
    and "stored (txview B s tx) i = Some d"
  shows "fetch B L s tx opt i = Inr (if matches L opt d then Some d else None)"
  using repo_ok_get [OF assms(3), of i] assms(4)
  by (simp add: fetch_def quiet_get [OF assms(1,2)])

lemma list_loop_live:
  assumes "badger_laws B" "badger_quiet B" "repo_ok L (txview B s tx)"
    and "\<And>k. k \<in> set ks \<Longrightarrow> stored (txview B s tx) (key_id k) \<noteq> None"
  shows "list_loop B L live s tx opt offset limit ks =
    Inr (page limit offset (filter (matches L opt) (map (row (txview B s tx)) ks)))"
  using assms(4)
proof (induction ks arbitrary: offset limit)
  case (Cons k ks)
  from Cons.prems [of k] obtain d where d: "stored (txview B s tx) (key_id k) = Some d" by auto
  then have "row (txview B s tx) k = d" by (simp add: row_def)
  with Cons fetch_quiet [OF assms(1-3) d, of opt] show ?case
    by (auto simp: page_Cons Let_def)
qed simp

lemma count_loop_live:
  assumes "badger_laws B" "badger_quiet B" "repo_ok L (bdata B s)"
    and "\<And>k. k \<in> set ks \<Longrightarrow> stored (bdata B s) (key_id k) \<noteq> None"
  shows "count_loop B L live s opt n ks =
    Inr (n + int (length (filter (matches L opt) (map (row (bdata B s)) ks))))"
  using assms(4)
proof (induction ks arbitrary: n)
  case (Cons k ks)
  from Cons.prems [of k] obtain d where d: "stored (bdata B s) (key_id k) = Some d" by auto
  with Cons repo_ok_get [OF assms(3), of "key_id k"] show ?case
    by (simp add: quiet_get [OF assms(1,2)] row_def)
qed simp

section \<open>Walking backwards\<close>

lemma less_prefix_extend:
  fixes p :: "'a :: linorder list"
  shows "\<not> p @ [c] < k \<Longrightarrow> \<not> prefix p k \<Longrightarrow> k < p"
proof (induction p arbitrary: k)
  case (Cons x p)
  then show ?case by (cases k) auto
qed simp

lemma iterate_prefix_reverse:
  fixes p :: "'a :: linorder list"
  assumes "sorted_wrt (\<lambda>a b. b < a) ks"
  shows "takeWhile (prefix p) (dropWhile (\<lambda>k. p @ [c] < k) ks) =
    filter (\<lambda>k. prefix p k \<and> \<not> p @ [c] < k) ks"
  using assms
proof (induction ks)
  case (Cons k ks)
  have tail: "takeWhile (prefix p) ls = filter (\<lambda>k. prefix p k \<and> \<not> p @ [c] < k) ls"
    if "sorted_wrt (\<lambda>a b. b < a) ls" "\<forall>l \<in> set ls. \<not> p @ [c] < l" for ls
    using that
  proof (induction ls)
    case (Cons l ls)
    show ?case
    proof (cases "prefix p l")
      case False
      with Cons.prems have "l < p" by (simp add: less_prefix_extend [of p c l])
      with Cons.prems have "\<forall>l' \<in> set ls. \<not> prefix p l'"
        by (metis order.strict_trans prefix_not_less sorted_wrt.simps(2))
      with False show ?thesis by (auto simp: filter_empty_conv)
    qed (use Cons in simp)
  qed simp
  show ?case
  proof (cases "p @ [c] < k")
    case True
    with Cons show ?thesis by simp
  next
    case False
    with Cons.prems have "\<forall>l \<in> set (k # ks). \<not> p @ [c] < l"
      by (auto dest: order.strict_trans)
    with tail [OF Cons.prems] False show ?thesis by simp
  qed
qed simp

lemma iter_reverse_filter:
  assumes "badger_laws B"
  shows "iter_reverse B s tx p =
    filter (\<lambda>k. prefix p k \<and> \<not> p @ [CHR 0xFF] < k) (rev (bkeys B s tx))"
proof -
  have "sorted_wrt (\<lambda>a b. b < a) (rev (bkeys B s tx))"
    using badger_keys_sorted [OF assms] by (simp add: sorted_wrt_rev)
  from iterate_prefix_reverse [OF this] show ?thesis by (simp add: iter_reverse_def)
qed

section \<open>The hits\<close>

text \<open>The index entry under which a walk meets a matching download.\<close>

definition walk_key :: "ListDownloadsOptions \<Rightarrow> Download \<Rightarrow> key" where
  "walk_key opt d =
     (if length (o_QueueIDs opt) = 1 then kDownloadByQueue 0 (d_QueueID d) (d_CreatedAt d) (d_ID d)
      else if length (o_Statuses opt) = 1
      then kDownloadByStatus 0 (d_Status d) (d_CreatedAt d) (d_ID d)
      else kDownloadByCreatedAt 0 (d_CreatedAt d) (d_ID d))"

text \<open>An empty name as the only queue or status selects an index without the unnamed downloads.\<close>

definition opts_ok :: "ListDownloadsOptions \<Rightarrow> bool" where
  "opts_ok opt \<longleftrightarrow> [] \<notin> set (o_QueueIDs opt) \<and> [] \<notin> set (o_Statuses opt)"

definition matching :: "stdlib \<Rightarrow> ListDownloadsOptions \<Rightarrow> store \<Rightarrow> Download set" where
  "matching L opt m = {d. stored m (d_ID d) = Some d \<and> matches L opt d}"

definition hits :: "'s badger \<Rightarrow> stdlib \<Rightarrow> 's \<Rightarrow> wr list \<Rightarrow> ListDownloadsOptions \<Rightarrow> Download list" where
  "hits B L s tx opt =
     filter (matches L opt) (map (row (txview B s tx)) (list_keys B s tx opt))"

lemma list_prefix_unfold:
  "list_prefix opt =
     (if length (o_QueueIDs opt) = 1 then ''dq||'' @ hd (o_QueueIDs opt)
      else if length (o_Statuses opt) = 1 then ''dst||'' @ hd (o_Statuses opt)
      else ''dca|'')"
  by (simp add: list_prefix_def prefix_defs bar_def butlast_append)

lemma single_filters:
  "queue_filter opt d \<Longrightarrow> length (o_QueueIDs opt) = 1 \<Longrightarrow> hd (o_QueueIDs opt) = d_QueueID d"
  "status_filter opt d \<Longrightarrow> length (o_Statuses opt) = 1 \<Longrightarrow> hd (o_Statuses opt) = d_Status d"
  by (auto simp: queue_filter_def status_filter_def length_Suc_conv)

lemma bar_less_FF: "\<not> p @ [CHR 0xFF] < p @ bar # k"
  by (simp add: append_less_same_length bar_def)

lemma walk_key_prefix:
  assumes "matches L opt d"
  shows "prefix (list_prefix opt) (walk_key opt d)"
    and "\<not> list_prefix opt @ [CHR 0xFF] < walk_key opt d"
proof -
  have "\<exists>k. walk_key opt d = list_prefix opt @ bar # k"
    using single_filters [of opt d] assms
    by (auto simp: matches_def walk_key_def list_prefix_unfold prefix_join_unfold) (simp add: bar_def)
  then show "prefix (list_prefix opt) (walk_key opt d)"
    and "\<not> list_prefix opt @ [CHR 0xFF] < walk_key opt d"
    using bar_less_FF [of "list_prefix opt"] by auto
qed

lemma walk_key_index:
  assumes "matches L opt d" "opts_ok opt"
  shows "walk_key opt d \<in> set (index_keys L d)"
proof -
  have "d_QueueID d \<noteq> []" if "length (o_QueueIDs opt) = 1"
    using single_filters(1) [of opt d] assms that
    by (auto simp: matches_def opts_ok_def length_Suc_conv)
  moreover have "d_Status d \<noteq> []" if "length (o_Statuses opt) = 1"
    using single_filters(2) [of opt d] assms that
    by (auto simp: matches_def opts_ok_def length_Suc_conv)
  ultimately show ?thesis by (simp add: walk_key_def index_keys_def)
qed

lemma index_keys_family:
  assumes "k \<in> set (index_keys L d)"
  shows "key_family k = FCreated \<Longrightarrow> k = kDownloadByCreatedAt 0 (d_CreatedAt d) (d_ID d)"
    and "key_family k = FStatus \<Longrightarrow> k = kDownloadByStatus 0 (d_Status d) (d_CreatedAt d) (d_ID d)"
    and "key_family k = FQueueIx \<Longrightarrow> k = kDownloadByQueue 0 (d_QueueID d) (d_CreatedAt d) (d_ID d)"
  using assms by (auto simp: index_keys_def tag_keys_def split: if_splits)

lemma list_prefix_family:
  assumes "prefix (list_prefix opt) k"
  shows "key_family k =
    (if length (o_QueueIDs opt) = 1 then FQueueIx
     else if length (o_Statuses opt) = 1 then FStatus else FCreated)"
proof -
  from assms obtain z where k: "k = list_prefix opt @ z" by (auto simp: prefix_def)
  show ?thesis unfolding k list_prefix_unfold by (simp add: key_family.simps)
qed

lemma walk_row:
  assumes "repo_ok L m" "k \<in> dom m" "prefix (list_prefix opt) k"
  shows "\<exists>d. stored m (key_id k) = Some d \<and> d_ID d = key_id k \<and> k = walk_key opt d"
proof -
  have fam: "key_family k =
    (if length (o_QueueIDs opt) = 1 then FQueueIx
     else if length (o_Statuses opt) = 1 then FStatus else FCreated)"
    by (rule list_prefix_family [OF assms(3)])
  then have ix: "is_index k" by (auto simp: is_index_def)
  with repo_ok_index [OF assms(1)] assms(2) obtain i d where
    d: "stored m i = Some d" "k \<in> set (index_keys L d)" by (auto simp: indexed_def)
  with repo_ok_valid [OF assms(1) d(1)] index_keys_id [OF _ d(2)]
  have "d_ID d = i" "key_id k = i" by (simp_all add: valid_download_def)
  with d index_keys_family [OF d(2)] fam show ?thesis
    by (auto simp: walk_key_def split: if_splits)
qed

lemma list_keys_mem:
  assumes "badger_laws B"
  shows "k \<in> set (list_keys B s tx opt) \<Longrightarrow>
      k \<in> dom (txview B s tx) \<and> prefix (list_prefix opt) k"
    and "k \<in> dom (txview B s tx) \<Longrightarrow> prefix (list_prefix opt) k \<Longrightarrow>
      \<not> list_prefix opt @ [CHR 0xFF] < k \<Longrightarrow> k \<in> set (list_keys B s tx opt)"
  using badger_keys_set [OF assms, of s tx]
  by (auto simp: list_keys_def iter_reverse_filter [OF assms] iter_forward_filter [OF assms]
      split: if_splits)

lemma list_keys_sorted:
  assumes "badger_laws B"
  shows "sorted_wrt (\<lambda>a b. if o_OrderDesc opt then b < a else a < b) (list_keys B s tx opt)"
  using badger_keys_sorted [OF assms, of s tx]
  by (simp add: list_keys_def iter_reverse_filter [OF assms] iter_forward_filter [OF assms]
      sorted_wrt_filter sorted_wrt_rev)

lemma set_hits:
  assumes "badger_laws B" "repo_ok L (txview B s tx)" "opts_ok opt"
  shows "set (hits B L s tx opt) = matching L opt (txview B s tx)"
proof (rule set_eqI)
  fix d
  let ?m = "txview B s tx"
  show "d \<in> set (hits B L s tx opt) \<longleftrightarrow> d \<in> matching L opt ?m"
  proof
    assume "d \<in> set (hits B L s tx opt)"
    then obtain k where k: "k \<in> set (list_keys B s tx opt)" "d = row ?m k" "matches L opt d"
      by (auto simp: hits_def)
    from walk_row [OF assms(2)] list_keys_mem(1) [OF assms(1) k(1)] obtain d' where
      "stored ?m (key_id k) = Some d'" "d_ID d' = key_id k" by blast
    with k show "d \<in> matching L opt ?m" by (simp add: matching_def row_def)
  next
    assume d: "d \<in> matching L opt ?m"
    then have st: "stored ?m (d_ID d) = Some d" and mt: "matches L opt d"
      by (simp_all add: matching_def)
    let ?k = "walk_key opt d"
    have ix: "?k \<in> set (index_keys L d)" by (rule walk_key_index [OF mt assms(3)])
    then have "?k \<in> dom ?m"
      using repo_ok_index [OF assms(2) index_keys_is_index [OF ix]] st by (auto simp: indexed_def)
    with list_keys_mem(2) [OF assms(1)] walk_key_prefix [OF mt]
    have "?k \<in> set (list_keys B s tx opt)" by blast
    moreover have "row ?m ?k = d"
      using index_keys_id [OF _ ix] repo_ok_valid [OF assms(2) st] st
      by (simp add: row_def valid_download_def)
    ultimately show "d \<in> set (hits B L s tx opt)" using mt by (force simp: hits_def)
  qed
qed

lemma hits_sorted:
  assumes "badger_laws B" "repo_ok L (txview B s tx)"
  shows "sorted_wrt (\<lambda>a b. if o_OrderDesc opt then walk_key opt b < walk_key opt a
    else walk_key opt a < walk_key opt b) (hits B L s tx opt)"
proof -
  let ?m = "txview B s tx"
  have "walk_key opt (row ?m k) = k" if "k \<in> set (list_keys B s tx opt)" for k
    using walk_row [OF assms(2)] list_keys_mem(1) [OF assms(1) that] by (fastforce simp: row_def)
  then have "sorted_wrt (\<lambda>a b. if o_OrderDesc opt then walk_key opt (row ?m b) < walk_key opt (row ?m a)
    else walk_key opt (row ?m a) < walk_key opt (row ?m b)) (list_keys B s tx opt)"
    using sorted_wrt_mono_rel [OF _ list_keys_sorted [OF assms(1), of opt s tx]] by fastforce
  then show ?thesis unfolding hits_def by (simp add: sorted_wrt_filter sorted_wrt_map)
qed

lemma distinct_hits:
  assumes "badger_laws B" "repo_ok L (txview B s tx)"
  shows "distinct (hits B L s tx opt)"
proof -
  have "distinct xs" if "sorted_wrt (\<lambda>a b. if c then W b < W a else W a < W b) xs"
    for c and W :: "Download \<Rightarrow> key" and xs
    using that by (induction xs) (auto split: if_splits)
  with hits_sorted [OF assms] show ?thesis by blast
qed

text \<open>
  Instants that the keys order chronologically: from 1970 on and within the range of \<open>UnixNano\<close>.
\<close>

definition times_ok :: "store \<Rightarrow> bool" where
  "times_ok m \<longleftrightarrow> (\<forall>i d. stored m i = Some d \<longrightarrow> 0 \<le> d_CreatedAt d \<and> in64 (d_CreatedAt d))"

lemma walk_key_order:
  assumes "matches L opt a" "matches L opt b" "0 \<le> d_CreatedAt a" "in64 (d_CreatedAt a)"
    "0 \<le> d_CreatedAt b" "in64 (d_CreatedAt b)"
  shows "walk_key opt a < walk_key opt b \<longleftrightarrow>
    d_CreatedAt a < d_CreatedAt b \<or> d_CreatedAt a = d_CreatedAt b \<and> d_ID a < d_ID b"
  using single_filters [of opt a] single_filters [of opt b] assms
  by (auto simp: walk_key_def matches_def prefix_join_unfold less_append_same
      append_less_same_length length_timeToKey timeToKey_less timeToKey_inj)

lemma hits_chronological:
  assumes "badger_laws B" "repo_ok L (txview B s tx)" "opts_ok opt" "times_ok (txview B s tx)"
  shows "sorted_wrt (\<lambda>a b. \<not> created_less (o_OrderDesc opt) b a) (hits B L s tx opt)"
proof -
  have "a \<in> set (hits B L s tx opt) \<Longrightarrow>
      matches L opt a \<and> 0 \<le> d_CreatedAt a \<and> in64 (d_CreatedAt a)" for a
    using assms(4) unfolding set_hits [OF assms(1-3)] times_ok_def matching_def by blast
  then have "walk_key opt a < walk_key opt b \<Longrightarrow> \<not> d_CreatedAt b < d_CreatedAt a"
    if "a \<in> set (hits B L s tx opt)" "b \<in> set (hits B L s tx opt)" for a b
    using that walk_key_order [of L opt a b] by fastforce
  then show ?thesis
    by (intro sorted_wrt_mono_rel [OF _ hits_sorted [OF assms(1,2)]])
      (auto simp: created_less_def split: if_splits)
qed

section \<open>The ordering of the result\<close>

lemma strict_weak_created [simp]: "strict_weak (created_less desc)"
  by (auto simp: strict_weak_def created_less_def)

lemma strict_weak_priority [simp]: "strict_weak (priority_less desc)"
  by (auto simp: strict_weak_def priority_less_def split: if_splits)

lemma mset_sort_result [simp]: "sort_contract L \<Longrightarrow> mset (sort_result L opt ds) = mset ds"
  by (simp add: sort_result_def sort_contract_def)

lemma set_sort_result [simp]: "sort_contract L \<Longrightarrow> set (sort_result L opt ds) = set ds"
  by (metis mset_sort_result set_mset_mset)

lemma length_sort_result [simp]: "sort_contract L \<Longrightarrow> length (sort_result L opt ds) = length ds"
  by (metis mset_sort_result size_mset)

lemma distinct_sort_result [simp]: "sort_contract L \<Longrightarrow> distinct (sort_result L opt ds) = distinct ds"
  by (metis mset_sort_result mset_eq_imp_distinct_iff)

definition ordered :: "ListDownloadsOptions \<Rightarrow> Download list \<Rightarrow> bool" where
  "ordered opt ds \<longleftrightarrow>
     (if o_OrderBy opt = ''created_at'' \<or> o_OrderBy opt = []
      then sorted_wrt (\<lambda>a b. \<not> created_less (o_OrderDesc opt) b a) ds
      else if o_OrderBy opt = ''priority''
      then sorted_wrt (\<lambda>a b. \<not> priority_less (o_OrderDesc opt) b a) ds else True)"

lemma ordered_sort_result: "sort_contract L \<Longrightarrow> ordered opt (sort_result L opt ds)"
  by (simp add: ordered_def sort_result_def sort_contract_def)

lemma listDownloadsTxn_live:
  assumes "badger_laws B" "badger_quiet B" "repo_ok L (txview B s tx)"
  shows "listDownloadsTxn B L live s tx opt limit offset =
    Inr (sort_result L opt (page limit offset (hits B L s tx opt)))"
proof -
  have "list_loop B L live s tx opt offset limit (list_keys B s tx opt) =
      Inr (page limit offset (hits B L s tx opt))"
    unfolding hits_def
    by (rule list_loop_live [OF assms]) (use walk_row [OF assms(3)] list_keys_mem(1) [OF assms(1)] in fastforce)
  then show ?thesis by (simp add: listDownloadsTxn_def)
qed

lemma ListDownloads_live:
  assumes "badger_laws B" "badger_quiet B" "repo_ok L (bdata B s)"
  shows "ListDownloads B L live s opt limit offset =
    Inr (sort_result L opt (page limit offset (hits B L s [] opt)))"
  using listDownloadsTxn_live [OF assms(1,2), of L s "[]"] assms(3)
  by (simp add: ListDownloads_def repo_view_quiet [OF assms(2)])

lemma card_hits:
  assumes "badger_laws B" "repo_ok L (bdata B s)" "opts_ok opt"
  shows "length (hits B L s [] opt) = card (matching L opt (bdata B s))"
  using set_hits [OF assms(1), of L s "[]" opt] distinct_hits [OF assms(1), of L s "[]" opt] assms
  by (simp add: distinct_card [symmetric])

text \<open>The forward walk meets the same downloads, so the count is the number of matching downloads.\<close>

lemma CountDownloads_live:
  assumes "badger_laws B" "badger_quiet B" "repo_ok L (bdata B s)" "opts_ok opt"
  shows "CountDownloads B L live s opt = Inr (int (card (matching L opt (bdata B s))))"
proof -
  let ?o = "opt\<lparr>o_OrderDesc := False\<rparr>"
  have eqs: "list_prefix ?o = list_prefix opt" "matches L ?o = matches L opt" "opts_ok ?o"
    "matching L ?o m = matching L opt m" for m
    using assms(4)
    by (auto simp: list_prefix_def matches_def opts_ok_def matching_def fun_eq_iff queue_filter_def
        status_filter_def tag_filter_def search_filter_def created_filter_def)
  let ?ks = "list_keys B s [] ?o"
  have ks: "?ks = iter_forward B s [] (list_prefix opt)" by (simp add: list_keys_def eqs)
  have "count_loop B L live s opt 0 ?ks = Inr (0 + int (length (hits B L s [] ?o)))"
    unfolding hits_def eqs txview_Nil
    by (rule count_loop_live [OF assms(1-3)])
      (use walk_row [OF assms(3)] list_keys_mem(1) [OF assms(1), of _ s "[]" ?o] in fastforce)
  then show ?thesis
    using card_hits [OF assms(1,3) eqs(3)]
    by (simp add: CountDownloads_def repo_view_quiet [OF assms(2)] ks eqs)
qed

lemma page_append:
  "0 \<le> n \<Longrightarrow> 0 < m \<Longrightarrow> 0 < n + m \<Longrightarrow> 0 < n \<Longrightarrow> page (n + m) 0 xs = page n 0 xs @ page m n xs"
  by (simp add: page_def nat_add_distrib take_add)

lemma page_mset:
  "mset (page limit offset xs) =
     mset (if limit < 0 then drop (nat offset) xs else take (nat (max 1 limit)) (drop (nat offset) xs))"
  by (auto simp: page_def Let_def max_def)

text \<open>Every listing is a page of one list of the matches, put into the requested order.\<close>

lemma ListDownloads_pages:
  assumes "badger_laws B" "badger_quiet B" "sort_contract L" "repo_ok L (bdata B s)" "opts_ok opt"
  shows "\<exists>hs. distinct hs \<and> set hs = {d. stored (bdata B s) (d_ID d) = Some d \<and> matches L opt d} \<and>
    (times_ok (bdata B s) \<longrightarrow> sorted_wrt (\<lambda>a b. if o_OrderDesc opt then d_CreatedAt b \<le> d_CreatedAt a
       else d_CreatedAt a \<le> d_CreatedAt b) hs) \<and>
    (\<forall>limit offset. \<exists>ds. ListDownloads B L live s opt limit offset = Inr ds \<and> ordered opt ds \<and>
       mset ds = mset (if limit < 0 then drop (nat offset) hs
         else take (nat (max 1 limit)) (drop (nat offset) hs)))"
proof (rule exI [of _ "hits B L s [] opt"], intro conjI allI impI)
  let ?h = "hits B L s [] opt"
  show "distinct ?h" using distinct_hits [OF assms(1), of L s "[]" opt] assms(4) by simp
  show "set ?h = {d. stored (bdata B s) (d_ID d) = Some d \<and> matches L opt d}"
    using set_hits [OF assms(1), of L s "[]" opt] assms(4,5) by (simp add: matching_def)
  show "sorted_wrt (\<lambda>a b. if o_OrderDesc opt then d_CreatedAt b \<le> d_CreatedAt a
      else d_CreatedAt a \<le> d_CreatedAt b) ?h" if "times_ok (bdata B s)"
  proof -
    have "sorted_wrt (\<lambda>a b. \<not> created_less (o_OrderDesc opt) b a) ?h"
      using hits_chronological [OF assms(1), of L s "[]" opt] assms(4,5) that by simp
    then show ?thesis by (rule sorted_wrt_mono_rel [rotated]) (auto simp: created_less_def split: if_splits)
  qed
  show "\<exists>ds. ListDownloads B L live s opt limit offset = Inr ds \<and> ordered opt ds \<and>
      mset ds = mset (if limit < 0 then drop (nat offset) ?h
        else take (nat (max 1 limit)) (drop (nat offset) ?h))" for limit offset
    unfolding ListDownloads_live [OF assms(1,2,4)] page_mset [symmetric]
    using assms(3) by (simp add: ordered_sort_result)
qed

lemma set_page_subset: "set (page limit offset xs) \<subseteq> set xs"
  by (auto simp: page_def Let_def dest: in_set_takeD in_set_dropD split: if_splits)

lemma sorted_wrt_page_rest:
  assumes "sorted_wrt R xs" "x \<in> set (take n xs)" "y \<in> set xs" "y \<notin> set (take n xs)"
  shows "R x y"
proof -
  have "y \<in> set (drop n xs)"
    using assms(3,4) by (metis Un_iff append_take_drop_id set_append)
  with assms(1,2) show ?thesis
    by (metis append_take_drop_id sorted_wrt_append)
qed

section \<open>A database with two downloads for the witnesses\<close>

definition urgent_download :: Download where
  "urgent_download =
     zero_Download\<lparr>d_ID := ''b2'', d_URL := ''http://h/g'', d_QueueID := ''main'', d_Priority := 9,
       d_Status := StatusQueued, d_CreatedAt := 500\<rparr>"

definition demo_pair :: mem where
  "demo_pair = snd (CreateDownload mem_badger basic_lib live demo_clock demo_store urgent_download)"

definition newer :: Download where "newer = created demo_clock demo_download"
definition urgent :: Download where "urgent = created demo_clock urgent_download"

lemma demo_pair_facts:
  "repo_ok basic_lib (map_of demo_pair)"
  "stored (map_of demo_pair) = [''a1'' \<mapsto> newer, ''b2'' \<mapsto> urgent]"
proof -
  have c: "CreateDownload mem_badger basic_lib live demo_clock demo_store urgent_download =
      (Inr (created demo_clock urgent_download), demo_pair)"
    using CreateDownload_quiet [OF mem_badger_laws mem_badger_quiet demo_clock_ok,
        of urgent_download live basic_lib demo_store]
    by (auto simp: demo_pair_def urgent_download_def)
  have new: "stored (bdata mem_badger demo_store) (d_ID urgent_download) = None"
    by (simp add: demo_stored urgent_download_def)
  from CreateDownload_net [OF mem_badger_laws demo_clock_ok new c]
  have m: "map_of demo_pair = put_store basic_lib urgent (map_of demo_store)"
    by (simp add: urgent_def)
  have id: "d_ID urgent = ''b2''" by (simp add: urgent_def urgent_download_def)
  show "repo_ok basic_lib (map_of demo_pair)"
    unfolding m using created_valid [OF demo_clock_ok, of urgent_download]
    by (intro repo_ok_put_store [OF demo_repo_ok, of "''b2''"])
      (simp_all add: urgent_def urgent_download_def bar_def)
  show "stored (map_of demo_pair) = [''a1'' \<mapsto> newer, ''b2'' \<mapsto> urgent]"
    unfolding m by (simp add: demo_stored id newer_def)
qed

lemma demo_pair_sel [simp]:
  "d_ID newer = ''a1''" "d_ID urgent = ''b2''" "d_CreatedAt newer = 1000" "d_CreatedAt urgent = 500"
  "d_QueueID newer = ''main''" "d_QueueID urgent = ''main''" "d_Status newer = ''queued''"
  "d_Status urgent = ''queued''" "d_Priority newer = 0" "d_Priority urgent = 9"
  by (simp_all add: newer_def urgent_def created_def demo_download_def urgent_download_def
      demo_clock_def const_defs IsZero_def zero_time_def zero_Download_def)

text \<open>The query by which the worker picks the next download of a queue.\<close>

definition demo_query :: ListDownloadsOptions where
  "demo_query = zero_Options\<lparr>o_QueueIDs := [''main''], o_Statuses := [''queued''],
     o_OrderBy := ''priority'', o_OrderDesc := True\<rparr>"

lemma demo_query_facts [simp]:
  "opts_ok demo_query" "o_OrderDesc demo_query" "o_OrderBy demo_query = ''priority''"
  "times_ok (map_of demo_pair)"
  "matching basic_lib demo_query (map_of demo_pair) = {newer, urgent}"
proof -
  show q: "opts_ok demo_query" "o_OrderDesc demo_query" "o_OrderBy demo_query = ''priority''"
    by (simp_all add: demo_query_def opts_ok_def zero_Options_def)
  show "times_ok (map_of demo_pair)"
    by (simp add: times_ok_def demo_pair_facts(2) in64_def)
  have "matches basic_lib demo_query newer" "matches basic_lib demo_query urgent"
    by (simp_all add: matches_def queue_filter_def status_filter_def tag_filter_def
        search_filter_def created_filter_def demo_query_def zero_Options_def)
  then show "matching basic_lib demo_query (map_of demo_pair) = {newer, urgent}"
    by (auto simp: matching_def demo_pair_facts(2) split: if_splits)
qed

lemma newer_neq_urgent [simp]: "newer \<noteq> urgent" "urgent \<noteq> newer"
proof -
  have "d_ID newer \<noteq> d_ID urgent" by simp
  then show "newer \<noteq> urgent" "urgent \<noteq> newer" by (metis, metis)
qed

section \<open>Properties\<close>

text \<open>
  C16.  Every listing is a page of the matches: the stored downloads that pass the filters, each once
  and no other, form one list in the order of their creation (as long as they were created within the
  range of \<open>UnixNano\<close>, after 1970), whichever index the walk takes and in either direction; a listing
  skips \<open>offset\<close> of them and returns all the others when the limit is negative, the next \<open>limit\<close> ones when
  it is positive, and one when it is zero.  The result is then put into the requested order.
\<close>

theorem list_downloads_complete:
  assumes "badger_laws B" "badger_quiet B" "sort_contract L" "repo_ok L (bdata B s)" "opts_ok opt"
  shows "\<exists>hs. distinct hs \<and> set hs = {d. stored (bdata B s) (d_ID d) = Some d \<and> matches L opt d} \<and>
    (times_ok (bdata B s) \<longrightarrow> sorted_wrt (\<lambda>a b. if o_OrderDesc opt then d_CreatedAt b \<le> d_CreatedAt a
       else d_CreatedAt a \<le> d_CreatedAt b) hs) \<and>
    (\<forall>limit offset. \<exists>ds. ListDownloads B L live s opt limit offset = Inr ds \<and> ordered opt ds \<and>
       mset ds = mset (if limit < 0 then drop (nat offset) hs
         else take (nat (max 1 limit)) (drop (nat offset) hs)))"
  by (rule ListDownloads_pages [OF assms])

theorem list_downloads_complete_witness:
  "(\<exists>ds. ListDownloads mem_badger basic_lib live demo_pair demo_query (- 1) 0 = Inr ds \<and>
     set ds = {newer, urgent} \<and> ordered demo_query ds) \<and>
   ListDownloads mem_badger basic_lib live demo_pair demo_query 1 0 = Inr [newer] \<and>
   ListDownloads mem_badger basic_lib live demo_pair demo_query 1 1 = Inr [urgent]"
proof -
  from list_downloads_complete [OF mem_badger_laws mem_badger_quiet basic_lib_sort_contract,
      of demo_pair demo_query] demo_pair_facts(1) demo_query_facts(5)
  obtain hs where hs: "distinct hs" "set hs = {newer, urgent}"
    "sorted_wrt (\<lambda>a b. d_CreatedAt b \<le> d_CreatedAt a) hs"
    "\<And>limit offset. \<exists>ds. ListDownloads mem_badger basic_lib live demo_pair demo_query limit offset = Inr ds \<and>
      ordered demo_query ds \<and> mset ds = mset (if limit < 0 then drop (nat offset) hs
         else take (nat (max 1 limit)) (drop (nat offset) hs))"
    by (auto simp: matching_def)
  have "length hs = 2" using distinct_card [OF hs(1)] hs(2) by simp
  then obtain a b where "hs = [a, b]" by (auto simp: length_Suc_conv numeral_2_eq_2)
  with hs(1-3) have "hs = [newer, urgent]" by (auto simp: doubleton_eq_iff)
  with hs(4) [of "- 1" 0] hs(4) [of 1 0] hs(4) [of 1 1] show ?thesis
    using mset_eq_setD by fastforce
qed

text \<open>
  Pages of a listing fit together: the page of \<open>n\<close> downloads and the page of \<open>m\<close> downloads that
  starts after it hold what the first \<open>n + m\<close> downloads hold, the first page is full unless the
  matches run out, and in the order of creation nothing on the second page comes before anything on
  the first.
\<close>

lemma list_downloads_pages:
  assumes "badger_laws B" "badger_quiet B" "sort_contract L" "repo_ok L (bdata B s)"
    and "opts_ok opt" "times_ok (bdata B s)" "0 < n" "0 < m"
  shows "\<exists>xs ys zs. ListDownloads B L live s opt n 0 = Inr xs \<and>
    ListDownloads B L live s opt m n = Inr ys \<and> ListDownloads B L live s opt (n + m) 0 = Inr zs \<and>
    mset zs = mset xs + mset ys \<and>
    length xs = min (nat n) (card (matching L opt (bdata B s))) \<and>
    (\<forall>x \<in> set xs. \<forall>y \<in> set ys. \<not> created_less (o_OrderDesc opt) y x)"
proof -
  let ?h = "hits B L s [] opt"
  have chron: "sorted_wrt (\<lambda>a b. \<not> created_less (o_OrderDesc opt) b a) ?h"
    using hits_chronological [OF assms(1), of L s "[]" opt] assms by simp
  have split: "page (n + m) 0 ?h = page n 0 ?h @ page m n ?h"
    using assms(7,8) by (simp add: page_append)
  moreover have "length (page n 0 ?h) = min (nat n) (card (matching L opt (bdata B s)))"
    using assms(7) card_hits [OF assms(1,4,5)] by (simp add: page_def min.commute)
  moreover have "sorted_wrt (\<lambda>a b. \<not> created_less (o_OrderDesc opt) b a) (page (n + m) 0 ?h)"
    using chron assms(7,8) by (simp add: page_def sorted_wrt_take)
  ultimately show ?thesis
    using assms(3) by (simp add: ListDownloads_live [OF assms(1,2,4)] sorted_wrt_append)
qed

lemma list_downloads_pages_witness:
  "\<exists>xs ys. ListDownloads mem_badger basic_lib live demo_pair demo_query 1 0 = Inr xs \<and>
     ListDownloads mem_badger basic_lib live demo_pair demo_query 1 1 = Inr ys \<and>
     mset xs + mset ys = {#newer, urgent#} \<and> length xs = 1"
proof -
  from list_downloads_pages [OF mem_badger_laws mem_badger_quiet basic_lib_sort_contract,
      of demo_pair demo_query 1 1] demo_pair_facts(1)
  obtain xs ys zs where l: "ListDownloads mem_badger basic_lib live demo_pair demo_query 1 0 = Inr xs"
    "ListDownloads mem_badger basic_lib live demo_pair demo_query 1 1 = Inr ys"
    "ListDownloads mem_badger basic_lib live demo_pair demo_query 2 0 = Inr zs"
    "mset zs = mset xs + mset ys" "length xs = 1" by auto
  let ?h = "hits mem_badger basic_lib demo_pair [] demo_query"
  have h: "set ?h = {newer, urgent}" "distinct ?h" "length ?h = 2"
    using set_hits [OF mem_badger_laws, of basic_lib demo_pair "[]" demo_query]
      distinct_hits [OF mem_badger_laws, of basic_lib demo_pair "[]" demo_query] demo_pair_facts(1)
      card_hits [OF mem_badger_laws, of basic_lib demo_pair demo_query]
    by simp_all
  have "mset zs = mset ?h"
    using l(3) ListDownloads_live [OF mem_badger_laws mem_badger_quiet, of basic_lib demo_pair
        demo_query 2 0] demo_pair_facts(1) h(3) mset_sort_result [OF basic_lib_sort_contract]
    by (auto simp: page_def)
  also have "mset ?h = {#newer, urgent#}"
    using h(1,2) mset_set_set [OF h(2)] by simp
  finally show ?thesis using l by auto
qed

text \<open>
  C24.  The count is the number of stored downloads that pass the same filters as a listing.
\<close>

theorem count_downloads_correct:
  assumes "badger_laws B" "badger_quiet B" "repo_ok L (bdata B s)" "opts_ok opt"
  shows "CountDownloads B L live s opt =
    Inr (int (card {d. stored (bdata B s) (d_ID d) = Some d \<and> matches L opt d}))"
  using CountDownloads_live [OF assms] by (simp add: matching_def)

theorem count_downloads_correct_witness:
  "CountDownloads mem_badger basic_lib live demo_pair demo_query = Inr 2"
  using count_downloads_correct [OF mem_badger_laws mem_badger_quiet, of basic_lib demo_pair demo_query]
    demo_pair_facts(1) demo_query_facts(5)
  by (simp add: matching_def)

text \<open>
  A limit of zero is not "no limit" and not "nothing": a listing with limit 0 returns exactly one
  download whenever any matches.
\<close>

lemma list_limit_zero:
  assumes "badger_laws B" "badger_quiet B" "sort_contract L" "repo_ok L (bdata B s)" "opts_ok opt"
  shows "\<exists>ds. ListDownloads B L live s opt 0 0 = Inr ds \<and>
    length ds = min 1 (card (matching L opt (bdata B s)))"
  using card_hits [OF assms(1,4,5)] assms(3)
  by (simp add: ListDownloads_live [OF assms(1,2,4)] page_def min.commute)

lemma list_limit_zero_witness:
  "\<exists>d. ListDownloads mem_badger basic_lib live demo_pair demo_query 0 0 = Inr [d]"
  using list_limit_zero [OF mem_badger_laws mem_badger_quiet basic_lib_sort_contract,
      of demo_pair demo_query] demo_pair_facts(1)
  by (auto simp: length_Suc_conv)

text \<open>
  With a limit, a listing by descending priority does not pick the downloads of highest
  priority: it picks the newest ones, and orders only those by priority.
\<close>

lemma list_priority_picks_newest:
  assumes "badger_laws B" "badger_quiet B" "sort_contract L" "repo_ok L (bdata B s)"
    and "opts_ok opt" "times_ok (bdata B s)" "o_OrderBy opt = ''priority''" "o_OrderDesc opt" "0 < n"
  shows "\<exists>ds. ListDownloads B L live s opt n 0 = Inr ds \<and>
    length ds = min (nat n) (card (matching L opt (bdata B s))) \<and>
    (\<forall>x \<in> set ds. \<forall>y \<in> matching L opt (bdata B s) - set ds. d_CreatedAt y \<le> d_CreatedAt x) \<and>
    sorted_wrt (\<lambda>a b. \<not> priority_less True b a) ds"
proof -
  let ?h = "hits B L s [] opt"
  have chron: "sorted_wrt (\<lambda>a b. \<not> created_less True b a) ?h"
    using hits_chronological [OF assms(1), of L s "[]" opt] assms by simp
  have set: "set ?h = matching L opt (bdata B s)"
    using set_hits [OF assms(1), of L s "[]" opt] assms by simp
  have pg: "page n 0 ?h = take (nat n) ?h" using assms(9) by (simp add: page_def)
  have "d_CreatedAt y \<le> d_CreatedAt x" if "x \<in> set (take (nat n) ?h)"
    "y \<in> matching L opt (bdata B s) - set (take (nat n) ?h)" for x y
    using sorted_wrt_page_rest [OF chron that(1), of y] that(2) set by (simp add: created_less_def)
  moreover have "ordered opt (sort_result L opt (take (nat n) ?h))"
    by (rule ordered_sort_result [OF assms(3)])
  ultimately show ?thesis
    using card_hits [OF assms(1,4,5)] assms(3,7,8)
    by (simp add: ListDownloads_live [OF assms(1,2,4)] pg ordered_def min.commute)
qed

lemma list_priority_picks_newest_witness:
  "ListDownloads mem_badger basic_lib live demo_pair demo_query 1 0 = Inr [newer] \<and>
   d_Priority newer < d_Priority urgent"
proof -
  from list_priority_picks_newest [OF mem_badger_laws mem_badger_quiet basic_lib_sort_contract,
      of demo_pair demo_query 1] demo_pair_facts(1)
  obtain ds where ds: "ListDownloads mem_badger basic_lib live demo_pair demo_query 1 0 = Inr ds"
    "length ds = 1" "\<forall>x \<in> set ds. \<forall>y \<in> {newer, urgent} - set ds. d_CreatedAt y \<le> d_CreatedAt x"
    by auto
  from ds(2) obtain d where d: "ds = [d]" by (auto simp: length_Suc_conv)
  let ?h = "hits mem_badger basic_lib demo_pair [] demo_query"
  have "set ds \<subseteq> set ?h"
    using ds(1) ListDownloads_live [OF mem_badger_laws mem_badger_quiet, of basic_lib demo_pair
        demo_query 1 0] demo_pair_facts(1) set_page_subset [of 1 0 ?h]
      set_sort_result [OF basic_lib_sort_contract]
    by auto
  then have "d \<in> {newer, urgent}"
    using set_hits [OF mem_badger_laws, of basic_lib demo_pair "[]" demo_query] demo_pair_facts(1) d
    by auto
  moreover have "d \<noteq> urgent"
  proof
    assume "d = urgent"
    with ds(3) d have "\<forall>y \<in> {newer, urgent} - {urgent}. d_CreatedAt y \<le> d_CreatedAt urgent" by simp
    moreover have "newer \<in> {newer, urgent} - {urgent}" by simp
    ultimately have "d_CreatedAt newer \<le> d_CreatedAt urgent" by blast
    then show False by simp
  qed
  ultimately have "d = newer" by simp
  with ds(1) d show ?thesis by simp
qed

end
