(* ===== verification/Repo_Bulk.thy ===== *)
theory Repo_Bulk
  imports Repo_List
begin

text \<open>
  The bulk operations of \<open>internal/repository/repository.go\<close>.  They mix read transactions, update
  transactions in chunks of 1000 and a \<open>WriteBatch\<close>; a batch is modelled by the calls issued on it so
  far, from which Badger decides whether a call is accepted and what the database holds in the end.
  A \<open>WriteBatch\<close> documents its \<open>Flush\<close> as the last call, so the theorems are about fewer than 1000
  items, where the loops flush only once.  The stamps that \<open>BulkCreateDownloads\<close> and
  \<open>BulkUpdateDownloads\<close> write into the caller's slice are not part of the result here.
\<close>

section \<open>Calls on a batch\<close>

type_synonym wb_result = "unit res \<times> wbcall list"

definition wb_call :: "'s badger \<Rightarrow> 's \<Rightarrow> wbcall \<Rightarrow> wbcall list \<Rightarrow> wb_result" where
  "wb_call B s c hist =
     ((case bbatch B s hist c of None \<Rightarrow> Inr () | Some e \<Rightarrow> Inl e), hist @ [c])"

definition wb_then :: "wb_result \<Rightarrow> (wbcall list \<Rightarrow> wb_result) \<Rightarrow> wb_result" where
  "wb_then m f = (case fst m of Inl e \<Rightarrow> m | Inr u \<Rightarrow> f (snd m))"

definition flush_every :: int where "flush_every = 1000"

fun index_tags_batch ::
    "'s badger \<Rightarrow> stdlib \<Rightarrow> clock \<Rightarrow> 's \<Rightarrow> gtime \<Rightarrow> string \<Rightarrow> string list \<Rightarrow> wbcall list \<Rightarrow> wb_result" where
  "index_tags_batch B L ck s createdKey did [] hist = (Inr (), hist)"
| "index_tags_batch B L ck s createdKey did (tag # tags) hist =
     (if tag = [] then index_tags_batch B L (skip 1 ck) s createdKey did tags hist
      else wb_then (wb_call B s
             (Write (WSet (kDownloadByTag (ck 0) (ToLower (lib_lower L) tag) createdKey did) NilV)) hist)
           (index_tags_batch B L (skip 1 ck) s createdKey did tags))"

definition indexDownloadBatch ::
    "'s badger \<Rightarrow> stdlib \<Rightarrow> clock \<Rightarrow> 's \<Rightarrow> Download \<Rightarrow> wbcall list \<Rightarrow> wb_result" where
  "indexDownloadBatch B L ck s d hist =
     (let createdKey = d_CreatedAt d in
      wb_then (wb_call B s (Write (WSet (kDownloadByCreatedAt (ck 0) createdKey (d_ID d)) NilV)) hist) (\<lambda>hist.
      wb_then (if d_Status d \<noteq> []
               then wb_call B s
                 (Write (WSet (kDownloadByStatus (ck 1) (d_Status d) createdKey (d_ID d)) NilV)) hist
               else (Inr (), hist)) (\<lambda>hist.
      wb_then (if d_QueueID d \<noteq> []
               then wb_call B s
                 (Write (WSet (kDownloadByQueue (ck 2) (d_QueueID d) createdKey (d_ID d)) NilV)) hist
               else (Inr (), hist)) (\<lambda>hist.
      index_tags_batch B L (skip 3 ck) s createdKey (d_ID d) (d_Tags d) hist))))"

section \<open>Creating, updating and deleting many downloads\<close>

text \<open>One download of a batch: its row, its entries, and a flush after every 1000th.\<close>

definition batch_put ::
    "'s badger \<Rightarrow> stdlib \<Rightarrow> clock \<Rightarrow> 's \<Rightarrow> int \<Rightarrow> Download \<Rightarrow> wbcall list \<Rightarrow> wb_result" where
  "batch_put B L ck s pending d hist =
     wb_then (wb_call B s (Write (WSet (kDownload (d_ID d)) (DownloadJ d))) hist) (\<lambda>hist.
     wb_then (indexDownloadBatch B L ck s d hist) (\<lambda>hist.
       if pending mod flush_every = 0 then wb_call B s Flush hist else (Inr (), hist)))"

fun bulk_create_loop ::
    "'s badger \<Rightarrow> stdlib \<Rightarrow> gctx \<Rightarrow> clock \<Rightarrow> 's \<Rightarrow> int \<Rightarrow> Download list \<Rightarrow> wbcall list \<Rightarrow> wb_result" where
  "bulk_create_loop B L cx ck s pending [] hist = wb_call B s Flush hist"
| "bulk_create_loop B L cx ck s pending (d # ds) hist =
     (case cx 0 of Some e \<Rightarrow> (Inl e, hist)
      | None \<Rightarrow>
          if d_ID d = [] then (Inl (ErrText ''download id is required''), hist)
          else let d = (if IsZero (d_CreatedAt d) then d\<lparr>d_CreatedAt := ck 0\<rparr> else d);
                   d = d\<lparr>d_UpdatedAt := ck 1\<rparr>
               in wb_then (batch_put B L (skip 2 ck) s (pending + 1) d hist)
                    (bulk_create_loop B L (skip 1 cx) (skip (5 + length (d_Tags d)) ck) s
                       (pending + 1) ds))"

definition BulkCreateDownloads ::
    "'s badger \<Rightarrow> stdlib \<Rightarrow> gctx \<Rightarrow> clock \<Rightarrow> 's \<Rightarrow> Download list \<Rightarrow> unit res \<times> 's" where
  "BulkCreateDownloads B L cx ck s ds =
     (case cx 0 of Some e \<Rightarrow> (Inl e, s)
      | None \<Rightarrow> (let (r, hist) = bulk_create_loop B L (skip 1 cx) ck s 0 ds []
                in (r, bbatch_db B s hist)))"

text \<open>Reading the stored versions; a missing download is Badger's own \<open>ErrKeyNotFound\<close>.\<close>

fun read_rows :: "'s badger \<Rightarrow> gctx \<Rightarrow> 's \<Rightarrow> string list \<Rightarrow> Download list res" where
  "read_rows B cx s [] = Inr []"
| "read_rows B cx s (did # ids) =
     (case cx 0 of Some e \<Rightarrow> Inl e
      | None \<Rightarrow>
          if did = [] then Inl (ErrText ''download id is required'')
          else bindE (bget B s [] (kDownload did)) (\<lambda>v. bindE (decode_download v) (\<lambda>d.
               bindE (read_rows B (skip 1 cx) s ids) (\<lambda>ds. Inr (d # ds)))))"

fun chunks :: "'a list \<Rightarrow> 'a list list" where
  "chunks [] = []"
| "chunks (x # xs) = take 1000 (x # xs) # chunks (drop 1000 (x # xs))"

text \<open>
  A transaction per chunk, with a step per item.  An item may read the context any number of times,
  so each has readings of its own: \<open>cxs j\<close> are those of the \<open>j\<close>-th item.
\<close>

type_synonym gctxs = "nat \<Rightarrow> gctx"

fun chunk_loop ::
    "gctxs \<Rightarrow> (gctx \<Rightarrow> 'a \<Rightarrow> wr list \<Rightarrow> wr list res) \<Rightarrow> 'a list \<Rightarrow> wr list \<Rightarrow> (unit \<times> wr list) res" where
  "chunk_loop cxs step [] tx = Inr ((), tx)"
| "chunk_loop cxs step (x # xs) tx =
     (case cxs 0 0 of Some e \<Rightarrow> Inl e
      | None \<Rightarrow> bindE (step (skip 1 (cxs 0)) x tx) (chunk_loop (skip 1 cxs) step xs))"

fun run_chunks ::
    "'s badger \<Rightarrow> gctxs \<Rightarrow> ('s \<Rightarrow> gctx \<Rightarrow> 'a \<Rightarrow> wr list \<Rightarrow> wr list res) \<Rightarrow> 'a list list \<Rightarrow> 's \<Rightarrow>
       unit res \<times> 's" where
  "run_chunks B cxs step [] s = (Inr (), s)"
| "run_chunks B cxs step (c # cs) s =
     (case db_update B s (chunk_loop cxs (step s) c) of
        (Inl e, s') \<Rightarrow> (Inl e, s')
      | (Inr u, s') \<Rightarrow> run_chunks B (skip (length c) cxs) step cs s')"

text \<open>\<open>oldMap[id]\<close>, the zero download when there is none; the last one read wins.\<close>

definition lookup_old :: "Download list \<Rightarrow> string list \<Rightarrow> string \<Rightarrow> Download" where
  "lookup_old olds ids did =
     (case map_of (rev (zip ids olds)) did of None \<Rightarrow> zero_Download | Some d \<Rightarrow> d)"

fun bulk_update_loop ::
    "'s badger \<Rightarrow> stdlib \<Rightarrow> gctx \<Rightarrow> clock \<Rightarrow> 's \<Rightarrow> (string \<Rightarrow> Download) \<Rightarrow> int \<Rightarrow> Download list \<Rightarrow>
       wbcall list \<Rightarrow> wb_result" where
  "bulk_update_loop B L cx ck s old pending [] hist = wb_call B s Flush hist"
| "bulk_update_loop B L cx ck s old pending (d # ds) hist =
     (case cx 0 of Some e \<Rightarrow> (Inl e, hist)
      | None \<Rightarrow>
          let d = (if IsZero (d_CreatedAt d) then d\<lparr>d_CreatedAt := d_CreatedAt (old (d_ID d))\<rparr> else d);
              d = d\<lparr>d_UpdatedAt := ck 0\<rparr>
          in wb_then (batch_put B L (skip 1 ck) s (pending + 1) d hist)
               (bulk_update_loop B L (skip 1 cx) (skip (4 + length (d_Tags d)) ck) s old
                  (pending + 1) ds))"

text \<open>
  The two operations have three phases: they read the rows, remove entries chunk by chunk, and write
  a batch.  \<open>cxs 0\<close> are the readings of the context in the first, \<open>cxs 1\<close> to \<open>cxs n\<close> those of the \<open>n\<close>
  items of the second, and \<open>cxs (n + 1)\<close> those of the third.
\<close>

definition BulkUpdateDownloads ::
    "'s badger \<Rightarrow> stdlib \<Rightarrow> gctxs \<Rightarrow> clock \<Rightarrow> 's \<Rightarrow> Download list \<Rightarrow> unit res \<times> 's" where
  "BulkUpdateDownloads B L cxs ck s ds =
     (case cxs 0 0 of Some e \<Rightarrow> (Inl e, s)
      | None \<Rightarrow>
          if ds = [] then (Inr (), s)
          else let ids = map d_ID ds
               in case repo_view B (skip 1 (cxs 0)) s (read_rows B (skip 3 (cxs 0)) s ids) of
                    Inl e \<Rightarrow> (Inl e, s)
                  | Inr olds \<Rightarrow>
                      let old = lookup_old olds ids
                      in case run_chunks B (skip 1 cxs)
                                (\<lambda>s cx d tx. Inr (unindexDownload B L ck s tx (old (d_ID d))))
                                (chunks ds) s of
                           (Inl e, s') \<Rightarrow> (Inl e, s')
                         | (Inr u, s') \<Rightarrow>
                             (let (r, hist) = bulk_update_loop B L (cxs (length ds + 1)) ck s' old 0 ds []
                              in (r, bbatch_db B s' hist)))"

fun bulk_delete_loop ::
    "'s badger \<Rightarrow> gctx \<Rightarrow> 's \<Rightarrow> int \<Rightarrow> Download list \<Rightarrow> wbcall list \<Rightarrow> wb_result" where
  "bulk_delete_loop B cx s pending [] hist = wb_call B s Flush hist"
| "bulk_delete_loop B cx s pending (d # ds) hist =
     (case cx 0 of Some e \<Rightarrow> (Inl e, hist)
      | None \<Rightarrow>
          wb_then (wb_call B s (Write (WDel (kDownload (d_ID d)))) hist) (\<lambda>hist.
          wb_then (if (pending + 1) mod flush_every = 0 then wb_call B s Flush hist else (Inr (), hist))
            (bulk_delete_loop B (skip 1 cx) s (pending + 1) ds)))"

definition BulkDeleteDownloads ::
    "'s badger \<Rightarrow> stdlib \<Rightarrow> gctxs \<Rightarrow> clock \<Rightarrow> 's \<Rightarrow> string list \<Rightarrow> unit res \<times> 's" where
  "BulkDeleteDownloads B L cxs ck s ids =
     (case cxs 0 0 of Some e \<Rightarrow> (Inl e, s)
      | None \<Rightarrow>
          if ids = [] then (Inr (), s)
          else case repo_view B (skip 1 (cxs 0)) s (read_rows B (skip 3 (cxs 0)) s ids) of
                 Inl e \<Rightarrow> (Inl e, s)
               | Inr toDelete \<Rightarrow>
                   (case run_chunks B (skip 1 cxs)
                           (\<lambda>s cx d tx. deleteByPrefix B cx s (segment_prefix (d_ID d))
                              (unindexDownload B L ck s tx d))
                           (chunks toDelete) s of
                      (Inl e, s') \<Rightarrow> (Inl e, s')
                    | (Inr u, s') \<Rightarrow>
                        (let (r, hist) = bulk_delete_loop B (cxs (length ids + 1)) s' 0 toDelete []
                         in (r, bbatch_db B s' hist))))"

section \<open>Operations on all downloads of a queue\<close>

text \<open>The ids met by walking the queue index from \<open>dq||<queue>\<close>, and the rows they lead to.\<close>

fun walk_ids :: "gctx \<Rightarrow> key list \<Rightarrow> string list res" where
  "walk_ids cx [] = Inr []"
| "walk_ids cx (k # ks) =
     (case cx 0 of Some e \<Rightarrow> Inl e
      | None \<Rightarrow> bindE (walk_ids (skip 1 cx) ks) (\<lambda>ids. Inr (key_id k # ids)))"

fun walk_rows ::
    "'s badger \<Rightarrow> gctx \<Rightarrow> 's \<Rightarrow> (Download \<Rightarrow> Download) \<Rightarrow> key list \<Rightarrow> Download list res" where
  "walk_rows B cx s f [] = Inr []"
| "walk_rows B cx s f (k # ks) =
     (case cx 0 of Some e \<Rightarrow> Inl e
      | None \<Rightarrow> bindE (bget B s [] (kDownload (key_id k))) (\<lambda>v. bindE (decode_download v) (\<lambda>d.
          bindE (walk_rows B (skip 1 cx) s f ks) (\<lambda>ds. Inr (f d # ds)))))"

definition BulkDeleteDownloadsByQueueID ::
    "'s badger \<Rightarrow> stdlib \<Rightarrow> gctxs \<Rightarrow> clock \<Rightarrow> 's \<Rightarrow> string \<Rightarrow> unit res \<times> 's" where
  "BulkDeleteDownloadsByQueueID B L cxs ck s queueID =
     (case cxs 0 0 of Some e \<Rightarrow> (Inl e, s)
      | None \<Rightarrow>
          if queueID = [] then (Inl (ErrText ''queue id is required''), s)
          else case repo_view B (skip 1 (cxs 0)) s
                      (walk_ids (skip 3 (cxs 0)) (iter_forward B s [] (queue_prefix queueID))) of
                 Inl e \<Rightarrow> (Inl e, s)
               | Inr ids \<Rightarrow>
                   if ids = [] then (Inr (), s) else BulkDeleteDownloads B L (skip 1 cxs) ck s ids)"

definition BulkReassignDownloadsQueue ::
    "'s badger \<Rightarrow> stdlib \<Rightarrow> gctxs \<Rightarrow> clock \<Rightarrow> 's \<Rightarrow> string \<Rightarrow> string \<Rightarrow> unit res \<times> 's" where
  "BulkReassignDownloadsQueue B L cxs ck s fromQueueID toQueueID =
     (case cxs 0 0 of Some e \<Rightarrow> (Inl e, s)
      | None \<Rightarrow>
          if fromQueueID = [] \<or> toQueueID = []
          then (Inl (ErrText ''from and to queue ids are required''), s)
          else if fromQueueID = toQueueID then (Inr (), s)
          else case repo_view B (skip 1 (cxs 0)) s
                      (walk_rows B (skip 3 (cxs 0)) s (\<lambda>d. d\<lparr>d_QueueID := toQueueID\<rparr>)
                         (iter_forward B s [] (queue_prefix fromQueueID))) of
                 Inl e \<Rightarrow> (Inl e, s)
               | Inr ds \<Rightarrow>
                   if ds = [] then (Inr (), s) else BulkUpdateDownloads B L (skip 1 cxs) ck s ds)"

definition BulkSetPriorityByQueueID ::
    "'s badger \<Rightarrow> stdlib \<Rightarrow> gctxs \<Rightarrow> clock \<Rightarrow> 's \<Rightarrow> string \<Rightarrow> int \<Rightarrow> unit res \<times> 's" where
  "BulkSetPriorityByQueueID B L cxs ck s queueID priority =
     (case cxs 0 0 of Some e \<Rightarrow> (Inl e, s)
      | None \<Rightarrow>
          if queueID = [] then (Inl (ErrText ''queue id is required''), s)
          else case repo_view B (skip 1 (cxs 0)) s
                      (walk_rows B (skip 3 (cxs 0)) s (\<lambda>d. d\<lparr>d_Priority := priority\<rparr>)
                         (iter_forward B s [] (queue_prefix queueID))) of
                 Inl e \<Rightarrow> (Inl e, s)
               | Inr ds \<Rightarrow>
                   if ds = [] then (Inr (), s) else BulkUpdateDownloads B L (skip 1 cxs) ck s ds)"

definition BulkUpdateStatusByQueueID ::
    "'s badger \<Rightarrow> stdlib \<Rightarrow> gctxs \<Rightarrow> clock \<Rightarrow> 's \<Rightarrow> string \<Rightarrow> DownloadStatus \<Rightarrow> unit res \<times> 's" where
  "BulkUpdateStatusByQueueID B L cxs ck s queueID status =
     (if status = [] then (Inl (ErrText ''status is required''), s)
      else case cxs 0 0 of Some e \<Rightarrow> (Inl e, s)
      | None \<Rightarrow>
          if queueID = [] then (Inl (ErrText ''queue id is required''), s)
          else case repo_view B (skip 1 (cxs 0)) s
                      (walk_rows B (skip 3 (cxs 0)) s (\<lambda>d. d\<lparr>d_Status := status\<rparr>)
                         (iter_forward B s [] (queue_prefix queueID))) of
                 Inl e \<Rightarrow> (Inl e, s)
               | Inr ds \<Rightarrow>
                   if ds = [] then (Inr (), s) else BulkUpdateDownloads B L (skip 1 cxs) ck s ds)"

section \<open>What the batches write\<close>

definition put_writes :: "stdlib \<Rightarrow> Download \<Rightarrow> wr list" where
  "put_writes L d =
     WSet (kDownload (d_ID d)) (DownloadJ d) # map (\<lambda>k. WSet k NilV) (index_keys L d)"

lemma wb_write_quiet:
  "badger_quiet B \<Longrightarrow> wb_call B s (Write w) (map Write ws) = (Inr (), map Write (ws @ [w]))"
  by (simp add: wb_call_def quiet_batch)

lemma wb_flush_quiet:
  "badger_quiet B \<Longrightarrow> wb_call B s Flush (map Write ws) = (Inr (), map Write ws @ [Flush])"
  by (simp add: wb_call_def quiet_batch)

lemma wb_then_Inr [simp]: "wb_then (Inr (), h) f = f h"
  by (simp add: wb_then_def)

lemma index_tags_batch_quiet:
  assumes "badger_quiet B" "\<not> IsZero t"
  shows "index_tags_batch B L ck s t did tags (map Write ws) =
    (Inr (), map Write (ws @ map (\<lambda>k. WSet k NilV) (tag_keys L t did tags)))"
proof (induction tags arbitrary: ws ck)
  case (Cons tag tags)
  then show ?case
    by (simp add: tag_keys_def wb_write_quiet [OF assms(1)] key_now(4) [OF assms(2), of "ck 0"]
        del: map_append)
qed (simp add: tag_keys_def)

lemma indexDownloadBatch_quiet:
  assumes "badger_quiet B" "\<not> IsZero (d_CreatedAt d)"
  shows "indexDownloadBatch B L ck s d (map Write ws) =
    (Inr (), map Write (ws @ map (\<lambda>k. WSet k NilV) (index_keys L d)))"
proof -
  note keys = key_now [OF assms(2), of "ck 0"] key_now [OF assms(2), of "ck 1"]
    key_now [OF assms(2), of "ck (Suc 0)"] key_now [OF assms(2), of "ck 2"]
  show ?thesis
    unfolding indexDownloadBatch_def Let_def
    by (simp add: wb_write_quiet [OF assms(1)] keys index_keys_def
        index_tags_batch_quiet [OF assms] del: map_append)
qed

lemma batch_put_quiet:
  assumes "badger_quiet B" "\<not> IsZero (d_CreatedAt d)" "pending mod flush_every \<noteq> 0"
  shows "batch_put B L ck s pending d (map Write ws) =
    (Inr (), map Write (ws @ put_writes L d))"
  using assms
  by (simp add: batch_put_def wb_write_quiet indexDownloadBatch_quiet put_writes_def del: map_append)

lemma bulk_create_loop_quiet:
  assumes "badger_quiet B" "clock_ok ck" "\<forall>d \<in> set ds. d_ID d \<noteq> []"
    and "0 \<le> pending" "pending + int (length ds) < 1000"
  shows "\<exists>ds'. bulk_create_loop B L live ck s pending ds (map Write ws) =
      (Inr (), map Write (ws @ concat (map (put_writes L) ds')) @ [Flush]) \<and>
    list_all2 (\<lambda>d d'. \<exists>ck. clock_ok ck \<and> d' = created ck d) ds ds'"
  using assms(2-)
proof (induction ds arbitrary: ck pending ws)
  case Nil
  then show ?case by (simp add: wb_flush_quiet [OF assms(1)])
next
  case (Cons d ds)
  have pending: "(pending + 1) mod flush_every \<noteq> 0" using Cons.prems by (simp add: flush_every_def)
  have nz: "\<not> IsZero (d_CreatedAt (created ck d))" by (rule created_nonzero [OF Cons.prems(1)])
  have step: "bulk_create_loop B L live ck s pending (d # ds) (map Write ws) =
      bulk_create_loop B L live (skip (5 + length (d_Tags d)) ck) s (pending + 1) ds
        (map Write (ws @ put_writes L (created ck d)))"
    using Cons.prems batch_put_quiet [OF assms(1) nz pending, of L "skip 2 ck" s ws]
    by (simp add: Let_def create_stamp [unfolded One_nat_def] create_stamp)
  have prems: "clock_ok (skip (5 + length (d_Tags d)) ck)" "\<forall>d \<in> set ds. d_ID d \<noteq> []"
    "0 \<le> pending + 1" "pending + 1 + int (length ds) < 1000"
    using Cons.prems by simp_all
  from Cons.IH [OF prems, of "ws @ put_writes L (created ck d)"] obtain ds' where ds':
    "bulk_create_loop B L live (skip (5 + length (d_Tags d)) ck) s (pending + 1) ds
        (map Write (ws @ put_writes L (created ck d))) =
      (Inr (), map Write ((ws @ put_writes L (created ck d)) @ concat (map (put_writes L) ds')) @ [Flush])"
    "list_all2 (\<lambda>d d'. \<exists>ck. clock_ok ck \<and> d' = created ck d) ds ds'"
    by blast
  have "list_all2 (\<lambda>d d'. \<exists>ck. clock_ok ck \<and> d' = created ck d) (d # ds) (created ck d # ds')"
    using ds'(2) Cons.prems(1) by auto
  moreover have "bulk_create_loop B L live ck s pending (d # ds) (map Write ws) =
      (Inr (), map Write (ws @ concat (map (put_writes L) (created ck d # ds'))) @ [Flush])"
    unfolding step ds'(1) by simp
  ultimately show ?case by blast
qed

lemma bulk_update_loop_quiet:
  assumes "badger_quiet B" "\<forall>d \<in> set ds. \<not> IsZero (d_CreatedAt (old (d_ID d)))"
    and "0 \<le> pending" "pending + int (length ds) < 1000"
  shows "\<exists>ds'. bulk_update_loop B L live ck s old pending ds (map Write ws) =
      (Inr (), map Write (ws @ concat (map (put_writes L) ds')) @ [Flush]) \<and>
    list_all2 (\<lambda>d d'. \<exists>ck. d' = updated ck (old (d_ID d)) d) ds ds'"
  using assms(2-)
proof (induction ds arbitrary: ck pending ws)
  case Nil
  then show ?case by (simp add: wb_flush_quiet [OF assms(1)])
next
  case (Cons d ds)
  let ?d = "updated ck (old (d_ID d)) d"
  have pending: "(pending + 1) mod flush_every \<noteq> 0" using Cons.prems by (simp add: flush_every_def)
  have nz: "\<not> IsZero (d_CreatedAt ?d)" using Cons.prems(1) by (simp add: updated_nonzero)
  have step: "bulk_update_loop B L live ck s old pending (d # ds) (map Write ws) =
      bulk_update_loop B L live (skip (4 + length (d_Tags d)) ck) s old (pending + 1) ds
        (map Write (ws @ put_writes L ?d))"
    using batch_put_quiet [OF assms(1) nz pending, of L "skip 1 ck" s ws]
    by (simp add: Let_def update_stamp)
  have prems: "\<forall>d \<in> set ds. \<not> IsZero (d_CreatedAt (old (d_ID d)))"
    "0 \<le> pending + 1" "pending + 1 + int (length ds) < 1000"
    using Cons.prems by simp_all
  from Cons.IH [OF prems, of "skip (4 + length (d_Tags d)) ck" "ws @ put_writes L ?d"]
  obtain ds' where ds':
    "bulk_update_loop B L live (skip (4 + length (d_Tags d)) ck) s old (pending + 1) ds
        (map Write (ws @ put_writes L ?d)) =
      (Inr (), map Write ((ws @ put_writes L ?d) @ concat (map (put_writes L) ds')) @ [Flush])"
    "list_all2 (\<lambda>d d'. \<exists>ck. d' = updated ck (old (d_ID d)) d) ds ds'"
    by blast
  have "list_all2 (\<lambda>d d'. \<exists>ck. d' = updated ck (old (d_ID d)) d) (d # ds) (?d # ds')"
    using ds'(2) by auto
  moreover have "bulk_update_loop B L live ck s old pending (d # ds) (map Write ws) =
      (Inr (), map Write (ws @ concat (map (put_writes L) (?d # ds'))) @ [Flush])"
    unfolding step ds'(1) by simp
  ultimately show ?case by blast
qed

lemma bulk_delete_loop_quiet:
  assumes "badger_quiet B" "0 \<le> pending" "pending + int (length ds) < 1000"
  shows "bulk_delete_loop B live s pending ds (map Write ws) =
    (Inr (), map Write (ws @ map (\<lambda>d. WDel (kDownload (d_ID d))) ds) @ [Flush])"
  using assms(2-)
proof (induction ds arbitrary: pending ws)
  case Nil
  then show ?case by (simp add: wb_flush_quiet [OF assms(1)])
next
  case (Cons d ds)
  have "(pending + 1) mod flush_every \<noteq> 0" using Cons.prems by (simp add: flush_every_def)
  with Cons.IH [of "pending + 1" "ws @ [WDel (kDownload (d_ID d))]"] Cons.prems show ?case
    by (simp add: wb_write_quiet [OF assms(1)] del: map_append)
qed

section \<open>Net effect on the store\<close>

definition del_keys :: "key set \<Rightarrow> store \<Rightarrow> store" where
  "del_keys K m = (\<lambda>k. if k \<in> K then None else m k)"

fun written :: "wr \<Rightarrow> key" where
  "written (WSet k v) = k"
| "written (WDel k) = k"

lemma del_keys_simps [simp]:
  "del_keys {} m = m" "del_keys (A \<union> K) m = del_keys K (del_keys A m)"
  "apply_writes (map WDel ks) m = del_keys (set ks) m"
  by (auto simp: del_keys_def fun_eq_iff apply_dels)

lemma apply_writes_del_keys:
  "(\<And>w. w \<in> set ws \<Longrightarrow> written w \<notin> K) \<Longrightarrow>
     apply_writes ws (del_keys K m) = del_keys K (apply_writes ws m)"
proof (induction ws arbitrary: m)
  case (Cons w ws)
  have "apply_write (del_keys K m) w = del_keys K (apply_write m w)"
    using Cons.prems [of w] by (cases w) (auto simp: del_keys_def fun_eq_iff)
  with Cons show ?case by simp
qed simp

lemma old_index_stored_cong:
  "stored m i = stored m' i \<Longrightarrow> old_index L m i = old_index L m' i"
  by (simp add: old_index_def)

lemma put_writes_key:
  assumes "valid_download (d_ID d) d" "w \<in> set (put_writes L d)" "repo_ok L m" "i \<noteq> d_ID d"
  shows "written w \<notin> set (old_index L m i)"
  using assms index_keys_id [of d "written w" L] old_index_id [OF assms(3), of "written w" i]
  by (auto simp: put_writes_def valid_download_def)

definition put_all :: "stdlib \<Rightarrow> Download list \<Rightarrow> store \<Rightarrow> store" where
  "put_all L ds m = foldl (\<lambda>m d. put_store L d m) m ds"

lemma put_all_simps [simp]:
  "put_all L [] m = m" "put_all L (ds @ [d]) m = put_store L d (put_all L ds m)"
  by (simp_all add: put_all_def)

lemma stored_put_all:
  "stored (put_all L ds m) i = (case find (\<lambda>d. d_ID d = i) (rev ds) of None \<Rightarrow> stored m i | Some d \<Rightarrow> Some d)"
  by (induction ds rule: rev_induct) auto

lemma stored_put_all_other: "i \<notin> d_ID ` set ds \<Longrightarrow> stored (put_all L ds m) i = stored m i"
  by (induction ds rule: rev_induct) auto

lemma stored_put_all_mem:
  "distinct (map d_ID ds) \<Longrightarrow> d \<in> set ds \<Longrightarrow> stored (put_all L ds m) (d_ID d) = Some d"
proof (induction ds rule: rev_induct)
  case (snoc e ds)
  then show ?case by (cases "d = e") (auto simp: image_iff)
qed simp

lemma repo_ok_put_all:
  "repo_ok L m \<Longrightarrow> (\<And>d. d \<in> set ds \<Longrightarrow> valid_download (d_ID d) d) \<Longrightarrow> repo_ok L (put_all L ds m)"
  by (induction ds rule: rev_induct) (auto intro: repo_ok_put_store)

text \<open>
  Removing all old entries first and writing all downloads afterwards has the effect of one update
  after the other.
\<close>

lemma put_all_writes:
  assumes "repo_ok L m" "distinct (map d_ID ds)" "\<And>d. d \<in> set ds \<Longrightarrow> valid_download (d_ID d) d"
  shows "apply_writes (concat (map (put_writes L) ds))
      (del_keys (\<Union>d \<in> set ds. set (old_index L m (d_ID d))) m) = put_all L ds m"
  using assms(2,3)
proof (induction ds rule: rev_induct)
  case (snoc d ds)
  let ?K = "\<Union>d \<in> set ds. set (old_index L m (d_ID d))"
  let ?O = "old_index L m (d_ID d)"
  let ?M = "put_all L ds m"
  have new: "d_ID d \<notin> d_ID ` set ds" using snoc.prems(1) by simp
  have IH: "apply_writes (concat (map (put_writes L) ds)) (del_keys ?K m) = ?M"
    using snoc by simp
  have "written w \<notin> set ?O" if "w \<in> set (concat (map (put_writes L) ds))" for w
  proof -
    from that obtain e where e: "e \<in> set ds" "w \<in> set (put_writes L e)" by auto
    with new have "d_ID d \<noteq> d_ID e" by auto
    from put_writes_key [OF _ e(2) assms(1) this] snoc.prems(2) [of e] e(1) show ?thesis by simp
  qed
  then have "apply_writes (concat (map (put_writes L) ds)) (del_keys (set ?O) (del_keys ?K m)) =
      del_keys (set ?O) ?M"
    using apply_writes_del_keys [of "concat (map (put_writes L) ds)" "set ?O"] IH by simp
  moreover have "old_index L ?M (d_ID d) = ?O"
    by (rule old_index_stored_cong) (rule stored_put_all_other [OF new])
  then have "apply_writes (put_writes L d) (del_keys (set ?O) ?M) = put_store L d ?M"
    using put_store_writes [of ?O L ?M d] by (simp add: put_writes_def)
  moreover have "(\<Union>d \<in> set (ds @ [d]). set (old_index L m (d_ID d))) = ?K \<union> set ?O" by auto
  ultimately show ?case by simp
qed simp

definition del_all :: "stdlib \<Rightarrow> string list \<Rightarrow> store \<Rightarrow> store" where
  "del_all L ids m =
     (\<lambda>k. if \<exists>i \<in> set ids. k = kDownload i \<or> k \<in> set (old_index L m i) \<or> prefix (segment_prefix i) k
          then None else m k)"

lemma del_all_Nil [simp]: "del_all L [] m = m"
  by (simp add: del_all_def)

lemma stored_del_all: "stored (del_all L ids m) i = (if i \<in> set ids then None else stored m i)"
  by (auto simp: stored_def del_all_def)

lemma del_all_snoc:
  assumes "i \<notin> set ids"
  shows "del_all L (ids @ [i]) m = del_store L i (del_all L ids m)"
proof -
  have "old_index L (del_all L ids m) i = old_index L m i"
    by (rule old_index_stored_cong) (simp add: stored_del_all assms)
  then show ?thesis by (auto simp: del_all_def del_store_def fun_eq_iff)
qed

lemma repo_ok_del_all: "repo_ok L m \<Longrightarrow> distinct ids \<Longrightarrow> repo_ok L (del_all L ids m)"
  by (induction ids rule: rev_induct) (auto simp: del_all_snoc intro: repo_ok_del_store)

section \<open>The three phases on a database without faults\<close>

lemma read_rows_live:
  assumes "badger_laws B" "badger_quiet B" "repo_ok L (bdata B s)"
    and "\<forall>i \<in> set ids. stored (bdata B s) i = Some (r i)"
  shows "read_rows B live s ids = Inr (map r ids)"
  using assms(4)
proof (induction ids)
  case (Cons i ids)
  with repo_ok_get [OF assms(3), of i] repo_ok_valid [OF assms(3), of i] show ?case
    by (simp add: quiet_get [OF assms(1,2)] valid_download_def)
qed simp

lemma chunks_short: "ds \<noteq> [] \<Longrightarrow> length ds \<le> 1000 \<Longrightarrow> chunks ds = [ds]"
  by (cases ds) simp_all

lemma chunk_loop_unindex:
  assumes "badger_quiet B" "\<forall>d \<in> set ds. \<not> IsZero (d_CreatedAt (f d))"
  shows "chunk_loop (\<lambda>_. live) (\<lambda>cx d tx. Inr (unindexDownload B L ck s tx (f d))) ds tx =
    Inr ((), tx @ map WDel (concat (map (\<lambda>d. index_keys L (f d)) ds)))"
  using assms(2)
  by (induction ds arbitrary: tx) (simp_all add: unindexDownload_quiet [OF assms(1)])

lemma chunk_loop_delete:
  assumes "badger_laws B" "badger_quiet B" "\<forall>d \<in> set ds. \<not> IsZero (d_CreatedAt d)"
  shows "\<exists>tx'. chunk_loop (\<lambda>_. live) (\<lambda>cx d tx. deleteByPrefix B cx s (segment_prefix (d_ID d))
      (unindexDownload B L ck s tx d)) ds tx = Inr ((), tx') \<and>
    txview B s tx' = del_keys {k. \<exists>d \<in> set ds. k \<in> set (index_keys L d) \<or>
      prefix (segment_prefix (d_ID d)) k} (txview B s tx)"
  using assms(3)
proof (induction ds arbitrary: tx)
  case (Cons d ds)
  let ?tx = "tx @ map WDel (index_keys L d)"
  let ?tx2 = "?tx @ map WDel (filter (prefix (segment_prefix (d_ID d))) (bkeys B s ?tx))"
  have step: "deleteByPrefix B live s (segment_prefix (d_ID d)) (unindexDownload B L ck s tx d) = Inr ?tx2"
    using Cons.prems
    by (simp add: unindexDownload_quiet [OF assms(2)] deleteByPrefix_live [OF assms(1,2)])
  have view: "txview B s ?tx2 =
      del_keys {k. k \<in> set (index_keys L d) \<or> prefix (segment_prefix (d_ID d)) k} (txview B s tx)"
    using badger_keys_set [OF assms(1), of s ?tx]
    by (auto simp: txview_append del_keys_def fun_eq_iff dom_def)
  from Cons obtain tx' where tx': "chunk_loop (\<lambda>_. live) (\<lambda>cx d tx. deleteByPrefix B cx s
      (segment_prefix (d_ID d)) (unindexDownload B L ck s tx d)) ds ?tx2 = Inr ((), tx')"
    "txview B s tx' = del_keys {k. \<exists>d \<in> set ds. k \<in> set (index_keys L d) \<or>
      prefix (segment_prefix (d_ID d)) k} (txview B s ?tx2)" by (meson list.set_intros(2))
  have "txview B s tx' = del_keys {k. \<exists>d \<in> set (d # ds). k \<in> set (index_keys L d) \<or>
      prefix (segment_prefix (d_ID d)) k} (txview B s tx)"
    unfolding tx'(2) view by (auto simp: del_keys_def fun_eq_iff)
  with step tx'(1) show ?case by auto
qed (simp add: del_keys_def)

lemma run_chunks_quiet:
  assumes "badger_laws B" "badger_quiet B"
    and "chunk_loop (\<lambda>_. live) (step s) ds [] = Inr ((), tx)"
  shows "\<exists>s'. run_chunks B (\<lambda>_. live) step [ds] s = (Inr (), s') \<and> bdata B s' = txview B s tx"
  using db_update_quiet [OF assms(1,2), of "chunk_loop (\<lambda>_. live) (step s) ds" "()" tx s] assms(3)
  by (auto simp: txview_def)

lemma lookup_old_map:
  "i \<in> set ids \<Longrightarrow> lookup_old (map r ids) ids i = r i"
proof -
  assume i: "i \<in> set ids"
  have "zip ids (map r ids) = map (\<lambda>i. (i, r i)) ids" by (induction ids) simp_all
  then have "map_of (rev (zip ids (map r ids))) = (Some \<circ> r) |` set ids"
    by (simp add: rev_map map_of_map_restrict)
  with i show ?thesis by (simp add: lookup_old_def)
qed

lemma BulkUpdateDownloads_live:
  assumes laws: "badger_laws B" "badger_quiet B" and ok: "repo_ok L (bdata B s)"
    and ids: "distinct (map d_ID ds)" "\<forall>d \<in> set ds. stored (bdata B s) (d_ID d) \<noteq> None"
    and short: "length ds < 1000"
  shows "\<exists>s' ds'. BulkUpdateDownloads B L (\<lambda>_. live) ck s ds = (Inr (), s') \<and>
    bdata B s' = put_all L ds' (bdata B s) \<and>
    list_all2 (\<lambda>d d'. \<exists>ck. d' = updated ck (the (stored (bdata B s) (d_ID d))) d) ds ds'"
proof (cases "ds = []")
  case True
  then show ?thesis by (intro exI [of _ s] exI [of _ "[]"]) (simp add: BulkUpdateDownloads_def)
next
  case False
  let ?m = "bdata B s" and ?ids = "map d_ID ds"
  define r where "r i = the (stored ?m i)" for i
  define old where "old = lookup_old (map r ?ids) ?ids"
  have row: "stored ?m (d_ID d) = Some (r (d_ID d))" if "d \<in> set ds" for d
    using that ids(2) by (auto simp: r_def)
  have old: "old (d_ID d) = r (d_ID d)" if "d \<in> set ds" for d
    unfolding old_def by (rule lookup_old_map) (use that in simp)
  have valid: "valid_download (d_ID d) (r (d_ID d))" if "d \<in> set ds" for d
    using repo_ok_valid [OF ok row [OF that]] .
  have nz: "\<forall>d \<in> set ds. \<not> IsZero (d_CreatedAt (old (d_ID d)))"
    using valid old by (simp add: valid_download_def)
  have rd: "read_rows B live s ?ids = Inr (map r ?ids)"
    by (rule read_rows_live [OF laws ok]) (use row in simp)
  let ?step = "\<lambda>s cx d tx. Inr (unindexDownload B L ck s tx (old (d_ID d)))"
  from run_chunks_quiet [where step = ?step, OF laws chunk_loop_unindex [OF laws(2) nz]]
  obtain s1 where s1: "run_chunks B (\<lambda>_. live) ?step [ds] s = (Inr (), s1)"
    "bdata B s1 = txview B s ([] @ map WDel (concat (map (\<lambda>d. index_keys L (old (d_ID d))) ds)))"
    by blast
  have "set (concat (map (\<lambda>d. index_keys L (old (d_ID d))) ds)) =
      (\<Union>d \<in> set ds. set (old_index L ?m (d_ID d)))"
    using row old by (simp add: old_index_def)
  with s1(2) have m1: "bdata B s1 = del_keys (\<Union>d \<in> set ds. set (old_index L ?m (d_ID d))) ?m"
    by (simp only: txview_append txview_Nil del_keys_simps)
  from bulk_update_loop_quiet [OF laws(2) nz, of 0 L ck s1 "[]"] short obtain ds' where ds':
    "bulk_update_loop B L live ck s1 old 0 ds [] =
      (Inr (), map Write (concat (map (put_writes L) ds')) @ [Flush])"
    "list_all2 (\<lambda>d d'. \<exists>ck. d' = updated ck (old (d_ID d)) d) ds ds'" by auto
  have l2: "list_all2 (\<lambda>d d'. \<exists>ck. d' = updated ck (the (stored ?m (d_ID d))) d) ds ds'"
    using ds'(2) old by (simp add: list_all2_conv_all_nth r_def)
  have len: "length ds' = length ds" and nth: "\<And>j. j < length ds \<Longrightarrow>
      d_ID (ds' ! j) = d_ID (ds ! j) \<and> valid_download (d_ID (ds' ! j)) (ds' ! j)"
    using l2 valid nth_mem [of _ ds] updated_nonzero
    by (auto simp: list_all2_conv_all_nth r_def valid_download_def)
  then have ids': "map d_ID ds' = ?ids" by (simp add: list_eq_iff_nth_eq)
  have valid': "valid_download (d_ID d) d" if "d \<in> set ds'" for d
    using that nth len by (auto simp: in_set_conv_nth)
  let ?ws = "concat (map (put_writes L) ds')"
  let ?s' = "bbatch_db B s1 (map Write ?ws @ [Flush])"
  have "bdata B ?s' = apply_writes ?ws (bdata B s1)"
    by (rule badger_batch [OF laws(1)]) (use quiet_batch_accepts [OF laws(2), of s1 "[]" ?ws] in simp)
  also have "\<dots> = put_all L ds' ?m"
  proof -
    have "(\<Union>d \<in> set ds. set (old_index L ?m (d_ID d))) = (\<Union>i \<in> set ?ids. set (old_index L ?m i))"
      by simp
    also have "\<dots> = (\<Union>d \<in> set ds'. set (old_index L ?m (d_ID d)))" by (simp add: ids' [symmetric])
    finally show ?thesis using put_all_writes [OF ok _ valid'] ids(1) ids' m1 by simp
  qed
  finally have "bdata B ?s' = put_all L ds' ?m" .
  moreover have "BulkUpdateDownloads B L (\<lambda>_. live) ck s ds = (Inr (), ?s')"
    using False rd s1(1) ds'(1) chunks_short [OF False] short
    by (simp add: BulkUpdateDownloads_def Let_def repo_view_quiet [OF laws(2)] old_def del: run_chunks.simps)
  ultimately show ?thesis using l2 by blast
qed

lemma BulkDeleteDownloads_live:
  assumes laws: "badger_laws B" "badger_quiet B" and ok: "repo_ok L (bdata B s)"
    and ids: "distinct ids" "\<forall>i \<in> set ids. stored (bdata B s) i \<noteq> None"
    and short: "length ids < 1000"
  shows "\<exists>s'. BulkDeleteDownloads B L (\<lambda>_. live) ck s ids = (Inr (), s') \<and>
    bdata B s' = del_all L ids (bdata B s)"
proof (cases "ids = []")
  case True
  then show ?thesis by (simp add: BulkDeleteDownloads_def)
next
  case False
  let ?m = "bdata B s"
  define r where "r i = the (stored ?m i)" for i
  have row: "stored ?m i = Some (r i)" if "i \<in> set ids" for i
    using that ids(2) by (auto simp: r_def)
  have valid: "valid_download i (r i)" if "i \<in> set ids" for i
    using repo_ok_valid [OF ok row [OF that]] .
  have nz: "\<forall>d \<in> set (map r ids). \<not> IsZero (d_CreatedAt d)"
    using valid by (simp add: valid_download_def)
  have rd: "read_rows B live s ids = Inr (map r ids)"
    by (rule read_rows_live [OF laws ok]) (use row in simp)
  let ?step = "\<lambda>s cx d tx. deleteByPrefix B cx s (segment_prefix (d_ID d)) (unindexDownload B L ck s tx d)"
  let ?K = "{k. \<exists>d \<in> set (map r ids). k \<in> set (index_keys L d) \<or> prefix (segment_prefix (d_ID d)) k}"
  from chunk_loop_delete [OF laws nz, of s L ck "[]"] obtain tx where
    tx: "chunk_loop (\<lambda>_. live) (?step s) (map r ids) [] = Inr ((), tx)"
    "txview B s tx = del_keys ?K ?m" by auto
  from run_chunks_quiet [where step = ?step, OF laws tx(1)] obtain s1 where
    s1: "run_chunks B (\<lambda>_. live) ?step [map r ids] s = (Inr (), s1)" "bdata B s1 = del_keys ?K ?m"
    using tx(2) by auto
  let ?ws = "map (\<lambda>d. WDel (kDownload (d_ID d))) (map r ids)"
  let ?s' = "bbatch_db B s1 (map Write ?ws @ [Flush])"
  have "bulk_delete_loop B live s1 0 (map r ids) [] = (Inr (), map Write ?ws @ [Flush])"
    using bulk_delete_loop_quiet [OF laws(2), of 0 "map r ids" s1 "[]"] short by simp
  with s1(1) rd False chunks_short [of "map r ids"] short
  have "BulkDeleteDownloads B L (\<lambda>_. live) ck s ids = (Inr (), ?s')"
    by (simp add: BulkDeleteDownloads_def repo_view_quiet [OF laws(2)] del: run_chunks.simps)
  moreover have "bdata B ?s' = del_all L ids ?m"
  proof -
    have ws: "?ws = map WDel (map kDownload ids)"
      using valid by (simp add: valid_download_def)
    have "bdata B ?s' = apply_writes ?ws (bdata B s1)"
      by (rule badger_batch [OF laws(1)]) (use quiet_batch_accepts [OF laws(2), of s1 "[]" ?ws] in simp)
    also have "\<dots> = del_keys (set (map kDownload ids)) (del_keys ?K ?m)"
      unfolding ws by (simp only: del_keys_simps(3) s1(2))
    also have "\<dots> = del_all L ids ?m"
      using valid row
      by (auto simp: del_keys_def del_all_def fun_eq_iff valid_download_def old_index_def)
    finally show ?thesis .
  qed
  ultimately show ?thesis by blast
qed

lemma BulkCreateDownloads_live:
  assumes laws: "badger_laws B" "badger_quiet B" and ok: "repo_ok L (bdata B s)" and ck: "clock_ok ck"
    and ids: "distinct (map d_ID ds)"
      "\<forall>d \<in> set ds. d_ID d \<noteq> [] \<and> bar \<notin> set (d_ID d) \<and> stored (bdata B s) (d_ID d) = None"
    and short: "length ds < 1000"
  shows "\<exists>s' ds'. BulkCreateDownloads B L live ck s ds = (Inr (), s') \<and>
    bdata B s' = put_all L ds' (bdata B s) \<and>
    list_all2 (\<lambda>d d'. \<exists>ck. clock_ok ck \<and> d' = created ck d) ds ds'"
proof -
  let ?m = "bdata B s"
  from bulk_create_loop_quiet [OF laws(2) ck, of ds 0 L s "[]"] ids(2) short obtain ds' where ds':
    "bulk_create_loop B L live ck s 0 ds [] =
      (Inr (), map Write (concat (map (put_writes L) ds')) @ [Flush])"
    "list_all2 (\<lambda>d d'. \<exists>ck. clock_ok ck \<and> d' = created ck d) ds ds'" by auto
  have len: "length ds' = length ds" and nth: "\<And>j. j < length ds \<Longrightarrow>
      d_ID (ds' ! j) = d_ID (ds ! j) \<and> valid_download (d_ID (ds' ! j)) (ds' ! j)"
    using ds'(2) ids(2) nth_mem [of _ ds] created_nonzero
    by (auto simp: list_all2_conv_all_nth valid_download_def)
  then have ids': "map d_ID ds' = map d_ID ds" by (simp add: list_eq_iff_nth_eq)
  have valid': "valid_download (d_ID d) d" if "d \<in> set ds'" for d
    using that nth len by (auto simp: in_set_conv_nth)
  have "stored ?m i = None" if "i \<in> set (map d_ID ds')" for i
    using that ids(2) unfolding ids' by auto
  then have empty: "(\<Union>d \<in> set ds'. set (old_index L ?m (d_ID d))) = {}"
    by (auto simp: old_index_def)
  let ?ws = "concat (map (put_writes L) ds')"
  let ?s' = "bbatch_db B s (map Write ?ws @ [Flush])"
  have "bdata B ?s' = apply_writes ?ws ?m"
    by (rule badger_batch [OF laws(1)]) (use quiet_batch_accepts [OF laws(2), of s "[]" ?ws] in simp)
  also have "\<dots> = put_all L ds' ?m"
    using put_all_writes [OF ok _ valid'] ids(1) ids' empty by simp
  finally have "bdata B ?s' = put_all L ds' ?m" .
  moreover have "BulkCreateDownloads B L live ck s ds = (Inr (), ?s')"
    by (simp add: BulkCreateDownloads_def ds'(1))
  ultimately show ?thesis using ds'(2) by blast
qed

section \<open>The walk over a queue\<close>

text \<open>
  The prefix of the walk is \<open>dq||<queue>\<close> without the closing separator, so it meets the downloads of
  every queue whose id starts with the given one.
\<close>

definition under_queue :: "store \<Rightarrow> string \<Rightarrow> string set" where
  "under_queue m q = {i. \<exists>d. stored m i = Some d \<and> prefix q (d_QueueID d)}"

lemma prefix_append_bar: "bar \<notin> set q \<Longrightarrow> prefix q (p @ bar # r) \<longleftrightarrow> prefix q p"
proof
  assume q: "bar \<notin> set q" and pre: "prefix q (p @ bar # r)"
  show "prefix q p"
  proof (rule ccontr)
    assume "\<not> prefix q p"
    with pre obtain zs where "q = p @ zs" "prefix zs (bar # r)"
      by (auto simp: prefix_append)
    moreover from this \<open>\<not> prefix q p\<close> have "zs \<noteq> []" by auto
    ultimately have "bar \<in> set q" by (cases zs) auto
    with q show False ..
  qed
qed (auto simp: prefix_def)

lemma queue_walk:
  assumes laws: "badger_laws B" and ok: "repo_ok L (bdata B s)" and q: "q \<noteq> []" "bar \<notin> set q"
  shows "distinct (map key_id (iter_forward B s [] (queue_prefix q)))"
    and "set (map key_id (iter_forward B s [] (queue_prefix q))) = under_queue (bdata B s) q"
proof -
  let ?m = "bdata B s" and ?ks = "iter_forward B s [] (queue_prefix q)"
  have mem: "k \<in> set ?ks \<longleftrightarrow> k \<in> dom ?m \<and> prefix (queue_prefix q) k" for k
    using badger_keys_set [OF laws, of s "[]"] by (auto simp: iter_forward_filter [OF laws])
  have row: "\<exists>d. stored ?m (key_id k) = Some d \<and>
      k = kDownloadByQueue 0 (d_QueueID d) (d_CreatedAt d) (key_id k)" if "k \<in> set ?ks" for k
  proof -
    from that mem have k: "k \<in> dom ?m" "prefix (queue_prefix q) k" by blast+
    from queue_prefix_family [OF k(2)] have fam: "key_family k = FQueueIx" .
    then have "is_index k" by (simp add: is_index_def)
    with repo_ok_index [OF ok] k(1) obtain i d where
      d: "stored ?m i = Some d" "k \<in> set (index_keys L d)" by (auto simp: indexed_def)
    with repo_ok_valid [OF ok d(1)] index_keys_id [OF _ d(2)] index_keys_family(3) [OF d(2) fam]
    show ?thesis by (auto simp: valid_download_def)
  qed
  have prefix: "prefix (queue_prefix q) (kDownloadByQueue 0 p t i) \<longleftrightarrow> prefix q p" for p t i
    using prefix_append_bar [OF q(2)] by (simp add: prefix_join_unfold)
  have "inj_on key_id (set ?ks)"
    by (rule inj_onI) (metis option.inject row)
  moreover have "distinct ?ks"
    using badger_keys_sorted [OF laws, of s "[]"]
    by (simp add: iter_forward_filter [OF laws] strict_sorted_iff)
  ultimately show "distinct (map key_id ?ks)" by (simp add: distinct_map)
  show "set (map key_id ?ks) = under_queue ?m q"
  proof (rule set_eqI)
    fix i
    show "i \<in> set (map key_id ?ks) \<longleftrightarrow> i \<in> under_queue ?m q"
    proof
      assume "i \<in> set (map key_id ?ks)"
      then obtain k where k: "k \<in> set ?ks" "i = key_id k" by auto
      from row [OF k(1)] obtain d where d: "stored ?m i = Some d"
        "k = kDownloadByQueue 0 (d_QueueID d) (d_CreatedAt d) i" unfolding k(2) by blast
      with mem k(1) prefix show "i \<in> under_queue ?m q" unfolding under_queue_def by blast
    next
      assume "i \<in> under_queue ?m q"
      then obtain d where d: "stored ?m i = Some d" "prefix q (d_QueueID d)"
        by (auto simp: under_queue_def)
      let ?k = "kDownloadByQueue 0 (d_QueueID d) (d_CreatedAt d) (d_ID d)"
      from repo_ok_valid [OF ok d(1)] have id: "d_ID d = i" "bar \<notin> set i"
        by (simp_all add: valid_download_def)
      from d(2) q(1) have "?k \<in> set (index_keys L d)" by (auto simp: index_keys_def)
      with d(1) repo_ok_index [OF ok, of ?k] have "?k \<in> dom ?m" by (auto simp: indexed_def)
      with mem [of ?k] prefix d(2) have "?k \<in> set ?ks" by blast
      moreover have "key_id ?k = i" using id by (simp add: key_id_simps)
      ultimately show "i \<in> set (map key_id ?ks)" by force
    qed
  qed
qed

lemma walk_ids_live: "walk_ids live ks = Inr (map key_id ks)"
  by (induction ks) simp_all

lemma walk_rows_live:
  assumes "badger_laws B" "badger_quiet B" "repo_ok L (bdata B s)"
    and "\<forall>k \<in> set ks. stored (bdata B s) (key_id k) \<noteq> None"
  shows "walk_rows B live s f ks = Inr (map (\<lambda>k. f (row (bdata B s) k)) ks)"
  using assms(4)
proof (induction ks)
  case (Cons k ks)
  then obtain d where "stored (bdata B s) (key_id k) = Some d" by auto
  with Cons repo_ok_get [OF assms(3), of "key_id k"] show ?case
    by (simp add: quiet_get [OF assms(1,2)] row_def)
qed simp

text \<open>
  The net effect on the table of rewriting every download under a queue with \<open>f\<close>: its row is \<open>f\<close> of
  the old one, stamped; no other row changes.
\<close>

definition rewritten :: "(Download \<Rightarrow> Download) \<Rightarrow> string set \<Rightarrow> store \<Rightarrow> store \<Rightarrow> bool" where
  "rewritten f I m m' \<longleftrightarrow>
     (\<forall>i. i \<notin> I \<longrightarrow> stored m' i = stored m i) \<and>
     (\<forall>i \<in> I. \<exists>d t. stored m i = Some d \<and> stored m' i = Some ((f d)\<lparr>d_UpdatedAt := t\<rparr>))"

lemma rewrite_queue:
  assumes laws: "badger_laws B" "badger_quiet B" and ok: "repo_ok L (bdata B s)"
    and q: "q \<noteq> []" "bar \<notin> set q"
    and f: "\<And>d. d_ID (f d) = d_ID d" "\<And>d. d_CreatedAt (f d) = d_CreatedAt d"
    and short: "card (under_queue (bdata B s) q) < 1000"
  defines "ks \<equiv> iter_forward B s [] (queue_prefix q)"
  shows "\<exists>ds s'. walk_rows B live s f ks = Inr ds \<and>
    (if ds = [] then (Inr (), s) else BulkUpdateDownloads B L (\<lambda>_. live) ck s ds) = (Inr (), s') \<and>
    rewritten f (under_queue (bdata B s) q) (bdata B s) (bdata B s') \<and> repo_ok L (bdata B s') \<and>
    (\<exists>ds'. bdata B s' = put_all L ds' (bdata B s))"
proof -
  let ?m = "bdata B s"
  let ?ds = "map (\<lambda>k. f (row ?m k)) ks"
  note walk = queue_walk [OF laws(1) ok q, folded ks_def]
  have row: "stored ?m (key_id k) = Some (row ?m k)" "d_ID (row ?m k) = key_id k"
    if "k \<in> set ks" for k
  proof -
    have "key_id k \<in> under_queue ?m q" using walk(2) that by auto
    then obtain d where d: "stored ?m (key_id k) = Some d" by (auto simp: under_queue_def)
    with repo_ok_valid [OF ok d] show "stored ?m (key_id k) = Some (row ?m k)"
      "d_ID (row ?m k) = key_id k" by (simp_all add: row_def valid_download_def)
  qed
  have ids: "map d_ID ?ds = map key_id ks" using row f by simp
  have "length ?ds = card (under_queue ?m q)"
    using distinct_card [OF walk(1)] walk(2) by simp
  with short have len: "length ?ds < 1000" by simp
  have dist: "distinct (map d_ID ?ds)" unfolding ids by (rule walk(1))
  have st: "\<forall>d \<in> set ?ds. stored ?m (d_ID d) \<noteq> None" using row f by auto
  from BulkUpdateDownloads_live [OF laws ok dist st len, of ck] obtain s' ds' where
    u: "BulkUpdateDownloads B L (\<lambda>_. live) ck s ?ds = (Inr (), s')"
    and m': "bdata B s' = put_all L ds' ?m"
    and l2: "list_all2 (\<lambda>d d'. \<exists>ck. d' = updated ck (the (stored ?m (d_ID d))) d) ?ds ds'" by blast
  have len': "length ds' = length ks" using l2 by (simp add: list_all2_lengthD [symmetric])
  have nth: "\<exists>t. ds' ! j = (f (row ?m (ks ! j)))\<lparr>d_UpdatedAt := t\<rparr> \<and>
      valid_download (key_id (ks ! j)) (ds' ! j)" if j: "j < length ks" for j
  proof -
    have k: "ks ! j \<in> set ks" using j by simp
    from l2 j obtain ck' where "ds' ! j = updated ck' (the (stored ?m (key_id (ks ! j)))) (f (row ?m (ks ! j)))"
      using row(2) [OF k] f(1) by (auto simp: list_all2_conv_all_nth)
    moreover have "valid_download (key_id (ks ! j)) (row ?m (ks ! j))"
      by (rule repo_ok_valid [OF ok row(1) [OF k]])
    ultimately show ?thesis using f by (auto simp: updated_keep valid_download_def)
  qed
  have valid: "valid_download (key_id (ks ! j)) (ds' ! j)" if "j < length ks" for j
    using nth [OF that] by blast
  then have id: "d_ID (ds' ! j) = key_id (ks ! j)" if "j < length ks" for j
    using that by (simp add: valid_download_def)
  have ids': "map d_ID ds' = map key_id ks"
    by (rule nth_equalityI) (simp_all add: len' id)
  have "valid_download (d_ID d) d" if "d \<in> set ds'" for d
  proof -
    from that len' obtain j where "j < length ks" "d = ds' ! j" by (auto simp: in_set_conv_nth)
    with valid id show ?thesis by simp
  qed
  then have ok': "repo_ok L (bdata B s')"
    unfolding m' by (rule repo_ok_put_all [OF ok])
  have "rewritten f (under_queue ?m q) ?m (bdata B s')"
    unfolding rewritten_def m'
  proof (intro conjI allI impI ballI)
    fix i assume "i \<notin> under_queue ?m q"
    then have "i \<notin> d_ID ` set ds'" using walk(2) ids' by (metis list.set_map)
    then show "stored (put_all L ds' ?m) i = stored ?m i" by (rule stored_put_all_other)
  next
    fix i assume "i \<in> under_queue ?m q"
    then have "i \<in> set (map key_id ks)" using walk(2) by simp
    then obtain j where j: "j < length ks" "key_id (ks ! j) = i"
      unfolding in_set_conv_nth by auto
    from nth [OF j(1)] obtain t where t: "ds' ! j = (f (row ?m (ks ! j)))\<lparr>d_UpdatedAt := t\<rparr>" by blast
    have "stored (put_all L ds' ?m) (d_ID (ds' ! j)) = Some (ds' ! j)"
      by (rule stored_put_all_mem) (use ids' walk(1) j(1) len' in simp_all)
    then have "stored (put_all L ds' ?m) i = Some ((f (row ?m (ks ! j)))\<lparr>d_UpdatedAt := t\<rparr>)"
      unfolding id [OF j(1)] j(2) unfolding t .
    moreover have "stored ?m i = Some (row ?m (ks ! j))"
      using row(1) [OF nth_mem [OF j(1)]] unfolding j(2) .
    ultimately show "\<exists>d t. stored ?m i = Some d \<and>
        stored (put_all L ds' ?m) i = Some ((f d)\<lparr>d_UpdatedAt := t\<rparr>)" by blast
  qed
  moreover have "walk_rows B live s f ks = Inr ?ds"
    by (rule walk_rows_live [OF laws ok]) (use row in simp)
  moreover have "(if ?ds = [] then (Inr (), s) else BulkUpdateDownloads B L (\<lambda>_. live) ck s ?ds) = (Inr (), s')"
    using u by (auto simp: BulkUpdateDownloads_def)
  ultimately show ?thesis using ok' m' by blast
qed

section \<open>Properties\<close>

text \<open>
  Creating fewer than 1000 downloads at once, with fresh and distinct ids that have no separator
  in them, stores them all with their stamps, changes no other row, and leaves an index that matches
  the stored downloads.
\<close>

lemma bulk_create_correct:
  assumes "badger_laws B" "badger_quiet B" "repo_ok L (bdata B s)" "clock_ok ck"
    and "distinct (map d_ID ds)" "length ds < 1000"
    and "\<forall>d \<in> set ds. d_ID d \<noteq> [] \<and> bar \<notin> set (d_ID d) \<and> stored (bdata B s) (d_ID d) = None"
  shows "\<exists>s'. BulkCreateDownloads B L live ck s ds = (Inr (), s') \<and> repo_ok L (bdata B s') \<and>
    (\<forall>i. i \<notin> d_ID ` set ds \<longrightarrow> stored (bdata B s') i = stored (bdata B s) i) \<and>
    (\<forall>d \<in> set ds. \<exists>ck. clock_ok ck \<and> stored (bdata B s') (d_ID d) = Some (created ck d))"
proof -
  from BulkCreateDownloads_live [OF assms(1-5,7,6)] obtain s' ds' where
    s': "BulkCreateDownloads B L live ck s ds = (Inr (), s')" "bdata B s' = put_all L ds' (bdata B s)"
    and l2: "list_all2 (\<lambda>d d'. \<exists>ck. clock_ok ck \<and> d' = created ck d) ds ds'" by blast
  have ids: "map d_ID ds' = map d_ID ds"
    using l2 by (auto simp: list_all2_conv_all_nth list_eq_iff_nth_eq)
  have d': "\<exists>d' \<in> set ds'. \<exists>ck. clock_ok ck \<and> d' = created ck d" if "d \<in> set ds" for d
    using list_all2_mem1 [OF l2 that] .
  have valid: "valid_download (d_ID d') d'" if "d' \<in> set ds'" for d'
  proof -
    from list_all2_mem2 [OF l2 that] obtain d ck where "d \<in> set ds" "clock_ok ck" "d' = created ck d"
      by blast
    with assms(7) created_valid [of ck d] show ?thesis by simp
  qed
  have "stored (bdata B s') (d_ID d) = Some d" if "d \<in> set ds'" for d
    unfolding s'(2) by (rule stored_put_all_mem) (use that ids assms(5) in simp_all)
  moreover have "stored (bdata B s') i = stored (bdata B s) i" if "i \<notin> d_ID ` set ds" for i
    unfolding s'(2) by (rule stored_put_all_other) (metis that ids list.set_map)
  moreover have "repo_ok L (bdata B s')"
    unfolding s'(2) by (rule repo_ok_put_all [OF assms(3) valid])
  ultimately show ?thesis using s'(1) d' by (metis created_sel(1))
qed

lemma bulk_create_correct_witness:
  "\<exists>s'. BulkCreateDownloads mem_badger basic_lib live demo_clock demo_store [urgent_download] = (Inr (), s') \<and>
     repo_ok basic_lib (bdata mem_badger s') \<and>
     stored (bdata mem_badger s') ''a1'' = Some newer \<and> stored (bdata mem_badger s') ''b2'' \<noteq> None"
proof -
  have "d_ID urgent_download = ''b2''" by (simp add: urgent_download_def)
  with bulk_create_correct [OF mem_badger_laws mem_badger_quiet _ demo_clock_ok,
      of basic_lib demo_store "[urgent_download]"] demo_repo_ok demo_stored
  show ?thesis by (auto simp: bar_def newer_def)
qed

text \<open>
  C25.  Updating fewer than 1000 distinct stored downloads at once replaces each row by the given
  download (keeping the stored creation time when it brings none), changes no other row, and leaves
  an index that matches the stored downloads.
\<close>

theorem bulk_update_correct:
  assumes "badger_laws B" "badger_quiet B" "repo_ok L (bdata B s)"
    and "distinct (map d_ID ds)" "length ds < 1000"
    and "\<forall>d \<in> set ds. stored (bdata B s) (d_ID d) \<noteq> None"
  shows "\<exists>s'. BulkUpdateDownloads B L (\<lambda>_. live) ck s ds = (Inr (), s') \<and> repo_ok L (bdata B s') \<and>
    (\<forall>i. i \<notin> d_ID ` set ds \<longrightarrow> stored (bdata B s') i = stored (bdata B s) i) \<and>
    (\<forall>d \<in> set ds. \<exists>old ck. stored (bdata B s) (d_ID d) = Some old \<and>
       stored (bdata B s') (d_ID d) = Some (updated ck old d))"
proof -
  from BulkUpdateDownloads_live [OF assms(1-4,6,5)] obtain s' ds' where
    s': "BulkUpdateDownloads B L (\<lambda>_. live) ck s ds = (Inr (), s')" "bdata B s' = put_all L ds' (bdata B s)"
    and l2: "list_all2 (\<lambda>d d'. \<exists>ck. d' = updated ck (the (stored (bdata B s) (d_ID d))) d) ds ds'" by blast
  have ids: "map d_ID ds' = map d_ID ds"
    using l2 by (auto simp: list_all2_conv_all_nth list_eq_iff_nth_eq)
  have d': "\<exists>d' \<in> set ds'. \<exists>ck. d' = updated ck (the (stored (bdata B s) (d_ID d))) d" if "d \<in> set ds" for d
    using list_all2_mem1 [OF l2 that] .
  have valid: "valid_download (d_ID d') d'" if "d' \<in> set ds'" for d'
  proof -
    from list_all2_mem2 [OF l2 that] obtain d ck where
      d: "d \<in> set ds" "d' = updated ck (the (stored (bdata B s) (d_ID d))) d" by blast
    with assms(6) obtain old where "stored (bdata B s) (d_ID d) = Some old" by auto
    with d repo_ok_valid [OF assms(3) this] updated_nonzero [of old ck d] show ?thesis
      by (simp add: valid_download_def)
  qed
  have "stored (bdata B s') (d_ID d) = Some d" if "d \<in> set ds'" for d
    unfolding s'(2) by (rule stored_put_all_mem) (use that ids assms(4) in simp_all)
  then have "\<exists>old ck. stored (bdata B s) (d_ID d) = Some old \<and>
      stored (bdata B s') (d_ID d) = Some (updated ck old d)" if "d \<in> set ds" for d
    using d' [OF that] assms(6) that by (metis option.collapse updated_sel(1))
  moreover have "stored (bdata B s') i = stored (bdata B s) i" if "i \<notin> d_ID ` set ds" for i
    unfolding s'(2) by (rule stored_put_all_other) (metis that ids list.set_map)
  moreover have "repo_ok L (bdata B s')"
    unfolding s'(2) by (rule repo_ok_put_all [OF assms(3) valid])
  ultimately show ?thesis using s'(1) by blast
qed

theorem bulk_update_correct_witness:
  "\<exists>s' t. BulkUpdateDownloads mem_badger basic_lib (\<lambda>_. live) demo_clock demo_pair
       [newer\<lparr>d_Priority := 3\<rparr>] = (Inr (), s') \<and>
     stored (bdata mem_badger s') ''b2'' = Some urgent \<and>
     stored (bdata mem_badger s') ''a1'' = Some (newer\<lparr>d_Priority := 3, d_UpdatedAt := t\<rparr>)"
  using bulk_update_correct [OF mem_badger_laws mem_badger_quiet, of basic_lib demo_pair
      "[newer\<lparr>d_Priority := 3\<rparr>]" demo_clock] demo_pair_facts
  by (auto simp: updated_keep IsZero_def zero_time_def)

lemma BulkDeleteDownloadsByQueueID_live:
  assumes "badger_laws B" "badger_quiet B" "repo_ok L (bdata B s)" "q \<noteq> []" "bar \<notin> set q"
    and "card (under_queue (bdata B s) q) < 1000"
  shows "\<exists>s'. BulkDeleteDownloadsByQueueID B L (\<lambda>_. live) ck s q = (Inr (), s') \<and>
    repo_ok L (bdata B s') \<and>
    (\<forall>i. stored (bdata B s') i =
       (if \<exists>d. stored (bdata B s) i = Some d \<and> prefix q (d_QueueID d) then None
        else stored (bdata B s) i))"
proof -
  let ?ids = "map key_id (iter_forward B s [] (queue_prefix q))"
  note walk = queue_walk [OF assms(1,3-5)]
  have "length ?ids < 1000" using distinct_card [OF walk(1)] walk(2) assms(6) by simp
  moreover have "\<forall>i \<in> set ?ids. stored (bdata B s) i \<noteq> None"
    unfolding walk(2) by (auto simp: under_queue_def)
  ultimately obtain s' where s': "BulkDeleteDownloads B L (\<lambda>_. live) ck s ?ids = (Inr (), s')"
    "bdata B s' = del_all L ?ids (bdata B s)"
    using BulkDeleteDownloads_live [OF assms(1-3) walk(1)] by blast
  have "BulkDeleteDownloadsByQueueID B L (\<lambda>_. live) ck s q = (Inr (), s')"
    using s' assms(4)
    by (auto simp: BulkDeleteDownloadsByQueueID_def repo_view_quiet [OF assms(2)] walk_ids_live
        BulkDeleteDownloads_def)
  moreover have "repo_ok L (bdata B s')" unfolding s'(2) by (rule repo_ok_del_all [OF assms(3) walk(1)])
  moreover have "stored (bdata B s') i = (if i \<in> under_queue (bdata B s) q then None
      else stored (bdata B s) i)" for i
    unfolding s'(2) stored_del_all walk(2) ..
  ultimately show ?thesis by (auto simp: under_queue_def)
qed

text \<open>
  C26.  Deleting the downloads of a queue deletes those of every queue whose id begins with the given
  one, and no other: the deletion of queue \<open>mai\<close> empties queue \<open>main\<close>.
\<close>

theorem bulk_delete_by_queue_exact:
  assumes "badger_laws B" "badger_quiet B" "repo_ok L (bdata B s)" "q \<noteq> []" "bar \<notin> set q"
    and "card (under_queue (bdata B s) q) < 1000"
  shows "\<exists>s'. BulkDeleteDownloadsByQueueID B L (\<lambda>_. live) ck s q = (Inr (), s') \<and>
    repo_ok L (bdata B s') \<and>
    (\<forall>i. stored (bdata B s') i =
       (if \<exists>d. stored (bdata B s) i = Some d \<and> prefix q (d_QueueID d) then None
        else stored (bdata B s) i))"
  by (rule BulkDeleteDownloadsByQueueID_live [OF assms])

lemma demo_under:
  "under_queue (map_of demo_pair) ''mai'' = {''a1'', ''b2''}"
  by (auto simp: under_queue_def demo_pair_facts(2) split: if_splits)

theorem bulk_delete_by_queue_exact_witness:
  "\<exists>s'. BulkDeleteDownloadsByQueueID mem_badger basic_lib (\<lambda>_. live) demo_clock demo_pair ''mai'' = (Inr (), s') \<and>
     stored (bdata mem_badger s') = Map.empty \<and> d_QueueID newer = ''main''"
  using bulk_delete_by_queue_exact [OF mem_badger_laws mem_badger_quiet, of basic_lib demo_pair "''mai''"
      demo_clock] demo_pair_facts demo_under
  by (auto simp: bar_def fun_eq_iff)

text \<open>
  Reassigning a queue moves the downloads of every queue whose id begins with the given one to
  the target queue and changes no other download; the index follows.
\<close>

lemma bulk_reassign_exact:
  assumes "badger_laws B" "badger_quiet B" "repo_ok L (bdata B s)" "q \<noteq> []" "bar \<notin> set q"
    and "card (under_queue (bdata B s) q) < 1000" "q' \<noteq> []" "q' \<noteq> q"
  shows "\<exists>s'. BulkReassignDownloadsQueue B L (\<lambda>_. live) ck s q q' = (Inr (), s') \<and>
    repo_ok L (bdata B s') \<and>
    rewritten (\<lambda>d. d\<lparr>d_QueueID := q'\<rparr>) (under_queue (bdata B s) q) (bdata B s) (bdata B s')"
proof -
  from rewrite_queue [OF assms(1-5) _ _ assms(6), of "\<lambda>d. d\<lparr>d_QueueID := q'\<rparr>" ck]
  obtain ds s' where r: "walk_rows B live s (\<lambda>d. d\<lparr>d_QueueID := q'\<rparr>)
      (iter_forward B s [] (queue_prefix q)) = Inr ds"
    "(if ds = [] then (Inr (), s) else BulkUpdateDownloads B L (\<lambda>_. live) ck s ds) = (Inr (), s')"
    "rewritten (\<lambda>d. d\<lparr>d_QueueID := q'\<rparr>) (under_queue (bdata B s) q) (bdata B s) (bdata B s')"
    "repo_ok L (bdata B s')" by auto
  then show ?thesis
    using assms(4,7,8) by (auto simp: BulkReassignDownloadsQueue_def repo_view_quiet [OF assms(2)])
qed

lemma bulk_reassign_exact_witness:
  "\<exists>s' t u. BulkReassignDownloadsQueue mem_badger basic_lib (\<lambda>_. live) demo_clock demo_pair ''mai'' ''z'' = (Inr (), s') \<and>
     stored (bdata mem_badger s') ''a1'' = Some (newer\<lparr>d_QueueID := ''z'', d_UpdatedAt := t\<rparr>) \<and>
     stored (bdata mem_badger s') ''b2'' = Some (urgent\<lparr>d_QueueID := ''z'', d_UpdatedAt := u\<rparr>)"
  using bulk_reassign_exact [OF mem_badger_laws mem_badger_quiet, of basic_lib demo_pair "''mai''"
      "''z''" demo_clock] demo_pair_facts demo_under
  by (auto simp: bar_def rewritten_def)

lemma BulkSetPriorityByQueueID_live:
  assumes "badger_laws B" "badger_quiet B" "repo_ok L (bdata B s)" "q \<noteq> []" "bar \<notin> set q"
    and "card (under_queue (bdata B s) q) < 1000"
  shows "\<exists>s'. BulkSetPriorityByQueueID B L (\<lambda>_. live) ck s q p = (Inr (), s') \<and>
      repo_ok L (bdata B s') \<and>
      rewritten (\<lambda>d. d\<lparr>d_Priority := p\<rparr>) (under_queue (bdata B s) q) (bdata B s) (bdata B s')"
proof -
  from rewrite_queue [OF assms(1-5) _ _ assms(6), of "\<lambda>d. d\<lparr>d_Priority := p\<rparr>" ck]
  obtain ds s' where r: "walk_rows B live s (\<lambda>d. d\<lparr>d_Priority := p\<rparr>)
      (iter_forward B s [] (queue_prefix q)) = Inr ds"
    "(if ds = [] then (Inr (), s) else BulkUpdateDownloads B L (\<lambda>_. live) ck s ds) = (Inr (), s')"
    "rewritten (\<lambda>d. d\<lparr>d_Priority := p\<rparr>) (under_queue (bdata B s) q) (bdata B s) (bdata B s')"
    "repo_ok L (bdata B s')" by auto
  then show ?thesis
    using assms(4) by (auto simp: BulkSetPriorityByQueueID_def repo_view_quiet [OF assms(2)])
qed

lemma BulkUpdateStatusByQueueID_live:
  assumes "badger_laws B" "badger_quiet B" "repo_ok L (bdata B s)" "q \<noteq> []" "bar \<notin> set q"
    and "card (under_queue (bdata B s) q) < 1000" "st \<noteq> []"
  shows "\<exists>s'. BulkUpdateStatusByQueueID B L (\<lambda>_. live) ck s q st = (Inr (), s') \<and>
      repo_ok L (bdata B s') \<and>
      rewritten (\<lambda>d. d\<lparr>d_Status := st\<rparr>) (under_queue (bdata B s) q) (bdata B s) (bdata B s')"
proof -
  from rewrite_queue [OF assms(1-5) _ _ assms(6), of "\<lambda>d. d\<lparr>d_Status := st\<rparr>" ck]
  obtain ds s' where r: "walk_rows B live s (\<lambda>d. d\<lparr>d_Status := st\<rparr>)
      (iter_forward B s [] (queue_prefix q)) = Inr ds"
    "(if ds = [] then (Inr (), s) else BulkUpdateDownloads B L (\<lambda>_. live) ck s ds) = (Inr (), s')"
    "rewritten (\<lambda>d. d\<lparr>d_Status := st\<rparr>) (under_queue (bdata B s) q) (bdata B s) (bdata B s')"
    "repo_ok L (bdata B s')" by auto
  then show ?thesis
    using assms(4,7) by (auto simp: BulkUpdateStatusByQueueID_def repo_view_quiet [OF assms(2)])
qed

text \<open>
  C27.  Setting the priority or the status of a queue's downloads sets it for every queue whose id
  begins with the given one and changes nothing else; a status change moves the index entries.
\<close>

theorem bulk_set_exact:
  assumes "badger_laws B" "badger_quiet B" "repo_ok L (bdata B s)" "q \<noteq> []" "bar \<notin> set q"
    and "card (under_queue (bdata B s) q) < 1000" "st \<noteq> []"
  shows "(\<exists>s'. BulkSetPriorityByQueueID B L (\<lambda>_. live) ck s q p = (Inr (), s') \<and>
      repo_ok L (bdata B s') \<and>
      rewritten (\<lambda>d. d\<lparr>d_Priority := p\<rparr>) (under_queue (bdata B s) q) (bdata B s) (bdata B s')) \<and>
    (\<exists>s'. BulkUpdateStatusByQueueID B L (\<lambda>_. live) ck s q st = (Inr (), s') \<and>
      repo_ok L (bdata B s') \<and>
      rewritten (\<lambda>d. d\<lparr>d_Status := st\<rparr>) (under_queue (bdata B s) q) (bdata B s) (bdata B s'))"
  using BulkSetPriorityByQueueID_live [OF assms(1-6)] BulkUpdateStatusByQueueID_live [OF assms]
  by (rule conjI)

theorem bulk_set_exact_witness:
  "\<exists>s' t. BulkUpdateStatusByQueueID mem_badger basic_lib (\<lambda>_. live) demo_clock demo_pair ''mai'' ''paused'' = (Inr (), s') \<and>
     stored (bdata mem_badger s') ''a1'' = Some (newer\<lparr>d_Status := ''paused'', d_UpdatedAt := t\<rparr>)"
proof -
  from bulk_set_exact [OF mem_badger_laws mem_badger_quiet, of basic_lib demo_pair "''mai''"
      "''paused''" demo_clock 0] demo_pair_facts(1) demo_under
  obtain s' where s': "BulkUpdateStatusByQueueID mem_badger basic_lib (\<lambda>_. live) demo_clock demo_pair
      ''mai'' ''paused'' = (Inr (), s')"
    "rewritten (\<lambda>d. d\<lparr>d_Status := ''paused''\<rparr>) {''a1'', ''b2''} (map_of demo_pair) (bdata mem_badger s')"
    by (auto simp: bar_def)
  then have "\<exists>d t. stored (map_of demo_pair) ''a1'' = Some d \<and>
      stored (bdata mem_badger s') ''a1'' = Some (d\<lparr>d_Status := ''paused'', d_UpdatedAt := t\<rparr>)"
    unfolding rewritten_def by blast
  with s'(1) demo_pair_facts(2) show ?thesis by auto
qed

end
