(* ===== verification/Repo_Spec.thy ===== *)
theory Repo_Spec
  imports Repo_Bulk
begin

text \<open>
  What a client may rely on of the repository: four tables, and an answer to each operation.  On a
  database without faults every sequence of operations behaves as the tables say; keys, index entries,
  transactions and batches do not show.
\<close>

section \<open>Forward simulation of sequences of operations\<close>

fun run_ops :: "('o \<Rightarrow> 's \<Rightarrow> 'a \<times> 's) \<Rightarrow> 'o list \<Rightarrow> 's \<Rightarrow> 'a list \<times> 's" where
  "run_ops exec [] s = ([], s)"
| "run_ops exec (op # ops) s =
     (let (a, s) = exec op s; (as, s) = run_ops exec ops s in (a # as, s))"

fun spec_ops :: "('o \<Rightarrow> 't \<Rightarrow> 'a \<Rightarrow> 't \<Rightarrow> bool) \<Rightarrow> 'o list \<Rightarrow> 't \<Rightarrow> 'a list \<Rightarrow> 't \<Rightarrow> bool" where
  "spec_ops spec [] t as t' \<longleftrightarrow> as = [] \<and> t' = t"
| "spec_ops spec (op # ops) t as t' \<longleftrightarrow>
     (\<exists>a as' t1. as = a # as' \<and> spec op t a t1 \<and> spec_ops spec ops t1 as' t')"

text \<open>The client keeps to the preconditions, whatever the specification answers.\<close>

fun ops_ok :: "('o \<Rightarrow> 't \<Rightarrow> 'a \<Rightarrow> 't \<Rightarrow> bool) \<Rightarrow> ('o \<Rightarrow> 't \<Rightarrow> bool) \<Rightarrow> 'o list \<Rightarrow> 't \<Rightarrow> bool" where
  "ops_ok spec pre [] t \<longleftrightarrow> True"
| "ops_ok spec pre (op # ops) t \<longleftrightarrow> pre op t \<and> (\<forall>a t1. spec op t a t1 \<longrightarrow> ops_ok spec pre ops t1)"

locale simulation =
  fixes exec :: "'o \<Rightarrow> 's \<Rightarrow> 'a \<times> 's"
    and inv :: "'s \<Rightarrow> bool"
    and abs :: "'s \<Rightarrow> 't"
    and spec :: "'o \<Rightarrow> 't \<Rightarrow> 'a \<Rightarrow> 't \<Rightarrow> bool"
    and pre :: "'o \<Rightarrow> 't \<Rightarrow> bool"
  assumes simulates: "inv s \<Longrightarrow> pre op (abs s) \<Longrightarrow> exec op s = (a, s') \<Longrightarrow>
    inv s' \<and> spec op (abs s) a (abs s')"
begin

lemma run_simulates:
  "inv s \<Longrightarrow> ops_ok spec pre ops (abs s) \<Longrightarrow> run_ops exec ops s = (as, s') \<Longrightarrow>
     inv s' \<and> spec_ops spec ops (abs s) as (abs s')"
proof (induction ops arbitrary: s as)
  case (Cons op ops)
  obtain a s1 where e: "exec op s = (a, s1)" by fastforce
  obtain as1 where r: "run_ops exec ops s1 = (as1, s')" "as = a # as1"
    using Cons.prems(3) e by (auto simp: Let_def split: prod.splits)
  from simulates [OF Cons.prems(1) _ e] Cons.prems(2)
  have s1: "inv s1" "spec op (abs s) a (abs s1)" by simp_all
  with Cons.prems(2) have "ops_ok spec pre ops (abs s1)" by simp
  from Cons.IH [OF s1(1) this r(1)] s1(2) r(2) show ?case by auto
qed simp

end

section \<open>The tables\<close>

record table =
  tb_rows :: "string \<rightharpoonup> Download"
  tb_queues :: "string \<rightharpoonup> Queue"
  tb_stats :: "string \<rightharpoonup> QueueStats"
  tb_segs :: "string \<Rightarrow> int \<rightharpoonup> Segment"

definition seg_rows :: "store \<Rightarrow> string \<Rightarrow> int \<rightharpoonup> Segment" where
  "seg_rows m i n =
     (case segs m i n of None \<Rightarrow> None
      | Some g \<Rightarrow> if s_DownloadID g = i \<and> s_Index g = n then Some g else None)"

definition table_of :: "store \<Rightarrow> table" where
  "table_of m = \<lparr>tb_rows = stored m, tb_queues = queues m, tb_stats = stats m, tb_segs = seg_rows m\<rparr>"

lemma table_of_sel [simp]:
  "tb_rows (table_of m) = stored m" "tb_queues (table_of m) = queues m" "tb_stats (table_of m) = stats m"
  "tb_segs (table_of m) = seg_rows m"
  by (simp_all add: table_of_def)

lemma table_of_eqI:
  "stored m = tb_rows t \<Longrightarrow> queues m = tb_queues t \<Longrightarrow> stats m = tb_stats t \<Longrightarrow>
     seg_rows m = tb_segs t \<Longrightarrow> table_of m = t"
  by (simp add: table_of_def)

section \<open>The operations\<close>

datatype repo_op =
    CreateRow clock Download
  | ReadRow string
  | UpdateRow clock Download
  | DeleteRow clock string
  | ListRows ListDownloadsOptions int int
  | CountRows ListDownloadsOptions
  | CreateRows clock "Download list"
  | UpdateRows clock "Download list"
  | DeleteRows clock "string list"
  | DeleteQueueRows clock string
  | MoveQueueRows clock string string
  | SetQueuePriority clock string int
  | SetQueueStatus clock string DownloadStatus
  | SaveQueueRow clock Queue
  | ReadQueueRow string
  | ListQueueRows
  | DeleteQueueRow string
  | SaveStatsRow QueueStats
  | ReadStatsRow string
  | SaveSegmentRow Segment
  | UpdateSegmentRow Segment
  | ListSegmentRows string
  | DeleteSegmentRows string

datatype answer =
    Done
  | Row Download
  | Rows "Download list"
  | Counted int
  | QueueRow Queue
  | QueueRows "Queue list"
  | StatsRow QueueStats
  | SegmentRows "Segment list"
  | Refused gerr

definition answer_of :: "('a \<Rightarrow> answer) \<Rightarrow> 'a res \<Rightarrow> answer" where
  "answer_of f r = (case r of Inl e \<Rightarrow> Refused e | Inr x \<Rightarrow> f x)"

lemma answer_of_simps [simp]:
  "answer_of f (Inl e) = Refused e" "answer_of f (Inr x) = f x"
  by (simp_all add: answer_of_def)

fun exec_op :: "'s badger \<Rightarrow> stdlib \<Rightarrow> repo_op \<Rightarrow> 's \<Rightarrow> answer \<times> 's" where
  "exec_op B L (CreateRow ck d) s = map_prod (answer_of Row) id (CreateDownload B L live ck s d)"
| "exec_op B L (ReadRow i) s = (answer_of Row (GetDownload B live s i), s)"
| "exec_op B L (UpdateRow ck d) s = map_prod (answer_of Row) id (UpdateDownload B L live ck s d)"
| "exec_op B L (DeleteRow ck i) s = map_prod (answer_of (\<lambda>_. Done)) id (DeleteDownload B L live ck s i)"
| "exec_op B L (ListRows opt limit offset) s = (answer_of Rows (ListDownloads B L live s opt limit offset), s)"
| "exec_op B L (CountRows opt) s = (answer_of Counted (CountDownloads B L live s opt), s)"
| "exec_op B L (CreateRows ck ds) s = map_prod (answer_of (\<lambda>_. Done)) id (BulkCreateDownloads B L live ck s ds)"
| "exec_op B L (UpdateRows ck ds) s =
     map_prod (answer_of (\<lambda>_. Done)) id (BulkUpdateDownloads B L (\<lambda>_. live) ck s ds)"
| "exec_op B L (DeleteRows ck ids) s =
     map_prod (answer_of (\<lambda>_. Done)) id (BulkDeleteDownloads B L (\<lambda>_. live) ck s ids)"
| "exec_op B L (DeleteQueueRows ck q) s =
     map_prod (answer_of (\<lambda>_. Done)) id (BulkDeleteDownloadsByQueueID B L (\<lambda>_. live) ck s q)"
| "exec_op B L (MoveQueueRows ck q q') s =
     map_prod (answer_of (\<lambda>_. Done)) id (BulkReassignDownloadsQueue B L (\<lambda>_. live) ck s q q')"
| "exec_op B L (SetQueuePriority ck q p) s =
     map_prod (answer_of (\<lambda>_. Done)) id (BulkSetPriorityByQueueID B L (\<lambda>_. live) ck s q p)"
| "exec_op B L (SetQueueStatus ck q st) s =
     map_prod (answer_of (\<lambda>_. Done)) id (BulkUpdateStatusByQueueID B L (\<lambda>_. live) ck s q st)"
| "exec_op B L (SaveQueueRow ck q) s = map_prod (answer_of QueueRow) id (SaveQueue B live ck s q)"
| "exec_op B L (ReadQueueRow i) s = (answer_of QueueRow (GetQueue B live s i), s)"
| "exec_op B L ListQueueRows s = (answer_of QueueRows (ListQueues B live s), s)"
| "exec_op B L (DeleteQueueRow i) s = map_prod (answer_of (\<lambda>_. Done)) id (DeleteQueue B live s i)"
| "exec_op B L (SaveStatsRow st) s = map_prod (answer_of (\<lambda>_. Done)) id (SaveQueueStats B live s st)"
| "exec_op B L (ReadStatsRow i) s = (answer_of StatsRow (GetQueueStats B live s i), s)"
| "exec_op B L (SaveSegmentRow g) s = map_prod (answer_of (\<lambda>_. Done)) id (UpsertSegment B live s g)"
| "exec_op B L (UpdateSegmentRow g) s = map_prod (answer_of (\<lambda>_. Done)) id (UpdateSegment B live s g)"
| "exec_op B L (ListSegmentRows i) s = (answer_of SegmentRows (ListSegments B live s i), s)"
| "exec_op B L (DeleteSegmentRows i) s = map_prod (answer_of (\<lambda>_. Done)) id (DeleteSegments B live s i)"

section \<open>The specification\<close>

text \<open>
  The downloads of a listing: some enumeration of the matching ones, the oldest or the newest first, of
  which a page is taken and then put in the requested order.
\<close>

definition listing ::
    "stdlib \<Rightarrow> ListDownloadsOptions \<Rightarrow> int \<Rightarrow> int \<Rightarrow> (string \<rightharpoonup> Download) \<Rightarrow> Download list \<Rightarrow> bool" where
  "listing L opt limit offset rows ds \<longleftrightarrow>
     (\<exists>hs. distinct hs \<and> set hs = {d. rows (d_ID d) = Some d \<and> matches L opt d} \<and>
        ((\<forall>i d. rows i = Some d \<longrightarrow> 0 \<le> d_CreatedAt d \<and> in64 (d_CreatedAt d)) \<longrightarrow>
           sorted_wrt (\<lambda>a b. \<not> created_less (o_OrderDesc opt) b a) hs) \<and>
        mset ds = mset (page limit offset hs) \<and> ordered opt ds)"

text \<open>What a bulk operation leaves: a stamped version of each of its downloads, and every other row.\<close>

definition stamped_rows ::
    "(Download \<Rightarrow> Download \<Rightarrow> bool) \<Rightarrow> Download list \<Rightarrow> (string \<rightharpoonup> Download) \<Rightarrow> (string \<rightharpoonup> Download) \<Rightarrow> bool" where
  "stamped_rows R ds rows rows' \<longleftrightarrow>
     (\<forall>i. i \<notin> d_ID ` set ds \<longrightarrow> rows' i = rows i) \<and>
     (\<forall>d \<in> set ds. \<exists>d'. rows' (d_ID d) = Some d' \<and> R d d')"

definition missing :: "'a option \<Rightarrow> ('a \<Rightarrow> answer) \<Rightarrow> answer" where
  "missing r f = (case r of None \<Rightarrow> Refused ErrNotFound | Some x \<Rightarrow> f x)"

text \<open>The downloads of the queues whose id begins with \<open>q\<close> are rewritten with \<open>f\<close> and stamped.\<close>

definition queue_rewritten ::
    "(Download \<Rightarrow> Download) \<Rightarrow> string \<Rightarrow> (string \<rightharpoonup> Download) \<Rightarrow> (string \<rightharpoonup> Download) \<Rightarrow> bool" where
  "queue_rewritten f q rows rows' \<longleftrightarrow>
     (\<forall>i. case rows i of None \<Rightarrow> rows' i = None
        | Some d \<Rightarrow> if prefix q (d_QueueID d) then \<exists>t. rows' i = Some ((f d)\<lparr>d_UpdatedAt := t\<rparr>) else rows' i = Some d)"

definition segment_saved :: "Segment \<Rightarrow> table \<Rightarrow> answer \<Rightarrow> table \<Rightarrow> bool" where
  "segment_saved g t a t' \<longleftrightarrow>
     (if s_DownloadID g = [] then a = Refused (ErrText ''segment download_id is required'') \<and> t' = t
      else a = Done \<and> t' = t\<lparr>tb_segs := (tb_segs t)(s_DownloadID g := (tb_segs t (s_DownloadID g))(s_Index g \<mapsto> g))\<rparr>)"

fun spec_op :: "stdlib \<Rightarrow> repo_op \<Rightarrow> table \<Rightarrow> answer \<Rightarrow> table \<Rightarrow> bool" where
  "spec_op L (CreateRow ck d) t a t' \<longleftrightarrow>
     (if d_ID d = [] then a = Refused (ErrText ''download id is required'') \<and> t' = t
      else a = Row (created ck d) \<and> t' = t\<lparr>tb_rows := (tb_rows t)(d_ID d \<mapsto> created ck d)\<rparr>)"
| "spec_op L (ReadRow i) t a t' \<longleftrightarrow> a = missing (tb_rows t i) Row \<and> t' = t"
| "spec_op L (UpdateRow ck d) t a t' \<longleftrightarrow>
     (case tb_rows t (d_ID d) of
        None \<Rightarrow> a = Refused (if d_ID d = [] then ErrText ''download id is required'' else ErrKeyNotFound) \<and> t' = t
      | Some old \<Rightarrow> a = Row (updated ck old d) \<and> t' = t\<lparr>tb_rows := (tb_rows t)(d_ID d \<mapsto> updated ck old d)\<rparr>)"
| "spec_op L (DeleteRow ck i) t a t' \<longleftrightarrow>
     a = missing (tb_rows t i) (\<lambda>_. Done) \<and>
     t' = (if tb_rows t i = None then t
           else t\<lparr>tb_rows := (tb_rows t)(i := None), tb_segs := (tb_segs t)(i := Map.empty)\<rparr>)"
| "spec_op L (ListRows opt limit offset) t a t' \<longleftrightarrow>
     (\<exists>ds. a = Rows ds \<and> listing L opt limit offset (tb_rows t) ds) \<and> t' = t"
| "spec_op L (CountRows opt) t a t' \<longleftrightarrow>
     a = Counted (int (card {d. tb_rows t (d_ID d) = Some d \<and> matches L opt d})) \<and> t' = t"
| "spec_op L (CreateRows ck ds) t a t' \<longleftrightarrow>
     a = Done \<and> (\<exists>rows. t' = t\<lparr>tb_rows := rows\<rparr> \<and>
        stamped_rows (\<lambda>d d'. \<exists>ck. clock_ok ck \<and> d' = created ck d) ds (tb_rows t) rows)"
| "spec_op L (UpdateRows ck ds) t a t' \<longleftrightarrow>
     a = Done \<and> (\<exists>rows. t' = t\<lparr>tb_rows := rows\<rparr> \<and>
        stamped_rows (\<lambda>d d'. \<exists>ck old. tb_rows t (d_ID d) = Some old \<and> d' = updated ck old d) ds (tb_rows t) rows)"
| "spec_op L (DeleteRows ck ids) t a t' \<longleftrightarrow>
     a = Done \<and> t' = t\<lparr>tb_rows := (\<lambda>i. if i \<in> set ids then None else tb_rows t i),
        tb_segs := (\<lambda>i. if i \<in> set ids then Map.empty else tb_segs t i)\<rparr>"
| "spec_op L (DeleteQueueRows ck q) t a t' \<longleftrightarrow>
     (let gone = (\<lambda>i. \<exists>d. tb_rows t i = Some d \<and> prefix q (d_QueueID d))
      in a = Done \<and> t' = t\<lparr>tb_rows := (\<lambda>i. if gone i then None else tb_rows t i),
           tb_segs := (\<lambda>i. if gone i then Map.empty else tb_segs t i)\<rparr>)"
| "spec_op L (MoveQueueRows ck q q') t a t' \<longleftrightarrow>
     (if q' = [] then a = Refused (ErrText ''from and to queue ids are required'') \<and> t' = t
      else if q = q' then a = Done \<and> t' = t
      else a = Done \<and> (\<exists>rows. t' = t\<lparr>tb_rows := rows\<rparr> \<and>
             queue_rewritten (\<lambda>d. d\<lparr>d_QueueID := q'\<rparr>) q (tb_rows t) rows))"
| "spec_op L (SetQueuePriority ck q p) t a t' \<longleftrightarrow>
     a = Done \<and> (\<exists>rows. t' = t\<lparr>tb_rows := rows\<rparr> \<and>
       queue_rewritten (\<lambda>d. d\<lparr>d_Priority := p\<rparr>) q (tb_rows t) rows)"
| "spec_op L (SetQueueStatus ck q st) t a t' \<longleftrightarrow>
     (if st = [] then a = Refused (ErrText ''status is required'') \<and> t' = t
      else a = Done \<and> (\<exists>rows. t' = t\<lparr>tb_rows := rows\<rparr> \<and>
             queue_rewritten (\<lambda>d. d\<lparr>d_Status := st\<rparr>) q (tb_rows t) rows))"
| "spec_op L (SaveQueueRow ck q) t a t' \<longleftrightarrow>
     (if q_ID q = [] then a = Refused (ErrText ''queue id is required'') \<and> t' = t
      else let q' = q\<lparr>q_CreatedAt := (if IsZero (q_CreatedAt q) then ck 0 else q_CreatedAt q), q_UpdatedAt := ck 1\<rparr>
           in a = QueueRow q' \<and> t' = t\<lparr>tb_queues := (tb_queues t)(q_ID q \<mapsto> q')\<rparr>)"
| "spec_op L (ReadQueueRow i) t a t' \<longleftrightarrow> a = missing (tb_queues t i) QueueRow \<and> t' = t"
| "spec_op L ListQueueRows t a t' \<longleftrightarrow>
     (\<exists>qs. a = QueueRows qs \<and> sorted_wrt (\<lambda>x y. q_ID x < q_ID y) qs \<and> set qs = ran (tb_queues t)) \<and> t' = t"
| "spec_op L (DeleteQueueRow i) t a t' \<longleftrightarrow>
     a = Done \<and> t' = t\<lparr>tb_queues := (tb_queues t)(i := None), tb_stats := (tb_stats t)(i := None)\<rparr>"
| "spec_op L (SaveStatsRow st) t a t' \<longleftrightarrow>
     a = Done \<and> t' = t\<lparr>tb_stats := (tb_stats t)(qs_QueueID st \<mapsto> st)\<rparr>"
| "spec_op L (ReadStatsRow i) t a t' \<longleftrightarrow> a = missing (tb_stats t i) StatsRow \<and> t' = t"
| "spec_op L (SaveSegmentRow g) t a t' \<longleftrightarrow> segment_saved g t a t'"
| "spec_op L (UpdateSegmentRow g) t a t' \<longleftrightarrow> segment_saved g t a t'"
| "spec_op L (ListSegmentRows i) t a t' \<longleftrightarrow>
     (\<exists>gs. a = SegmentRows gs \<and> sorted_wrt (\<lambda>x y. s_Index x < s_Index y) gs \<and> set gs = ran (tb_segs t i)) \<and> t' = t"
| "spec_op L (DeleteSegmentRows i) t a t' \<longleftrightarrow>
     a = Done \<and> t' = t\<lparr>tb_segs := (tb_segs t)(i := Map.empty)\<rparr>"

text \<open>
  The preconditions: all ids have one length, as those of \<open>uuid.NewString\<close> do, and a download is created
  once, under an id without the separator of the keys, with a clock that works; a segment has an index of
  nine digits; a listing by queue, status or tag names it; the queues of an operation on a whole queue have
  a name without separator; a bulk operation gets fewer downloads than a batch holds.
\<close>

definition fresh :: "nat \<Rightarrow> Download \<Rightarrow> table \<Rightarrow> bool" where
  "fresh len d t \<longleftrightarrow> length (d_ID d) = len \<and> bar \<notin> set (d_ID d) \<and> tb_rows t (d_ID d) = None"

definition queue_wide :: "string \<Rightarrow> table \<Rightarrow> bool" where
  "queue_wide q t \<longleftrightarrow> q \<noteq> [] \<and> bar \<notin> set q \<and>
     card {i. \<exists>d. tb_rows t i = Some d \<and> prefix q (d_QueueID d)} < 1000"

definition segment_fits :: "nat \<Rightarrow> Segment \<Rightarrow> bool" where
  "segment_fits len g \<longleftrightarrow> length (s_DownloadID g) = len \<and> 0 \<le> s_Index g \<and> s_Index g < 10 ^ 9"

fun op_ok :: "nat \<Rightarrow> repo_op \<Rightarrow> table \<Rightarrow> bool" where
  "op_ok len (CreateRow ck d) t \<longleftrightarrow> clock_ok ck \<and> fresh len d t"
| "op_ok len (ListRows opt limit offset) t \<longleftrightarrow> opts_ok opt"
| "op_ok len (CountRows opt) t \<longleftrightarrow> opts_ok opt"
| "op_ok len (CreateRows ck ds) t \<longleftrightarrow>
     clock_ok ck \<and> distinct (map d_ID ds) \<and> length ds < 1000 \<and> (\<forall>d \<in> set ds. d_ID d \<noteq> [] \<and> fresh len d t)"
| "op_ok len (UpdateRows ck ds) t \<longleftrightarrow>
     distinct (map d_ID ds) \<and> length ds < 1000 \<and> (\<forall>d \<in> set ds. tb_rows t (d_ID d) \<noteq> None)"
| "op_ok len (DeleteRows ck ids) t \<longleftrightarrow>
     distinct ids \<and> length ids < 1000 \<and> (\<forall>i \<in> set ids. tb_rows t i \<noteq> None)"
| "op_ok len (DeleteQueueRows ck q) t \<longleftrightarrow> queue_wide q t"
| "op_ok len (MoveQueueRows ck q q') t \<longleftrightarrow> queue_wide q t"
| "op_ok len (SetQueuePriority ck q p) t \<longleftrightarrow> queue_wide q t"
| "op_ok len (SetQueueStatus ck q st) t \<longleftrightarrow> queue_wide q t"
| "op_ok len (SaveSegmentRow g) t \<longleftrightarrow> segment_fits len g"
| "op_ok len (UpdateSegmentRow g) t \<longleftrightarrow> segment_fits len g"
| "op_ok len (ListSegmentRows i) t \<longleftrightarrow> length i = len"
| "op_ok len (DeleteSegmentRows i) t \<longleftrightarrow> length i = len"
| "op_ok len _ t \<longleftrightarrow> True"

section \<open>The tables under the writes of the repository\<close>

definition lens_ok :: "nat \<Rightarrow> store \<Rightarrow> bool" where
  "lens_ok len m \<longleftrightarrow> segs_ok len m \<and> (\<forall>i. stored m i \<noteq> None \<longrightarrow> length i = len)"

definition rinv :: "'s badger \<Rightarrow> stdlib \<Rightarrow> nat \<Rightarrow> 's \<Rightarrow> bool" where
  "rinv B L len s \<longleftrightarrow>
     badger_laws B \<and> badger_quiet B \<and> sort_contract L \<and> repo_ok L (bdata B s) \<and> lens_ok len (bdata B s)"

lemma rinvD:
  assumes "rinv B L len s"
  shows "badger_laws B" "badger_quiet B" "sort_contract L" "repo_ok L (bdata B s)" "lens_ok len (bdata B s)"
  using assms by (simp_all add: rinv_def)

lemma rinv_next:
  "rinv B L len s \<Longrightarrow> repo_ok L (bdata B s') \<Longrightarrow> lens_ok len (bdata B s') \<Longrightarrow> rinv B L len s'"
  by (simp add: rinv_def)

lemma repo_update_refused:
  "badger_laws B \<Longrightarrow> badger_quiet B \<Longrightarrow> f [] = Inl e \<Longrightarrow> repo_update B live s f = (Inl e, s)"
  by (simp add: repo_update_def db_update_def quiet_begin)

lemma seg_rows_cong: "(\<And>n. m (kSegment i n) = m' (kSegment i n)) \<Longrightarrow> seg_rows m i = seg_rows m' i"
  by (simp add: fun_eq_iff seg_rows_def segs_def)

lemma seg_rows_Some:
  "seg_rows m i n = Some g \<longleftrightarrow> m (kSegment i n) = Some (SegmentJ g) \<and> s_DownloadID g = i \<and> s_Index g = n"
  by (auto simp: seg_rows_def segs_def split: option.splits dbval.splits)

lemma segs_Some: "segs m i n = Some g \<longleftrightarrow> m (kSegment i n) = Some (SegmentJ g)"
  by (auto simp: segs_def split: option.splits dbval.splits)

lemma lens_ok_cong:
  assumes "stored m' = stored m" "\<And>k g. m' k = Some (SegmentJ g) \<Longrightarrow> m k = Some (SegmentJ g)"
  shows "lens_ok len m \<Longrightarrow> lens_ok len m'"
  using assms by (auto simp: lens_ok_def segs_ok_def)

lemma put_store_segments:
  "seg_rows (put_store L d m) = seg_rows m"
  "put_store L d m k = Some (SegmentJ g) \<Longrightarrow> m k = Some (SegmentJ g)"
proof -
  show "seg_rows (put_store L d m) = seg_rows m"
    by (intro ext seg_rows_cong [THEN fun_cong] put_store_untouched) (simp_all add: neq_by_family)
  show "put_store L d m k = Some (SegmentJ g) \<Longrightarrow> m k = Some (SegmentJ g)"
    by (auto simp: put_store_def split: if_splits)
qed

lemma put_store_tables [simp]:
  "stats (put_store L d m) = stats m" "seg_rows (put_store L d m) = seg_rows m"
  by (simp_all add: stats_def [abs_def] put_store_untouched put_store_segments(1))

lemma lens_ok_put_store: "lens_ok len m \<Longrightarrow> length (d_ID d) = len \<Longrightarrow> lens_ok len (put_store L d m)"
  using put_store_segments(2) [of L d m] by (auto simp: lens_ok_def segs_ok_def)

lemma put_all_tables [simp]:
  "queues (put_all L ds m) = queues m" "stats (put_all L ds m) = stats m" "seg_rows (put_all L ds m) = seg_rows m"
  by (induction ds rule: rev_induct; simp)+

lemma table_of_put_all: "table_of (put_all L ds m) = (table_of m)\<lparr>tb_rows := stored (put_all L ds m)\<rparr>"
  by (simp add: table_of_def)

lemma put_all_segments: "put_all L ds m k = Some (SegmentJ g) \<Longrightarrow> m k = Some (SegmentJ g)"
  by (induction ds rule: rev_induct) (auto dest: put_store_segments(2))

lemma same_lengths:
  assumes "map d_ID ds' = map d_ID ds" "\<forall>d \<in> set ds. length (d_ID d) = len"
  shows "\<forall>d \<in> set ds'. length (d_ID d) = len"
proof -
  have "\<forall>i \<in> set (map d_ID ds). length i = len" using assms(2) by simp
  then have "\<forall>i \<in> set (map d_ID ds'). length i = len" by (simp only: assms(1))
  then show ?thesis by simp
qed

lemma lens_ok_put_all:
  "lens_ok len m \<Longrightarrow> \<forall>d \<in> set ds. length (d_ID d) = len \<Longrightarrow> lens_ok len (put_all L ds m)"
  by (induction ds rule: rev_induct) (auto intro: lens_ok_put_store)

text \<open>Removing keys: what else is removed besides segments of the ids in \<open>I\<close> is no segment.\<close>

lemma seg_rows_removed:
  assumes "segs_ok len m" "\<forall>i \<in> I. length i = len"
    and "\<And>i n. kSegment i n \<in> K \<longleftrightarrow> (\<exists>j \<in> I. prefix (segment_prefix j) (kSegment i n))"
  shows "seg_rows (del_keys K m) = (\<lambda>i. if i \<in> I then Map.empty else seg_rows m i)"
proof -
  have "seg_rows (del_keys K m) i n = Some g \<longleftrightarrow> i \<notin> I \<and> seg_rows m i n = Some g" for i n g
  proof -
    have "kSegment i n \<in> K \<longleftrightarrow> i \<in> I" if "m (kSegment i n) = Some (SegmentJ g)" "s_DownloadID g = i"
    proof -
      have "length i = len" using assms(1) that by (auto simp: segs_ok_def)
      with assms(2) have "prefix (segment_prefix j) (kSegment i n) \<longleftrightarrow> j = i" if "j \<in> I" for j
        using that by (simp add: segment_prefix_same_length)
      then show ?thesis using assms(3) by blast
    qed
    then show ?thesis by (auto simp: seg_rows_Some del_keys_def)
  qed
  then have "seg_rows (del_keys K m) i n = (if i \<in> I then None else seg_rows m i n)" for i n
    by (metis not_None_eq)
  then show ?thesis by (simp add: fun_eq_iff)
qed

lemma lens_ok_del_keys: "lens_ok len m \<Longrightarrow> lens_ok len (del_keys K m)"
  by (auto simp: lens_ok_def segs_ok_def del_keys_def stored_def split: if_splits)

lemma del_all_keys:
  "del_all L ids m = del_keys {k. \<exists>i \<in> set ids. k = kDownload i \<or> k \<in> set (old_index L m i) \<or>
     prefix (segment_prefix i) k} m"
  by (simp add: del_all_def del_keys_def fun_eq_iff)

lemma del_all_tables:
  assumes "lens_ok len m" "\<forall>i \<in> set ids. stored m i \<noteq> None"
  shows "queues (del_all L ids m) = queues m" "stats (del_all L ids m) = stats m"
    "seg_rows (del_all L ids m) = (\<lambda>i. if i \<in> set ids then Map.empty else seg_rows m i)"
    "stored (del_all L ids m) = (\<lambda>i. if i \<in> set ids then None else stored m i)" "lens_ok len (del_all L ids m)"
proof -
  have "\<not> prefix (segment_prefix i) (kQueueStats j)" "kQueueStats j \<notin> set (old_index L m i)"
    "\<not> prefix (segment_prefix i) (kQueue j)" "kQueue j \<notin> set (old_index L m i)"
    "kSegment j n \<noteq> kDownload i" "kSegment j n \<notin> set (old_index L m i)" for i j n
    using segment_prefix_family [of i "kQueueStats j"] segment_prefix_family [of i "kQueue j"]
      old_index_is_index [of "kQueueStats j" L m i] old_index_is_index [of "kQueue j" L m i]
      old_index_is_index [of "kSegment j n" L m i] neq_by_family [of "kSegment j n" "kDownload i"] by auto
  note other = this
  show "queues (del_all L ids m) = queues m" "stats (del_all L ids m) = stats m"
    using other by (auto simp: fun_eq_iff queues_def stats_def del_all_def)
  show "seg_rows (del_all L ids m) = (\<lambda>i. if i \<in> set ids then Map.empty else seg_rows m i)"
    unfolding del_all_keys
    by (rule seg_rows_removed) (use assms other in \<open>auto simp: lens_ok_def\<close>)
  show "stored (del_all L ids m) = (\<lambda>i. if i \<in> set ids then None else stored m i)"
    by (simp add: fun_eq_iff stored_del_all)
  show "lens_ok len (del_all L ids m)"
    unfolding del_all_keys by (rule lens_ok_del_keys [OF assms(1)])
qed

lemma del_store_del_all: "del_store L i m = del_all L [i] m"
  by (simp add: del_all_def del_store_def fun_eq_iff)

lemma put_all_rows:
  assumes "repo_ok L m" "distinct (map d_ID ds)" "list_all2 R ds ds'"
    and "\<And>d d'. d \<in> set ds \<Longrightarrow> R d d' \<Longrightarrow> d_ID d' = d_ID d \<and> valid_download (d_ID d) d'"
  shows "repo_ok L (put_all L ds' m) \<and> stamped_rows R ds (stored m) (stored (put_all L ds' m)) \<and>
    map d_ID ds' = map d_ID ds"
proof -
  have R: "\<exists>d \<in> set ds. R d d' \<and> d_ID d' = d_ID d \<and> valid_download (d_ID d) d'" if "d' \<in> set ds'" for d'
    using list_all2_mem2 [OF assms(3) that] assms(4) by blast
  have ids: "map d_ID ds' = map d_ID ds"
    by (rule nth_equalityI) (use assms(3,4) in \<open>auto simp: list_all2_conv_all_nth\<close>)
  have "repo_ok L (put_all L ds' m)"
    by (rule repo_ok_put_all [OF assms(1)]) (use R in fastforce)
  moreover have "stored (put_all L ds' m) i = stored m i" if "i \<notin> d_ID ` set ds" for i
    by (rule stored_put_all_other) (metis that ids list.set_map)
  moreover have "\<exists>d'. stored (put_all L ds' m) (d_ID d) = Some d' \<and> R d d'" if "d \<in> set ds" for d
  proof -
    from list_all2_mem1 [OF assms(3) that] obtain d' where d': "d' \<in> set ds'" "R d d'" by blast
    have "stored (put_all L ds' m) (d_ID d') = Some d'"
      by (rule stored_put_all_mem) (use ids assms(2) d'(1) in simp_all)
    with d'(2) assms(4) [OF that d'(2)] show ?thesis by auto
  qed
  ultimately show ?thesis using ids by (simp add: stamped_rows_def)
qed

lemma no_empty_row: "repo_ok L m \<Longrightarrow> stored m [] = None"
  using repo_ok_valid [of L m "[]"] by (cases "stored m []") (auto simp: valid_download_def)

section \<open>Each operation does as specified\<close>

text \<open>A write that changes the store to \<open>m'\<close>: the invariant and the tables are those of \<open>m'\<close>.\<close>

lemma sim_write:
  assumes "rinv B L len s" "exec_op B L op s = (a, s')" "bdata B s' = m'"
    and "repo_ok L m'" "lens_ok len m'" "spec_op L op (table_of (bdata B s)) a (table_of m')"
  shows "rinv B L len s' \<and> spec_op L op (table_of (bdata B s)) a (table_of (bdata B s'))"
  using assms by (simp add: rinv_def)

lemma sim_same:
  assumes "rinv B L len s" "exec_op B L op s = (a, s)" "spec_op L op (table_of (bdata B s)) a (table_of (bdata B s))"
    and "exec_op B L op s = (a', s')"
  shows "rinv B L len s' \<and> spec_op L op (table_of (bdata B s)) a' (table_of (bdata B s'))"
  using assms by simp

lemma sim_create:
  assumes "rinv B L len s" "op_ok len (CreateRow ck d) (table_of (bdata B s))" "exec_op B L (CreateRow ck d) s = (a, s')"
  shows "rinv B L len s' \<and> spec_op L (CreateRow ck d) (table_of (bdata B s)) a (table_of (bdata B s'))"
proof (cases "d_ID d = []")
  case True
  then have "CreateDownload B L live ck s d = (Inl (ErrText ''download id is required''), s)"
    unfolding CreateDownload_def
    by (intro repo_update_refused [OF rinvD(1,2) [OF assms(1)]]) (simp add: createDownloadTxn_def)
  with True show ?thesis by (intro sim_same [OF assms(1) _ _ assms(3)]) simp_all
next
  case False
  note ok = rinvD [OF assms(1)]
  from assms(2) have pre: "clock_ok ck" "length (d_ID d) = len" "bar \<notin> set (d_ID d)" "stored (bdata B s) (d_ID d) = None"
    by (simp_all add: fresh_def)
  from repo_update_quiet [where f = "createDownloadTxn B L (skip 2 live) ck s d" and cx = live and s = s,
      OF ok(1,2) _ _ createDownloadTxn_quiet [OF ok(2) pre(1) _ False]]
  obtain s1 where c: "CreateDownload B L live ck s d = (Inr (created ck d), s1)"
    by (auto simp: CreateDownload_def)
  from CreateDownload_net [OF ok(1) pre(1,4) c] c assms(3)
  have m: "bdata B s' = put_store L (created ck d) (bdata B s)" "a = Row (created ck d)" by auto
  show ?thesis
    by (rule sim_write [OF assms(1,3) m(1) repo_ok_put_store [OF ok(4) created_valid [OF pre(1) False pre(3)]]])
      (use False m(2) pre(2) ok(5) in \<open>auto simp: lens_ok_put_store intro!: table_of_eqI\<close>)
qed

lemma sim_update:
  assumes "rinv B L len s" "exec_op B L (UpdateRow ck d) s = (a, s')"
  shows "rinv B L len s' \<and> spec_op L (UpdateRow ck d) (table_of (bdata B s)) a (table_of (bdata B s'))"
proof (cases "stored (bdata B s) (d_ID d)")
  case None
  note ok = rinvD [OF assms(1)]
  have "UpdateDownload B L live ck s d =
      (Inl (if d_ID d = [] then ErrText ''download id is required'' else ErrKeyNotFound), s)"
    unfolding UpdateDownload_def
    by (rule repo_update_refused [OF ok(1,2)])
      (use None repo_ok_get [OF ok(4), of "d_ID d"] in
        \<open>simp add: updateDownloadTxn_def quiet_get [OF ok(1,2)]\<close>)
  with None show ?thesis by (intro sim_same [OF assms(1) _ _ assms(2)]) simp_all
next
  case (Some old)
  note ok = rinvD [OF assms(1)]
  from UpdateDownload_quiet [OF ok(1,2,4), of live, OF _ _ _ Some, of ck] assms(2)
  have m: "bdata B s' = put_store L (updated ck old d) (bdata B s)" "a = Row (updated ck old d)"
    and valid: "valid_download (d_ID d) (updated ck old d)" by auto
  have "length (d_ID d) = len" using Some ok(5) by (auto simp: lens_ok_def)
  then show ?thesis
    by (intro sim_write [OF assms m(1) repo_ok_put_store [OF ok(4) valid]] lens_ok_put_store [OF ok(5)])
      (use Some m(2) in \<open>auto intro!: table_of_eqI\<close>)
qed

lemma del_all_writes:
  assumes "rinv B L len s" "exec_op B L op s = (a, s')" "bdata B s' = del_all L ids (bdata B s)"
    and "distinct ids" "\<forall>i \<in> set ids. stored (bdata B s) i \<noteq> None"
    and "spec_op L op (table_of (bdata B s)) a ((table_of (bdata B s))
      \<lparr>tb_rows := (\<lambda>i. if i \<in> set ids then None else stored (bdata B s) i),
       tb_segs := (\<lambda>i. if i \<in> set ids then Map.empty else seg_rows (bdata B s) i)\<rparr>)"
  shows "rinv B L len s' \<and> spec_op L op (table_of (bdata B s)) a (table_of (bdata B s'))"
proof (rule sim_write [OF assms(1-3)])
  note ok = rinvD [OF assms(1)] and del = del_all_tables [OF rinvD(5) [OF assms(1)] assms(5), of L]
  show "repo_ok L (del_all L ids (bdata B s))" by (rule repo_ok_del_all [OF ok(4) assms(4)])
  show "lens_ok len (del_all L ids (bdata B s))" by (rule del(5))
  show "spec_op L op (table_of (bdata B s)) a (table_of (del_all L ids (bdata B s)))"
    using assms(6) by (simp add: table_of_def del)
qed

lemma sim_delete:
  assumes "rinv B L len s" "exec_op B L (DeleteRow ck i) s = (a, s')"
  shows "rinv B L len s' \<and> spec_op L (DeleteRow ck i) (table_of (bdata B s)) a (table_of (bdata B s'))"
proof (cases "stored (bdata B s) i")
  case None
  note ok = rinvD [OF assms(1)]
  have "DeleteDownload B L live ck s i = (Inl ErrNotFound, s)"
    unfolding DeleteDownload_def
    by (rule repo_update_refused [OF ok(1,2)])
      (use None repo_ok_get [OF ok(4), of i] in \<open>simp add: quiet_get [OF ok(1,2)]\<close>)
  with None show ?thesis by (intro sim_same [OF assms(1) _ _ assms(2)]) (simp_all add: missing_def)
next
  case (Some d)
  from DeleteDownload_live [OF rinvD(1,2,4) [OF assms(1)] Some, of ck] assms(2)
  have m: "bdata B s' = del_all L [i] (bdata B s)" "a = Done" by (auto simp: del_store_del_all)
  show ?thesis
    by (rule del_all_writes [OF assms m(1)])
      (use Some m(2) in \<open>simp_all add: missing_def fun_upd_def cong: if_cong\<close>)
qed

lemma sim_create_rows:
  assumes "rinv B L len s" "op_ok len (CreateRows ck ds) (table_of (bdata B s))"
    and "exec_op B L (CreateRows ck ds) s = (a, s')"
  shows "rinv B L len s' \<and> spec_op L (CreateRows ck ds) (table_of (bdata B s)) a (table_of (bdata B s'))"
proof -
  let ?R = "\<lambda>d d'. \<exists>ck. clock_ok ck \<and> d' = created ck d"
  note ok = rinvD [OF assms(1)]
  have pre: "clock_ok ck" "distinct (map d_ID ds)"
    "\<forall>d \<in> set ds. d_ID d \<noteq> [] \<and> bar \<notin> set (d_ID d) \<and> stored (bdata B s) (d_ID d) = None" "length ds < 1000"
    and len: "\<forall>d \<in> set ds. length (d_ID d) = len"
    using assms(2) by (simp_all add: fresh_def)
  from BulkCreateDownloads_live [OF ok(1,2,4) pre] assms(3) obtain ds' where
    m: "bdata B s' = put_all L ds' (bdata B s)" "a = Done" and R: "list_all2 ?R ds ds'" by auto
  have "d_ID d' = d_ID d \<and> valid_download (d_ID d) d'" if "d \<in> set ds" "?R d d'" for d d'
    using that pre(3) created_valid by fastforce
  note rows = put_all_rows [OF ok(4) pre(2) R this]
  have "\<forall>d \<in> set ds'. length (d_ID d) = len" by (rule same_lengths [OF _ len]) (use rows in blast)
  note lens = lens_ok_put_all [OF ok(5) this]
  show ?thesis
  proof (rule sim_write [OF assms(1,3) m(1) _ lens])
    show "repo_ok L (put_all L ds' (bdata B s))" using rows by blast
    show "spec_op L (CreateRows ck ds) (table_of (bdata B s)) a (table_of (put_all L ds' (bdata B s)))"
      unfolding spec_op.simps m(2) table_of_put_all table_of_sel
      using rows by (intro conjI exI [of _ "stored (put_all L ds' (bdata B s))"] refl) blast
  qed
qed

lemma sim_update_rows:
  assumes "rinv B L len s" "op_ok len (UpdateRows ck ds) (table_of (bdata B s))"
    and "exec_op B L (UpdateRows ck ds) s = (a, s')"
  shows "rinv B L len s' \<and> spec_op L (UpdateRows ck ds) (table_of (bdata B s)) a (table_of (bdata B s'))"
proof -
  let ?R = "\<lambda>d d'. \<exists>ck old. stored (bdata B s) (d_ID d) = Some old \<and> d' = updated ck old d"
  note ok = rinvD [OF assms(1)]
  have pre: "distinct (map d_ID ds)" "\<forall>d \<in> set ds. stored (bdata B s) (d_ID d) \<noteq> None" "length ds < 1000"
    using assms(2) by simp_all
  from BulkUpdateDownloads_live [OF ok(1,2,4) pre, of ck] assms(3) obtain ds' where
    m: "bdata B s' = put_all L ds' (bdata B s)" "a = Done"
    and l2: "list_all2 (\<lambda>d d'. \<exists>ck. d' = updated ck (the (stored (bdata B s) (d_ID d))) d) ds ds'" by auto
  have R: "list_all2 ?R ds ds'"
    using l2 pre(2) by (fastforce simp: list_all2_conv_all_nth)
  have "d_ID d' = d_ID d \<and> valid_download (d_ID d) d'" if "d \<in> set ds" "?R d d'" for d d'
    using that(2) repo_ok_valid [OF ok(4)] updated_nonzero by (fastforce simp: valid_download_def)
  note rows = put_all_rows [OF ok(4) pre(1) R this]
  have len: "\<forall>d \<in> set ds. length (d_ID d) = len" using pre(2) ok(5) by (auto simp: lens_ok_def)
  have "\<forall>d \<in> set ds'. length (d_ID d) = len" by (rule same_lengths [OF _ len]) (use rows in blast)
  note lens = lens_ok_put_all [OF ok(5) this]
  show ?thesis
  proof (rule sim_write [OF assms(1,3) m(1) _ lens])
    show "repo_ok L (put_all L ds' (bdata B s))" using rows by blast
    show "spec_op L (UpdateRows ck ds) (table_of (bdata B s)) a (table_of (put_all L ds' (bdata B s)))"
      unfolding spec_op.simps m(2) table_of_put_all table_of_sel
      using rows by (intro conjI exI [of _ "stored (put_all L ds' (bdata B s))"] refl) blast
  qed
qed

lemma sim_delete_rows:
  assumes "rinv B L len s" "op_ok len (DeleteRows ck ids) (table_of (bdata B s))"
    and "exec_op B L (DeleteRows ck ids) s = (a, s')"
  shows "rinv B L len s' \<and> spec_op L (DeleteRows ck ids) (table_of (bdata B s)) a (table_of (bdata B s'))"
proof -
  have pre: "distinct ids" "\<forall>i \<in> set ids. stored (bdata B s) i \<noteq> None" "length ids < 1000"
    using assms(2) by simp_all
  from BulkDeleteDownloads_live [OF rinvD(1,2,4) [OF assms(1)] pre, of ck] assms(3)
  have m: "bdata B s' = del_all L ids (bdata B s)" "a = Done" by auto
  show ?thesis
    by (rule del_all_writes [OF assms(1,3) m(1) pre(1,2)]) (simp add: m(2) cong: if_cong)
qed

text \<open>The operations on a whole queue.\<close>

lemma sim_delete_queue_rows:
  assumes "rinv B L len s" "op_ok len (DeleteQueueRows ck q) (table_of (bdata B s))"
    and "exec_op B L (DeleteQueueRows ck q) s = (a, s')"
  shows "rinv B L len s' \<and> spec_op L (DeleteQueueRows ck q) (table_of (bdata B s)) a (table_of (bdata B s'))"
proof -
  note ok = rinvD [OF assms(1)]
  let ?ids = "map key_id (iter_forward B s [] (queue_prefix q))"
  have q: "q \<noteq> []" "bar \<notin> set q" "card (under_queue (bdata B s) q) < 1000"
    using assms(2) by (simp_all add: queue_wide_def under_queue_def)
  note walk = queue_walk [OF ok(1,4) q(1,2)]
  have "length ?ids < 1000" using distinct_card [OF walk(1)] walk(2) q(3) by simp
  moreover have ids: "\<forall>i \<in> set ?ids. stored (bdata B s) i \<noteq> None"
    unfolding walk(2) by (auto simp: under_queue_def)
  ultimately obtain s1 where s1: "BulkDeleteDownloads B L (\<lambda>_. live) ck s ?ids = (Inr (), s1)"
    "bdata B s1 = del_all L ?ids (bdata B s)"
    using BulkDeleteDownloads_live [OF ok(1,2,4) walk(1)] by blast
  then have "BulkDeleteDownloadsByQueueID B L (\<lambda>_. live) ck s q = (Inr (), if ?ids = [] then s else s1)"
    using q(1) by (simp add: BulkDeleteDownloadsByQueueID_def repo_view_quiet [OF ok(2)] walk_ids_live)
  then have m: "bdata B s' = del_all L ?ids (bdata B s)" "a = Done" using assms(3) s1(2) by (auto split: if_splits)
  have gone: "i \<in> set ?ids \<longleftrightarrow> (\<exists>d. stored (bdata B s) i = Some d \<and> prefix q (d_QueueID d))" for i
    unfolding walk(2) by (simp add: under_queue_def)
  show ?thesis
    by (rule del_all_writes [OF assms(1,3) m(1) walk(1) ids])
      (simp only: spec_op.simps Let_def m(2) gone table_of_sel simp_thms)
qed

lemma sim_rewrite:
  assumes "rinv B L len s" "queue_wide q (table_of (bdata B s))" "exec_op B L op s = (a, s')"
    and "\<And>d. d_ID (f d) = d_ID d" "\<And>d. d_CreatedAt (f d) = d_CreatedAt d"
    and "exec_op B L op s = map_prod (answer_of (\<lambda>_. Done)) id
      (case walk_rows B live s f (iter_forward B s [] (queue_prefix q)) of
         Inl e \<Rightarrow> (Inl e, s)
       | Inr ds \<Rightarrow> if ds = [] then (Inr (), s) else BulkUpdateDownloads B L (\<lambda>_. live) ck s ds)"
    and "\<And>rows. queue_rewritten f q (stored (bdata B s)) rows \<Longrightarrow>
      spec_op L op (table_of (bdata B s)) Done ((table_of (bdata B s))\<lparr>tb_rows := rows\<rparr>)"
  shows "rinv B L len s' \<and> spec_op L op (table_of (bdata B s)) a (table_of (bdata B s'))"
proof -
  note ok = rinvD [OF assms(1)]
  have q: "q \<noteq> []" "bar \<notin> set q" "card (under_queue (bdata B s) q) < 1000"
    using assms(2) by (simp_all add: queue_wide_def under_queue_def)
  from rewrite_queue [OF ok(1,2,4) q(1,2) assms(4,5) q(3), of ck] obtain ds s1 ds' where
    w: "walk_rows B live s f (iter_forward B s [] (queue_prefix q)) = Inr ds"
      "(if ds = [] then (Inr (), s) else BulkUpdateDownloads B L (\<lambda>_. live) ck s ds) = (Inr (), s1)"
    and r: "rewritten f (under_queue (bdata B s) q) (bdata B s) (bdata B s1)" "repo_ok L (bdata B s1)"
    and m: "bdata B s1 = put_all L ds' (bdata B s)" by blast
  have a: "a = Done" "s' = s1" using assms(3,6) w by simp_all
  have rows: "queue_rewritten f q (stored (bdata B s)) (stored (bdata B s1))"
    using r(1) by (fastforce simp: queue_rewritten_def rewritten_def under_queue_def split: option.splits)
  have same: "stored (bdata B s1) i \<noteq> None \<longleftrightarrow> stored (bdata B s) i \<noteq> None" for i
    using spec [OF rows [unfolded queue_rewritten_def], of i] by (auto split: option.splits if_splits)
  have "lens_ok len (bdata B s1)"
    using ok(5) same put_all_segments [of L ds' "bdata B s"] unfolding lens_ok_def segs_ok_def m by blast
  moreover have "table_of (bdata B s1) = (table_of (bdata B s))\<lparr>tb_rows := stored (bdata B s1)\<rparr>"
    unfolding m by (rule table_of_put_all)
  ultimately show ?thesis
    using assms(7) [OF rows] rinv_next [OF assms(1) r(2)] a by simp
qed

lemma sim_move:
  assumes "rinv B L len s" "op_ok len (MoveQueueRows ck q q') (table_of (bdata B s))"
    and "exec_op B L (MoveQueueRows ck q q') s = (a, s')"
  shows "rinv B L len s' \<and> spec_op L (MoveQueueRows ck q q') (table_of (bdata B s)) a (table_of (bdata B s'))"
proof (cases "q' = [] \<or> q = q'")
  case True
  with assms show ?thesis
    by (intro sim_same [OF assms(1) _ _ assms(3)]) (auto simp: BulkReassignDownloadsQueue_def queue_wide_def)
next
  case False
  have wide: "queue_wide q (table_of (bdata B s))" using assms(2) by simp
  then have "q \<noteq> []" by (simp add: queue_wide_def)
  with False show ?thesis
    by (intro sim_rewrite [OF assms(1) wide assms(3), of "\<lambda>d. d\<lparr>d_QueueID := q'\<rparr>" ck])
      (auto simp: BulkReassignDownloadsQueue_def repo_view_quiet [OF rinvD(2) [OF assms(1)]] skip_const
        split: sum.split)
qed

lemma sim_set_priority:
  assumes "rinv B L len s" "op_ok len (SetQueuePriority ck q p) (table_of (bdata B s))"
    and "exec_op B L (SetQueuePriority ck q p) s = (a, s')"
  shows "rinv B L len s' \<and> spec_op L (SetQueuePriority ck q p) (table_of (bdata B s)) a (table_of (bdata B s'))"
proof -
  have wide: "queue_wide q (table_of (bdata B s))" using assms(2) by simp
  then have "q \<noteq> []" by (simp add: queue_wide_def)
  then show ?thesis
    by (intro sim_rewrite [OF assms(1) wide assms(3), of "\<lambda>d. d\<lparr>d_Priority := p\<rparr>" ck])
      (auto simp: BulkSetPriorityByQueueID_def repo_view_quiet [OF rinvD(2) [OF assms(1)]] skip_const
        split: sum.split)
qed

lemma sim_set_status:
  assumes "rinv B L len s" "op_ok len (SetQueueStatus ck q st) (table_of (bdata B s))"
    and "exec_op B L (SetQueueStatus ck q st) s = (a, s')"
  shows "rinv B L len s' \<and> spec_op L (SetQueueStatus ck q st) (table_of (bdata B s)) a (table_of (bdata B s'))"
proof (cases "st = []")
  case True
  then show ?thesis by (intro sim_same [OF assms(1) _ _ assms(3)]) (simp_all add: BulkUpdateStatusByQueueID_def)
next
  case False
  have wide: "queue_wide q (table_of (bdata B s))" using assms(2) by simp
  then have "q \<noteq> []" by (simp add: queue_wide_def)
  with False show ?thesis
    by (intro sim_rewrite [OF assms(1) wide assms(3), of "\<lambda>d. d\<lparr>d_Status := st\<rparr>" ck])
      (auto simp: BulkUpdateStatusByQueueID_def repo_view_quiet [OF rinvD(2) [OF assms(1)]] skip_const
        split: sum.split)
qed

text \<open>Queues, statistics and segments.\<close>

lemma outside_tables:
  "seg_rows (m(kQueue i := v)) = seg_rows m" "seg_rows (m(kQueueStats i := v)) = seg_rows m"
  "lens_ok len m \<Longrightarrow> lens_ok len (m(kQueue i \<mapsto> QueueJ q))" "lens_ok len m \<Longrightarrow> lens_ok len (m(kQueue i := None))"
  "lens_ok len m \<Longrightarrow> lens_ok len (m(kQueueStats i \<mapsto> StatsJ st))" "lens_ok len m \<Longrightarrow> lens_ok len (m(kQueueStats i := None))"
proof -
  have "kSegment j n \<noteq> kQueue i" "kSegment j n \<noteq> kQueueStats i" for j n by (rule neq_by_family, simp)+
  then show "seg_rows (m(kQueue i := v)) = seg_rows m" "seg_rows (m(kQueueStats i := v)) = seg_rows m"
    by (intro ext seg_rows_cong [THEN fun_cong]; simp)+
qed (auto simp: lens_ok_def segs_ok_def)

lemma sim_save_queue:
  assumes "rinv B L len s" "exec_op B L (SaveQueueRow ck q) s = (a, s')"
  shows "rinv B L len s' \<and> spec_op L (SaveQueueRow ck q) (table_of (bdata B s)) a (table_of (bdata B s'))"
proof (cases "q_ID q = []")
  case True
  then have "SaveQueue B live ck s q = (Inl (ErrText ''queue id is required''), s)"
    unfolding SaveQueue_def by (intro repo_update_refused [OF rinvD(1,2) [OF assms(1)]]) simp
  with True show ?thesis by (intro sim_same [OF assms(1) _ _ assms(2)]) simp_all
next
  case False
  note ok = rinvD [OF assms(1)]
  from SaveQueue_quiet [OF ok(1,2), of live q ck s] False obtain q' s1 where
    r: "SaveQueue B live ck s q = (Inr q', s1)" by auto
  from SaveQueue_net [OF ok(1) r] r assms(2)
  have m: "bdata B s' = (bdata B s)(kQueue (q_ID q) \<mapsto> QueueJ q')" "a = QueueRow q'"
    and q': "q' = q\<lparr>q_CreatedAt := (if IsZero (q_CreatedAt q) then ck 0 else q_CreatedAt q), q_UpdatedAt := ck 1\<rparr>"
    by auto
  show ?thesis
    by (rule sim_write [OF assms m(1) repo_ok_puts(1) [OF ok(4)]])
      (use False ok(5) in \<open>simp_all add: m(2) q' Let_def outside_tables table_of_def\<close>)
qed

text \<open>A transaction that is a list of writes.\<close>

lemma sim_txn:
  assumes "rinv B L len s" "exec_op B L op s = (a, s')"
    and "exec_op B L op s = map_prod (answer_of (\<lambda>_. Done)) id (repo_update B live s f)" "f [] = Inr ((), ws)"
    and "repo_ok L (apply_writes ws (bdata B s))" "lens_ok len (apply_writes ws (bdata B s))"
    and "spec_op L op (table_of (bdata B s)) Done (table_of (apply_writes ws (bdata B s)))"
  shows "rinv B L len s' \<and> spec_op L op (table_of (bdata B s)) a (table_of (bdata B s'))"
proof -
  from repo_update_quiet [where f = f and cx = live and s = s, OF rinvD(1,2) [OF assms(1)] _ _ assms(4)]
  obtain s1 where "repo_update B live s f = (Inr (), s1)" "bdata B s1 = apply_writes ws (bdata B s)" by auto
  with assms(2,3) have "bdata B s' = apply_writes ws (bdata B s)" "a = Done" by simp_all
  with sim_write [OF assms(1,2) this(1) assms(5,6)] assms(7) show ?thesis by simp
qed

lemma sim_delete_queue:
  assumes "rinv B L len s" "exec_op B L (DeleteQueueRow i) s = (a, s')"
  shows "rinv B L len s' \<and> spec_op L (DeleteQueueRow i) (table_of (bdata B s)) a (table_of (bdata B s'))"
proof -
  note ok = rinvD [OF assms(1)]
  show ?thesis
    by (rule sim_txn [OF assms, where ws = "[WDel (kQueue i), WDel (kQueueStats i)]"], unfold exec_op.simps DeleteQueue_def)
      (rule refl, simp_all add: txn_write_quiet [OF ok(2)] txn_try_quiet [OF ok(2)] outside_tables ok
        repo_ok_puts(5) [OF repo_ok_puts(4) [OF ok(4)]] table_of_def)
qed

lemma sim_save_stats:
  assumes "rinv B L len s" "exec_op B L (SaveStatsRow st) s = (a, s')"
  shows "rinv B L len s' \<and> spec_op L (SaveStatsRow st) (table_of (bdata B s)) a (table_of (bdata B s'))"
proof -
  note ok = rinvD [OF assms(1)]
  show ?thesis
    by (rule sim_txn [OF assms, where ws = "[WSet (kQueueStats (qs_QueueID st)) (StatsJ st)]"],
        unfold exec_op.simps SaveQueueStats_def)
      (rule refl, simp_all add: txn_write_quiet [OF ok(2)] outside_tables ok repo_ok_puts(2) [OF ok(4)] table_of_def)
qed

lemma kSegment_same:
  "length a = length b \<Longrightarrow> 0 \<le> i \<Longrightarrow> i < 10 ^ 9 \<Longrightarrow> 0 \<le> j \<Longrightarrow> j < 10 ^ 9 \<Longrightarrow>
     kSegment a i = kSegment b j \<longleftrightarrow> a = b \<and> i = j"
  using kSegment_less [of i j b] kSegment_less [of j i b] segment_prefix_same_length [of a b j]
    segment_prefix_same_length [of a a i] by (metis linorder_neq_iff)

lemma seg_rows_upsert:
  assumes "repo_ok L m" "segs_ok len m" "segment_fits len g"
  shows "seg_rows (m(kSegment (s_DownloadID g) (s_Index g) \<mapsto> SegmentJ g)) =
    (seg_rows m)(s_DownloadID g := (seg_rows m (s_DownloadID g))(s_Index g \<mapsto> g))"
proof -
  let ?k = "kSegment (s_DownloadID g) (s_Index g)"
  have "seg_rows (m(?k \<mapsto> SegmentJ g)) i n = Some h \<longleftrightarrow>
      (if i = s_DownloadID g \<and> n = s_Index g then h = g else seg_rows m i n = Some h)" for i n h
  proof -
    have "m ?k = Some (SegmentJ h) \<Longrightarrow> s_DownloadID h = s_DownloadID g \<and> s_Index h = s_Index g"
      using repo_ok_kind [OF assms(1), of ?k "SegmentJ h"] assms(2,3)
        kSegment_same [of "s_DownloadID g" "s_DownloadID h" "s_Index g" "s_Index h"]
      by (auto simp: segs_ok_def segment_fits_def)
    then show ?thesis by (auto simp: seg_rows_Some)
  qed
  then have "seg_rows (m(?k \<mapsto> SegmentJ g)) i n =
      (if i = s_DownloadID g \<and> n = s_Index g then Some g else seg_rows m i n)" for i n
    by (metis not_None_eq)
  then show ?thesis by (simp add: fun_eq_iff)
qed

lemma sim_upsert_segment:
  assumes "rinv B L len s" "segment_fits len g" "exec_op B L op s = (a, s')"
    and "op \<in> {SaveSegmentRow g, UpdateSegmentRow g}"
  shows "rinv B L len s' \<and> spec_op L op (table_of (bdata B s)) a (table_of (bdata B s'))"
proof -
  note ok = rinvD [OF assms(1)]
  have ex: "exec_op B L op s = map_prod (answer_of (\<lambda>_. Done)) id (UpsertSegment B live s g)"
    and sp: "spec_op L op t a' t' \<longleftrightarrow> segment_saved g t a' t'" for t a' t'
    using assms(4) by (auto simp: UpdateSegment_def)
  show ?thesis
  proof (cases "s_DownloadID g = []")
    case True
    then have "UpsertSegment B live s g = (Inl (ErrText ''segment download_id is required''), s)"
      unfolding UpsertSegment_def by (intro repo_update_refused [OF ok(1,2)]) simp
    with True ex sp show ?thesis by (intro sim_same [OF assms(1) _ _ assms(3)]) (simp_all add: segment_saved_def)
  next
    case False
    let ?m = "(bdata B s)(kSegment (s_DownloadID g) (s_Index g) \<mapsto> SegmentJ g)"
    from UpsertSegment_quiet [OF ok(1,2) _ _ False, of live s] ex assms(3)
    have m: "bdata B s' = ?m" "a = Done" by auto
    have "lens_ok len ?m" using ok(5) assms(2) by (auto simp: lens_ok_def segs_ok_def segment_fits_def)
    moreover have "queues ?m = queues (bdata B s)" "stats ?m = stats (bdata B s)"
      by (simp_all add: queues_def [abs_def] stats_def [abs_def] neq_by_family)
    ultimately show ?thesis
      using False seg_rows_upsert [OF ok(4) _ assms(2)] ok(5)
      by (intro sim_write [OF assms(1,3) m(1) repo_ok_puts(3) [OF ok(4)]])
        (simp_all add: sp segment_saved_def m(2) table_of_def lens_ok_def)
  qed
qed

lemma sim_save_segment:
  assumes "rinv B L len s" "op_ok len (SaveSegmentRow g) (table_of (bdata B s))"
    and "exec_op B L (SaveSegmentRow g) s = (a, s')"
  shows "rinv B L len s' \<and> spec_op L (SaveSegmentRow g) (table_of (bdata B s)) a (table_of (bdata B s'))"
  using sim_upsert_segment [OF assms(1) _ assms(3)] assms(2) by simp

lemma sim_update_segment:
  assumes "rinv B L len s" "op_ok len (UpdateSegmentRow g) (table_of (bdata B s))"
    and "exec_op B L (UpdateSegmentRow g) s = (a, s')"
  shows "rinv B L len s' \<and> spec_op L (UpdateSegmentRow g) (table_of (bdata B s)) a (table_of (bdata B s'))"
  using sim_upsert_segment [OF assms(1) _ assms(3)] assms(2) by simp

lemma repo_ok_del_segments:
  assumes "repo_ok L m" "\<And>k. k \<in> K \<Longrightarrow> key_family k = FSegment"
  shows "repo_ok L (del_keys K m)" "stored (del_keys K m) = stored m" "queues (del_keys K m) = queues m"
    "stats (del_keys K m) = stats m"
proof -
  have out: "kDownload j \<notin> K" "kQueue j \<notin> K" "kQueueStats j \<notin> K" "is_index k \<Longrightarrow> k \<notin> K" for j k
    using assms(2) by (fastforce simp: is_index_def)+
  then show st: "stored (del_keys K m) = stored m" and "queues (del_keys K m) = queues m"
    "stats (del_keys K m) = stats m"
    by (simp_all add: fun_eq_iff stored_def queues_def stats_def del_keys_def)
  show "repo_ok L (del_keys K m)"
    using assms(1) out st by (auto simp: repo_ok_def indexed_def del_keys_def dom_def split: if_splits)
qed

lemma sim_delete_segments:
  assumes "rinv B L len s" "op_ok len (DeleteSegmentRows i) (table_of (bdata B s))"
    and "exec_op B L (DeleteSegmentRows i) s = (a, s')"
  shows "rinv B L len s' \<and> spec_op L (DeleteSegmentRows i) (table_of (bdata B s)) a (table_of (bdata B s'))"
proof -
  note ok = rinvD [OF assms(1)]
  define K where "K = {k. prefix (segment_prefix i) k}"
  have same: "del_keys {k \<in> set (bkeys B s []). prefix (segment_prefix i) k} (bdata B s) = del_keys K (bdata B s)"
    using badger_keys_set [OF ok(1), of s "[]"] by (auto simp: del_keys_def fun_eq_iff K_def)
  have K: "key_family k = FSegment" if "k \<in> K" for k using that segment_prefix_family by (auto simp: K_def)
  note del = repo_ok_del_segments [OF ok(4) K]
  have "seg_rows (del_keys K (bdata B s)) = (\<lambda>j. if j \<in> {i} then Map.empty else seg_rows (bdata B s) j)"
    by (rule seg_rows_removed) (use ok(5) assms(2) in \<open>auto simp: lens_ok_def K_def\<close>)
  then have seg: "seg_rows (del_keys K (bdata B s)) = (seg_rows (bdata B s))(i := Map.empty)"
    by (simp add: fun_eq_iff)
  show ?thesis
  proof (rule sim_txn [OF assms(1,3)])
    show "exec_op B L (DeleteSegmentRows i) s = map_prod (answer_of (\<lambda>_. Done)) id
        (repo_update B live s (\<lambda>tx. bindE (deleteByPrefix B (skip 2 live) s (segment_prefix i) tx) (\<lambda>tx. Inr ((), tx))))"
      by (simp add: DeleteSegments_def)
    show "bindE (deleteByPrefix B (skip 2 live) s (segment_prefix i) []) (\<lambda>tx. Inr ((), tx)) =
        Inr ((), map WDel (filter (prefix (segment_prefix i)) (bkeys B s [])))"
      by (simp add: deleteByPrefix_live [OF ok(1,2)])
  qed (simp_all add: same del lens_ok_del_keys ok table_of_def seg)
qed

lemma GetQueueStats_live:
  assumes "badger_laws B" "badger_quiet B" "repo_ok L (bdata B s)"
  shows "GetQueueStats B live s i = (case stats (bdata B s) i of None \<Rightarrow> Inl ErrNotFound | Some st \<Rightarrow> Inr st)"
  using repo_ok_stats [OF assms(3), of i]
  by (cases "stats (bdata B s) i")
    (simp_all add: GetQueueStats_def repo_view_quiet [OF assms(2)] quiet_get [OF assms(1,2)])

lemma listing_answer:
  assumes "rinv B L len s" "opts_ok opt"
  shows "\<exists>ds. ListDownloads B L live s opt limit offset = Inr ds \<and>
    listing L opt limit offset (stored (bdata B s)) ds"
proof -
  note ok = rinvD [OF assms(1)]
  then have view: "repo_ok L (txview B s [])" by simp
  let ?hs = "hits B L s [] opt"
  have "set ?hs = {d. stored (bdata B s) (d_ID d) = Some d \<and> matches L opt d}"
    using set_hits [OF ok(1) view assms(2)] by (simp add: matching_def)
  moreover have "sorted_wrt (\<lambda>a b. \<not> created_less (o_OrderDesc opt) b a) ?hs"
    if "\<forall>i d. stored (bdata B s) i = Some d \<longrightarrow> 0 \<le> d_CreatedAt d \<and> in64 (d_CreatedAt d)"
    by (rule hits_chronological [OF ok(1) view assms(2)]) (use that in \<open>simp add: times_ok_def\<close>)
  ultimately have "listing L opt limit offset (stored (bdata B s)) (sort_result L opt (page limit offset ?hs))"
    using distinct_hits [OF ok(1) view] ordered_sort_result [OF ok(3)] ok(3)
    unfolding listing_def by (intro exI [of _ ?hs]) simp
  then show ?thesis by (simp add: ListDownloads_live [OF ok(1,2,4)])
qed

lemma segments_answer:
  assumes "rinv B L len s" "length i = len"
  shows "\<exists>gs. ListSegments B live s i = Inr gs \<and> sorted_wrt (\<lambda>x y. s_Index x < s_Index y) gs \<and>
    set gs = ran (seg_rows (bdata B s) i)"
proof -
  note ok = rinvD [OF assms(1)]
  have "segs_ok (length i) (bdata B s)" using ok(5) assms(2) by (simp add: lens_ok_def)
  from ListSegments_live [OF ok(1,2,4) this] obtain gs where gs: "ListSegments B live s i = Inr gs"
    "sorted_wrt (\<lambda>x y. s_Index x < s_Index y) gs"
    "\<forall>g. g \<in> set gs \<longleftrightarrow> s_DownloadID g = i \<and> segs (bdata B s) i (s_Index g) = Some g" by blast
  have "g \<in> ran (seg_rows (bdata B s) i) \<longleftrightarrow> s_DownloadID g = i \<and> segs (bdata B s) i (s_Index g) = Some g" for g
    unfolding ran_def mem_Collect_eq seg_rows_Some segs_Some by blast
  then have "set gs = ran (seg_rows (bdata B s) i)" by (intro set_eqI) (simp only: gs(3))
  with gs(1,2) show ?thesis by simp
qed

lemma sim_reads:
  assumes "rinv B L len s" "op_ok len op (table_of (bdata B s))" "exec_op B L op s = (a, s')"
    and "op \<in> {ReadRow i, ListRows opt limit offset, CountRows opt, ReadQueueRow i, ListQueueRows, ReadStatsRow i,
      ListSegmentRows i}"
  shows "rinv B L len s' \<and> spec_op L op (table_of (bdata B s)) a (table_of (bdata B s'))"
proof -
  note ok = rinvD [OF assms(1)]
  have get: "GetDownload B live s i = (case stored (bdata B s) i of None \<Rightarrow> Inl ErrNotFound | Some d \<Rightarrow> Inr d)"
    using repo_ok_get [OF ok(4), of i]
    by (cases "stored (bdata B s) i")
      (simp_all add: GetDownload_def repo_view_quiet [OF ok(2)] quiet_get [OF ok(1,2)])
  have s': "s' = s" using assms(3,4) by auto
  consider "op = ReadRow i" | "op = ListRows opt limit offset" | "op = CountRows opt" | "op = ReadQueueRow i"
    | "op = ListQueueRows" | "op = ReadStatsRow i" | "op = ListSegmentRows i" using assms(4) by blast
  then have "spec_op L op (table_of (bdata B s)) a (table_of (bdata B s))"
  proof cases
    case 1
    with assms(3) get show ?thesis by (auto simp: missing_def split: option.splits)
  next
    case 2
    with assms(2,3) listing_answer [OF assms(1), of opt limit offset] show ?thesis by auto
  next
    case 3
    with assms(2,3) CountDownloads_live [OF ok(1,2,4), of opt] show ?thesis by (auto simp: matching_def)
  next
    case 4
    with assms(3) GetQueue_quiet [OF ok(1,2,4), of live i] show ?thesis by (auto simp: missing_def split: option.splits)
  next
    case 5
    with assms(3) ListQueues_live [OF ok(1,2,4)] show ?thesis by auto
  next
    case 6
    with assms(3) GetQueueStats_live [OF ok(1,2,4), of i] show ?thesis by (auto simp: missing_def split: option.splits)
  next
    case 7
    with assms(2,3) segments_answer [OF assms(1), of i] show ?thesis by auto
  qed
  with assms(1) s' show ?thesis by simp
qed

interpretation repo: simulation "exec_op B L" "rinv B L len" "\<lambda>s. table_of (bdata B s)" "spec_op L" "op_ok len"
  for B L len
proof unfold_locales
  fix s op a s'
  assume inv: "rinv B L len s" and pre: "op_ok len op (table_of (bdata B s))" and ex: "exec_op B L op s = (a, s')"
  note writes = sim_create [OF inv] sim_update [OF inv] sim_delete [OF inv] sim_create_rows [OF inv]
    sim_update_rows [OF inv] sim_delete_rows [OF inv] sim_delete_queue_rows [OF inv] sim_move [OF inv]
    sim_set_priority [OF inv] sim_set_status [OF inv] sim_save_queue [OF inv] sim_delete_queue [OF inv]
    sim_save_stats [OF inv] sim_save_segment [OF inv] sim_update_segment [OF inv] sim_delete_segments [OF inv]
  show "rinv B L len s' \<and> spec_op L op (table_of (bdata B s)) a (table_of (bdata B s'))"
    using pre ex
    by (induction op)
      ((rule writes, assumption+) | (rule sim_reads [OF inv], assumption, assumption, blast))+
qed

section \<open>Properties\<close>

text \<open>
  C5.  The repository is its four tables.  On a database without faults, every sequence of operations
  (creating, reading, updating, deleting, listing and counting downloads, one, many or those of a queue at
  a time, and the operations on segments, queues and statistics) gives answers that the tables allow and
  leaves the tables as the operations say, with the index and every other row of the database well-formed,
  as long as the client creates each download once, under ids of one length without a separator, and keeps
  a bulk operation below the size of a batch.
\<close>

theorem repository_refines:
  assumes "badger_laws B" "badger_quiet B" "sort_contract L" "repo_ok L (bdata B s)" "lens_ok len (bdata B s)"
    and "ops_ok (spec_op L) (op_ok len) ops (table_of (bdata B s))" "run_ops (exec_op B L) ops s = (as, s')"
  shows "spec_ops (spec_op L) ops (table_of (bdata B s)) as (table_of (bdata B s')) \<and> repo_ok L (bdata B s')"
proof -
  have "rinv B L len s" using assms(1-5) by (simp add: rinv_def)
  from repo.run_simulates [OF this assms(6,7)] show ?thesis by (simp add: rinv_def)
qed

theorem repository_refines_witness:
  "\<exists>s'. run_ops (exec_op mem_badger basic_lib)
       [CreateRow demo_clock demo_download, SaveSegmentRow (demo_segment 3), ListSegmentRows ''a1'',
        CountRows zero_Options, DeleteRow demo_clock ''a1'', ReadRow ''a1'', ListSegmentRows ''a1'',
        SaveQueueRow demo_clock demo_queue, DeleteQueueRow ''main'', ReadQueueRow ''main''] [] =
     ([Row (created demo_clock demo_download), Done, SegmentRows [demo_segment 3], Counted 1, Done,
       Refused ErrNotFound, SegmentRows [],
       QueueRow (demo_queue\<lparr>q_CreatedAt := demo_clock 0, q_UpdatedAt := demo_clock 1\<rparr>), Done, Refused ErrNotFound], s')"
  (is "\<exists>s'. run_ops _ ?ops _ = (?as, s')")
proof -
  obtain as s' where r: "run_ops (exec_op mem_badger basic_lib) ?ops [] = (as, s')" by fastforce
  have row: "{d. (if d_ID d = ''a1'' then Some (created demo_clock demo_download) else None) = Some d \<and>
      matches basic_lib zero_Options d} = {created demo_clock demo_download}"
    by (auto simp: matches_def queue_filter_def status_filter_def tag_filter_def search_filter_def
        created_filter_def zero_Options_def split: if_splits)
  have one: "sorted_wrt (\<lambda>x y. s_Index x < s_Index y) gs \<and> set gs = {demo_segment 3} \<longleftrightarrow> gs = [demo_segment 3]" for gs
    using sorted_singleton [of "\<lambda>x y. s_Index x < s_Index y" gs "demo_segment 3"] by auto
  have empty: "table_of Map.empty =
      \<lparr>tb_rows = Map.empty, tb_queues = Map.empty, tb_stats = Map.empty, tb_segs = (\<lambda>i. Map.empty)\<rparr>"
    by (simp add: table_of_def fun_eq_iff queues_def stats_def seg_rows_def segs_def)
  have "lens_ok 2 (bdata mem_badger [])" by (simp add: lens_ok_def segs_ok_def)
  moreover have "ops_ok (spec_op basic_lib) (op_ok 2) ?ops (table_of (bdata mem_badger []))"
    by (simp add: bar_def opts_ok_def zero_Options_def fresh_def segment_fits_def segment_saved_def)
  ultimately have "spec_ops (spec_op basic_lib) ?ops (table_of Map.empty) as (table_of (bdata mem_badger s'))"
    using repository_refines [OF mem_badger_laws mem_badger_quiet basic_lib_sort_contract _ _ _ r, of 2] by simp
  then have "as = ?as" unfolding empty
    by (simp add: missing_def row one segment_saved_def Let_def demo_queue_def zero_Queue_def IsZero_def)
  with r show ?thesis by blast
qed

end
