(* ===== verification/RateLimit.thy ===== *)
theory RateLimit
  imports Interfaces
begin

text \<open>
  The token buckets of \<open>internal/ratelimit/ratelimiter.go\<close>.  The map of buckets is an option, because
  Go distinguishes a nil map, which can be read but not written.  The float64 operations are a
  parameter: \<open>fp_round\<close> rounds a real result, \<open>fp_int\<close> converts to int64; \<open>fp_ok\<close> is what IEEE 754 and
  the Go specification say of them for zero and in the range of the normal numbers.  A call holds the mutex throughout its changes, so calls are
  steps.
\<close>

record fpu =
  fp_round :: "rat \<Rightarrow> rat"
  fp_int :: "rat \<Rightarrow> int"

definition ulp :: rat where "ulp = 1 + 1 / 2 ^ 53"

text \<open>\<open>spans k m x\<close>: \<open>x\<close> is zero or between \<open>2 ^ - k\<close> and \<open>2 ^ m\<close>.\<close>

definition spans :: "nat \<Rightarrow> nat \<Rightarrow> rat \<Rightarrow> bool" where
  "spans k m x \<longleftrightarrow> x = 0 \<or> 1 / 2 ^ k \<le> x \<and> x \<le> 2 ^ m"

definition fp_ok :: "fpu \<Rightarrow> bool" where
  "fp_ok F \<longleftrightarrow>
     (\<forall>x. spans 1022 1023 x \<longrightarrow> x \<le> ulp * fp_round F x \<and> fp_round F x \<le> ulp * x) \<and>
     (\<forall>x. 0 \<le> x \<longrightarrow> x < 2 ^ 63 \<longrightarrow> fp_int F x = \<lfloor>x\<rfloor>)"

text \<open>\<open>Duration.Seconds()\<close>: whole seconds and nanoseconds are converted apart.\<close>

definition Seconds :: "fpu \<Rightarrow> duration \<Rightarrow> rat" where
  "Seconds F d =
     fp_round F (fp_round F (of_int (d sdiv time_Second)) +
       fp_round F (fp_round F (of_int (d smod time_Second)) / of_int time_Second))"

section \<open>Buckets\<close>

record bucket =
  b_capacity :: int
  b_tokens :: int
  b_lastRefill :: gtime

type_synonym limiter = "(string \<rightharpoonup> bucket) option"

definition NewLimiter :: limiter where "NewLimiter = Some Map.empty"

text \<open>The zero value \<open>&SimpleRateLimiter{}\<close>.\<close>

definition ZeroLimiter :: limiter where "ZeroLimiter = None"

definition lookup :: "limiter \<Rightarrow> string \<rightharpoonup> bucket" where
  "lookup l k = (case l of None \<Rightarrow> None | Some m \<Rightarrow> m k)"

definition refill :: "fpu \<Rightarrow> gtime \<Rightarrow> bucket \<Rightarrow> bucket" where
  "refill F now b =
     (let elapsed = Seconds F (time_Sub now (b_lastRefill b))
      in if 0 < elapsed
         then let r = fp_int F (fp_round F (fp_round F (of_int (b_capacity b)) * elapsed))
              in if 0 < r
                 then let t = add64 (b_tokens b) r;
                          t = (if b_capacity b < t then b_capacity b else t)
                      in b\<lparr>b_tokens := t, b_lastRefill := now\<rparr>
                 else b
         else b)"

definition take_tokens :: "fpu \<Rightarrow> bucket \<Rightarrow> int \<Rightarrow> duration \<times> bucket" where
  "take_tokens F b bytes =
     (if bytes \<le> b_tokens b then (0, b\<lparr>b_tokens := sub64 (b_tokens b) bytes\<rparr>)
      else let needed = sub64 bytes (b_tokens b);
               seconds = fp_round F (fp_round F (of_int needed) / fp_round F (of_int (b_capacity b)))
           in (fp_int F (fp_round F (seconds * of_int time_Second)), b\<lparr>b_tokens := 0\<rparr>))"

definition reserveOne :: "fpu \<Rightarrow> gtime \<Rightarrow> limiter \<Rightarrow> string \<Rightarrow> bucket \<Rightarrow> int \<Rightarrow> duration \<times> limiter" where
  "reserveOne F now l key b bytes =
     (let (wait, b) = take_tokens F (refill F now b) bytes
      in (wait, map_option (\<lambda>m. m(key \<mapsto> b)) l))"

definition Reserve :: "fpu \<Rightarrow> gtime \<Rightarrow> limiter \<Rightarrow> string \<Rightarrow> int \<Rightarrow> duration \<times> limiter" where
  "Reserve F now l key bytes =
     (case lookup l key of
        None \<Rightarrow> (0, l)
      | Some b \<Rightarrow> if b_capacity b \<le> 0 then (0, l) else reserveOne F now l key b bytes)"

definition SetLimit :: "gtime \<Rightarrow> limiter \<Rightarrow> string \<Rightarrow> int \<Rightarrow> limiter res" where
  "SetLimit now l key bytesPerSecond =
     (case l of
        None \<Rightarrow> Inl (ErrPanic ''assignment to entry in nil map'')
      | Some m \<Rightarrow> Inr (Some (m(key \<mapsto>
          \<lparr>b_capacity = bytesPerSecond, b_tokens = bytesPerSecond, b_lastRefill = now\<rparr>))))"

section \<open>The contract of the runner\<close>

definition limited :: "limiter \<Rightarrow> string \<Rightarrow> bool" where
  "limited l k = (case lookup l k of None \<Rightarrow> False | Some b \<Rightarrow> 0 < b_capacity b)"

lemma refill_capacity [simp]: "b_capacity (refill F now b) = b_capacity b"
  by (simp add: refill_def Let_def)

lemma take_tokens_capacity [simp]: "b_capacity (snd (take_tokens F b n)) = b_capacity b"
  by (simp add: take_tokens_def Let_def)

interpretation lim: rate_limiter "Reserve F now" limited for F now
proof unfold_locales
  fix l k n assume "\<not> limited l k"
  then show "Reserve F now l k n = (0, l)"
    by (auto simp: limited_def Reserve_def split: option.splits)
next
  fix l k n j
  show "limited (snd (Reserve F now l k n)) j \<longleftrightarrow> limited l j"
    by (cases l) (auto simp: limited_def Reserve_def lookup_def reserveOne_def case_prod_beta Let_def
        split: option.splits)
qed

section \<open>Tokens stay within the bucket\<close>

definition bucket_ok :: "bucket \<Rightarrow> bool" where
  "bucket_ok b \<longleftrightarrow> 0 \<le> b_tokens b \<and> b_tokens b \<le> b_capacity b \<and> b_capacity b < 2 ^ 62"

definition limiter_ok :: "limiter \<Rightarrow> bool" where
  "limiter_ok l \<longleftrightarrow> (\<forall>k b. lookup l k = Some b \<longrightarrow> bucket_ok b)"

text \<open>
  \<open>calm\<close>: between two reservations, capacity times idle time stays below \<open>2 ^ 61\<close> bytes, so that
  neither the conversion to int64 nor the sum of the tokens leaves the range.
\<close>

definition calm :: "gtime \<Rightarrow> bucket \<Rightarrow> bool" where
  "calm now b \<longleftrightarrow>
     b_lastRefill b \<le> now \<and> now - b_lastRefill b < 2 ^ 63 \<and>
     b_capacity b * (now - b_lastRefill b) < 2 ^ 61 * time_Second"

lemma ulp_bounds: "0 < ulp" "1 \<le> ulp" "ulp \<le> 2" "ulp ^ 4 \<le> 2" "ulp ^ 5 \<le> 2"
  by (simp_all add: ulp_def power_numeral_reduce)

text \<open>Ranges of intermediate results: none is subnormal and none overflows.\<close>

lemma spans_nonneg: "spans k m x \<Longrightarrow> 0 \<le> x"
  by (auto simp: spans_def intro: order_trans [rotated])

lemma spans_mono: "spans k m x \<Longrightarrow> k \<le> k' \<Longrightarrow> m \<le> m' \<Longrightarrow> spans k' m' x"
proof -
  assume w: "spans k m x" "k \<le> k'" "m \<le> m'"
  have "(1 :: rat) / 2 ^ k' \<le> 1 / 2 ^ k" using w(2) by (simp add: divide_left_mono power_increasing)
  moreover have "(2 :: rat) ^ m \<le> 2 ^ m'" using w(3) by (simp add: power_increasing)
  ultimately show ?thesis using w(1) unfolding spans_def by linarith
qed

lemma spans_int: "0 \<le> i \<Longrightarrow> i \<le> 2 ^ m \<Longrightarrow> spans 0 m (of_int i)"
proof -
  assume i: "0 \<le> i" "i \<le> 2 ^ m"
  have "(of_int i :: rat) \<le> of_int (2 ^ m)" using i(2) by (simp only: of_int_le_iff)
  moreover have "i = 0 \<or> (1 :: rat) \<le> of_int i" using i(1) by auto
  ultimately show ?thesis by (auto simp: spans_def)
qed

lemma spans_mult:
  assumes "spans k m x" "spans k' m' y" shows "spans (k + k') (m + m') (x * y)"
proof (cases "x = 0 \<or> y = 0")
  case False
  then have x: "1 / 2 ^ k \<le> x" "x \<le> 2 ^ m" and y: "1 / 2 ^ k' \<le> y" "y \<le> 2 ^ m'"
    using assms by (simp_all add: spans_def)
  have "1 / 2 ^ k * (1 / 2 ^ k') \<le> x * y" using x(1) y(1) by (intro mult_mono) (simp_all add: spans_nonneg [OF assms(1)])
  moreover have "x * y \<le> 2 ^ m * 2 ^ m'"
    using x(2) y(2) by (intro mult_mono) (simp_all add: spans_nonneg [OF assms(2)])
  ultimately show ?thesis by (simp add: spans_def power_add)
qed (auto simp: spans_def)

lemma spans_divide:
  assumes "spans k m x" "spans k' m' y" "y \<noteq> 0" shows "spans (k + m') (m + k') (x / y)"
proof -
  have y: "1 / 2 ^ k' \<le> y" "y \<le> 2 ^ m'" using assms by (simp_all add: spans_def)
  have pos: "0 < y" using spans_nonneg [OF assms(2)] assms(3) by simp
  have "1 / 2 ^ m' \<le> 1 / y" using y(2) pos by (simp add: divide_left_mono)
  moreover have "1 / y \<le> 1 / (1 / 2 ^ k')" using y(1) pos by (intro divide_left_mono) simp_all
  ultimately have "spans m' k' (1 / y)" by (simp add: spans_def)
  from spans_mult [OF assms(1) this] show ?thesis by simp
qed

lemma spans_add:
  assumes "spans k m x" "spans k m y" shows "spans k (Suc m) (x + y)"
proof -
  have "0 \<le> x" "0 \<le> y" using spans_nonneg assms by blast+
  then show ?thesis using assms by (fastforce simp: spans_def)
qed

lemma spans_round:
  assumes "fp_ok F" "spans k m x" "k \<le> 1022" "m \<le> 1023"
  shows "spans (Suc k) (Suc m) (fp_round F x)" "x \<le> ulp * fp_round F x" "fp_round F x \<le> ulp * x"
    "0 \<le> fp_round F x"
proof -
  have "spans 1022 1023 x" by (rule spans_mono [OF assms(2-4)])
  then show r: "x \<le> ulp * fp_round F x" "fp_round F x \<le> ulp * x" using assms(1) by (simp_all add: fp_ok_def)
  have x: "0 \<le> x" by (rule spans_nonneg [OF assms(2)])
  from r(1) x have "0 \<le> ulp * fp_round F x" by simp
  with ulp_bounds(1) show nn: "0 \<le> fp_round F x" by (simp add: zero_le_mult_iff)
  have "ulp * fp_round F x \<le> 2 * fp_round F x" "ulp * x \<le> 2 * x"
    by (rule mult_right_mono [OF ulp_bounds(3) nn], rule mult_right_mono [OF ulp_bounds(3) x])
  with r have two: "x \<le> 2 * fp_round F x" "fp_round F x \<le> 2 * x" by linarith+
  show "spans (Suc k) (Suc m) (fp_round F x)"
  proof (cases "x = 0")
    case True
    with two show ?thesis by (simp add: spans_def)
  next
    case False
    with assms(2) have "1 / 2 ^ k \<le> x" "x \<le> 2 ^ m" by (simp_all add: spans_def)
    with two have "1 / 2 ^ k \<le> 2 * fp_round F x" "fp_round F x \<le> 2 * 2 ^ m" by linarith+
    then show ?thesis by (simp add: spans_def divide_le_eq mult.assoc mult.left_commute)
  qed
qed

lemma fp_round_mono:
  assumes "fp_ok F" "spans k m x" "k \<le> 1022" "m \<le> 1023" "x \<le> y"
  shows "0 \<le> fp_round F x \<and> fp_round F x \<le> ulp * y"
proof -
  have "ulp * x \<le> ulp * y" using assms(5) ulp_bounds(1) by (intro mult_left_mono) simp_all
  then show ?thesis using spans_round(3,4) [OF assms(1-4)] by linarith
qed

lemma Seconds_bound:
  assumes "fp_ok F" "0 \<le> d" "d < 2 ^ 63"
  shows "spans 33 67 (Seconds F d)" "Seconds F d \<le> ulp ^ 3 * (of_int d / of_int time_Second)"
proof -
  let ?s = "of_int (d div time_Second) :: rat" and ?n = "of_int (d mod time_Second) :: rat"
  have S: "(0 :: int) < time_Second" by (simp add: time_Second_def)
  have dm: "d sdiv time_Second = d div time_Second" "d smod time_Second = d mod time_Second"
    using assms(2) S by (simp_all add: signed_divide_int_def signed_modulo_int_def sgn_if minus_div_mult_eq_mod)
  have sum: "?s + ?n / of_int time_Second = of_int d / of_int time_Second"
  proof -
    have "of_int d = ?s * of_int time_Second + ?n"
      unfolding of_int_mult [symmetric] of_int_add [symmetric] by simp
    with S show ?thesis by (simp add: field_simps)
  qed
  have "d div time_Second \<le> d div 1" by (rule zdiv_mono2) (use assms(2) S in simp_all)
  then have "spans 0 63 ?s" using assms(2,3) S by (intro spans_int) (simp_all add: pos_imp_zdiv_nonneg_iff)
  note a = spans_round [OF assms(1) this]
  have "spans 0 63 ?n" using pos_mod_bound [OF S, of d] S by (intro spans_int) (simp_all add: time_Second_def)
  note b0 = spans_round [OF assms(1) this]
  have "spans 0 30 (of_int time_Second)" by (rule spans_int) (simp_all add: time_Second_def)
  from spans_divide [OF b0(1) this] S have w: "spans 31 64 (fp_round F ?n / of_int time_Second)" by simp
  have "fp_round F ?n / of_int time_Second \<le> ulp * ?n / of_int time_Second"
    using b0(3) S by (simp add: divide_right_mono)
  from fp_round_mono [OF assms(1) w _ _ this] spans_round [OF assms(1) w]
  have b: "spans 32 65 (fp_round F (fp_round F ?n / of_int time_Second))"
    "fp_round F (fp_round F ?n / of_int time_Second) \<le> ulp * (ulp * ?n / of_int time_Second)" by simp_all
  have "spans 32 65 (fp_round F ?s)" by (rule spans_mono [OF a(1)]) simp_all
  from spans_add [OF this b(1)]
  have t: "spans 32 66 (fp_round F ?s + fp_round F (fp_round F ?n / of_int time_Second))" by simp
  have "fp_round F ?s \<le> ulp * (ulp * ?s)"
  proof -
    have nn: "0 \<le> ?s" by (rule spans_nonneg) fact
    have "?s \<le> ulp * ?s" using mult_right_mono [OF ulp_bounds(2) nn] by simp
    then have "ulp * ?s \<le> ulp * (ulp * ?s)" using ulp_bounds(1) by (intro mult_left_mono) simp_all
    with a(3) show ?thesis by simp
  qed
  with b(2) have "fp_round F ?s + fp_round F (fp_round F ?n / of_int time_Second) \<le>
      ulp * (ulp * (of_int d / of_int time_Second))"
    unfolding sum [symmetric] by (simp add: distrib_left)
  from fp_round_mono [OF assms(1) t _ _ this] spans_round(1) [OF assms(1) t]
  show "spans 33 67 (Seconds F d)" "Seconds F d \<le> ulp ^ 3 * (of_int d / of_int time_Second)"
    by (simp_all add: Seconds_def dm power3_eq_cube mult.assoc)
qed

lemma calm_elapsed:
  assumes "calm now b"
  shows "time_Sub now (b_lastRefill b) = now - b_lastRefill b" "0 \<le> now - b_lastRefill b"
  using assms by (simp_all add: calm_def time_Sub_def)

text \<open>The refill never exceeds the rate times the idle time by more than the rounding.\<close>

lemma refill_amount:
  assumes "fp_ok F" "bucket_ok b" "calm now b"
  defines "x \<equiv> fp_round F (fp_round F (of_int (b_capacity b)) * Seconds F (now - b_lastRefill b))"
  shows "0 \<le> x" "x < 2 ^ 62"
    "x \<le> ulp ^ 5 * (of_int (b_capacity b) * of_int (now - b_lastRefill b) / of_int time_Second)"
proof -
  let ?c = "of_int (b_capacity b) :: rat" and ?d = "now - b_lastRefill b"
  let ?t = "of_int ?d / of_int time_Second :: rat"
  have c: "0 \<le> ?c" using assms(2) by (simp add: bucket_ok_def)
  have "?d < 2 ^ 63" using assms(3) by (simp add: calm_def)
  note sec = Seconds_bound [OF assms(1) calm_elapsed(2) [OF assms(3)] this]
  have "spans 0 62 ?c" using assms(2) by (intro spans_int) (simp_all add: bucket_ok_def)
  note r = spans_round [OF assms(1) this, simplified]
  from spans_mult [OF r(1) sec(1)] have w: "spans 34 130 (fp_round F ?c * Seconds F ?d)" by simp
  have "fp_round F ?c * Seconds F ?d \<le> (ulp * ?c) * (ulp ^ 3 * ?t)"
    using r(3) sec(2) c ulp_bounds(1) spans_nonneg [OF sec(1)] by (intro mult_mono) simp_all
  from fp_round_mono [OF assms(1) w _ _ this]
  have x: "0 \<le> x" "x \<le> ulp * ((ulp * ?c) * (ulp ^ 3 * ?t))" by (simp_all add: x_def)
  then show "0 \<le> x" by simp
  have u5: "ulp ^ 5 = ulp * (ulp * ulp ^ 3)" by (simp add: eval_nat_numeral)
  have eq: "ulp * ((ulp * ?c) * (ulp ^ 3 * ?t)) = ulp ^ 5 * (?c * of_int ?d / of_int time_Second)"
    unfolding u5 by (simp only: ac_simps times_divide_eq_right times_divide_eq_left)
  show le: "x \<le> ulp ^ 5 * (?c * of_int ?d / of_int time_Second)" using x(2) unfolding eq .
  have "(of_int (b_capacity b * ?d) :: rat) < of_int (2 ^ 61 * time_Second)"
    using assms(3) unfolding calm_def of_int_less_iff by (elim conjE)
  then have "?c * of_int ?d < 2 ^ 61 * of_int time_Second"
    unfolding of_int_mult by simp
  then have lt: "?c * of_int ?d / of_int time_Second < 2 ^ 61"
    by (simp add: divide_less_eq time_Second_def)
  have nn: "0 \<le> ?c * of_int ?d / of_int time_Second"
    using c calm_elapsed(2) [OF assms(3)] by (simp add: time_Second_def)
  have "ulp ^ 5 * (?c * of_int ?d / of_int time_Second) \<le> 2 * (?c * of_int ?d / of_int time_Second)"
    by (rule mult_right_mono [OF ulp_bounds(5) nn])
  also have "\<dots> < 2 * 2 ^ 61" using lt by (intro mult_strict_left_mono) simp_all
  finally have "x < 2 * 2 ^ 61" using le by (rule order.strict_trans1 [rotated])
  then show "x < 2 ^ 62" by simp
qed

lemma refill_spec:
  assumes "fp_ok F" "bucket_ok b" "calm now b"
  shows "bucket_ok (refill F now b)" "b_tokens b \<le> b_tokens (refill F now b)"
    "b_lastRefill b \<le> b_lastRefill (refill F now b) \<and> b_lastRefill (refill F now b) \<le> now"
    "of_int (b_tokens (refill F now b) - b_tokens b) \<le>
       ulp ^ 5 * (of_int (b_capacity b) * of_int (b_lastRefill (refill F now b) - b_lastRefill b)
         / of_int time_Second)"
proof -
  let ?x = "fp_round F (fp_round F (of_int (b_capacity b)) * Seconds F (now - b_lastRefill b))"
  note x = refill_amount [OF assms]
  have "fp_int F ?x = \<lfloor>?x\<rfloor>"
    using assms(1) x(1,2) unfolding fp_ok_def by force
  moreover have "of_int \<lfloor>?x\<rfloor> \<le> ?x" "\<lfloor>?x\<rfloor> < 2 ^ 62" using x(2) by (simp_all add: floor_less_iff)
  ultimately obtain r where r: "fp_int F ?x = r" "of_int r \<le> ?x" "r < 2 ^ 62" by blast
  have add: "add64 (b_tokens b) r = b_tokens b + r" if "0 < r"
    using that r(3) assms(2) by (intro add64_id) (simp add: bucket_ok_def in64_def)
  have nn: "0 \<le> ulp ^ 5 * (of_int (b_capacity b) * of_int (now - b_lastRefill b) / of_int time_Second)"
    using x(1,3) by linarith
  have time: "b_lastRefill b \<le> now" using assms(3) by (simp add: calm_def)
  have cases: "refill F now b = b \<or> refill F now b = b\<lparr>b_tokens := min (b_capacity b) (b_tokens b + r),
      b_lastRefill := now\<rparr> \<and> 0 < r"
    by (auto simp: refill_def calm_elapsed [OF assms(3)] r(1) Let_def add min_def)
  then show "bucket_ok (refill F now b)" "b_tokens b \<le> b_tokens (refill F now b)"
    "b_lastRefill b \<le> b_lastRefill (refill F now b) \<and> b_lastRefill (refill F now b) \<le> now"
    using assms(2) time by (auto simp: bucket_ok_def)
  show "of_int (b_tokens (refill F now b) - b_tokens b) \<le>
       ulp ^ 5 * (of_int (b_capacity b) * of_int (b_lastRefill (refill F now b) - b_lastRefill b)
         / of_int time_Second)"
    using cases
  proof
    assume "refill F now b = b\<lparr>b_tokens := min (b_capacity b) (b_tokens b + r),
      b_lastRefill := now\<rparr> \<and> 0 < r"
    moreover have "of_int (min (b_capacity b) (b_tokens b + r) - b_tokens b) \<le> ?x"
      using r(2) by (simp add: min_def)
    ultimately show ?thesis using x(3) by simp
  qed simp
qed

lemma take_tokens_spec:
  assumes "bucket_ok b" "0 \<le> n" "n < 2 ^ 62"
  shows "bucket_ok (snd (take_tokens F b n))"
    and "n \<le> b_tokens b \<Longrightarrow> take_tokens F b n = (0, b\<lparr>b_tokens := b_tokens b - n\<rparr>)"
    and "b_lastRefill (snd (take_tokens F b n)) = b_lastRefill b"
proof -
  have "sub64 (b_tokens b) n = b_tokens b - n"
    using assms by (intro sub64_id) (simp add: bucket_ok_def in64_def)
  with assms show "bucket_ok (snd (take_tokens F b n))"
    "n \<le> b_tokens b \<Longrightarrow> take_tokens F b n = (0, b\<lparr>b_tokens := b_tokens b - n\<rparr>)"
    "b_lastRefill (snd (take_tokens F b n)) = b_lastRefill b"
    by (auto simp: take_tokens_def bucket_ok_def Let_def)
qed

lemma take_tokens_empty:
  "\<not> n \<le> b_tokens b \<Longrightarrow> b_tokens (snd (take_tokens F b n)) = 0"
  by (simp add: take_tokens_def Let_def)

lemma Reserve_bucket:
  assumes "lookup l k = Some b" "0 < b_capacity b"
  shows "fst (Reserve F now l k n) = fst (take_tokens F (refill F now b) n)"
    "lookup (snd (Reserve F now l k n)) k = Some (snd (take_tokens F (refill F now b) n))"
    "j \<noteq> k \<Longrightarrow> lookup (snd (Reserve F now l k n)) j = lookup l j"
  using assms by (cases l; simp add: Reserve_def lookup_def reserveOne_def case_prod_beta Let_def)+

text \<open>
  A request that the tokens do not cover has to wait, unless what is missing is worth less than a
  nanosecond at the rate (\<open>slack\<close>, 0 below \<open>10 ^ 9\<close> bytes a second): then the wait is truncated to 0.
\<close>

definition slack :: "bucket \<Rightarrow> int" where
  "slack b = \<lfloor>ulp ^ 4 * of_int (b_capacity b) / of_int time_Second\<rfloor>"

lemma short_wait:
  assumes F: "fp_ok F" and b: "bucket_ok b" "0 < b_capacity b" and n: "n < 2 ^ 62"
    and years: "n * time_Second \<le> 2 ^ 61 * b_capacity b"
    and short: "b_tokens b < n" and now: "fst (take_tokens F b n) \<le> 0"
  shows "n - b_tokens b \<le> slack b"
proof -
  define N where "N = n - b_tokens b"
  let ?n = "of_int N :: rat" and ?c = "of_int (b_capacity b) :: rat" and ?S = "of_int time_Second :: rat"
  have S: "0 < ?S" and c: "0 < ?c" using b(2) by (simp_all add: time_Second_def)
  have sub: "sub64 n (b_tokens b) = N"
    unfolding N_def using b n short by (intro sub64_id) (simp add: bucket_ok_def in64_def)
  have "spans 0 62 ?n" using b n short by (intro spans_int) (simp_all add: bucket_ok_def N_def)
  note rn = spans_round [OF F this, simplified]
  have "spans 0 62 ?c" using b by (intro spans_int) (simp_all add: bucket_ok_def)
  note rc = spans_round [OF F this, simplified]
  have c0: "0 < fp_round F ?c" using rc(2,4) c by (cases "fp_round F ?c = 0") auto
  from spans_divide [OF rn(1) rc(1)] c0 have "spans 64 64 (fp_round F ?n / fp_round F ?c)" by simp
  note q = spans_round [OF F this, simplified]
  have "spans 0 30 ?S" by (rule spans_int) (simp_all add: time_Second_def)
  from spans_mult [OF q(1) this]
  have "spans 65 95 (fp_round F (fp_round F ?n / fp_round F ?c) * ?S)" by simp
  note x = spans_round [OF F this, simplified]
  let ?q = "fp_round F (fp_round F ?n / fp_round F ?c)"
  let ?x = "fp_round F (?q * ?S)"
  have nn: "0 \<le> ?n" using short by (simp add: N_def)
  have low: "?n * ?S \<le> ulp ^ 4 * ?c * ?x"
  proof -
    have "?n \<le> ulp * fp_round F ?n" by (rule rn(2))
    also have "fp_round F ?n = (fp_round F ?n / fp_round F ?c) * fp_round F ?c" using c0 by simp
    also have "\<dots> \<le> (ulp * ?q) * (ulp * ?c)"
      using q(2,4) rc(3,4) ulp_bounds(1) by (intro mult_mono) simp_all
    finally have "?n \<le> ulp * ((ulp * ?q) * (ulp * ?c))" using ulp_bounds(1) by simp
    then have "?n * ?S \<le> ulp * ((ulp * ?q) * (ulp * ?c)) * ?S" using S by (intro mult_right_mono) simp_all
    also have "\<dots> = ulp ^ 3 * ?c * (?q * ?S)" by (simp add: power3_eq_cube)
    also have "\<dots> \<le> ulp ^ 3 * ?c * (ulp * ?x)" using x(2) c ulp_bounds(1) by (intro mult_left_mono) simp_all
    finally show ?thesis by (simp add: eval_nat_numeral ac_simps)
  qed
  have high: "?x < 2 ^ 63"
  proof -
    have "?q \<le> ulp * (fp_round F ?n / fp_round F ?c)" using q(3) by simp
    also have "fp_round F ?n / fp_round F ?c \<le> (ulp * ?n) / (?c / ulp)"
      using rn(3,4) rc(2) c c0 ulp_bounds(1) by (intro frac_le) (simp_all add: divide_le_eq mult.commute)
    finally have "?q \<le> ulp * ((ulp * ?n) / (?c / ulp))" using ulp_bounds(1) by simp
    then have "?q * ?S \<le> ulp * ((ulp * ?n) / (?c / ulp)) * ?S" using S by (intro mult_right_mono) simp_all
    then have "ulp * (?q * ?S) \<le> ulp * (ulp * ((ulp * ?n) / (?c / ulp)) * ?S)"
      using ulp_bounds(1) by (intro mult_left_mono) simp_all
    with x(3) have "?x \<le> ulp * (ulp * ((ulp * ?n) / (?c / ulp)) * ?S)" by (rule order_trans)
    also have "\<dots> = ulp ^ 4 * (?n * ?S / ?c)" by (simp add: eval_nat_numeral)
    also have "\<dots> \<le> 2 * (?n * ?S / ?c)" using nn S c by (intro mult_right_mono ulp_bounds(4)) simp_all
    also have "?n * ?S / ?c \<le> 2 ^ 61"
    proof -
      have "N * time_Second \<le> n * time_Second"
        using b by (intro mult_right_mono) (simp_all add: bucket_ok_def time_Second_def N_def)
      with years have "N * time_Second \<le> 2 ^ 61 * b_capacity b" by linarith
      then have "(of_int (N * time_Second) :: rat) \<le> of_int (2 ^ 61 * b_capacity b)"
        by (simp only: of_int_le_iff)
      then have "?n * ?S \<le> 2 ^ 61 * ?c" by (simp only: of_int_mult of_int_power of_int_numeral)
      with c show ?thesis by (simp add: divide_le_eq)
    qed
    finally show ?thesis by simp
  qed
  have "\<lfloor>?x\<rfloor> \<le> 0"
    using now short F x(4) high by (simp add: take_tokens_def Let_def sub fp_ok_def)
  then have "?x \<le> 1" by (simp add: floor_le_iff)
  then have "ulp ^ 4 * ?c * ?x \<le> ulp ^ 4 * ?c * 1" using c ulp_bounds(1) by (intro mult_left_mono) simp_all
  with low have "?n \<le> ulp ^ 4 * ?c / ?S" using S by (simp add: le_divide_eq)
  then show ?thesis unfolding slack_def N_def [symmetric] by (simp only: le_floor_iff)
qed

text \<open>
  The bytes that a sequence of reservations under one key gets without being told to wait, each at
  its instant.
\<close>

fun granted :: "fpu \<Rightarrow> limiter \<Rightarrow> string \<Rightarrow> (gtime \<times> int) list \<Rightarrow> int" where
  "granted F l k [] = 0"
| "granted F l k ((now, n) # rs) =
     (let (wait, l) = Reserve F now l k n in (if wait \<le> 0 then n else 0) + granted F l k rs)"

definition per_second :: "bucket \<Rightarrow> duration \<Rightarrow> rat" where
  "per_second b d = of_int (b_capacity b) * of_int d / of_int time_Second"

lemma per_second_split:
  "b_capacity b' = b_capacity b \<Longrightarrow>
     per_second b (x - z) = per_second b (y - z) + per_second b' (x - y)"
  by (simp add: per_second_def diff_divide_distrib right_diff_distrib)

lemma granted_bound:
  assumes F: "fp_ok F"
  shows "lookup l k = Some b \<Longrightarrow> bucket_ok b \<Longrightarrow> 0 < b_capacity b \<Longrightarrow>
    sorted (b_lastRefill b # map fst rs @ [stop]) \<Longrightarrow> stop - b_lastRefill b < 2 ^ 63 \<Longrightarrow>
    b_capacity b * (stop - b_lastRefill b) < 2 ^ 61 * time_Second \<Longrightarrow>
    \<forall>(t, n) \<in> set rs. 0 \<le> n \<and> n < 2 ^ 62 \<and> n * time_Second \<le> 2 ^ 61 * b_capacity b \<Longrightarrow>
    of_int (granted F l k rs) \<le> of_int (b_tokens b) + ulp ^ 5 * per_second b (stop - b_lastRefill b) +
      of_nat (length rs) * of_int (slack b)"
proof (induction rs arbitrary: l b)
  case Nil
  then have "0 \<le> per_second b (stop - b_lastRefill b)" "0 \<le> b_tokens b"
    by (simp_all add: per_second_def time_Second_def bucket_ok_def)
  moreover have "0 \<le> ulp ^ 5" using ulp_bounds(1) by simp
  ultimately show ?case by simp
next
  case (Cons r rs)
  obtain now n where r: "r = (now, n)" by (cases r)
  let ?b1 = "refill F now b" and ?l = "snd (Reserve F now l k n)"
  let ?b2 = "snd (take_tokens F (refill F now b) n)"
  have n: "0 \<le> n" "n < 2 ^ 62" "n * time_Second \<le> 2 ^ 61 * b_capacity b" using Cons.prems(7) r by simp_all
  have time: "b_lastRefill b \<le> now" "now \<le> stop" using Cons.prems(4) r by auto
  have "b_capacity b * (now - b_lastRefill b) \<le> b_capacity b * (stop - b_lastRefill b)"
    using time Cons.prems(3) by (intro mult_left_mono) simp_all
  with time Cons.prems(5,6) have calm: "calm now b" by (simp add: calm_def)
  note b1 = refill_spec [OF F Cons.prems(2) calm]
  note b2 = take_tokens_spec [OF b1(1) n(1,2)]
  have "b_capacity b * (stop - b_lastRefill ?b1) \<le> b_capacity b * (stop - b_lastRefill b)"
    using b1(3) Cons.prems(3) by (intro mult_left_mono) simp_all
  with Cons.prems(6) have fits: "b_capacity b * (stop - b_lastRefill ?b1) < 2 ^ 61 * time_Second"
    by (rule order.strict_trans1 [rotated])
  have found: "lookup ?l k = Some ?b2" by (rule Reserve_bucket(2) [OF Cons.prems(1,3)])
  have slack2: "slack ?b2 = slack b" by (simp add: slack_def)
  have "of_int (granted F ?l k rs) \<le>
      of_int (b_tokens ?b2) + ulp ^ 5 * per_second ?b2 (stop - b_lastRefill ?b2) + of_nat (length rs) * of_int (slack ?b2)"
  proof (rule Cons.IH [OF found b2(1)])
    show "0 < b_capacity ?b2" using Cons.prems(3) by simp
    show "sorted (b_lastRefill ?b2 # map fst rs @ [stop])"
      using Cons.prems(4) b1(3) time b2(3) r by auto
    show "stop - b_lastRefill ?b2 < 2 ^ 63" using Cons.prems(5) b1(3) b2(3) by simp
    show "b_capacity ?b2 * (stop - b_lastRefill ?b2) < 2 ^ 61 * time_Second"
      using fits b2(3) by simp
    show "\<forall>(t, n) \<in> set rs. 0 \<le> n \<and> n < 2 ^ 62 \<and> n * time_Second \<le> 2 ^ 61 * b_capacity ?b2"
      using Cons.prems(7) by simp
  qed
  moreover have "of_int (b_tokens ?b1) \<le> of_int (b_tokens b) + ulp ^ 5 * per_second b (b_lastRefill ?b1 - b_lastRefill b)"
    using b1(4) by (simp add: per_second_def)
  moreover have "per_second b (stop - b_lastRefill b) =
      per_second b (b_lastRefill ?b1 - b_lastRefill b) + per_second ?b2 (stop - b_lastRefill ?b1)"
    by (rule per_second_split) simp
  moreover
  let ?g = "if fst (Reserve F now l k n) \<le> 0 then n else 0"
  have "?g + b_tokens ?b2 \<le> b_tokens ?b1 + slack b"
  proof -
    have "0 \<le> slack b" using Cons.prems(3) ulp_bounds(1) by (simp add: slack_def time_Second_def)
    moreover have "n - b_tokens ?b1 \<le> slack ?b1" if "b_tokens ?b1 < n" "fst (take_tokens F ?b1 n) \<le> 0"
      by (rule short_wait [OF F b1(1) _ n(2) _ that]) (use Cons.prems(3) n(3) in simp_all)
    moreover have "slack ?b1 = slack b" by (simp add: slack_def)
    ultimately show ?thesis
      using b2(2) take_tokens_empty [of n ?b1 F] b1(1) Reserve_bucket(1) [OF Cons.prems(1,3), of F now n]
      by (cases "n \<le> b_tokens ?b1") (auto simp: bucket_ok_def)
  qed
  then have "of_int ?g + of_int (b_tokens ?b2) \<le> (of_int (b_tokens ?b1) + of_int (slack b) :: rat)"
    by (metis of_int_add of_int_le_iff)
  moreover have "granted F l k (r # rs) = ?g + granted F ?l k rs" by (simp add: r case_prod_beta Let_def)
  ultimately show ?case
    using b2(3) unfolding slack2 by (simp add: distrib_left distrib_right)
qed

section \<open>Properties\<close>

definition exact_fpu :: fpu where "exact_fpu = \<lparr>fp_round = (\<lambda>x. x), fp_int = floor\<rparr>"

lemma exact_fpu_ok: "fp_ok exact_fpu"
proof -
  have "x \<le> ulp * x" if "spans k m x" for k m x
    using mult_right_mono [OF ulp_bounds(2) spans_nonneg [OF that]] by simp
  then show ?thesis by (auto simp: fp_ok_def exact_fpu_def)
qed

definition demo_limiter :: limiter where
  "demo_limiter = Some [''k'' \<mapsto> \<lparr>b_capacity = 100, b_tokens = 100, b_lastRefill = 0\<rparr>]"

text \<open>
  C19.  The limiter holds the rate for callers that heed it: in any sequence of reservations under a key,
  the bytes of those that \<open>Reserve\<close> does not tell to wait are at most the tokens at the start plus the rate
  times the time that passes (up to the rounding of float64), plus for each reservation what the rate
  gives in a nanosecond, which is no byte below \<open>10 ^ 9\<close> bytes a second.  The requests are such that
  neither the refill nor the wait leaves the range of int64 (at most 73 years of the rate at once).
\<close>

theorem limiter_rate_bound:
  assumes "fp_ok F" "lookup l k = Some b" "bucket_ok b" "0 < b_capacity b"
    and "sorted (b_lastRefill b # map fst rs @ [stop])" "stop - b_lastRefill b < 2 ^ 63"
    and "b_capacity b * (stop - b_lastRefill b) < 2 ^ 61 * time_Second"
    and "\<forall>(t, n) \<in> set rs. 0 \<le> n \<and> n < 2 ^ 62 \<and> n * time_Second \<le> 2 ^ 61 * b_capacity b"
  shows "of_int (granted F l k rs) \<le> of_int (b_tokens b) +
      ulp ^ 5 * (of_int (b_capacity b) * of_int (stop - b_lastRefill b) / of_int time_Second) +
      of_nat (length rs) * of_int \<lfloor>ulp ^ 4 * of_int (b_capacity b) / of_int time_Second\<rfloor>"
  using granted_bound [OF assms] by (simp add: per_second_def slack_def)

theorem limiter_rate_bound_witness:
  "granted exact_fpu demo_limiter ''k'' [(0, 60), (500000000, 95)] = 60 \<and>
   of_int (granted exact_fpu demo_limiter ''k'' [(0, 60), (500000000, 95)]) \<le> 100 + ulp ^ 5 * (50 :: rat)"
proof
  show "granted exact_fpu demo_limiter ''k'' [(0, 60), (500000000, 95)] = 60" by code_simp
  have "\<lfloor>ulp ^ 4 * of_int 100 / of_int time_Second\<rfloor> = (0 :: int)" by code_simp
  then show "of_int (granted exact_fpu demo_limiter ''k'' [(0, 60), (500000000, 95)]) \<le> 100 + ulp ^ 5 * (50 :: rat)"
    using limiter_rate_bound [OF exact_fpu_ok, of demo_limiter "''k''"
      "\<lparr>b_capacity = 100, b_tokens = 100, b_lastRefill = 0\<rparr>" "[(0, 60), (500000000, 95)]" 500000000]
    by (simp add: demo_limiter_def lookup_def bucket_ok_def time_Second_def)
qed

text \<open>
  A reservation under one key leaves the buckets of the other keys alone and keeps every bucket
  between empty and full; without a limit for the key there is no wait and no change.
\<close>

lemma reserve_correct:
  assumes "fp_ok F" "limiter_ok l" "0 \<le> n" "n < 2 ^ 62"
    and "\<forall>b. lookup l k = Some b \<longrightarrow> calm now b"
  shows "limiter_ok (snd (Reserve F now l k n)) \<and>
    (\<forall>j. j \<noteq> k \<longrightarrow> lookup (snd (Reserve F now l k n)) j = lookup l j) \<and>
    (\<not> limited l k \<longrightarrow> Reserve F now l k n = (0, l))"
proof (cases "limited l k")
  case False
  then show ?thesis using assms(2) by (simp add: lim.free)
next
  case True
  then obtain b where b: "lookup l k = Some b" "0 < b_capacity b"
    by (auto simp: limited_def split: option.splits)
  then have ok: "bucket_ok b" "calm now b" using assms(2,5) by (auto simp: limiter_ok_def)
  note r = Reserve_bucket [OF b, where F = F and now = now and n = n]
  have "bucket_ok (snd (take_tokens F (refill F now b) n))"
    by (rule take_tokens_spec(1) [OF refill_spec(1) [OF assms(1) ok] assms(3,4)])
  then have "bucket_ok c" if "lookup (snd (Reserve F now l k n)) j = Some c" for j c
    using that r(2) r(3) [of j] assms(2) by (cases "j = k") (auto simp: limiter_ok_def)
  then have "limiter_ok (snd (Reserve F now l k n))" by (simp add: limiter_ok_def)
  with r True show ?thesis by blast
qed

lemma reserve_correct_witness:
  "limiter_ok (snd (Reserve exact_fpu 500000000 demo_limiter ''k'' 70)) \<and>
   lookup (snd (Reserve exact_fpu 500000000 demo_limiter ''k'' 70)) ''j'' = None"
proof -
  have l: "lookup demo_limiter j = (if j = ''k'' then
      Some \<lparr>b_capacity = 100, b_tokens = 100, b_lastRefill = 0\<rparr> else None)" for j
    by (simp add: demo_limiter_def lookup_def)
  have ok: "limiter_ok demo_limiter" by (simp add: limiter_ok_def l bucket_ok_def)
  have calm: "\<forall>b. lookup demo_limiter ''k'' = Some b \<longrightarrow> calm 500000000 b"
    by (simp add: l calm_def time_Second_def)
  have n: "(0 :: int) \<le> 70" "(70 :: int) < 2 ^ 62" by simp_all
  note r = reserve_correct [OF exact_fpu_ok ok n calm]
  have "lookup (snd (Reserve exact_fpu 500000000 demo_limiter ''k'' 70)) ''j'' = lookup demo_limiter ''j''"
    by (rule conjunct1 [OF conjunct2 [OF r], rule_format]) simp
  also have "\<dots> = None" by (simp add: l)
  finally show ?thesis using conjunct1 [OF r] by (rule conjI [rotated])
qed

text \<open>
  A wait is not recorded as a debt: as long as the bucket has not been refilled, a second caller
  is told to wait as if the first did not exist, so callers that wait at the same time exceed the
  rate together.
\<close>

lemma reserve_forgets_waiters:
  assumes "lookup l k = Some b" "0 < b_capacity b" "b_tokens b = 0" "b_lastRefill b = now" "0 < n"
    and "fp_round F 0 = 0"
  shows "snd (Reserve F now l k n) = l \<and>
    fst (Reserve F now (snd (Reserve F now l k n)) k n) = fst (Reserve F now l k n)"
proof -
  have "refill F now b = b"
    using assms(4,6) by (simp add: refill_def time_Sub_def Seconds_def signed_divide_int_def
        signed_modulo_int_def)
  moreover have "b\<lparr>b_tokens := 0\<rparr> = b" using assms(3) by (cases b) simp
  ultimately have "snd (Reserve F now l k n) = l"
    using assms(1-3,5)
    by (cases l) (auto simp: Reserve_def lookup_def reserveOne_def take_tokens_def Let_def)
  then show ?thesis by simp
qed

lemma reserve_forgets_waiters_witness:
  "snd (Reserve exact_fpu 7 (Some [''k'' \<mapsto> \<lparr>b_capacity = 100, b_tokens = 0, b_lastRefill = 7\<rparr>]) ''k'' 100) =
     Some [''k'' \<mapsto> \<lparr>b_capacity = 100, b_tokens = 0, b_lastRefill = 7\<rparr>]"
  using reserve_forgets_waiters [of "Some [''k'' \<mapsto> \<lparr>b_capacity = 100, b_tokens = 0, b_lastRefill = 7\<rparr>]"
      "''k''" "\<lparr>b_capacity = 100, b_tokens = 0, b_lastRefill = 7\<rparr>" 7 100 exact_fpu]
  by (simp add: lookup_def exact_fpu_def)

end
