(* ===== verification/Events.thy ===== *)
theory Events
  imports Interfaces "HOL-Library.Multiset"
begin

text \<open>
  \<open>internal/events/publisher.go\<close>: publish and subscribe with buffered channels.  A channel is a
  pointer (a number) to its buffer; a send on a full channel is dropped (the \<open>default\<close> of the
  \<open>select\<close>), a send on a closed one panics.  Each operation holds the mutex, so it is one step;
  \<open>reach\<close> is the set of states that clients which cancel a subscription at most once can reach.
\<close>

record chan =
  ch_buf :: "DownloadEvent list"
  ch_closed :: bool

definition chan_cap :: nat where "chan_cap = 64"

record publisher =
  p_subs :: "DownloadEventType \<Rightarrow> nat list"
  p_chans :: "nat \<Rightarrow> chan"
  p_next :: nat

definition NewInMemoryPublisher :: publisher where
  "NewInMemoryPublisher =
     \<lparr>p_subs = (\<lambda>t. []), p_chans = (\<lambda>c. \<lparr>ch_buf = [], ch_closed = False\<rparr>), p_next = 0\<rparr>"

text \<open>\<open>select { case ch <- event: default: }\<close>.\<close>

definition try_send :: "DownloadEvent \<Rightarrow> chan \<Rightarrow> chan res" where
  "try_send e c =
     (if ch_closed c then Inl (ErrPanic ''send on closed channel'')
      else if length (ch_buf c) < chan_cap then Inr (c\<lparr>ch_buf := ch_buf c @ [e]\<rparr>)
      else Inr c)"

fun send_all :: "DownloadEvent \<Rightarrow> nat list \<Rightarrow> (nat \<Rightarrow> chan) \<Rightarrow> (nat \<Rightarrow> chan) res" where
  "send_all e [] m = Inr m"
| "send_all e (c # cs) m = bindE (try_send e (m c)) (\<lambda>ch. send_all e cs (m(c := ch)))"

definition Publish :: "publisher \<Rightarrow> DownloadEvent \<Rightarrow> publisher res" where
  "Publish p e =
     bindE (send_all e (p_subs p (ev_Type e)) (p_chans p)) (\<lambda>m. Inr (p\<lparr>p_chans := m\<rparr>))"

fun add_subs :: "nat \<Rightarrow> DownloadEventType list \<Rightarrow> (DownloadEventType \<Rightarrow> nat list) \<Rightarrow>
    DownloadEventType \<Rightarrow> nat list" where
  "add_subs c [] m = m"
| "add_subs c (t # ts) m = add_subs c ts (m(t := m t @ [c]))"

definition Subscribe :: "publisher \<Rightarrow> DownloadEventType list \<Rightarrow> nat \<times> publisher" where
  "Subscribe p types =
     (let c = p_next p
      in (c, p\<lparr>p_subs := add_subs c types (p_subs p),
               p_chans := (p_chans p)(c := \<lparr>ch_buf = [], ch_closed = False\<rparr>),
               p_next := c + 1\<rparr>))"

text \<open>The function that \<open>Subscribe\<close> returns: the first occurrence goes, once per subscribed type.\<close>

fun del_subs :: "nat \<Rightarrow> DownloadEventType list \<Rightarrow> (DownloadEventType \<Rightarrow> nat list) \<Rightarrow>
    DownloadEventType \<Rightarrow> nat list" where
  "del_subs c [] m = m"
| "del_subs c (t # ts) m = del_subs c ts (m(t := remove1 c (m t)))"

definition cancel_sub :: "publisher \<Rightarrow> nat \<Rightarrow> DownloadEventType list \<Rightarrow> publisher res" where
  "cancel_sub p c types =
     (let p = p\<lparr>p_subs := del_subs c types (p_subs p)\<rparr>
      in if ch_closed (p_chans p c) then Inl (ErrPanic ''close of closed channel'')
         else Inr (p\<lparr>p_chans := (p_chans p)(c := (p_chans p c)\<lparr>ch_closed := True\<rparr>)\<rparr>))"

text \<open>A receive by the reader of the channel: \<open>None\<close> when the buffer is empty.\<close>

definition receive :: "publisher \<Rightarrow> nat \<Rightarrow> (DownloadEvent \<times> publisher) option" where
  "receive p c =
     (case ch_buf (p_chans p c) of
        [] \<Rightarrow> None
      | e # es \<Rightarrow> Some (e, p\<lparr>p_chans := (p_chans p)(c := (p_chans p c)\<lparr>ch_buf := es\<rparr>)\<rparr>))"

section \<open>Reachable states\<close>

text \<open>\<open>reach p hs\<close>: state \<open>p\<close> with the subscriptions \<open>hs\<close> that have not been cancelled.\<close>

type_synonym handle = "nat \<times> DownloadEventType list"

inductive reach :: "publisher \<Rightarrow> handle list \<Rightarrow> bool" where
  reach_new: "reach NewInMemoryPublisher []"
| reach_subscribe: "reach p hs \<Longrightarrow> Subscribe p ts = (c, p') \<Longrightarrow> reach p' ((c, ts) # hs)"
| reach_cancel: "reach p hs \<Longrightarrow> (c, ts) \<in> set hs \<Longrightarrow> cancel_sub p c ts = Inr p' \<Longrightarrow>
    reach p' (remove1 (c, ts) hs)"
| reach_publish: "reach p hs \<Longrightarrow> Publish p e = Inr p' \<Longrightarrow> reach p' hs"
| reach_receive: "reach p hs \<Longrightarrow> receive p c = Some (e, p') \<Longrightarrow> reach p' hs"

inductive_cases reach_consE: "reach p (h # hs)"

definition subs_of :: "handle list \<Rightarrow> nat \<Rightarrow> DownloadEventType \<Rightarrow> nat" where
  "subs_of hs c t = (case map_of hs c of None \<Rightarrow> 0 | Some ts \<Rightarrow> count (mset ts) t)"

definition pub_ok :: "publisher \<Rightarrow> handle list \<Rightarrow> bool" where
  "pub_ok p hs \<longleftrightarrow>
     distinct (map fst hs) \<and> (\<forall>(c, ts) \<in> set hs. c < p_next p \<and> \<not> ch_closed (p_chans p c)) \<and>
     (\<forall>t c. count (mset (p_subs p t)) c = subs_of hs c t) \<and>
     (\<forall>c. length (ch_buf (p_chans p c)) \<le> chan_cap)"

lemma count_add_subs:
  "count (mset (add_subs c ts m t)) x = count (mset (m t)) x + (if x = c then count (mset ts) t else 0)"
  by (induction ts arbitrary: m) auto

lemma count_del_subs:
  "count (mset (del_subs c ts m t)) x = count (mset (m t)) x - (if x = c then count (mset ts) t else 0)"
  by (induction ts arbitrary: m) auto

lemma send_all_open:
  "\<forall>c \<in> set cs. \<not> ch_closed (m c) \<Longrightarrow>
    \<exists>m'. send_all e cs m = Inr m' \<and> (\<forall>c. ch_closed (m' c) = ch_closed (m c)) \<and>
      (\<forall>c. c \<notin> set cs \<longrightarrow> m' c = m c) \<and>
      (\<forall>c. length (ch_buf (m c)) \<le> chan_cap \<longrightarrow>
         ch_buf (m' c) = take chan_cap (ch_buf (m c) @ replicate (count (mset cs) c) e))"
proof (induction cs arbitrary: m)
  case (Cons c cs)
  define ch where "ch = (if length (ch_buf (m c)) < chan_cap
    then (m c)\<lparr>ch_buf := ch_buf (m c) @ [e]\<rparr> else m c)"
  have ch: "try_send e (m c) = Inr ch" "\<not> ch_closed ch"
    "length (ch_buf (m c)) \<le> chan_cap \<Longrightarrow> ch_buf ch = take chan_cap (ch_buf (m c) @ [e])"
    using Cons.prems by (auto simp: try_send_def ch_def)
  have "\<forall>x \<in> set cs. \<not> ch_closed ((m(c := ch)) x)" using Cons.prems ch(2) by simp
  from Cons.IH [OF this] obtain m' where m': "send_all e cs (m(c := ch)) = Inr m'"
    "\<forall>x. ch_closed (m' x) = ch_closed ((m(c := ch)) x)" "\<forall>x. x \<notin> set cs \<longrightarrow> m' x = (m(c := ch)) x"
    "\<forall>x. length (ch_buf ((m(c := ch)) x)) \<le> chan_cap \<longrightarrow>
       ch_buf (m' x) = take chan_cap (ch_buf ((m(c := ch)) x) @ replicate (count (mset cs) x) e)" by blast
  have "ch_buf (m' x) = take chan_cap (ch_buf (m x) @ replicate (count (mset (c # cs)) x) e)"
    if "length (ch_buf (m x)) \<le> chan_cap" for x
  proof (cases "x = c")
    case True
    then have "ch_buf (m' x) = take chan_cap (take chan_cap (ch_buf (m c) @ [e]) @ replicate (count (mset cs) c) e)"
      using m'(4) ch(3) that by simp
    also have "\<dots> = take chan_cap ((ch_buf (m c) @ [e]) @ replicate (count (mset cs) c) e)"
      by (cases "length (ch_buf (m c)) < chan_cap") (use that True in auto)
    finally show ?thesis using True by simp
  qed (use m'(4) that in simp)
  with m'(1-3) ch(1,2) Cons.prems show ?case by (intro exI [of _ m']) auto
qed simp

lemma pub_ok_open:
  assumes "pub_ok p hs" "c \<in> set (p_subs p t)"
  shows "\<not> ch_closed (p_chans p c)" "c < p_next p"
proof -
  from assms(2) have "0 < count (mset (p_subs p t)) c" by (simp add: count_greater_zero_iff)
  with assms(1) have "0 < subs_of hs c t" by (simp add: pub_ok_def)
  then obtain ts where "(c, ts) \<in> set hs"
    by (auto simp: subs_of_def dest: map_of_SomeD split: option.splits)
  with assms(1) show "\<not> ch_closed (p_chans p c)" "c < p_next p" by (auto simp: pub_ok_def)
qed

lemma Publish_ok:
  assumes "pub_ok p hs"
  shows "\<exists>p'. Publish p e = Inr p' \<and> pub_ok p' hs \<and> p_subs p' = p_subs p \<and>
    (\<forall>c. ch_buf (p_chans p' c) =
       take chan_cap (ch_buf (p_chans p c) @ replicate (subs_of hs c (ev_Type e)) e))"
proof -
  have "\<forall>c \<in> set (p_subs p (ev_Type e)). \<not> ch_closed (p_chans p c)"
    using pub_ok_open [OF assms] by blast
  from send_all_open [OF this, of e] obtain m where
    m: "send_all e (p_subs p (ev_Type e)) (p_chans p) = Inr m"
    "\<And>c. ch_closed (m c) = ch_closed (p_chans p c)"
    "\<And>c. length (ch_buf (p_chans p c)) \<le> chan_cap \<Longrightarrow> ch_buf (m c) =
      take chan_cap (ch_buf (p_chans p c) @ replicate (count (mset (p_subs p (ev_Type e))) c) e)" by blast
  have buf: "ch_buf (m c) =
      take chan_cap (ch_buf (p_chans p c) @ replicate (subs_of hs c (ev_Type e)) e)" for c
    using m(3) [of c] assms by (simp add: pub_ok_def)
  then have "length (ch_buf (m c)) \<le> chan_cap" for c by simp
  then have "pub_ok (p\<lparr>p_chans := m\<rparr>) hs" using assms m(2) by (simp add: pub_ok_def)
  with m(1) buf show ?thesis by (simp add: Publish_def)
qed

lemma subs_of_cons:
  "subs_of ((c, ts) # hs) x t = (if x = c then count (mset ts) t else subs_of hs x t)"
  by (simp add: subs_of_def)

lemma subs_of_remove1:
  assumes "distinct (map fst hs)" "(c, ts) \<in> set hs"
  shows "subs_of (remove1 (c, ts) hs) x t = (if x = c then 0 else subs_of hs x t)"
  using assms
proof (induction hs)
  case (Cons h hs)
  obtain c' ts' where h: "h = (c', ts')" by (cases h)
  show ?case
  proof (cases "h = (c, ts)")
    case True
    with Cons.prems h have "c \<notin> fst ` set hs" by simp
    then have "map_of hs c = None" by (simp add: map_of_eq_None_iff)
    with True show ?thesis by (simp add: subs_of_def)
  next
    case False
    with Cons.prems have m: "(c, ts) \<in> set hs" by auto
    then have "c \<in> fst ` set hs" by (force simp: image_iff)
    with Cons.prems h have "c \<noteq> c'" by auto
    with Cons m h False show ?thesis by (auto simp: subs_of_cons)
  qed
qed simp

lemma reach_ok: "reach p hs \<Longrightarrow> pub_ok p hs"
proof (induction rule: reach.induct)
  case reach_new
  then show ?case by (simp add: pub_ok_def NewInMemoryPublisher_def subs_of_def chan_cap_def)
next
  case (reach_subscribe p hs ts c p')
  from reach_subscribe.hyps(2) have c: "c = p_next p" and p': "p_subs p' = add_subs c ts (p_subs p)"
    "p_chans p' = (p_chans p)(c := \<lparr>ch_buf = [], ch_closed = False\<rparr>)" "p_next p' = c + 1"
    by (auto simp: Subscribe_def Let_def)
  have fresh: "x < p_next p \<and> x \<noteq> c" if "x \<in> fst ` set hs" for x
    using that reach_subscribe.IH c by (auto simp: pub_ok_def)
  then have new: "c \<notin> fst ` set hs" by blast
  then have "map_of hs c = None" by (simp add: map_of_eq_None_iff)
  then have "count (mset (p_subs p t)) c = 0" for t
    using reach_subscribe.IH by (simp add: pub_ok_def subs_of_def)
  moreover have "count (mset (p_subs p t)) x = subs_of hs x t" for t x
    using reach_subscribe.IH by (simp add: pub_ok_def)
  ultimately have subs: "count (mset (p_subs p' t)) x = subs_of ((c, ts) # hs) x t" for t x
    by (simp add: p' count_add_subs subs_of_cons)
  show ?case
    using reach_subscribe.IH fresh new subs
    by (fastforce simp: pub_ok_def p' c)
next
  case (reach_cancel p hs c ts p')
  from reach_cancel.hyps(3) have p': "p_subs p' = del_subs c ts (p_subs p)" "p_next p' = p_next p"
    "p_chans p' = (p_chans p)(c := (p_chans p c)\<lparr>ch_closed := True\<rparr>)"
    by (auto simp: cancel_sub_def Let_def split: if_splits)
  from reach_cancel.IH have dist: "distinct (map fst hs)" by (simp add: pub_ok_def)
  have own: "subs_of hs c t = count (mset ts) t" for t
    using map_of_is_SomeI [OF dist reach_cancel.hyps(2)] by (simp add: subs_of_def)
  have "count (mset (p_subs p' t)) x = subs_of (remove1 (c, ts) hs) x t" for t x
    using reach_cancel.IH own subs_of_remove1 [OF dist reach_cancel.hyps(2)]
    by (auto simp: p' count_del_subs pub_ok_def)
  moreover have "x \<noteq> c" if "(x, us) \<in> set (remove1 (c, ts) hs)" for x us
  proof
    assume "x = c"
    from that have "(x, us) \<in> set hs" using set_remove1_subset [of "(c, ts)" hs] by blast
    moreover have "distinct hs" using dist by (simp add: distinct_map)
    then have "(x, us) \<noteq> (c, ts)" using that by auto
    ultimately show False using \<open>x = c\<close> dist reach_cancel.hyps(2) by (metis eq_key_imp_eq_value)
  qed
  ultimately show ?case
    using reach_cancel.IH dist set_remove1_subset [of "(c, ts)" hs]
    by (fastforce simp: pub_ok_def p' distinct_map distinct_remove1 inj_on_def)
next
  case (reach_publish p hs e p')
  with Publish_ok [of p hs e] show ?case by auto
next
  case (reach_receive p hs c e p')
  then obtain es where "ch_buf (p_chans p c) = e # es"
    "p' = p\<lparr>p_chans := (p_chans p)(c := (p_chans p c)\<lparr>ch_buf := es\<rparr>)\<rparr>"
    by (auto simp: receive_def split: list.splits)
  moreover from this reach_receive.IH have "length (e # es) \<le> chan_cap" by (metis pub_ok_def)
  ultimately show ?case using reach_receive.IH by (auto simp: pub_ok_def split: if_splits)
qed

definition publisher_ok :: "publisher \<Rightarrow> bool" where
  "publisher_ok p \<longleftrightarrow> (\<exists>hs. pub_ok p hs)"

interpretation bus: event_publisher publisher_ok Publish
proof unfold_locales
  fix p e assume "publisher_ok p"
  then obtain hs where "pub_ok p hs" by (auto simp: publisher_ok_def)
  from Publish_ok [OF this, of e] show "\<exists>p'. Publish p e = Inr p' \<and> publisher_ok p'"
    by (auto simp: publisher_ok_def)
qed

section \<open>Properties\<close>

text \<open>
  C29.  In every reachable state a publication returns, whatever the number of slow or departed
  readers; each live subscription to the event's type gets the event behind what it has not read yet,
  unless its buffer of 64 is full, and no other channel changes.
\<close>

theorem publish_delivers:
  assumes "reach p hs"
  shows "\<exists>p'. Publish p e = Inr p' \<and> reach p' hs \<and>
    (\<forall>(c, ts) \<in> set hs. distinct ts \<longrightarrow>
       ch_buf (p_chans p' c) =
         (if ev_Type e \<in> set ts \<and> length (ch_buf (p_chans p c)) < chan_cap
          then ch_buf (p_chans p c) @ [e] else ch_buf (p_chans p c))) \<and>
    (\<forall>c. c \<notin> fst ` set hs \<longrightarrow> ch_buf (p_chans p' c) = ch_buf (p_chans p c))"
proof -
  have ok: "pub_ok p hs" by (rule reach_ok [OF assms])
  from Publish_ok [OF ok, of e] obtain p' where p': "Publish p e = Inr p'"
    "\<And>c. ch_buf (p_chans p' c) =
      take chan_cap (ch_buf (p_chans p c) @ replicate (subs_of hs c (ev_Type e)) e)" by blast
  have len: "length (ch_buf (p_chans p c)) \<le> chan_cap" for c using ok by (simp add: pub_ok_def)
  have dist: "distinct (map fst hs)" using ok by (simp add: pub_ok_def)
  have "ch_buf (p_chans p' c) =
      (if ev_Type e \<in> set ts \<and> length (ch_buf (p_chans p c)) < chan_cap
       then ch_buf (p_chans p c) @ [e] else ch_buf (p_chans p c))"
    if "(c, ts) \<in> set hs" "distinct ts" for c ts
  proof -
    have "subs_of hs c (ev_Type e) = (if ev_Type e \<in> set ts then 1 else 0)"
      using map_of_is_SomeI [OF dist that(1)] that(2)
      by (simp add: subs_of_def distinct_count_atmost_1)
    then show ?thesis using p'(2) [of c] len [of c] by auto
  qed
  moreover have "ch_buf (p_chans p' c) = ch_buf (p_chans p c)" if "c \<notin> fst ` set hs" for c
  proof -
    have "map_of hs c = None" using that by (simp add: map_of_eq_None_iff)
    then show ?thesis using p'(2) [of c] len [of c] by (simp add: subs_of_def)
  qed
  ultimately show ?thesis using p'(1) reach_publish [OF assms p'(1)] by blast
qed

definition demo_event :: DownloadEvent where
  "demo_event = \<lparr>ev_Type = EventPaused, ev_Download = zero_Download, ev_Timestamp = 0, ev_Data = NoData\<rparr>"

lemma demo_reach:
  "reach (snd (Subscribe NewInMemoryPublisher [EventPaused])) [(0, [EventPaused])]"
  by (rule reach_subscribe [OF reach_new]) (simp add: Subscribe_def NewInMemoryPublisher_def)

theorem publish_delivers_witness:
  "\<exists>p'. Publish (snd (Subscribe NewInMemoryPublisher [EventPaused])) demo_event = Inr p' \<and>
     ch_buf (p_chans p' 0) = [demo_event]"
  using publish_delivers [OF demo_reach, of demo_event]
  by (auto simp: demo_event_def Subscribe_def NewInMemoryPublisher_def chan_cap_def)

text \<open>
  C30.  A live subscription can be cancelled: its channel is closed and appears under no type any
  more, so that no later publication sends to it; the other subscriptions stay.
\<close>

theorem cancel_unsubscribes:
  assumes "reach p hs" "(c, ts) \<in> set hs"
  shows "\<exists>p'. cancel_sub p c ts = Inr p' \<and> reach p' (remove1 (c, ts) hs) \<and>
    ch_closed (p_chans p' c) \<and> (\<forall>t. c \<notin> set (p_subs p' t)) \<and>
    (\<forall>x t. x \<noteq> c \<longrightarrow> count (mset (p_subs p' t)) x = count (mset (p_subs p t)) x)"
proof -
  have ok: "pub_ok p hs" by (rule reach_ok [OF assms(1)])
  then have "\<not> ch_closed (p_chans p c)" using assms(2) by (auto simp: pub_ok_def)
  then obtain p' where p': "cancel_sub p c ts = Inr p'" "ch_closed (p_chans p' c)"
    "p_subs p' = del_subs c ts (p_subs p)"
    by (auto simp: cancel_sub_def Let_def)
  have "subs_of hs c t = count (mset ts) t" for t
    using ok map_of_is_SomeI [OF _ assms(2)] by (simp add: pub_ok_def subs_of_def)
  then have "count (mset (p_subs p t)) c = count (mset ts) t" for t using ok by (simp add: pub_ok_def)
  then have "count (mset (p_subs p' t)) c = 0" for t by (simp add: p'(3) count_del_subs)
  then have "c \<notin> set (p_subs p' t)" for t by (simp add: count_eq_zero_iff)
  moreover have "x \<noteq> c \<Longrightarrow> count (mset (p_subs p' t)) x = count (mset (p_subs p t)) x" for x t
    by (simp add: p'(3) count_del_subs)
  ultimately show ?thesis using p'(1,2) reach_cancel [OF assms p'(1)] by blast
qed

theorem cancel_unsubscribes_witness:
  "\<exists>p'. cancel_sub (snd (Subscribe NewInMemoryPublisher [EventPaused])) 0 [EventPaused] = Inr p' \<and>
     ch_closed (p_chans p' 0) \<and> reach p' []"
  using cancel_unsubscribes [OF demo_reach, of 0 "[EventPaused]"] by auto

end
