(* ===== verification/Paths.thy ===== *)
theory Paths
  imports Prelude
begin

text \<open>
  The functions of Go's \<open>path/filepath\<close> (Unix) that the program calls: \<open>Clean\<close>, \<open>Join\<close>, \<open>Dir\<close>, \<open>Base\<close>
  and \<open>Ext\<close>.  The lemmas describe the path of an entry of a directory, which is what the file store
  builds.
\<close>

section \<open>Definitions\<close>

definition dot :: char where "dot = CHR ''.''"

text \<open>One path element; the elements kept so far are in reverse order.\<close>

definition clean_step :: "bool \<Rightarrow> string list \<Rightarrow> string \<Rightarrow> string list" where
  "clean_step rooted acc seg =
     (if seg = [] \<or> seg = ''.'' then acc
      else if seg = ''..''
      then (case acc of
              [] \<Rightarrow> if rooted then [] else [''..'']
            | x # xs \<Rightarrow> if x = ''..'' then ''..'' # acc else xs)
      else seg # acc)"

definition clean_segs :: "bool \<Rightarrow> string \<Rightarrow> string list" where
  "clean_segs rooted p = rev (foldl (clean_step rooted) [] (split_on slash p))"

definition is_rooted :: "string \<Rightarrow> bool" where
  "is_rooted p = (case p of [] \<Rightarrow> False | c # cs \<Rightarrow> c = slash)"

definition path_of :: "bool \<Rightarrow> string list \<Rightarrow> string" where
  "path_of rooted segs =
     (if rooted then slash # join_with slash segs
      else if segs = [] then ''.'' else join_with slash segs)"

definition Clean :: "string \<Rightarrow> string" where
  "Clean p = (if p = [] then ''.'' else path_of (is_rooted p) (clean_segs (is_rooted p) p))"

definition Join :: "string list \<Rightarrow> string" where
  "Join elems =
     (case dropWhile (\<lambda>e. e = []) elems of [] \<Rightarrow> [] | es \<Rightarrow> Clean (join_with slash es))"

definition after_slash :: "string \<Rightarrow> string" where
  "after_slash p = rev (takeWhile (\<lambda>c. c \<noteq> slash) (rev p))"

definition up_to_slash :: "string \<Rightarrow> string" where
  "up_to_slash p = rev (dropWhile (\<lambda>c. c \<noteq> slash) (rev p))"

definition Dir :: "string \<Rightarrow> string" where "Dir p = Clean (up_to_slash p)"

definition Base :: "string \<Rightarrow> string" where
  "Base p =
     (if p = [] then ''.''
      else let q = rev (dropWhile (\<lambda>c. c = slash) (rev p)); b = after_slash q
           in if b = [] then [slash] else b)"

definition Ext :: "string \<Rightarrow> string" where
  "Ext p =
     (let tail = takeWhile (\<lambda>c. c \<noteq> dot \<and> c \<noteq> slash) (rev p); rest = drop (length tail) (rev p)
      in case rest of c # cs \<Rightarrow> (if c = dot then dot # rev tail else []) | [] \<Rightarrow> [])"

section \<open>Entries of a directory\<close>

definition plain_name :: "string \<Rightarrow> bool" where
  "plain_name s \<longleftrightarrow> s \<noteq> [] \<and> s \<noteq> ''.'' \<and> s \<noteq> ''..'' \<and> slash \<notin> set s"

lemma slash_neq_dot [simp]: "slash \<noteq> CHR ''.''" "CHR ''.'' \<noteq> slash"
  by (simp_all add: slash_def)

text \<open>The elements of a clean path: no empty ones, no dots, and \<open>..\<close> only at the front of a relative one.\<close>

definition normal_segs :: "bool \<Rightarrow> string list \<Rightarrow> bool" where
  "normal_segs rooted ss \<longleftrightarrow>
     (\<exists>ups names. ss = ups @ names \<and> set ups \<subseteq> {''..''} \<and> (rooted \<longrightarrow> ups = []) \<and>
        (\<forall>s \<in> set names. plain_name s))"

definition clean_path :: "string \<Rightarrow> bool" where
  "clean_path p \<longleftrightarrow> (\<exists>rooted ss. normal_segs rooted ss \<and> p = path_of rooted ss)"

definition entry :: "string \<Rightarrow> string \<Rightarrow> string" where
  "entry dir name =
     (if dir = [slash] then slash # name else if dir = ''.'' then name else dir @ slash # name)"

lemma normal_step:
  assumes "normal_segs r (rev acc)" "slash \<notin> set seg"
  shows "normal_segs r (rev (clean_step r acc seg))"
proof -
  from assms(1) obtain ups names where rev: "rev acc = ups @ names" and ups: "set ups \<subseteq> {''..''}"
    "r \<longrightarrow> ups = []" and names: "\<forall>s \<in> set names. plain_name s"
    unfolding normal_segs_def by blast
  show ?thesis
  proof (cases "seg = [] \<or> seg = ''.''")
    case True
    with assms(1) show ?thesis by (auto simp: clean_step_def)
  next
    case nontrivial: False
    show ?thesis
    proof (cases "seg = ''..''")
      case False
      with nontrivial assms(2) have "plain_name seg" by (simp add: plain_name_def)
      moreover have "rev (clean_step r acc seg) = ups @ (names @ [seg])"
        using False nontrivial rev by (simp add: clean_step_def)
      ultimately show ?thesis unfolding normal_segs_def using ups names by fastforce
    next
      case dd: True
      show ?thesis
      proof (cases "names = []")
        case True
        then have acc: "rev acc = ups" using rev by simp
        then have "set acc \<subseteq> {''..''}" using ups(1) by (metis set_rev)
        then have "rev (clean_step r acc seg) = (if r then [] else ups @ [''..''])"
          using dd ups(2) acc by (cases acc) (auto simp: clean_step_def)
        then show ?thesis unfolding normal_segs_def using ups
          by (intro exI [of _ "if r then [] else ups @ [''..'']"] exI [of _ "[]"]) auto
      next
        case False
        then obtain ns n where n: "names = ns @ [n]" by (cases names rule: rev_cases) auto
        then have "acc = n # rev (ups @ ns)" using rev by (metis rev_rev_ident rev.simps(2) append_assoc rev_append append_Cons append_Nil)
        moreover have "n \<noteq> ''..''" using names n by (simp add: plain_name_def)
        ultimately have "rev (clean_step r acc seg) = ups @ ns" using dd by (simp add: clean_step_def)
        then show ?thesis unfolding normal_segs_def using ups names n by auto
      qed
    qed
  qed
qed

lemma split_on_no_sep: "s \<in> set (split_on c p) \<Longrightarrow> c \<notin> set s"
proof (induction p arbitrary: s)
  case (Cons x p)
  then show ?case by (cases "split_on c p") (auto split: if_splits)
qed simp

lemma normal_foldl:
  "normal_segs r (rev acc) \<Longrightarrow> (\<forall>s \<in> set segs. slash \<notin> set s) \<Longrightarrow>
     normal_segs r (rev (foldl (clean_step r) acc segs))"
  by (induction segs arbitrary: acc) (auto simp: normal_step)

lemma normal_Nil [simp]: "normal_segs r []"
  unfolding normal_segs_def by auto

lemma normal_clean_segs: "normal_segs r (clean_segs r p)"
  unfolding clean_segs_def using normal_foldl [of r "[]" "split_on slash p"] split_on_no_sep [of _ slash p]
  by auto

lemma clean_path_Clean: "clean_path (Clean p)"
proof (cases "p = []")
  case True
  have "clean_path ''.''" unfolding clean_path_def
    by (rule exI [of _ False], rule exI [of _ "[]"]) (simp add: path_of_def)
  with True show ?thesis by (simp add: Clean_def)
next
  case False
  then show ?thesis unfolding clean_path_def Clean_def using normal_clean_segs by auto
qed

lemma foldl_names: "\<forall>s \<in> set names. plain_name s \<Longrightarrow> foldl (clean_step r) acc names = rev names @ acc"
  by (induction names arbitrary: acc) (auto simp: clean_step_def plain_name_def)

lemma foldl_ups: "set ups \<subseteq> {''..''} \<Longrightarrow> set acc \<subseteq> {''..''} \<Longrightarrow> foldl (clean_step False) acc ups = rev ups @ acc"
proof (induction ups arbitrary: acc)
  case (Cons u ups)
  then have "clean_step False acc u = ''..'' # acc" by (cases acc) (auto simp: clean_step_def)
  with Cons show ?case by auto
qed simp

lemma foldl_normal:
  assumes "normal_segs r ss" "plain_name name"
  shows "foldl (clean_step r) [] (ss @ [name]) = rev (ss @ [name])" "foldl (clean_step r) [] ss = rev ss"
proof -
  from assms(1) obtain ups names where ss: "ss = ups @ names" "set ups \<subseteq> {''..''}"
    "r \<longrightarrow> ups = []" "\<forall>s \<in> set names. plain_name s" unfolding normal_segs_def by blast
  have "foldl (clean_step r) [] ups = rev ups"
    using ss foldl_ups [of ups "[]"] by (cases r) auto
  then show eq: "foldl (clean_step r) [] ss = rev ss" using ss foldl_names by simp
  from assms(2) show "foldl (clean_step r) [] (ss @ [name]) = rev (ss @ [name])"
    by (simp add: eq) (simp add: clean_step_def plain_name_def)
qed

lemma normal_no_slash: "normal_segs r ss \<Longrightarrow> s \<in> set ss \<Longrightarrow> slash \<notin> set s \<and> s \<noteq> []"
proof -
  assume "normal_segs r ss" "s \<in> set ss"
  then have "s = ''..'' \<or> plain_name s" unfolding normal_segs_def by auto
  then show ?thesis by (auto simp: plain_name_def slash_def)
qed

lemma clean_step_empty [simp]: "clean_step r acc [] = acc"
  by (simp add: clean_step_def)

lemma join_with_append:
  "xs \<noteq> [] \<Longrightarrow> ys \<noteq> [] \<Longrightarrow> join_with c (xs @ ys) = join_with c xs @ c # join_with c ys"
proof (induction xs)
  case (Cons x xs)
  then show ?case by (cases xs; cases ys) auto
qed simp

lemma join_with_eq_Nil: "\<forall>s \<in> set xs. s \<noteq> [] \<Longrightarrow> join_with c xs = [] \<longleftrightarrow> xs = []"
  by (induction c xs rule: join_with.induct) auto

lemma hd_join: "xs \<noteq> [] \<Longrightarrow> hd xs \<noteq> [] \<Longrightarrow> hd (join_with c xs) = hd (hd xs)"
  by (induction c xs rule: join_with.induct) auto

lemma entry_inj [simp]: "entry dir a = entry dir b \<longleftrightarrow> a = b"
  by (simp add: entry_def)

lemma Clean_clean: assumes "clean_path p" shows "Clean p = p" "p \<noteq> []"
proof -
  from assms obtain r ss where n: "normal_segs r ss" and p: "p = path_of r ss"
    unfolding clean_path_def by blast
  have elems: "\<forall>s \<in> set ss. s \<noteq> [] \<and> slash \<notin> set s" using normal_no_slash [OF n] by blast
  have split: "ss \<noteq> [] \<Longrightarrow> split_on slash (join_with slash ss) = ss"
    using split_on_join [of ss slash] elems by auto
  have plain: "plain_name ''x''" by (simp add: plain_name_def slash_def)
  note fold = foldl_normal(2) [OF n plain]
  show "p \<noteq> []" using join_with_eq_Nil [of ss slash] elems by (auto simp: p path_of_def)
  show "Clean p = p"
  proof (cases r)
    case True
    then have "clean_segs True p = ss"
      using split fold by (cases "ss = []") (simp_all add: p path_of_def clean_segs_def)
    with True show ?thesis by (simp add: Clean_def p path_of_def is_rooted_def)
  next
    case False
    show ?thesis
    proof (cases "ss = []")
      case True
      have "split_on slash ''.'' = [''.'']" by (simp add: slash_def)
      with True False show ?thesis
        by (simp add: Clean_def p path_of_def is_rooted_def clean_segs_def clean_step_def)
    next
      case ss: False
      have "hd (join_with slash ss) = hd (hd ss)" by (rule hd_join) (use ss elems in auto)
      moreover have "hd (hd ss) \<noteq> slash" using elems ss by (metis hd_in_set)
      ultimately have "\<not> is_rooted (join_with slash ss)"
        by (cases "join_with slash ss") (simp_all add: is_rooted_def)
      with False ss split fold join_with_eq_Nil [of ss slash] elems show ?thesis
        by (simp add: Clean_def p path_of_def clean_segs_def)
    qed
  qed
qed

lemma path_of_entry:
  assumes "normal_segs r ss" "plain_name name"
  shows "path_of r (ss @ [name]) = entry (path_of r ss) name"
proof -
  have ne: "ss \<noteq> [] \<Longrightarrow> join_with slash ss \<noteq> []"
    using join_with_eq_Nil [of ss slash] normal_no_slash [OF assms(1)] by auto
  have split: "ss \<noteq> [] \<Longrightarrow> split_on slash (join_with slash ss) = ss"
    using split_on_join [of ss slash] normal_no_slash [OF assms(1)] by auto
  have "join_with slash ss \<noteq> [slash]" if "ss \<noteq> []"
  proof
    assume "join_with slash ss = [slash]"
    with split [OF that] have "ss = [[], []]" by simp
    with normal_no_slash [OF assms(1), of "[]"] show False by simp
  qed
  moreover have "join_with slash ss \<noteq> ''.''" if "ss \<noteq> []"
  proof
    assume "join_with slash ss = ''.''"
    then have "ss = [''.'']" using split [OF that] by (simp add: slash_def)
    with assms(1) show False
      unfolding normal_segs_def by (auto simp: plain_name_def Cons_eq_append_conv)
  qed
  moreover have "slash # x \<noteq> ''.''" for x by (simp add: slash_def)
  ultimately show ?thesis
    using ne by (cases r; cases "ss = []") (simp_all add: path_of_def entry_def join_with_append)
qed

text \<open>Joining any directory with a plain name gives the entry of the cleaned directory.\<close>

lemma Join_child:
  assumes "dir \<noteq> []" "plain_name name"
  shows "Join [dir, name] = entry (Clean dir) name"
proof -
  let ?r = "is_rooted dir"
  have r: "is_rooted (dir @ slash # name) = ?r" using assms(1) by (cases dir) (simp_all add: is_rooted_def)
  have sn: "split_on slash name = [name]" using assms(2) by (simp add: plain_name_def)
  have "clean_segs ?r (dir @ slash # name) = clean_segs ?r dir @ [name]"
    using assms(2) sn by (simp add: clean_segs_def split_on_append)
      (simp add: clean_step_def plain_name_def)
  then have "Clean (dir @ slash # name) = path_of ?r (clean_segs ?r dir @ [name])"
    using r by (simp add: Clean_def)
  also have "\<dots> = entry (Clean dir) name"
    using path_of_entry [OF normal_clean_segs assms(2)] assms(1) by (simp add: Clean_def)
  finally show ?thesis using assms(1) by (simp add: Join_def)
qed

lemma Join_name:
  assumes "plain_name name" shows "Join [[], name] = name"
proof -
  have "split_on slash name = [name]" "name \<noteq> []" "\<not> is_rooted name"
    using assms by (auto simp: plain_name_def is_rooted_def split: list.splits)
  with assms show ?thesis
    by (simp add: Join_def Clean_def clean_segs_def path_of_def)
      (simp add: clean_step_def plain_name_def)
qed

lemma Join_clean: "e \<in> set es \<Longrightarrow> e \<noteq> [] \<Longrightarrow> clean_path (Join es)"
proof -
  assume "e \<in> set es" "e \<noteq> []"
  then obtain x xs where "dropWhile (\<lambda>e. e = []) es = x # xs"
    by (cases "dropWhile (\<lambda>e. e = []) es") auto
  then show ?thesis by (simp add: Join_def clean_path_Clean)
qed

lemma after_slash_entry: "plain_name n \<Longrightarrow> after_slash (entry dir n) = n"
proof -
  assume "plain_name n"
  then have "\<And>x. x \<in> set (rev n) \<Longrightarrow> x \<noteq> slash" by (auto simp: plain_name_def)
  then have t: "takeWhile (\<lambda>c. c \<noteq> slash) (rev n @ slash # z) = rev n"
    "takeWhile (\<lambda>c. c \<noteq> slash) (rev n) = rev n" for z
    using takeWhile_append2 [of "rev n" "\<lambda>c. c \<noteq> slash" "slash # z"]
    by (simp_all add: takeWhile_eq_all_conv)
  show ?thesis by (simp add: after_slash_def entry_def t)
qed

end
