(* ===== verification/FileStore.thy ===== *)
theory FileStore
  imports Paths Interfaces "HOL-Library.AList"
begin

text \<open>
  \<open>internal/filestore/filestore.go\<close> over a file system that maps paths to contents.  A call into the
  operating system may fail: \<open>io k\<close> is the error of the \<open>k\<close>-th such call of an operation, \<open>None\<close> for
  success; directories exist as far as files need them.  \<open>home\<close> is the result of \<open>os.UserHomeDir\<close>,
  \<open>digest\<close> the hexadecimal digest of a content under an algorithm.
\<close>

section \<open>The file system\<close>

type_synonym fsys = "(string \<times> string) list"
type_synonym oserrs = "nat \<Rightarrow> gerr option"

definition no_errors :: oserrs where "no_errors = (\<lambda>k. None)"

lemma no_errors_at [simp]:
  "no_errors 0 = None" "no_errors (Suc k) = None" "no_errors (numeral w) = None"
  "skip n no_errors = no_errors"
  by (simp_all add: no_errors_def skip_def)

definition fs_write :: "string \<Rightarrow> string \<Rightarrow> fsys \<Rightarrow> fsys" where
  "fs_write p c fs = AList.update p c fs"

definition fs_remove :: "string \<Rightarrow> fsys \<Rightarrow> fsys" where
  "fs_remove p fs = AList.delete p fs"

definition fs_exists :: "fsys \<Rightarrow> string \<Rightarrow> bool" where
  "fs_exists fs p = (p \<in> fst ` set fs)"

definition fs_content :: "fsys \<Rightarrow> string \<Rightarrow> string" where
  "fs_content fs p = (case map_of fs p of None \<Rightarrow> [] | Some c \<Rightarrow> c)"

definition below :: "string \<Rightarrow> string \<Rightarrow> bool" where
  "below dir p \<longleftrightarrow> p = dir \<or> prefix (dir @ [slash]) p"

text \<open>\<open>os.RemoveAll\<close>, \<open>os.Rename\<close> and the names of the files in a directory, sorted (\<open>os.ReadDir\<close>).\<close>

definition fs_remove_all :: "string \<Rightarrow> fsys \<Rightarrow> fsys" where
  "fs_remove_all dir fs = filter (\<lambda>(p, c). \<not> below dir p) fs"

definition fs_rename :: "string \<Rightarrow> string \<Rightarrow> fsys \<Rightarrow> fsys" where
  "fs_rename a b fs = fs_write b (fs_content fs a) (fs_remove a fs)"

definition entry_name :: "string \<Rightarrow> string \<Rightarrow> string option" where
  "entry_name dir p =
     (let n = after_slash p in if plain_name n \<and> entry dir n = p then Some n else None)"

definition read_dir :: "fsys \<Rightarrow> string \<Rightarrow> string list" where
  "read_dir fs dir = sort (remdups (List.map_filter (\<lambda>(p, c). entry_name dir p) fs))"

lemma map_of_fs [simp]:
  "map_of (fs_write p c fs) = (map_of fs)(p \<mapsto> c)"
  "map_of (fs_remove p fs) = (map_of fs)(p := None)"
  by (simp_all add: fs_write_def fs_remove_def update_conv' delete_conv')

lemma map_of_remove_all: "map_of (fs_remove_all dir fs) p = (if below dir p then None else map_of fs p)"
  by (induction fs) (auto simp: fs_remove_all_def)

lemma fs_exists_map: "fs_exists fs p \<longleftrightarrow> map_of fs p \<noteq> None"
  by (simp add: fs_exists_def map_of_eq_None_iff)

section \<open>Paths of a download\<close>

text \<open>Without a home directory a download without file options is a nil dereference.\<close>

definition tempDir :: "string res \<Rightarrow> Download \<Rightarrow> string res" where
  "tempDir home d =
     (if d_File d \<noteq> None \<and> f_TempDir (the (d_File d)) \<noteq> []
      then Inr (Join [f_TempDir (the (d_File d)), d_ID d])
      else case home of
        Inl e \<Rightarrow> (case d_File d of None \<Rightarrow> Inl (ErrPanic ''nil pointer dereference'')
                 | Some f \<Rightarrow> Inr (Join [f_Path f, ''.tmp'', d_ID d]))
      | Inr h \<Rightarrow> Inr (Join [h, ''.slog'', ''downloader'', ''tmp'', d_ID d]))"

definition finalPath :: "Download \<Rightarrow> string res" where
  "finalPath d =
     (case d_File d of None \<Rightarrow> Inl (ErrPanic ''nil pointer dereference'')
      | Some f \<Rightarrow> Inr (Join [f_Path f, if f_Filename f = [] then d_ID d else f_Filename f]))"

definition part_name :: "int \<Rightarrow> string" where
  "part_name n = Sprintf_0d 9 n @ ''.part''"

section \<open>Operations\<close>

definition Prepare :: "oserrs \<Rightarrow> string res \<Rightarrow> Download \<Rightarrow> unit res" where
  "Prepare io home d =
     (case d_File d of
        None \<Rightarrow> Inl (ErrText ''file options required'')
      | Some f \<Rightarrow>
          let baseDir = (if f_Path f = []
                then Join [case home of Inl e \<Rightarrow> ''.'' | Inr h \<Rightarrow> h, ''Downloads''] else f_Path f)
          in if baseDir = [] then Inl (ErrText ''file.path required'')
             else bindE (failE (io 0)) (\<lambda>_. bindE (tempDir home d) (\<lambda>tmp. failE (io 1))))"

text \<open>The writer is positioned at the end of the part, so a write appends.\<close>

definition OpenSegmentWriter ::
    "oserrs \<Rightarrow> string res \<Rightarrow> Download \<Rightarrow> Segment \<Rightarrow> fsys \<Rightarrow> (string \<times> int) res \<times> fsys" where
  "OpenSegmentWriter io home d g fs =
     (case tempDir home d of Inl e \<Rightarrow> (Inl e, fs)
      | Inr tmp \<Rightarrow>
          (case io 0 of Some e \<Rightarrow> (Inl e, fs)
           | None \<Rightarrow>
              let p = Join [tmp, part_name (s_Index g)]
              in (case io 1 of Some e \<Rightarrow> (Inl e, fs)
                  | None \<Rightarrow>
                      let fs = (if fs_exists fs p then fs else fs_write p [] fs)
                      in (case io 2 of Some e \<Rightarrow> (Inl e, fs)
                          | None \<Rightarrow> (case io 3 of Some e \<Rightarrow> (Inl e, fs)
                              | None \<Rightarrow> (Inr (p, int (length (fs_content fs p))), fs))))))"

definition append_part :: "string \<Rightarrow> string \<Rightarrow> fsys \<Rightarrow> fsys" where
  "append_part p bytes fs = fs_write p (fs_content fs p @ bytes) fs"

definition CompleteSegment :: "Download \<Rightarrow> Segment \<Rightarrow> unit res" where
  "CompleteSegment d g = Inr ()"

definition listParts :: "oserrs \<Rightarrow> string res \<Rightarrow> Download \<Rightarrow> fsys \<Rightarrow> string list res" where
  "listParts io home d fs =
     bindE (tempDir home d) (\<lambda>dir. bindE (failE (io 0)) (\<lambda>_.
       Inr (sort (map (\<lambda>n. Join [dir, n]) (filter (\<lambda>n. HasSuffix n ''.part'') (read_dir fs dir))))))"

text \<open>
  The search for a free name: \<open>name (1).ext\<close>, \<open>name (2).ext\<close>, ...  It ends at the first name that
  \<open>os.Stat\<close> reports as missing; any other error of \<open>os.Stat\<close> makes it go on.  The loop of the code has no
  bound, the fuel is a number of attempts.  The result carries the errors of the calls that follow.
\<close>

definition candidate_name :: "string \<Rightarrow> int \<Rightarrow> string" where
  "candidate_name base i =
     (let ext = Ext base; name = TrimSuffix base ext
      in name @ '' ('' @ FormatInt i @ '')'' @ ext)"

fun unique_name :: "nat \<Rightarrow> oserrs \<Rightarrow> fsys \<Rightarrow> string \<Rightarrow> string \<Rightarrow> int \<Rightarrow> (string \<times> oserrs) option" where
  "unique_name 0 io fs dir base i = None"
| "unique_name (Suc fuel) io fs dir base i =
     (let candidate = candidate_name base i
      in if io 0 = None \<and> \<not> fs_exists fs (Join [dir, candidate]) then Some (candidate, skip 1 io)
         else unique_name fuel (skip 1 io) fs dir base (i + 1))"

text \<open>
  Copying the parts into the temporary output.  When a part cannot be opened or copied, the output
  keeps the parts before it.
\<close>

fun copy_parts :: "oserrs \<Rightarrow> string \<Rightarrow> string list \<Rightarrow> fsys \<Rightarrow> unit res \<times> fsys" where
  "copy_parts io out [] fs = (Inr (), fs)"
| "copy_parts io out (p # ps) fs =
     (case io 0 of Some e \<Rightarrow> (Inl e, fs)
      | None \<Rightarrow> (case io 1 of Some e \<Rightarrow> (Inl e, fs)
          | None \<Rightarrow> copy_parts (skip 2 io) out ps (append_part out (fs_content fs p) fs)))"

definition merge_into ::
    "oserrs \<Rightarrow> string \<Rightarrow> string list \<Rightarrow> string \<Rightarrow> fsys \<Rightarrow> unit res \<times> fsys" where
  "merge_into io tmp parts outPath fs =
     (let marker = Join [tmp, ''.merge.lock''];
          fs = (if io 0 = None then fs_write marker ''inprogress'' fs else fs);
          tmpOut = outPath @ ''.merge.tmp'';
          fs = (if io 1 = None then fs_remove tmpOut fs else fs);
          (r, fs) =
            (case io 2 of Some e \<Rightarrow> (Inl e, fs)
             | None \<Rightarrow>
                let (r, fs) = copy_parts (skip 7 io) tmpOut parts (fs_write tmpOut [] fs)
                in (case r of Inl e \<Rightarrow> (Inl e, fs)
                    | Inr u \<Rightarrow> (case io 3 of Some e \<Rightarrow> (Inl e, fs)
                        | None \<Rightarrow> (case io 4 of Some e \<Rightarrow> (Inl e, fs)
                            | None \<Rightarrow> (case io 5 of Some e \<Rightarrow> (Inl e, fs)
                                | None \<Rightarrow>
                                    let fs = fs_rename tmpOut outPath fs
                                    in (Inr (), if io 6 = None then fs_remove_all tmp fs else fs))))))
      in (r, fs_remove marker fs))"

text \<open>
  \<open>MergeSegments\<close> may rename the download's file: the download is part of the result.  \<open>fuel\<close> bounds
  the search for a free name; \<open>None\<close> is a search that has not ended.
\<close>

definition MergeSegments ::
    "nat \<Rightarrow> oserrs \<Rightarrow> string res \<Rightarrow> Download \<Rightarrow> fsys \<Rightarrow> (unit res \<times> Download \<times> fsys) option" where
  "MergeSegments fuel io home d fs =
     (case listParts io home d fs of
        Inl e \<Rightarrow> Some (Inl e, d, fs)
      | Inr parts \<Rightarrow>
          if parts = [] then Some (Inl (ErrText ''no parts to merge''), d, fs)
          else case finalPath d of
            Inl e \<Rightarrow> Some (Inl e, d, fs)
          | Inr outPath \<Rightarrow>
              let go = (\<lambda>io d outPath. case tempDir home d of Inl e \<Rightarrow> (Inl e, d, fs)
                    | Inr tmp \<Rightarrow> (case io 0 of Some e \<Rightarrow> (Inl e, d, fs)
                        | None \<Rightarrow> (let (r, fs) = merge_into (skip 1 io) tmp parts outPath fs
                                   in (r, d, fs))))
              in (case d_File d of
                    Some f \<Rightarrow>
                      if io 1 = None \<and> fs_exists fs outPath \<and> \<not> f_Overwrite f
                      then if f_UniqueFilename f
                        then case unique_name fuel (skip 2 io) fs (f_Path f) (f_Filename f) 1 of
                            None \<Rightarrow> None
                          | Some (candidate, io) \<Rightarrow>
                              Some (go io (d\<lparr>d_File := Some (f\<lparr>f_Filename := candidate\<rparr>)\<rparr>)
                                (Join [f_Path f, candidate]))
                        else Some (Inl (ErrText ''target file exists and overwrite is false''), d, fs)
                      else Some (go (skip 2 io) d outPath)
                  | None \<Rightarrow> Some (go (skip 2 io) d outPath)))"

definition RemoveDownloadFiles :: "oserrs \<Rightarrow> string res \<Rightarrow> Download \<Rightarrow> fsys \<Rightarrow> unit res \<times> fsys" where
  "RemoveDownloadFiles io home d fs =
     (case tempDir home d of Inl e \<Rightarrow> (Inl e, fs)
      | Inr tmp \<Rightarrow>
          let fs = (if io 0 = None then fs_remove_all tmp fs else fs)
          in (case finalPath d of Inl e \<Rightarrow> (Inl e, fs)
              | Inr out \<Rightarrow> (case io 1 of Some e \<Rightarrow> (Inl e, fs)
                  | None \<Rightarrow> if fs_exists fs out then (Inr (), fs_remove out fs)
                            else (Inl (ErrOther ''file does not exist''), fs))))"

definition VerifyChecksum ::
    "stdlib \<Rightarrow> oserrs \<Rightarrow> (string \<Rightarrow> string \<Rightarrow> string) \<Rightarrow> Download \<Rightarrow> fsys \<Rightarrow> bool res" where
  "VerifyChecksum L io digest d fs =
     (case d_File d of
        None \<Rightarrow> Inr True
      | Some f \<Rightarrow>
          if f_Checksum f = [] then Inr True
          else bindE (finalPath d) (\<lambda>fp.
            if io 0 \<noteq> None \<or> \<not> fs_exists fs fp
            then Inl (case io 0 of Some e \<Rightarrow> e | None \<Rightarrow> ErrOther ''file does not exist'')
            else let alg = ToLower (lib_lower L) (f_ChecksumType f)
                 in if alg \<in> {''md5'', ''sha1'', ''sha256'', ''crc32c''}
                    then bindE (failE (io 1)) (\<lambda>_.
                      Inr (EqualFold (lib_fold L) (digest alg (fs_content fs fp)) (f_Checksum f)))
                    else Inl (ErrText (''unsupported checksum type: '' @ f_ChecksumType f))))"

section \<open>Parts\<close>

lemma part_name_plain [simp]: "plain_name (part_name n)"
proof -
  have "c \<noteq> slash" if "c \<in> set (Sprintf_0d 9 n)" for c
    using Sprintf_0d_chars [OF that] by (auto simp: slash_def)
  moreover have "slash \<notin> set ''.part''" by (simp add: slash_def)
  moreover have "length (part_name n) \<ge> 5" by (simp add: part_name_def)
  then have "part_name n \<noteq> []" "part_name n \<noteq> ''.''" "part_name n \<noteq> ''..''" by auto
  ultimately show ?thesis by (auto simp: plain_name_def part_name_def)
qed

lemma part_name_suffix [simp]: "HasSuffix (part_name n) ''.part''"
  by (simp add: HasSuffix_def part_name_def suffix_def)

lemma part_name_less:
  assumes "0 \<le> i" "i < 10 ^ 9" "0 \<le> j" "j < 10 ^ 9"
  shows "part_name i < part_name j \<longleftrightarrow> i < j"
proof -
  have "part_name i = fixed 9 (nat i) @ ''.part''" "part_name j = fixed 9 (nat j) @ ''.part''"
    using assms by (simp_all add: part_name_def Sprintf_0d_fixed)
  then show ?thesis
    using assms by (auto simp: append_less_same_length fixed_less)
qed

lemma tempDir_clean:
  assumes "tempDir home d = Inr tmp" shows "clean_path tmp"
  using assms Join_clean [of "f_TempDir (the (d_File d))" "[f_TempDir (the (d_File d)), d_ID d]"]
    Join_clean [of "''.tmp''"] Join_clean [of "''.slog''"]
  by (auto simp: tempDir_def split: if_splits sum.splits option.splits)

lemma Join_part:
  "clean_path tmp \<Longrightarrow> plain_name n \<Longrightarrow> Join [tmp, n] = entry tmp n"
  using Join_child [of tmp n] Clean_clean [of tmp] by simp

lemma set_read_dir:
  "n \<in> set (read_dir fs dir) \<longleftrightarrow> plain_name n \<and> fs_exists fs (entry dir n)"
proof -
  have "n \<in> set (read_dir fs dir) \<longleftrightarrow> (\<exists>(p, c) \<in> set fs. entry_name dir p = Some n)"
    by (auto simp: read_dir_def List.map_filter_def case_prod_beta) force+
  also have "\<dots> \<longleftrightarrow> plain_name n \<and> (\<exists>(p, c) \<in> set fs. p = entry dir n)"
    by (auto simp: entry_name_def Let_def after_slash_entry split: if_splits) (force simp: after_slash_entry)+
  finally show ?thesis by (force simp: fs_exists_def)
qed

lemma entry_less: "entry dir a < entry dir b \<longleftrightarrow> a < b"
  by (simp add: entry_def append_less_same_length)

text \<open>The temporary directory holds the parts \<open>0\<close> to \<open>length cs - 1\<close> with the contents \<open>cs\<close>, and no other.\<close>

definition parts_are :: "fsys \<Rightarrow> string \<Rightarrow> string list \<Rightarrow> bool" where
  "parts_are fs tmp cs \<longleftrightarrow>
     int (length cs) \<le> 10 ^ 9 \<and>
     (\<forall>i < length cs. map_of fs (entry tmp (part_name (int i))) = Some (cs ! i)) \<and>
     (\<forall>n. plain_name n \<and> HasSuffix n ''.part'' \<and> fs_exists fs (entry tmp n) \<longrightarrow>
        (\<exists>i < length cs. n = part_name (int i)))"

lemma listParts_are:
  assumes "tempDir home d = Inr tmp" "io 0 = None" "parts_are fs tmp cs"
  shows "listParts io home d fs = Inr (map (\<lambda>i. entry tmp (part_name (int i))) [0..<length cs])"
proof -
  have clean: "clean_path tmp" by (rule tempDir_clean [OF assms(1)])
  let ?names = "filter (\<lambda>n. HasSuffix n ''.part'') (read_dir fs tmp)"
  let ?parts = "map (\<lambda>i. entry tmp (part_name (int i))) [0..<length cs]"
  have names: "set ?names = (\<lambda>i. part_name (int i)) ` {0..<length cs}"
    using assms(3) by (auto simp: set_read_dir parts_are_def fs_exists_map)
  have join: "map (\<lambda>n. Join [tmp, n]) ?names = map (entry tmp) ?names"
    using Join_part [OF clean] by (auto simp: set_read_dir)
  have "distinct ?names" by (simp add: read_dir_def)
  then have "distinct (map (entry tmp) ?names)" by (simp add: distinct_map inj_on_def)
  moreover have "sorted_wrt (<) ?parts"
  proof -
    have "entry tmp (part_name (int i)) < entry tmp (part_name (int j))"
      if "i < j" "j < length cs" for i j
      using that assms(3) by (simp add: entry_less part_name_less parts_are_def)
    then show ?thesis by (simp add: sorted_wrt_iff_nth_less)
  qed
  moreover have "set (sort (map (entry tmp) ?names)) = set ?parts"
    using names by (auto simp: image_image)
  ultimately have "sort (map (entry tmp) ?names) = ?parts"
    by (intro sorted_distinct_set_unique) (simp_all add: strict_sorted_iff)
  then show ?thesis by (simp add: listParts_def assms(1,2) join)
qed

section \<open>Merging\<close>

lemma copy_parts_ok:
  assumes "out \<notin> set ps"
  shows "\<exists>fs'. copy_parts no_errors out ps fs = (Inr (), fs') \<and>
    (\<forall>p. p \<noteq> out \<longrightarrow> map_of fs' p = map_of fs p) \<and>
    fs_content fs' out = fs_content fs out @ concat (map (fs_content fs) ps)"
  using assms
proof (induction ps arbitrary: fs)
  case (Cons p ps)
  let ?fs = "append_part out (fs_content fs p) fs"
  from Cons.IH [of ?fs] Cons.prems obtain fs' where fs':
    "copy_parts no_errors out ps ?fs = (Inr (), fs')"
    "\<forall>p. p \<noteq> out \<longrightarrow> map_of fs' p = map_of ?fs p"
    "fs_content fs' out = fs_content ?fs out @ concat (map (fs_content ?fs) ps)" by auto
  have "fs_content ?fs q = fs_content fs q" if "q \<in> set ps" for q
    using that Cons.prems by (auto simp: fs_content_def append_part_def)
  then have "concat (map (fs_content ?fs) ps) = concat (map (fs_content fs) ps)"
    by (metis map_cong)
  moreover have "fs_content ?fs out = fs_content fs out @ fs_content fs p"
    by (simp add: append_part_def fs_content_def)
  moreover have "\<forall>q. q \<noteq> out \<longrightarrow> map_of fs' q = map_of fs q" using fs'(2) by (simp add: append_part_def)
  ultimately show ?case using fs'(1,3) by (intro exI [of _ fs']) simp
qed (simp add: fs_content_def)

lemma below_entry: "plain_name n \<Longrightarrow> clean_path tmp \<Longrightarrow> tmp \<noteq> ''.'' \<Longrightarrow> tmp \<noteq> [slash] \<Longrightarrow> below tmp (entry tmp n)"
  by (simp add: below_def entry_def)

lemma lock_plain: "plain_name ''.merge.lock''"
  by (simp add: plain_name_def slash_def)

lemma merge_into_ok:
  assumes tmp: "clean_path tmp" "tmp \<noteq> ''.''" "tmp \<noteq> [slash]"
    and out: "\<not> below tmp out" "\<not> below tmp (out @ ''.merge.tmp'')"
    and parts: "\<forall>p \<in> set ps. below tmp p \<and> p \<noteq> entry tmp ''.merge.lock''"
  shows "\<exists>fs'. merge_into no_errors tmp ps out fs = (Inr (), fs') \<and>
    map_of fs' out = Some (concat (map (fs_content fs) ps)) \<and>
    (\<forall>p. below tmp p \<longrightarrow> map_of fs' p = None) \<and>
    (\<forall>p. \<not> below tmp p \<longrightarrow> p \<noteq> out \<longrightarrow> p \<noteq> out @ ''.merge.tmp'' \<longrightarrow> map_of fs' p = map_of fs p)"
proof -
  let ?t = "out @ ''.merge.tmp''" and ?m = "entry tmp ''.merge.lock''"
  have marker: "Join [tmp, ''.merge.lock''] = ?m" by (rule Join_part [OF tmp(1) lock_plain])
  have bm: "below tmp ?m" by (rule below_entry [OF lock_plain tmp])
  have mt: "?m \<noteq> ?t" "?m \<noteq> out" using bm out by auto
  have pt: "?t \<notin> set ps" using parts out(2) by blast
  let ?fs = "fs_write ?t [] (fs_remove ?t (fs_write ?m ''inprogress'' fs))"
  from copy_parts_ok [OF pt, of ?fs] obtain fs1 where fs1:
    "copy_parts no_errors ?t ps ?fs = (Inr (), fs1)"
    "\<forall>p. p \<noteq> ?t \<longrightarrow> map_of fs1 p = map_of ?fs p"
    "fs_content fs1 ?t = fs_content ?fs ?t @ concat (map (fs_content ?fs) ps)" by blast
  have "fs_content ?fs p = fs_content fs p" if "p \<in> set ps" for p
    using that pt parts by (auto simp: fs_content_def)
  then have "concat (map (fs_content ?fs) ps) = concat (map (fs_content fs) ps)" by (metis map_cong)
  with fs1(3) have content: "fs_content fs1 ?t = concat (map (fs_content fs) ps)"
    by (simp add: fs_content_def)
  let ?fs' = "fs_remove ?m (fs_remove_all tmp (fs_rename ?t out fs1))"
  have "merge_into no_errors tmp ps out fs = (Inr (), ?fs')"
    using fs1(1) by (simp add: merge_into_def marker Let_def)
  moreover have "map_of ?fs' out = Some (concat (map (fs_content fs) ps))"
    using out mt content by (auto simp: map_of_remove_all fs_rename_def)
  moreover have "map_of ?fs' p = None" if "below tmp p" for p
    using that by (simp add: map_of_remove_all)
  moreover have "map_of ?fs' p = map_of fs p" if "\<not> below tmp p" "p \<noteq> out" "p \<noteq> ?t" for p
    using that fs1(2) bm by (auto simp: map_of_remove_all fs_rename_def)
  ultimately show ?thesis by blast
qed

text \<open>Whatever fails, a merge touches its marker, its output, the target and the temporary directory.\<close>

lemma copy_parts_frame: "p \<noteq> out \<Longrightarrow> map_of (snd (copy_parts io out ps fs)) p = map_of fs p"
  by (induction io out ps fs rule: copy_parts.induct) (auto simp: append_part_def split: option.splits)

lemma merge_into_frame:
  assumes "p \<noteq> Join [tmp, ''.merge.lock'']" "p \<noteq> out @ ''.merge.tmp''" "p \<noteq> out" "\<not> below tmp p"
  shows "map_of (snd (merge_into io tmp ps out fs)) p = map_of fs p"
proof -
  let ?t = "out @ ''.merge.tmp''"
  define fs1 where "fs1 = (if io 0 = None then fs_write (Join [tmp, ''.merge.lock'']) ''inprogress'' fs else fs)"
  define fs2 where "fs2 = (if io 1 = None then fs_remove ?t fs1 else fs1)"
  have fs2: "map_of fs2 p = map_of fs p" using assms by (simp add: fs1_def fs2_def)
  obtain r fs3 where c: "copy_parts (skip 7 io) ?t ps (fs_write ?t [] fs2) = (r, fs3)" by fastforce
  have "map_of fs3 p = map_of fs p"
    using copy_parts_frame [OF assms(2), of "skip 7 io" ps "fs_write ?t [] fs2"] c fs2 assms(2) by simp
  with c fs2 assms show ?thesis
    unfolding merge_into_def Let_def fs1_def [symmetric] fs2_def [symmetric]
    by (cases "io 2"; cases r; cases "io 3"; cases "io 4"; cases "io 5")
      (simp_all add: map_of_remove_all fs_rename_def)
qed

section \<open>Free names\<close>

lemma FormatInt_inj: "0 < i \<Longrightarrow> 0 < j \<Longrightarrow> FormatInt i = FormatInt j \<longleftrightarrow> i = j"
proof -
  assume ij: "0 < i" "0 < j"
  have "nat i = nat j" if "digits (nat i) = digits (nat j)"
    using that digits_value_digits by (metis option.inject)
  with ij show ?thesis by (auto simp: FormatInt_def)
qed

lemma candidate_inj:
  "0 < i \<Longrightarrow> 0 < j \<Longrightarrow> candidate_name base i = candidate_name base j \<longleftrightarrow> i = j"
  by (simp add: candidate_name_def Let_def FormatInt_inj)

lemma candidate_plain:
  assumes "slash \<notin> set base"
  shows "plain_name (candidate_name base i)"
proof -
  have fi: "slash \<notin> set (FormatInt i)"
    using digits_all [of slash] by (auto simp: FormatInt_def slash_def)
  have ext: "slash \<notin> set (Ext base)"
    using assms by (auto simp: Ext_def Let_def dot_def split: list.splits if_splits dest: set_takeWhileD)
  have name: "slash \<notin> set (TrimSuffix base (Ext base))"
    using assms by (auto simp: TrimSuffix_def dest: in_set_takeD)
  have long: "4 \<le> length (candidate_name base i)"
    by (cases "FormatInt i") (auto simp: candidate_name_def Let_def FormatInt_def split: if_splits)
  have "slash \<notin> set (candidate_name base i)"
    using fi ext name by (simp add: candidate_name_def Let_def) (simp add: slash_def)
  moreover have "candidate_name base i \<noteq> []" "candidate_name base i \<noteq> ''.''" "candidate_name base i \<noteq> ''..''"
    using long by auto
  ultimately show ?thesis by (simp add: plain_name_def)
qed

lemma candidate_path_inj:
  assumes "slash \<notin> set base" "0 < i" "0 < j"
  shows "Join [dir, candidate_name base i] = Join [dir, candidate_name base j] \<longleftrightarrow> i = j"
  using Join_child [of dir] Join_name candidate_plain [OF assms(1)] candidate_inj [OF assms(2,3)]
  by (cases "dir = []") simp_all

lemma unique_name_None:
  "unique_name fuel io fs dir base i = None \<Longrightarrow> j < fuel \<Longrightarrow>
     io j \<noteq> None \<or> fs_exists fs (Join [dir, candidate_name base (i + int j)])"
proof (induction fuel arbitrary: i j io)
  case (Suc fuel)
  show ?case
  proof (cases j)
    case 0
    with Suc.prems show ?thesis by (auto simp: Let_def split: if_splits)
  next
    case (Suc k)
    with Suc.prems have "unique_name fuel (skip 1 io) fs dir base (i + 1) = None" "k < fuel"
      by (auto simp: Let_def split: if_splits)
    from Suc.IH [OF this] Suc show ?thesis by (simp add: skip_def algebra_simps)
  qed
qed simp

lemma unique_name_Some:
  "unique_name fuel io fs dir base i = Some (c, io') \<Longrightarrow> \<not> fs_exists fs (Join [dir, c])"
  by (induction fuel arbitrary: i io) (auto simp: Let_def split: if_splits)

text \<open>Among more candidates than files and failed calls one is free and found.\<close>

lemma unique_name_ends:
  assumes "slash \<notin> set base" "length fs + card {k. k < fuel \<and> io k \<noteq> None} < fuel" "0 < i"
  shows "unique_name fuel io fs dir base i \<noteq> None"
proof
  assume none: "unique_name fuel io fs dir base i = None"
  let ?path = "\<lambda>j. Join [dir, candidate_name base (i + int j)]"
  let ?bad = "{k. k < fuel \<and> io k \<noteq> None}" and ?good = "{k. k < fuel \<and> io k = None}"
  have "inj_on ?path ?good"
    using candidate_path_inj [OF assms(1)] assms(3) by (auto simp: inj_on_def)
  then have "card (?path ` ?good) = card ?good" by (rule card_image)
  moreover have "?path ` ?good \<subseteq> fst ` set fs"
  proof
    fix x assume "x \<in> ?path ` ?good"
    then obtain j where j: "j < fuel" "io j = None" "x = ?path j" by blast
    with unique_name_None [OF none j(1)] show "x \<in> fst ` set fs" by (simp add: fs_exists_def)
  qed
  then have "card (?path ` ?good) \<le> card (fst ` set fs)" by (intro card_mono) simp_all
  moreover have "card (fst ` set fs) \<le> length fs" using card_length [of "map fst fs"] by simp
  moreover have "card (?bad \<union> ?good) = card ?bad + card ?good"
    by (rule card_Un_disjoint) auto
  moreover have "?bad \<union> ?good = {..<fuel}" by auto
  ultimately show False using assms(2) by simp
qed

lemma MergeSegments_ok:
  assumes "tempDir home d = Inr tmp" "finalPath d = Inr out" "d_File d = Some f"
    and "parts_are fs tmp cs" "cs \<noteq> []" "\<not> fs_exists fs out \<or> f_Overwrite f"
    and "tmp \<noteq> ''.''" "tmp \<noteq> [slash]" "\<not> below tmp out" "\<not> below tmp (out @ ''.merge.tmp'')"
  shows "\<exists>fs'. MergeSegments fuel no_errors home d fs = Some (Inr (), d, fs') \<and>
    map_of fs' out = Some (concat cs) \<and> (\<forall>p. below tmp p \<longrightarrow> map_of fs' p = None) \<and>
    (\<forall>p. \<not> below tmp p \<longrightarrow> p \<noteq> out \<longrightarrow> p \<noteq> out @ ''.merge.tmp'' \<longrightarrow> map_of fs' p = map_of fs p)"
proof -
  let ?ps = "map (\<lambda>i. entry tmp (part_name (int i))) [0..<length cs]"
  have tmp: "clean_path tmp" by (rule tempDir_clean [OF assms(1)])
  have parts: "listParts no_errors home d fs = Inr ?ps"
    by (rule listParts_are [OF assms(1) _ assms(4)]) simp
  have "part_name n \<noteq> ''.merge.lock''" for n
  proof
    assume "part_name n = ''.merge.lock''"
    then have "last (part_name n) = CHR ''k''" by simp
    then show False by (simp add: part_name_def)
  qed
  then have "\<forall>p \<in> set ?ps. below tmp p \<and> p \<noteq> entry tmp ''.merge.lock''"
    using below_entry [OF _ tmp assms(7,8)] by auto
  from merge_into_ok [OF tmp assms(7-10) this, of fs] obtain fs' where fs':
    "merge_into no_errors tmp ?ps out fs = (Inr (), fs')"
    "map_of fs' out = Some (concat (map (fs_content fs) ?ps))"
    "\<forall>p. below tmp p \<longrightarrow> map_of fs' p = None"
    "\<forall>p. \<not> below tmp p \<longrightarrow> p \<noteq> out \<longrightarrow> p \<noteq> out @ ''.merge.tmp'' \<longrightarrow> map_of fs' p = map_of fs p"
    by blast
  have "map (fs_content fs) ?ps = cs"
    using assms(4) by (intro nth_equalityI) (auto simp: parts_are_def fs_content_def)
  moreover have "MergeSegments fuel no_errors home d fs = Some (Inr (), d, fs')"
    using parts assms(1-3,5,6) fs'(1) by (auto simp: MergeSegments_def Let_def)
  ultimately show ?thesis using fs'(2-4) by auto
qed

section \<open>Properties\<close>

definition demo_file_download :: Download where
  "demo_file_download = zero_Download\<lparr>d_ID := ''a1'',
     d_File := Some (zero_FileOptions\<lparr>f_Path := ''/out'', f_Filename := ''f.iso'', f_TempDir := ''/tmp''\<rparr>)\<rparr>"

definition demo_fs :: fsys where
  "demo_fs = [(''/tmp/a1/000000000.part'', ''he''), (''/tmp/a1/000000001.part'', ''llo''), (''/etc/x'', ''y'')]"

text \<open>
  C17.  Merging concatenates the parts in the order of their segment numbers: without I/O errors, when
  the target does not exist or may be overwritten, the target file becomes the concatenation, the
  temporary directory is removed, and no other file changes.
\<close>

theorem merge_restores:
  assumes "tempDir home d = Inr tmp" "finalPath d = Inr out" "d_File d = Some f"
    and "parts_are fs tmp cs" "cs \<noteq> []" "\<not> fs_exists fs out \<or> f_Overwrite f"
    and "tmp \<noteq> ''.''" "tmp \<noteq> [slash]" "\<not> below tmp out" "\<not> below tmp (out @ ''.merge.tmp'')"
  shows "\<exists>fs'. MergeSegments fuel no_errors home d fs = Some (Inr (), d, fs') \<and>
    map_of fs' out = Some (concat cs) \<and> (\<forall>p. below tmp p \<longrightarrow> map_of fs' p = None) \<and>
    (\<forall>p. \<not> below tmp p \<longrightarrow> p \<noteq> out \<longrightarrow> p \<noteq> out @ ''.merge.tmp'' \<longrightarrow> map_of fs' p = map_of fs p)"
  by (rule MergeSegments_ok [OF assms])

theorem merge_restores_witness:
  "\<exists>fs'. MergeSegments 0 no_errors (Inr ''/home/u'') demo_file_download demo_fs =
       Some (Inr (), demo_file_download, fs') \<and>
     map_of fs' ''/out/f.iso'' = Some ''hello'' \<and> map_of fs' ''/etc/x'' = Some ''y''"
proof -
  have t: "tempDir (Inr ''/home/u'') demo_file_download = Inr ''/tmp/a1''" by code_simp
  have o: "finalPath demo_file_download = Inr ''/out/f.iso''" by code_simp
  have f: "d_File demo_file_download = Some (zero_FileOptions\<lparr>f_Path := ''/out'', f_Filename := ''f.iso'', f_TempDir := ''/tmp''\<rparr>)"
    by (simp add: demo_file_download_def)
  have names: "part_name 0 = ''000000000.part''" "part_name 1 = ''000000001.part''" by code_simp+
  have only: "\<exists>i < length [''he'', ''llo'']. n = part_name (int i)"
    if "fs_exists demo_fs (entry ''/tmp/a1'' n)" for n
  proof -
    have "n = ''000000000.part'' \<or> n = ''000000001.part''"
      using that by (auto simp: fs_exists_def demo_fs_def entry_def slash_def)
    then have "n = part_name (int 0) \<or> n = part_name (int 1)"
      by (simp add: names)
    then show ?thesis
      by (metis (no_types) length_Cons list.size(3) less_Suc_eq One_nat_def)
  qed
  have here: "map_of demo_fs (entry ''/tmp/a1'' (part_name (int i))) = Some ([''he'', ''llo''] ! i)"
    if "i < length [''he'', ''llo'']" for i
  proof -
    have "i = 0 \<or> i = 1" using that by auto
    then show ?thesis by (auto simp: names entry_def slash_def demo_fs_def)
  qed
  have parts: "parts_are demo_fs ''/tmp/a1'' [''he'', ''llo'']"
    unfolding parts_are_def
  proof (intro conjI)
    show "int (length [''he'', ''llo'']) \<le> 10 ^ 9" by simp
  qed (use only here in blast)+
  from merge_restores [OF t o f parts, of 0] show ?thesis
    by (auto simp: below_def slash_def fs_exists_def demo_fs_def)
qed



text \<open>
  When \<open>os.Stat\<close> of the target fails for another reason than that it is missing, the code takes the
  target as free and overwrites it.
\<close>

lemma merge_stat_error_overwrites:
  "\<exists>d' fs'. MergeSegments 1 (no_errors(1 := Some (ErrOther ''permission denied''))) (Inr ''/home/u'') demo_file_download
       ((''/out/f.iso'', ''old'') # demo_fs) = Some (Inr (), d', fs') \<and>
     map_of fs' ''/out/f.iso'' = Some ''hello'' \<and> \<not> f_Overwrite (the (d_File demo_file_download))"
proof -
  let ?r = "MergeSegments 1 (no_errors(1 := Some (ErrOther ''permission denied''))) (Inr ''/home/u'') demo_file_download
       ((''/out/f.iso'', ''old'') # demo_fs)"
  have "(case ?r of Some (r, d', fs') \<Rightarrow> r = Inr () \<and> map_of fs' ''/out/f.iso'' = Some ''hello'' | None \<Rightarrow> False)"
    by code_simp
  moreover have "\<not> f_Overwrite (the (d_File demo_file_download))" by code_simp
  ultimately show ?thesis by (auto split: option.splits prod.splits)
qed

text \<open>
  Opening a segment creates its part when there is none and reports how many bytes it already
  holds; what is then written is appended to that part, and the parts of other segments are other
  files.
\<close>

lemma open_segment_resumes:
  assumes "tempDir home d = Inr tmp"
  shows "\<exists>p fs'. OpenSegmentWriter no_errors home d g fs = (Inr (p, int (length (fs_content fs p))), fs') \<and>
    p = entry tmp (part_name (s_Index g)) \<and>
    map_of (append_part p bytes fs') p = Some (fs_content fs p @ bytes) \<and>
    (\<forall>q. q \<noteq> p \<longrightarrow> map_of (append_part p bytes fs') q = map_of fs q)"
proof -
  have "Join [tmp, part_name (s_Index g)] = entry tmp (part_name (s_Index g))"
    by (rule Join_part [OF tempDir_clean [OF assms] part_name_plain])
  then show ?thesis
    using assms
    by (auto simp: OpenSegmentWriter_def Let_def append_part_def fs_content_def fs_exists_map)
qed

lemma open_segment_resumes_witness:
  "\<exists>fs'. OpenSegmentWriter no_errors (Inr ''/home/u'') demo_file_download (zero_Segment\<lparr>s_Index := 1\<rparr>) demo_fs =
     (Inr (''/tmp/a1/000000001.part'', 3), fs')"
proof -
  have t: "tempDir (Inr ''/home/u'') demo_file_download = Inr ''/tmp/a1''" by code_simp
  have e: "entry ''/tmp/a1'' (part_name 1) = ''/tmp/a1/000000001.part''" by code_simp
  show ?thesis
    using open_segment_resumes [OF t, of "zero_Segment\<lparr>s_Index := 1\<rparr>" demo_fs "[]"] e
    by (auto simp: fs_content_def demo_fs_def)
qed

end
