(* ===== verification/Service.thy ===== *)
theory Service
  imports Repo_Bulk RateLimit Events FileStore
begin

text \<open>
  \<open>DownloadServiceImpl\<close> of \<open>internal/service/download.go\<close>, \<open>RunInTx\<close> of the repository and the
  validator.  The state of the service holds the components it changes, the map of cancel functions
  and the runners it has spawned: a cancel function is the number of the run whose context it
  cancels.  A repository call has readings of the context and of the clock of its own (\<open>cxs j\<close>,
  \<open>cks j\<close> for the \<open>j\<close>-th call); the places of one call that read the clock are numbered in some fixed
  order.
\<close>

named_theorems svc_simps \<open>selectors and updates of the service state\<close>

section \<open>State\<close>

record run =
  run_of :: string
  run_live :: bool
  run_done :: bool

record 's svc =
  sv_db :: 's
  sv_pub :: "publisher option"
  sv_lim :: "limiter option"
  sv_fs :: "fsys option"
  sv_cancels :: "string \<rightharpoonup> nat"
  sv_runs :: "run list"

definition NewDownloadService ::
    "'s \<Rightarrow> publisher option \<Rightarrow> limiter option \<Rightarrow> fsys option \<Rightarrow> 's svc" where
  "NewDownloadService db pub rl fs =
     \<lparr>sv_db = db, sv_pub = pub, sv_lim = rl, sv_fs = fs, sv_cancels = Map.empty, sv_runs = []\<rparr>"

text \<open>\<open>models.Validator\<close> and \<open>validation.NoopValidator\<close>.\<close>

record validator =
  v_request :: "RequestOptions \<Rightarrow> unit res"
  v_config :: "DownloadConfig \<Rightarrow> unit res"
  v_file :: "FileOptions \<Rightarrow> unit res"

definition NoopValidator :: validator where
  "NoopValidator =
     \<lparr>v_request = (\<lambda>_. Inr ()), v_config = (\<lambda>_. Inr ()), v_file = (\<lambda>_. Inr ())\<rparr>"

section \<open>Transactions with a callback that has effects\<close>

text \<open>
  \<open>RunInTx\<close>: the callback gets the snapshot and may also change the world outside the transaction,
  the current database included; what it did there stays when the transaction is discarded or its
  commit fails.
\<close>

definition RunInTx ::
    "'s badger \<Rightarrow> gctx \<Rightarrow> ('s \<Rightarrow> 'w \<Rightarrow> ('a \<times> wr list) res \<times> 's \<times> 'w) \<Rightarrow> 's \<Rightarrow> 'w \<Rightarrow> 'a res \<times> 's \<times> 'w" where
  "RunInTx B cx fn s w =
     (case cx 0 of Some e \<Rightarrow> (Inl e, s, w)
      | None \<Rightarrow> (case bbegin B s of Some e \<Rightarrow> (Inl e, s, w)
        | None \<Rightarrow> (case cx 1 of Some e \<Rightarrow> (Inl e, s, w)
          | None \<Rightarrow> (case fn s w of
              (Inl e, s', w') \<Rightarrow> (Inl e, s', w')
            | (Inr (a, tx), s', w') \<Rightarrow> (case bcommit B s tx s' of
                Inl e \<Rightarrow> (Inl e, s', w')
              | Inr s'' \<Rightarrow> (Inr a, s'', w'))))))"

section \<open>Events\<close>

definition mapStatusToEvent :: "DownloadStatus \<Rightarrow> DownloadEventType" where
  "mapStatusToEvent st =
     (if st = StatusQueued then EventEnqueued
      else if st = StatusRunning then EventStarted
      else if st = StatusPaused then EventPaused
      else if st = StatusCompleted then EventCompleted
      else if st = StatusFailed then EventFailed
      else if st = StatusCancelled then EventCancelled
      else EventProgress)"

definition svc_publish ::
    "gtime \<Rightarrow> publisher option \<Rightarrow> DownloadEventType \<Rightarrow> Download \<Rightarrow> event_data \<Rightarrow> publisher option res" where
  "svc_publish now pub typ d dat =
     (case pub of
        None \<Rightarrow> Inr None
      | Some p \<Rightarrow> bindE (Publish p \<lparr>ev_Type = typ, ev_Download = d, ev_Timestamp = now, ev_Data = dat\<rparr>)
          (\<lambda>p. Inr (Some p)))"

section \<open>Enqueue, read and remove\<close>

definition validate :: "validator option \<Rightarrow> (validator \<Rightarrow> 'a \<Rightarrow> unit res) \<Rightarrow> 'a \<Rightarrow> unit res" where
  "validate V check x = (case V of None \<Rightarrow> Inr () | Some v \<Rightarrow> check v x)"

text \<open>The request of the download, and the download that is created; \<open>uid\<close> is \<open>uuid.NewString()\<close>.\<close>

definition enqueue_request :: "EnqueueDownloadRequest \<Rightarrow> RequestOptions" where
  "enqueue_request req =
     (case e_Request req of None \<Rightarrow> zero_RequestOptions\<lparr>r_URL := e_URL req\<rparr> | Some r \<Rightarrow> r)"

definition enqueue_download :: "string \<Rightarrow> gtime \<Rightarrow> EnqueueDownloadRequest \<Rightarrow> Download" where
  "enqueue_download uid now req =
     (let r = enqueue_request req
      in zero_Download\<lparr>d_ID := uid, d_URL := r_URL r,
           d_QueueID := (if e_QueueID req = [] then DefaultQueueName else e_QueueID req),
           d_Priority := e_Priority req, d_Tags := e_Tags req, d_Request := Some r,
           d_Config := e_Config req, d_File := e_File req, d_Status := StatusQueued,
           d_CreatedAt := now, d_UpdatedAt := now\<rparr>)"

definition Enqueue ::
    "'s badger \<Rightarrow> stdlib \<Rightarrow> validator option \<Rightarrow> gctx \<Rightarrow> clock \<Rightarrow> string \<Rightarrow> EnqueueDownloadRequest \<Rightarrow> 's svc \<Rightarrow>
       EnqueueDownloadResponse res \<times> 's svc" where
  "Enqueue B L V cx ck uid req sv =
     (if e_URL req = [] \<and> (case e_Request req of None \<Rightarrow> True | Some r \<Rightarrow> r_URL r = [])
      then (Inl (ErrText ''url is required''), sv)
      else case validate V v_request (enqueue_request req) of
        Inl e \<Rightarrow> (Inl e, sv)
      | Inr _ \<Rightarrow>
          (case CreateDownload B L cx (skip 2 ck) (sv_db sv) (enqueue_download uid (ck 0) req) of
             (Inl e, s) \<Rightarrow> (Inl e, sv\<lparr>sv_db := s\<rparr>)
           | (Inr d, s) \<Rightarrow>
               let sv = sv\<lparr>sv_db := s\<rparr>
               in (case svc_publish (ck 1) (sv_pub sv) EventEnqueued d NoData of
                     Inl e \<Rightarrow> (Inl e, sv)
                   | Inr p \<Rightarrow> (Inr \<lparr>er_ID = d_ID d, er_QueueID = d_QueueID d, er_Status = d_Status d\<rparr>,
                       sv\<lparr>sv_pub := p\<rparr>))))"

definition svc_Get :: "'s badger \<Rightarrow> gctx \<Rightarrow> 's svc \<Rightarrow> string \<Rightarrow> Download res" where
  "svc_Get B cx sv did = GetDownload B cx (sv_db sv) did"

definition svc_List ::
    "'s badger \<Rightarrow> stdlib \<Rightarrow> gctx \<Rightarrow> 's svc \<Rightarrow> ListDownloadsOptions \<Rightarrow> int \<Rightarrow> int \<Rightarrow> Download list res" where
  "svc_List B L cx sv opt limit offset = ListDownloads B L cx (sv_db sv) opt limit offset"

definition svc_Count :: "'s badger \<Rightarrow> stdlib \<Rightarrow> gctx \<Rightarrow> 's svc \<Rightarrow> ListDownloadsOptions \<Rightarrow> int res" where
  "svc_Count B L cx sv opt = CountDownloads B L cx (sv_db sv) opt"

text \<open>
  Removing files may fail or panic: an error is dropped, a panic is not.
\<close>

fun is_panic :: "gerr \<Rightarrow> bool" where
  "is_panic (ErrPanic m) = True"
| "is_panic e = False"

definition remove_files :: "oserrs \<Rightarrow> string res \<Rightarrow> Download \<Rightarrow> fsys option \<Rightarrow> unit res \<times> fsys option" where
  "remove_files io home d fs =
     (case fs of None \<Rightarrow> (Inr (), None)
      | Some fs \<Rightarrow> (case RemoveDownloadFiles io home d fs of
          (Inl e, fs') \<Rightarrow> ((if is_panic e then Inl e else Inr ()), Some fs')
        | (Inr _, fs') \<Rightarrow> (Inr (), Some fs')))"

definition Remove ::
    "'s badger \<Rightarrow> stdlib \<Rightarrow> oserrs \<Rightarrow> string res \<Rightarrow> gctxs \<Rightarrow> clock \<Rightarrow> string \<Rightarrow> bool \<Rightarrow> 's svc \<Rightarrow>
       unit res \<times> 's svc" where
  "Remove B L io home cxs ck did deleteFiles sv =
     (case GetDownload B (cxs 0) (sv_db sv) did of
        Inl e \<Rightarrow> (Inl e, sv)
      | Inr d \<Rightarrow> (case DeleteDownload B L (cxs 1) (skip 1 ck) (sv_db sv) did of
          (Inl e, s) \<Rightarrow> (Inl e, sv\<lparr>sv_db := s\<rparr>)
        | (Inr _, s) \<Rightarrow>
            let (r, fs) = (if deleteFiles then remove_files io home d (sv_fs sv) else (Inr (), sv_fs sv));
                sv = sv\<lparr>sv_db := s, sv_fs := fs\<rparr>
            in (case r of Inl e \<Rightarrow> (Inl e, sv)
                | Inr _ \<Rightarrow> (case svc_publish (ck 0) (sv_pub sv) EventCancelled d (DeletedData True) of
                    Inl e \<Rightarrow> (Inl e, sv)
                  | Inr p \<Rightarrow> (Inr (), sv\<lparr>sv_pub := p\<rparr>)))))"

section \<open>Changing one download in a transaction\<close>

definition modify_in_tx ::
    "'s badger \<Rightarrow> stdlib \<Rightarrow> gctx \<Rightarrow> clock \<Rightarrow> string \<Rightarrow> (Download \<Rightarrow> Download) \<Rightarrow> 's svc \<Rightarrow> unit res \<times> 's svc" where
  "modify_in_tx B L cx ck did f sv =
     (let (r, s, w) = RunInTx B cx
            (\<lambda>s w. (bindE (txGetDownload B (skip 2 cx) s [] did) (\<lambda>d.
                bindE (updateDownloadTxn B L (skip 3 cx) ck s (f d) []) (\<lambda>(d, tx). Inr ((), tx))), s, w))
            (sv_db sv) ()
      in (r, sv\<lparr>sv_db := s\<rparr>))"

definition UpdateConfig ::
    "'s badger \<Rightarrow> stdlib \<Rightarrow> validator option \<Rightarrow> gctx \<Rightarrow> clock \<Rightarrow> string \<Rightarrow> DownloadConfig \<Rightarrow> 's svc \<Rightarrow>
       unit res \<times> 's svc" where
  "UpdateConfig B L V cx ck did cfg sv =
     (case validate V v_config cfg of Inl e \<Rightarrow> (Inl e, sv)
      | Inr _ \<Rightarrow> modify_in_tx B L cx ck did (\<lambda>d. d\<lparr>d_Config := Some cfg\<rparr>) sv)"

definition UpdateRequest ::
    "'s badger \<Rightarrow> stdlib \<Rightarrow> validator option \<Rightarrow> gctx \<Rightarrow> clock \<Rightarrow> string \<Rightarrow> RequestOptions \<Rightarrow> 's svc \<Rightarrow>
       unit res \<times> 's svc" where
  "UpdateRequest B L V cx ck did req sv =
     (case validate V v_request req of Inl e \<Rightarrow> (Inl e, sv)
      | Inr _ \<Rightarrow> modify_in_tx B L cx ck did (\<lambda>d. d\<lparr>d_Request := Some req\<rparr>) sv)"

definition SetPriority ::
    "'s badger \<Rightarrow> stdlib \<Rightarrow> gctx \<Rightarrow> clock \<Rightarrow> string \<Rightarrow> int \<Rightarrow> 's svc \<Rightarrow> unit res \<times> 's svc" where
  "SetPriority B L cx ck did priority =
     modify_in_tx B L cx ck did (\<lambda>d. d\<lparr>d_Priority := priority\<rparr>)"

fun add_tags :: "stdlib \<Rightarrow> string set \<Rightarrow> string list \<Rightarrow> string list \<Rightarrow> string list" where
  "add_tags L existing tags [] = tags"
| "add_tags L existing tags (t # ts) =
     (if t = [] then add_tags L existing tags ts
      else let lt = ToLower (lib_lower L) t
           in if lt \<in> existing then add_tags L existing tags ts
              else add_tags L (insert lt existing) (tags @ [t]) ts)"

definition with_tags :: "stdlib \<Rightarrow> string list \<Rightarrow> Download \<Rightarrow> Download" where
  "with_tags L tags d =
     d\<lparr>d_Tags := add_tags L (set (map (ToLower (lib_lower L)) (d_Tags d))) (d_Tags d) tags\<rparr>"

definition without_tags :: "stdlib \<Rightarrow> string list \<Rightarrow> Download \<Rightarrow> Download" where
  "without_tags L tags d =
     (let remove = set (map (ToLower (lib_lower L)) tags)
      in d\<lparr>d_Tags := filter (\<lambda>t. ToLower (lib_lower L) t \<notin> remove) (d_Tags d)\<rparr>)"

definition AddTags ::
    "'s badger \<Rightarrow> stdlib \<Rightarrow> gctx \<Rightarrow> clock \<Rightarrow> string \<Rightarrow> string list \<Rightarrow> 's svc \<Rightarrow> unit res \<times> 's svc" where
  "AddTags B L cx ck did tags = modify_in_tx B L cx ck did (with_tags L tags)"

definition RemoveTags ::
    "'s badger \<Rightarrow> stdlib \<Rightarrow> gctx \<Rightarrow> clock \<Rightarrow> string \<Rightarrow> string list \<Rightarrow> 's svc \<Rightarrow> unit res \<times> 's svc" where
  "RemoveTags B L cx ck did tags = modify_in_tx B L cx ck did (without_tags L tags)"

definition AssignQueue ::
    "'s badger \<Rightarrow> stdlib \<Rightarrow> gctx \<Rightarrow> clock \<Rightarrow> string \<Rightarrow> string \<Rightarrow> 's svc \<Rightarrow> unit res \<times> 's svc" where
  "AssignQueue B L cx ck did queueID = modify_in_tx B L cx ck did (\<lambda>d. d\<lparr>d_QueueID := queueID\<rparr>)"

text \<open>
  \<open>updateStatus\<close>: the event is published inside the transaction, before the commit.  \<open>mutate\<close> gets a
  reading of the clock, which only \<open>Start\<close> uses.
\<close>

definition updateStatus ::
    "'s badger \<Rightarrow> stdlib \<Rightarrow> gctx \<Rightarrow> clock \<Rightarrow> string \<Rightarrow> DownloadStatus \<Rightarrow> (gtime \<Rightarrow> Download \<Rightarrow> Download) \<Rightarrow>
       's svc \<Rightarrow> unit res \<times> 's svc" where
  "updateStatus B L cx ck did status mutate sv =
     (let (r, s, p) = RunInTx B cx
            (\<lambda>s p. case bindE (txGetDownload B (skip 2 cx) s [] did) (\<lambda>d.
                let d = d\<lparr>d_Status := status\<rparr>;
                    d = mutate (ck 0) d;
                    d = d\<lparr>d_UpdatedAt := ck 1\<rparr>
                in updateDownloadTxn B L (skip 3 cx) (skip 3 ck) s d []) of
               Inl e \<Rightarrow> (Inl e, s, p)
             | Inr (d, tx) \<Rightarrow> (case svc_publish (ck 2) p (mapStatusToEvent status) d NoData of
                 Inl e \<Rightarrow> (Inl e, s, p)
               | Inr p' \<Rightarrow> (Inr ((), tx), s, p')))
            (sv_db sv) (sv_pub sv)
      in (r, sv\<lparr>sv_db := s, sv_pub := p\<rparr>))"

section \<open>Starting and stopping runs\<close>

text \<open>
  Between the sections under the mutex another call may run, so \<open>Start\<close> is three steps: the check,
  the change of status with the limit before it, and the registration of a new run.
\<close>

definition start_check :: "string \<Rightarrow> 's svc \<Rightarrow> bool" where
  "start_check did sv \<longleftrightarrow> sv_cancels sv did = None"

definition start_limit :: "'s badger \<Rightarrow> gctx \<Rightarrow> gtime \<Rightarrow> string \<Rightarrow> 's svc \<Rightarrow> limiter option res" where
  "start_limit B cx now did sv =
     (case sv_lim sv of
        None \<Rightarrow> Inr None
      | Some rl \<Rightarrow> (case GetDownload B cx (sv_db sv) did of
          Inl e \<Rightarrow> Inr (Some rl)
        | Inr d \<Rightarrow> (case d_Config d of
            None \<Rightarrow> Inr (Some rl)
          | Some c \<Rightarrow> if 0 < c_RateLimit c
              then bindE (SetLimit now rl did (c_RateLimit c)) (\<lambda>rl. Inr (Some rl))
              else Inr (Some rl))))"

definition start_status ::
    "'s badger \<Rightarrow> stdlib \<Rightarrow> gctxs \<Rightarrow> clock \<Rightarrow> string \<Rightarrow> 's svc \<Rightarrow> unit res \<times> 's svc" where
  "start_status B L cxs ck did sv =
     (case start_limit B (cxs 0) (ck 0) did sv of
        Inl e \<Rightarrow> (Inl e, sv)
      | Inr rl \<Rightarrow> updateStatus B L (cxs 1) (skip 1 ck) did StatusRunning
          (\<lambda>now d. d\<lparr>d_StartedAt := Some now\<rparr>) (sv\<lparr>sv_lim := rl\<rparr>))"

definition resume_status ::
    "'s badger \<Rightarrow> stdlib \<Rightarrow> gctx \<Rightarrow> clock \<Rightarrow> string \<Rightarrow> 's svc \<Rightarrow> unit res \<times> 's svc" where
  "resume_status B L cx ck did = updateStatus B L cx ck did StatusRunning (\<lambda>now d. d)"

definition spawn_run :: "string \<Rightarrow> 's svc \<Rightarrow> 's svc" where
  "spawn_run did sv =
     sv\<lparr>sv_cancels := (sv_cancels sv)(did \<mapsto> length (sv_runs sv)),
        sv_runs := sv_runs sv @ [\<lparr>run_of = did, run_live = True, run_done = False\<rparr>]\<rparr>"

text \<open>The end of a run: whatever cancel function is registered for its download is forgotten.\<close>

definition finish_run :: "nat \<Rightarrow> 's svc \<Rightarrow> 's svc" where
  "finish_run r sv =
     sv\<lparr>sv_cancels := (sv_cancels sv)(run_of (sv_runs sv ! r) := None),
        sv_runs := (sv_runs sv)[r := (sv_runs sv ! r)\<lparr>run_done := True\<rparr>]\<rparr>"

definition cancel_run :: "string \<Rightarrow> 's svc \<Rightarrow> 's svc" where
  "cancel_run did sv =
     (case sv_cancels sv did of
        None \<Rightarrow> sv
      | Some r \<Rightarrow> sv\<lparr>sv_cancels := (sv_cancels sv)(did := None),
          sv_runs := (sv_runs sv)[r := (sv_runs sv ! r)\<lparr>run_live := False\<rparr>]\<rparr>)"

definition Start ::
    "'s badger \<Rightarrow> stdlib \<Rightarrow> gctxs \<Rightarrow> clock \<Rightarrow> string \<Rightarrow> 's svc \<Rightarrow> unit res \<times> 's svc" where
  "Start B L cxs ck did sv =
     (if \<not> start_check did sv then (Inr (), sv)
      else case start_status B L cxs ck did sv of
        (Inl e, sv) \<Rightarrow> (Inl e, sv)
      | (Inr _, sv) \<Rightarrow> (Inr (), spawn_run did sv))"

definition Pause ::
    "'s badger \<Rightarrow> stdlib \<Rightarrow> gctx \<Rightarrow> clock \<Rightarrow> string \<Rightarrow> 's svc \<Rightarrow> unit res \<times> 's svc" where
  "Pause B L cx ck did sv = updateStatus B L cx ck did StatusPaused (\<lambda>now d. d) (cancel_run did sv)"

definition Resume ::
    "'s badger \<Rightarrow> stdlib \<Rightarrow> gctx \<Rightarrow> clock \<Rightarrow> string \<Rightarrow> 's svc \<Rightarrow> unit res \<times> 's svc" where
  "Resume B L cx ck did sv =
     (case resume_status B L cx ck did sv of
        (Inl e, sv) \<Rightarrow> (Inl e, sv)
      | (Inr _, sv) \<Rightarrow> (Inr (), spawn_run did sv))"

definition Cancel ::
    "'s badger \<Rightarrow> stdlib \<Rightarrow> gctx \<Rightarrow> clock \<Rightarrow> string \<Rightarrow> 's svc \<Rightarrow> unit res \<times> 's svc" where
  "Cancel B L cx ck did sv =
     updateStatus B L cx ck did StatusCancelled (\<lambda>now d. d) (cancel_run did sv)"

end
