(* ===== verification/Service_Laws.thy ===== *)
theory Service_Laws
  imports Service
begin

text \<open>
  What the operations of \<open>DownloadServiceImpl\<close> do when nothing fails, and what an error leaves behind.
  The reads and updates inside \<open>RunInTx\<close> go through the contract \<open>download_txn\<close>, the publications
  through \<open>event_publisher\<close>; \<open>rewrote\<close> is the effect on the database.
\<close>

section \<open>Transactions and events\<close>

definition alive :: "nat \<Rightarrow> gctx \<Rightarrow> bool" where
  "alive n cx \<longleftrightarrow> (\<forall>k < n. cx k = None)"

lemma alive_at: "alive n cx \<Longrightarrow> k < n \<Longrightarrow> cx k = None"
  by (simp add: alive_def)

lemma alive_live [simp]: "alive n live"
  by (simp add: alive_def live_apply)

lemma bindE_assoc: "bindE (bindE m f) g = bindE m (\<lambda>x. bindE (f x) g)"
  by (cases m) simp_all

lemma RunInTx_commit:
  assumes "badger_laws B" "badger_quiet B" "cx 0 = None" "cx 1 = None"
    and "fn s w = (Inr (a, tx), s, w')"
  shows "\<exists>s'. RunInTx B cx fn s w = (Inr a, s', w') \<and> bdata B s' = apply_writes tx (bdata B s)"
proof -
  from quiet_commit [OF assms(2)] obtain s' where c: "bcommit B s tx s = Inr s'" by blast
  with assms have "RunInTx B cx fn s w = (Inr a, s', w')"
    by (simp add: RunInTx_def quiet_begin)
  with badger_commit [OF assms(1) c] show ?thesis by blast
qed

lemma RunInTx_abort:
  assumes "badger_quiet B" "cx 0 = None" "cx 1 = None" "fn s w = (Inl e, s', w')"
  shows "RunInTx B cx fn s w = (Inl e, s', w')"
  using assms by (simp add: RunInTx_def quiet_begin)

lemma RunInTx_keeps:
  assumes "fst (RunInTx B cx fn s w) = Inl e" "fst (snd (fn s w)) = s"
  shows "fst (snd (RunInTx B cx fn s w)) = s"
  using assms by (auto simp: RunInTx_def split: option.splits prod.splits sum.splits)

definition pub_ready :: "publisher option \<Rightarrow> bool" where
  "pub_ready pub = (case pub of None \<Rightarrow> True | Some p \<Rightarrow> publisher_ok p)"

lemma svc_publish_ready:
  assumes "pub_ready pub"
  shows "\<exists>pub'. svc_publish now pub typ d dat = Inr pub' \<and> pub_ready pub'"
proof (cases pub)
  case (Some p)
  with assms bus.pub_returns [of p "\<lparr>ev_Type = typ, ev_Download = d, ev_Timestamp = now, ev_Data = dat\<rparr>"]
  show ?thesis by (auto simp: svc_publish_def pub_ready_def)
qed (simp add: svc_publish_def pub_ready_def)

section \<open>Rewriting one row\<close>

definition rewrote :: "'s badger \<Rightarrow> stdlib \<Rightarrow> string \<Rightarrow> Download \<Rightarrow> 's \<Rightarrow> 's \<Rightarrow> bool" where
  "rewrote B L did d s s' \<longleftrightarrow>
     stored (bdata B s') = (stored (bdata B s))(did \<mapsto> d) \<and> repo_ok L (bdata B s') \<and>
     others (bdata B s') = others (bdata B s)"

lemma tx_modify:
  assumes "badger_laws B" "badger_quiet B" "repo_ok L (bdata B s)" "alive 4 cx"
    and "stored (bdata B s) did = Some d" "d_ID (f d) = did"
  shows "\<exists>tx. bindE (txGetDownload B (skip 2 cx) s [] did) (\<lambda>d.
      updateDownloadTxn B L (skip 3 cx) ck s (f d) []) = Inr (updated ck d (f d), tx) \<and>
    (\<forall>s'. bdata B s' = apply_writes tx (bdata B s) \<longrightarrow> rewrote B L did (updated ck d (f d)) s s')"
proof -
  have wf: "txn_wf B L (skip 2 cx) s []"
    using assms(1-4) by (simp add: txn_wf_def alive_def)
  have st: "stored (txview B s []) did = Some d" using assms(5) by simp
  from tx.modify_found [where f = f and ck = ck, OF wf st assms(6)] obtain tx where
    "bindE (txGetDownload B (skip 2 cx) s [] did)
       (\<lambda>d. updateDownloadTxn B L (skip 1 (skip 2 cx)) ck s (f d) []) = Inr (updated ck d (f d), tx)"
    "txn_wf B L (skip 2 cx) s tx"
    "stored (txview B s tx) = (stored (txview B s []))(did \<mapsto> updated ck d (f d))"
    "others (txview B s tx) = others (txview B s [])" by blast
  then show ?thesis by (auto simp: rewrote_def txn_wf_def txview_def)
qed

lemma tx_modify_missing:
  assumes "badger_laws B" "badger_quiet B" "repo_ok L (bdata B s)" "alive 4 cx"
    and "stored (bdata B s) did = None"
  shows "txGetDownload B (skip 2 cx) s [] did = Inl ErrNotFound"
proof -
  have wf: "txn_wf B L (skip 2 cx) s []"
    using assms(1-4) by (simp add: txn_wf_def alive_def)
  show ?thesis by (rule tx.get_missing [OF wf]) (use assms(5) in simp)
qed

lemma modify_in_tx_found:
  assumes "badger_laws B" "badger_quiet B" "repo_ok L (bdata B (sv_db sv))" "alive 4 cx"
    and "stored (bdata B (sv_db sv)) did = Some d" "d_ID (f d) = did"
  shows "\<exists>s'. modify_in_tx B L cx ck did f sv = (Inr (), sv\<lparr>sv_db := s'\<rparr>) \<and>
    rewrote B L did (updated ck d (f d)) (sv_db sv) s'"
proof -
  from tx_modify [where f = f and ck = ck, OF assms] obtain tx where
    tx: "bindE (txGetDownload B (skip 2 cx) (sv_db sv) [] did) (\<lambda>d.
      updateDownloadTxn B L (skip 3 cx) ck (sv_db sv) (f d) []) = Inr (updated ck d (f d), tx)"
    "\<forall>s'. bdata B s' = apply_writes tx (bdata B (sv_db sv)) \<longrightarrow>
       rewrote B L did (updated ck d (f d)) (sv_db sv) s'" by blast
  let ?fn = "\<lambda>s (w :: unit). (bindE (txGetDownload B (skip 2 cx) s [] did) (\<lambda>d.
    bindE (updateDownloadTxn B L (skip 3 cx) ck s (f d) []) (\<lambda>(d, tx). Inr ((), tx))), s, w)"
  have fn: "?fn (sv_db sv) () = (Inr ((), tx), sv_db sv, ())"
    using tx(1) by (simp add: bindE_assoc [symmetric])
  from RunInTx_commit [where fn = ?fn and cx = cx, OF assms(1,2) _ _ fn] assms(4) tx(2) show ?thesis
    by (auto simp: modify_in_tx_def alive_def)
qed

lemma modify_in_tx_missing:
  assumes "badger_laws B" "badger_quiet B" "repo_ok L (bdata B (sv_db sv))" "alive 4 cx"
    and "stored (bdata B (sv_db sv)) did = None"
  shows "modify_in_tx B L cx ck did f sv = (Inl ErrNotFound, sv)"
  using tx_modify_missing [OF assms] assms(2,4)
  by (simp add: modify_in_tx_def RunInTx_def quiet_begin alive_def)

lemma modify_in_tx_error:
  assumes "modify_in_tx B L cx ck did f sv = (Inl e, sv')"
  shows "sv' = sv"
  using assms by (auto simp: modify_in_tx_def case_prod_beta RunInTx_keeps)

section \<open>Changing the status\<close>

definition status_row ::
    "clock \<Rightarrow> DownloadStatus \<Rightarrow> (gtime \<Rightarrow> Download \<Rightarrow> Download) \<Rightarrow> Download \<Rightarrow> Download" where
  "status_row ck status mutate d =
     (mutate (ck 0) (d\<lparr>d_Status := status\<rparr>))\<lparr>d_UpdatedAt := ck 3\<rparr>"

lemma updateStatus_found:
  assumes "badger_laws B" "badger_quiet B" "repo_ok L (bdata B (sv_db sv))" "alive 4 cx"
    and "stored (bdata B (sv_db sv)) did = Some d" "pub_ready (sv_pub sv)"
    and mut: "\<And>d t. d_ID (mutate t d) = d_ID d" "\<And>d t. d_CreatedAt (mutate t d) = d_CreatedAt d"
  shows "\<exists>s' p'. updateStatus B L cx ck did status mutate sv = (Inr (), sv\<lparr>sv_db := s', sv_pub := p'\<rparr>) \<and>
    rewrote B L did (status_row ck status mutate d) (sv_db sv) s' \<and>
    svc_publish (ck 2) (sv_pub sv) (mapStatusToEvent status) (status_row ck status mutate d) NoData = Inr p'"
proof -
  let ?f = "\<lambda>d. (mutate (ck 0) (d\<lparr>d_Status := status\<rparr>))\<lparr>d_UpdatedAt := ck 1\<rparr>"
  have v: "valid_download did d" by (rule repo_ok_valid [OF assms(3,5)])
  then have "\<not> IsZero (d_CreatedAt (?f d))" "d_ID (?f d) = did"
    by (simp_all add: valid_download_def mut)
  then have row: "updated (skip 3 ck) d (?f d) = status_row ck status mutate d"
    by (simp add: updated_keep status_row_def)
  from tx_modify [where f = ?f and ck = "skip 3 ck", OF assms(1-5) \<open>d_ID (?f d) = did\<close>] row
  obtain tx where
    tx: "bindE (txGetDownload B (skip 2 cx) (sv_db sv) [] did) (\<lambda>d.
      updateDownloadTxn B L (skip 3 cx) (skip 3 ck) (sv_db sv) (?f d) []) =
        Inr (status_row ck status mutate d, tx)"
    "\<forall>s'. bdata B s' = apply_writes tx (bdata B (sv_db sv)) \<longrightarrow>
       rewrote B L did (status_row ck status mutate d) (sv_db sv) s'" by auto
  from svc_publish_ready [OF assms(6)] obtain p' where
    p: "svc_publish (ck 2) (sv_pub sv) (mapStatusToEvent status) (status_row ck status mutate d) NoData = Inr p'"
    by blast
  let ?fn = "\<lambda>s p. case bindE (txGetDownload B (skip 2 cx) s [] did) (\<lambda>d.
        updateDownloadTxn B L (skip 3 cx) (skip 3 ck) s (?f d) []) of
      Inl e \<Rightarrow> (Inl e, s, p)
    | Inr (d, tx) \<Rightarrow> (case svc_publish (ck 2) p (mapStatusToEvent status) d NoData of
        Inl e \<Rightarrow> (Inl e, s, p)
      | Inr p' \<Rightarrow> (Inr ((), tx), s, p'))"
  have fn: "?fn (sv_db sv) (sv_pub sv) = (Inr ((), tx), sv_db sv, p')"
    using tx(1) p by simp
  from RunInTx_commit [where fn = ?fn and cx = cx, OF assms(1,2) _ _ fn] assms(4) obtain s' where
    "RunInTx B cx ?fn (sv_db sv) (sv_pub sv) = (Inr (), s', p')"
    "bdata B s' = apply_writes tx (bdata B (sv_db sv))" by (auto simp: alive_def)
  with tx(2) p show ?thesis by (auto simp: updateStatus_def Let_def)
qed

lemma updateStatus_missing:
  assumes "badger_laws B" "badger_quiet B" "repo_ok L (bdata B (sv_db sv))" "alive 4 cx"
    and "stored (bdata B (sv_db sv)) did = None"
  shows "updateStatus B L cx ck did status mutate sv = (Inl ErrNotFound, sv)"
  using tx_modify_missing [OF assms] assms(2,4)
  by (simp add: updateStatus_def RunInTx_def quiet_begin alive_def)

section \<open>Tags\<close>

lemma add_tags_spec:
  assumes "existing = set (map (ToLower (lib_lower L)) tags)"
  shows "\<exists>new. add_tags L existing tags ts = tags @ new \<and> set new \<subseteq> set ts - {[]} \<and>
    distinct (map (ToLower (lib_lower L)) new) \<and>
    set (map (ToLower (lib_lower L)) new) \<inter> existing = {} \<and>
    existing \<union> set (map (ToLower (lib_lower L)) new) =
      existing \<union> ToLower (lib_lower L) ` (set ts - {[]})"
  using assms
proof (induction L existing tags ts rule: add_tags.induct)
  case (2 L existing tags t ts)
  let ?low = "ToLower (lib_lower L)"
  consider "t = []" | "t \<noteq> []" "?low t \<in> existing" | "t \<noteq> []" "?low t \<notin> existing" by blast
  then show ?case
  proof cases
    case 1
    then show ?thesis using "2.IH"(1) [OF 1 "2.prems"] by (auto simp: insert_Diff_if)
  next
    case 2
    from "2.IH"(2) [OF 2(1) refl 2(2) "2.prems"] obtain new where
      new: "add_tags L existing tags ts = tags @ new" "set new \<subseteq> set ts - {[]}"
      "distinct (map ?low new)" "set (map ?low new) \<inter> existing = {}"
      "existing \<union> set (map ?low new) = existing \<union> ?low ` (set ts - {[]})" by blast
    show ?thesis
      by (rule exI [of _ new]) (use 2 new in \<open>auto simp: insert_Diff_if\<close>)
  next
    case 3
    have "insert (?low t) existing = set (map ?low (tags @ [t]))" using "2.prems" by simp
    from "2.IH"(3) [OF 3(1) refl 3(2) this] obtain new where
      new: "add_tags L (insert (?low t) existing) (tags @ [t]) ts = (tags @ [t]) @ new"
      "set new \<subseteq> set ts - {[]}" "distinct (map ?low new)"
      "set (map ?low new) \<inter> insert (?low t) existing = {}"
      "insert (?low t) existing \<union> set (map ?low new) = insert (?low t) existing \<union> ?low ` (set ts - {[]})"
      by blast
    show ?thesis
      by (rule exI [of _ "t # new"]) (use 3 new in \<open>auto simp: insert_Diff_if\<close>)
  qed
qed simp

lemma with_tags_append:
  "\<exists>new. d_Tags (with_tags L ts d) = d_Tags d @ new \<and> set new \<subseteq> set ts - {[]} \<and>
    distinct (map (ToLower (lib_lower L)) new) \<and>
    ToLower (lib_lower L) ` set new \<inter> ToLower (lib_lower L) ` set (d_Tags d) = {} \<and>
    ToLower (lib_lower L) ` set (d_Tags d @ new) =
      ToLower (lib_lower L) ` set (d_Tags d) \<union> ToLower (lib_lower L) ` (set ts - {[]})"
  using add_tags_spec [OF refl, of L "d_Tags d" ts] by (auto simp: with_tags_def image_Un)

section \<open>Properties\<close>

definition demo_svc :: "mem svc" where
  "demo_svc = NewDownloadService demo_store (Some NewInMemoryPublisher) (Some NewLimiter) None"

lemma demo_svc_sel [simp]:
  "sv_db demo_svc = demo_store" "sv_pub demo_svc = Some NewInMemoryPublisher"
  "sv_lim demo_svc = Some NewLimiter" "sv_cancels demo_svc = Map.empty" "sv_runs demo_svc = []"
  by (simp_all add: demo_svc_def NewDownloadService_def)

lemma NewInMemoryPublisher_ready [simp]: "pub_ready (Some NewInMemoryPublisher)"
  using reach_ok [OF reach_new] by (auto simp: pub_ready_def publisher_ok_def)

lemma demo_svc_facts:
  "badger_laws mem_badger" "badger_quiet mem_badger" "repo_ok basic_lib (bdata mem_badger (sv_db demo_svc))"
  "stored (bdata mem_badger (sv_db demo_svc)) ''a1'' = Some (created demo_clock demo_download)"
  "pub_ready (sv_pub demo_svc)"
  using demo_repo_ok demo_stored by (simp_all add: mem_badger_laws mem_badger_quiet)

text \<open>
  C20.  Enqueueing stores a download only when it names a URL and the validator accepts its request:
  otherwise it returns the error and changes nothing.  What is stored under the new id is a queued
  download with the priority, the tags, the request, the configuration and the file options of the body,
  in the queue that it names or else \<open>main\<close>, with the URL of the request options when they are given
  (whatever the URL of the body), the times of the call and no other field set; every other row stays.
  The answer holds its id, queue and status, and the event is published.
\<close>

theorem enqueue_correct:
  fixes req :: EnqueueDownloadRequest and ck :: clock
  assumes "badger_laws B" "badger_quiet B" "repo_ok L (bdata B (sv_db sv))" "pub_ready (sv_pub sv)"
    and "clock_ok ck" "alive 3 cx"
    and "uid \<noteq> []" "bar \<notin> set uid" "stored (bdata B (sv_db sv)) uid = None"
  defines "r \<equiv> (case e_Request req of Some r \<Rightarrow> r | None \<Rightarrow> zero_RequestOptions\<lparr>r_URL := e_URL req\<rparr>)"
    and "q \<equiv> (if e_QueueID req = [] then ''main'' else e_QueueID req)"
  defines "d \<equiv> zero_Download\<lparr>d_ID := uid, d_URL := r_URL r, d_QueueID := q, d_Priority := e_Priority req,
      d_Tags := e_Tags req, d_Request := Some r, d_Config := e_Config req, d_File := e_File req,
      d_Status := ''queued'', d_CreatedAt := ck 0, d_UpdatedAt := ck 3\<rparr>"
  shows "if e_URL req = [] \<and> r_URL r = [] then Enqueue B L V cx ck uid req sv = (Inl (ErrText ''url is required''), sv)
    else case (case V of None \<Rightarrow> Inr () | Some v \<Rightarrow> v_request v r) of
      Inl e \<Rightarrow> Enqueue B L V cx ck uid req sv = (Inl e, sv)
    | Inr u \<Rightarrow> \<exists>s' p'. Enqueue B L V cx ck uid req sv =
        (Inr \<lparr>er_ID = uid, er_QueueID = q, er_Status = ''queued''\<rparr>, sv\<lparr>sv_db := s', sv_pub := p'\<rparr>) \<and>
        rewrote B L uid d (sv_db sv) s' \<and> svc_publish (ck 1) (sv_pub sv) EventEnqueued d NoData = Inr p'"
proof -
  let ?d = "enqueue_download uid (ck 0) req"
  have sel: "d_ID ?d = uid" "d_CreatedAt ?d = ck 0" by (simp_all add: enqueue_download_def Let_def)
  have r: "enqueue_request req = r" by (simp add: enqueue_request_def r_def split: option.split)
  have nz: "\<not> IsZero (ck 0)" by (rule clock_ok_apply [OF assms(5)])
  have d: "created (skip 2 ck) ?d = d"
    using nz sel(2) by (simp add: created_def d_def enqueue_download_def r q_def Let_def const_defs)
  have ck: "clock_ok (skip 2 ck)" using assms(5) by simp
  have fresh: "stored (bdata B (sv_db sv)) (d_ID ?d) = None" using assms(9) sel(1) by simp
  have "\<exists>s'. CreateDownload B L cx (skip 2 ck) (sv_db sv) ?d = (Inr (created (skip 2 ck) ?d), s')"
    by (rule CreateDownload_quiet [where cx = cx, OF assms(1,2) ck])
      (use assms(6,7) sel(1) in \<open>simp_all add: alive_def\<close>)
  then obtain s' where c: "CreateDownload B L cx (skip 2 ck) (sv_db sv) ?d = (Inr d, s')"
    unfolding d by blast
  have net: "bdata B s' = put_store L d (bdata B (sv_db sv))"
    using CreateDownload_net [OF assms(1) ck fresh c] by simp
  have v: "valid_download uid d"
    using assms(7,8) nz by (simp add: valid_download_def d_def)
  have rw: "rewrote B L uid d (sv_db sv) s'"
    using repo_ok_put_store [OF assms(3) v] v by (simp add: rewrote_def net valid_download_def)
  from svc_publish_ready [OF assms(4)] obtain p' where
    p: "svc_publish (ck 1) (sv_pub sv) EventEnqueued d NoData = Inr p'" by blast
  have ans: "d_ID d = uid" "d_QueueID d = q" "d_Status d = ''queued''" by (simp_all add: d_def)
  have url: "(e_URL req = [] \<and> (case e_Request req of None \<Rightarrow> True | Some r \<Rightarrow> r_URL r = [])) \<longleftrightarrow> e_URL req = [] \<and> r_URL r = []"
    by (auto simp: r_def split: option.splits)
  show ?thesis
  proof (cases "e_URL req = [] \<and> r_URL r = []")
    case True
    then show ?thesis unfolding Enqueue_def url by simp
  next
    case False
    show ?thesis
    proof (cases "case V of None \<Rightarrow> Inr () | Some v \<Rightarrow> v_request v r")
      case (Inl e)
      then show ?thesis unfolding Enqueue_def url r validate_def if_not_P [OF False] by simp
    next
      case (Inr u)
      then have "Enqueue B L V cx ck uid req sv =
        (Inr \<lparr>er_ID = uid, er_QueueID = q, er_Status = ''queued''\<rparr>, sv\<lparr>sv_db := s', sv_pub := p'\<rparr>)"
        using c p ans unfolding Enqueue_def url r validate_def if_not_P [OF False] by (simp add: Let_def)
      with Inr rw p False show ?thesis unfolding if_not_P [OF False] by auto
    qed
  qed
qed

definition demo_request :: EnqueueDownloadRequest where
  "demo_request = \<lparr>e_URL = ''http://h/g'', e_Request = None, e_Config = None, e_File = None,
     e_QueueID = [], e_Priority = 3, e_Tags = []\<rparr>"

theorem enqueue_correct_witness:
  "\<exists>s' p'. Enqueue mem_badger basic_lib (Some NoopValidator) live demo_clock ''b2'' demo_request demo_svc =
      (Inr \<lparr>er_ID = ''b2'', er_QueueID = ''main'', er_Status = ''queued''\<rparr>,
        demo_svc\<lparr>sv_db := s', sv_pub := p'\<rparr>) \<and>
      map_option d_Priority (stored (bdata mem_badger s') ''b2'') = Some 3"
  using enqueue_correct [OF demo_svc_facts(1,2,3,5) demo_clock_ok alive_live, of "''b2''" demo_request
      "Some NoopValidator"] demo_stored
  by (auto simp: demo_request_def NoopValidator_def bar_def rewrote_def)

text \<open>
  C31.  The operations that change one field of a download (configuration, request, priority, queue and
  tags) store that change and a new time of update in one transaction, and touch no other row; for
  an unknown id they return \<open>errs.ErrNotFound\<close>.
\<close>

theorem single_updates_correct:
  assumes "badger_laws B" "badger_quiet B" "repo_ok L (bdata B (sv_db sv))" "alive 4 cx"
    and "validate V v_config cfg = Inr ()" "validate V v_request req = Inr ()"
  shows "(case stored (bdata B (sv_db sv)) did of
      None \<Rightarrow> \<forall>op \<in> {UpdateConfig B L V cx ck did cfg, UpdateRequest B L V cx ck did req,
          SetPriority B L cx ck did n, AssignQueue B L cx ck did q, AddTags B L cx ck did ts,
          RemoveTags B L cx ck did ts}. op sv = (Inl ErrNotFound, sv)
    | Some d \<Rightarrow> \<forall>(op, d') \<in> {(UpdateConfig B L V cx ck did cfg, d\<lparr>d_Config := Some cfg\<rparr>),
          (UpdateRequest B L V cx ck did req, d\<lparr>d_Request := Some req\<rparr>),
          (SetPriority B L cx ck did n, d\<lparr>d_Priority := n\<rparr>),
          (AssignQueue B L cx ck did q, d\<lparr>d_QueueID := q\<rparr>),
          (AddTags B L cx ck did ts, with_tags L ts d), (RemoveTags B L cx ck did ts, without_tags L ts d)}.
        \<exists>s'. op sv = (Inr (), sv\<lparr>sv_db := s'\<rparr>) \<and>
          rewrote B L did (d'\<lparr>d_UpdatedAt := ck 0\<rparr>) (sv_db sv) s')"
proof (cases "stored (bdata B (sv_db sv)) did")
  case None
  have "modify_in_tx B L cx ck did f sv = (Inl ErrNotFound, sv)" for f
    by (rule modify_in_tx_missing [OF assms(1-4) None])
  with None assms(5,6) show ?thesis
    by (simp add: UpdateConfig_def UpdateRequest_def SetPriority_def AssignQueue_def AddTags_def
        RemoveTags_def)
next
  case (Some d)
  have v: "valid_download did d" by (rule repo_ok_valid [OF assms(3) Some])
  have step: "\<exists>s'. modify_in_tx B L cx ck did f sv = (Inr (), sv\<lparr>sv_db := s'\<rparr>) \<and>
      rewrote B L did ((f d)\<lparr>d_UpdatedAt := ck 0\<rparr>) (sv_db sv) s'"
    if "d_ID (f d) = d_ID d" "d_CreatedAt (f d) = d_CreatedAt d" for f
    using modify_in_tx_found [where f = f and ck = ck, OF assms(1-4) Some] v that
    by (simp add: valid_download_def updated_keep)
  show ?thesis
    using Some assms(5,6) step [of "\<lambda>d. d\<lparr>d_Config := Some cfg\<rparr>"] step [of "\<lambda>d. d\<lparr>d_Request := Some req\<rparr>"]
      step [of "\<lambda>d. d\<lparr>d_Priority := n\<rparr>"] step [of "\<lambda>d. d\<lparr>d_QueueID := q\<rparr>"]
      step [of "with_tags L ts"] step [of "without_tags L ts"]
    by (simp add: UpdateConfig_def UpdateRequest_def SetPriority_def AssignQueue_def AddTags_def
        RemoveTags_def with_tags_def without_tags_def Let_def)
qed

theorem single_updates_correct_witness:
  "\<exists>s'. SetPriority mem_badger basic_lib live demo_clock ''a1'' 9 demo_svc = (Inr (), demo_svc\<lparr>sv_db := s'\<rparr>) \<and>
     stored (bdata mem_badger s') ''a1'' =
       Some ((created demo_clock demo_download)\<lparr>d_Priority := 9, d_UpdatedAt := 1000\<rparr>)"
proof -
  have val: "validate (Some NoopValidator) v_config c = Inr ()" "validate (Some NoopValidator) v_request r = Inr ()"
    for c r by (simp_all add: validate_def NoopValidator_def)
  have "demo_clock 0 = 1000" by (simp add: demo_clock_def)
  then have step: "\<exists>s'. SetPriority mem_badger basic_lib live demo_clock ''a1'' 9 demo_svc =
        (Inr (), demo_svc\<lparr>sv_db := s'\<rparr>) \<and>
      rewrote mem_badger basic_lib ''a1''
        ((created demo_clock demo_download)\<lparr>d_Priority := 9, d_UpdatedAt := 1000\<rparr>) (sv_db demo_svc) s'"
    using single_updates_correct [where ck = demo_clock and did = "''a1''" and n = 9,
        OF demo_svc_facts(1,2,3) alive_live val] demo_svc_facts(4)
    by simp
  show ?thesis
    using step by (auto simp: rewrote_def)
qed

text \<open>
  Adding tags keeps the old tags in place, adds every requested non-empty tag unless one equal up
  to case is there, and never makes two tags equal up to case; removing the same tags afterwards
  gives what removing them at once would have given.
\<close>

lemma tags_case_insensitive:
  "prefix (d_Tags d) (d_Tags (with_tags L ts d)) \<and>
   ToLower (lib_lower L) ` set (d_Tags (with_tags L ts d)) =
     ToLower (lib_lower L) ` (set (d_Tags d) \<union> (set ts - {[]})) \<and>
   (distinct (map (ToLower (lib_lower L)) (d_Tags d)) =
     distinct (map (ToLower (lib_lower L)) (d_Tags (with_tags L ts d)))) \<and>
   d_Tags (without_tags L ts (with_tags L ts d)) = d_Tags (without_tags L ts d) \<and>
   ToLower (lib_lower L) ` set (d_Tags (without_tags L ts d)) \<inter> ToLower (lib_lower L) ` set ts = {}"
proof -
  let ?low = "ToLower (lib_lower L)"
  from with_tags_append [of L ts d] obtain new where
    new: "d_Tags (with_tags L ts d) = d_Tags d @ new" "set new \<subseteq> set ts - {[]}"
    "distinct (map ?low new)" "?low ` set new \<inter> ?low ` set (d_Tags d) = {}"
    "?low ` set (d_Tags d @ new) = ?low ` set (d_Tags d) \<union> ?low ` (set ts - {[]})"
    by (elim exE conjE) (rule that)
  have "filter (\<lambda>t. ?low t \<notin> ?low ` set ts) new = []"
    unfolding filter_empty_conv using new(2) by blast
  then have "d_Tags (without_tags L ts (with_tags L ts d)) = d_Tags (without_tags L ts d)"
    by (simp add: without_tags_def new(1))
  moreover have "?low ` set (d_Tags (without_tags L ts d)) \<inter> ?low ` set ts = {}"
    unfolding without_tags_def Let_def by auto
  moreover have "distinct (map ?low (d_Tags d)) = distinct (map ?low (d_Tags (with_tags L ts d)))"
    using new(3,4) by (auto simp: new(1))
  ultimately show ?thesis using new(5) by (simp add: new(1) image_Un)
qed

lemma tags_case_insensitive_witness:
  "d_Tags (with_tags basic_lib [''ISO'', ''x'', [], ''X''] demo_download) = [''Iso'', ''x'']"
proof -
  have d: "d_Tags demo_download = [''Iso'']" by (simp add: demo_download_def)
  have p: "prefix (d_Tags demo_download) (d_Tags (with_tags basic_lib [''ISO'', ''x'', [], ''X''] demo_download))"
    using tags_case_insensitive [of demo_download basic_lib "[''ISO'', ''x'', [], ''X'']"] by blast
  have low: "ToLower (lib_lower basic_lib) ''Iso'' = ''iso''" by code_simp
  have "add_tags basic_lib {''iso''} [''Iso''] [''ISO'', ''x'', [], ''X''] = [''Iso'', ''x'']" by code_simp
  then have "d_Tags (with_tags basic_lib [''ISO'', ''x'', [], ''X''] demo_download) = [''Iso'', ''x'']"
    by (simp add: with_tags_def d low del: add_tags.simps)
  with p show ?thesis by simp
qed

end
