(* ===== verification/Queue_Service.thy ===== *)
theory Queue_Service
  imports Service_Laws
begin

text \<open>
  \<open>QueueServiceImpl\<close> of \<open>internal/service/queue.go\<close>.  \<open>PauseQueue\<close> and \<open>ResumeQueue\<close> read the queue in
  a transaction, but \<open>SaveQueue\<close> of the transaction-scoped repository opens a transaction of its own
  (\<open>cxs 1\<close>), which is committed before the outer one.
\<close>

definition unit_of :: "'a res \<times> 's \<Rightarrow> unit res \<times> 's" where
  "unit_of r = (map_sum (\<lambda>e. e) (\<lambda>_. ()) (fst r), snd r)"

lemma unit_of_simps [simp]: "unit_of (Inl e, s) = (Inl e, s)" "unit_of (Inr x, s) = (Inr (), s)"
  by (simp_all add: unit_of_def)

definition CreateQueue :: "'s badger \<Rightarrow> gctx \<Rightarrow> clock \<Rightarrow> Queue \<Rightarrow> 's \<Rightarrow> unit res \<times> 's" where
  "CreateQueue B cx ck q s =
     (if q_ID q = [] then (Inl (ErrText ''queue id is required''), s)
      else unit_of (SaveQueue B cx (skip 1 ck) s (q\<lparr>q_CreatedAt := ck 0, q_UpdatedAt := ck 0\<rparr>)))"

definition svc_GetQueue :: "'s badger \<Rightarrow> gctx \<Rightarrow> string \<Rightarrow> 's \<Rightarrow> Queue res" where
  "svc_GetQueue B cx qid s = GetQueue B cx s qid"

definition svc_ListQueues :: "'s badger \<Rightarrow> gctx \<Rightarrow> 's \<Rightarrow> Queue list res" where
  "svc_ListQueues B cx s = ListQueues B cx s"

definition UpdateQueue :: "'s badger \<Rightarrow> gctx \<Rightarrow> clock \<Rightarrow> Queue \<Rightarrow> 's \<Rightarrow> unit res \<times> 's" where
  "UpdateQueue B cx ck q s =
     (if q_ID q = [] then (Inl (ErrText ''queue id is required''), s)
      else unit_of (SaveQueue B cx (skip 1 ck) s (q\<lparr>q_UpdatedAt := ck 0\<rparr>)))"

definition svc_DeleteQueue :: "'s badger \<Rightarrow> gctx \<Rightarrow> string \<Rightarrow> 's \<Rightarrow> unit res \<times> 's" where
  "svc_DeleteQueue B cx qid s = DeleteQueue B cx s qid"

definition set_paused :: "'s badger \<Rightarrow> gctxs \<Rightarrow> clock \<Rightarrow> bool \<Rightarrow> string \<Rightarrow> 's \<Rightarrow> unit res \<times> 's" where
  "set_paused B cxs ck paused qid s =
     (let (r, s, w) = RunInTx B (cxs 0)
            (\<lambda>s w. case txGetQueue B (skip 2 (cxs 0)) s [] qid of
               Inl e \<Rightarrow> (Inl e, s, w)
             | Inr q \<Rightarrow> (case SaveQueue B (cxs 1) (skip 1 ck) s (q\<lparr>q_Paused := paused, q_UpdatedAt := ck 0\<rparr>) of
                 (Inl e, s') \<Rightarrow> (Inl e, s', w)
               | (Inr q, s') \<Rightarrow> (Inr ((), []), s', w))) s ()
      in (r, s))"

definition PauseQueue :: "'s badger \<Rightarrow> gctxs \<Rightarrow> clock \<Rightarrow> string \<Rightarrow> 's \<Rightarrow> unit res \<times> 's" where
  "PauseQueue B cxs ck = set_paused B cxs ck True"

definition ResumeQueue :: "'s badger \<Rightarrow> gctxs \<Rightarrow> clock \<Rightarrow> string \<Rightarrow> 's \<Rightarrow> unit res \<times> 's" where
  "ResumeQueue B cxs ck = set_paused B cxs ck False"

definition Stats :: "'s badger \<Rightarrow> gctx \<Rightarrow> string \<Rightarrow> 's \<Rightarrow> QueueStats res" where
  "Stats B cx qid s = GetQueueStats B cx s qid"

definition BulkDelete :: "'s badger \<Rightarrow> stdlib \<Rightarrow> gctxs \<Rightarrow> clock \<Rightarrow> string \<Rightarrow> 's \<Rightarrow> unit res \<times> 's" where
  "BulkDelete B L cxs ck qid s = BulkDeleteDownloadsByQueueID B L cxs ck s qid"

definition BulkReassign :: "'s badger \<Rightarrow> stdlib \<Rightarrow> gctxs \<Rightarrow> clock \<Rightarrow> string \<Rightarrow> string \<Rightarrow> 's \<Rightarrow> unit res \<times> 's" where
  "BulkReassign B L cxs ck fromID toID s = BulkReassignDownloadsQueue B L cxs ck s fromID toID"

definition BulkSetPriority :: "'s badger \<Rightarrow> stdlib \<Rightarrow> gctxs \<Rightarrow> clock \<Rightarrow> string \<Rightarrow> int \<Rightarrow> 's \<Rightarrow> unit res \<times> 's" where
  "BulkSetPriority B L cxs ck qid priority s = BulkSetPriorityByQueueID B L cxs ck s qid priority"

definition BulkUpdateStatus ::
    "'s badger \<Rightarrow> stdlib \<Rightarrow> gctxs \<Rightarrow> clock \<Rightarrow> string \<Rightarrow> DownloadStatus \<Rightarrow> 's \<Rightarrow> unit res \<times> 's" where
  "BulkUpdateStatus B L cxs ck qid status s = BulkUpdateStatusByQueueID B L cxs ck s qid status"

section \<open>Pausing and resuming a queue\<close>

lemma txGetQueue_quiet:
  assumes "badger_laws B" "badger_quiet B" "repo_ok L (bdata B s)" "cx 0 = None"
  shows "txGetQueue B cx s [] i = (case queues (bdata B s) i of None \<Rightarrow> Inl ErrNotFound | Some q \<Rightarrow> Inr q)"
  using assms repo_ok_queue [OF assms(3), of i]
  by (cases "queues (bdata B s) i") (simp_all add: txGetQueue_def quiet_get)

definition paused_queue :: "clock \<Rightarrow> bool \<Rightarrow> Queue \<Rightarrow> Queue" where
  "paused_queue ck paused q =
     q\<lparr>q_Paused := paused, q_CreatedAt := (if IsZero (q_CreatedAt q) then ck 1 else q_CreatedAt q),
       q_UpdatedAt := ck 2\<rparr>"

lemma SaveQueue_paused:
  assumes "badger_laws B" "badger_quiet B" "repo_ok L (bdata B s)" "alive 2 cx" "q_ID q \<noteq> []"
  shows "\<exists>s'. SaveQueue B cx (skip 1 ck) s (q\<lparr>q_Paused := paused, q_UpdatedAt := ck 0\<rparr>) =
      (Inr (paused_queue ck paused q), s') \<and>
    bdata B s' = (bdata B s)(kQueue (q_ID q) \<mapsto> QueueJ (paused_queue ck paused q))"
proof -
  let ?q = "q\<lparr>q_Paused := paused, q_UpdatedAt := ck 0\<rparr>"
  obtain q' s' where r: "SaveQueue B cx (skip 1 ck) s ?q = (Inr q', s')"
    using SaveQueue_quiet [where cx = cx, OF assms(1,2), of ?q "skip 1 ck" s] assms(4,5)
    by (auto simp: alive_def)
  from SaveQueue_net [OF assms(1) r] show ?thesis
    using r by (cases q) (auto simp: paused_queue_def skip_apply numeral_2_eq_2)
qed

text \<open>
  The write of \<open>SaveQueue\<close> is not part of the outer transaction: when the outer commit fails, the call
  returns its error although the queue has been changed.
\<close>

lemma set_paused_commit_fails:
  assumes "badger_laws B" "repo_ok L (bdata B s)" "alive 3 (cxs 0)" "bbegin B s = None"
    and "txGetQueue B (skip 2 (cxs 0)) s [] qid = Inr q"
    and "SaveQueue B (cxs 1) (skip 1 ck) s (q\<lparr>q_Paused := p, q_UpdatedAt := ck 0\<rparr>) = (Inr q', s')"
    and "bcommit B s [] s' = Inl e"
  shows "set_paused B cxs ck p qid s = (Inl e, s') \<and> queues (bdata B s') (q_ID q) = Some q'"
  using assms SaveQueue_net [OF assms(1,6)]
  by (simp add: set_paused_def RunInTx_def alive_def)

section \<open>Properties\<close>

text \<open>
  Pausing or resuming a queue stores it with the flag set or cleared and a new time of update; no
  other queue and no download changes.  An unknown queue is \<open>errs.ErrNotFound\<close>.
\<close>

lemma pause_queue_correct:
  assumes "badger_laws B" "badger_quiet B" "repo_ok L (bdata B s)" "alive 3 (cxs 0)" "alive 2 (cxs 1)"
    and "(op, paused) = (PauseQueue B cxs ck, True) \<or> (op, paused) = (ResumeQueue B cxs ck, False)"
  shows "case queues (bdata B s) qid of
      None \<Rightarrow> op qid s = (Inl ErrNotFound, s)
    | Some q \<Rightarrow> \<exists>s'. op qid s = (Inr (), s') \<and>
        queues (bdata B s') = (queues (bdata B s))(qid \<mapsto> paused_queue ck paused q) \<and>
        stored (bdata B s') = stored (bdata B s) \<and> repo_ok L (bdata B s')"
proof -
  have op: "op = set_paused B cxs ck paused"
    using assms(6) by (auto simp: PauseQueue_def ResumeQueue_def)
  have cx: "skip 2 (cxs 0) 0 = None" "cxs 0 0 = None" "cxs 0 1 = None"
    using assms(4) by (simp_all add: alive_def)
  note get = txGetQueue_quiet [where cx = "skip 2 (cxs 0)", OF assms(1-3) cx(1), of qid]
  show ?thesis
  proof (cases "queues (bdata B s) qid")
    case None
    then show ?thesis
      using get cx assms(2) by (simp add: op set_paused_def RunInTx_def quiet_begin)
  next
    case (Some q)
    have q: "q_ID q = qid" "qid \<noteq> []" using repo_ok_queue_id [OF assms(3) Some] by simp_all
    from SaveQueue_paused [OF assms(1-3,5), of q ck paused] q obtain s' where
      s': "SaveQueue B (cxs 1) (skip 1 ck) s (q\<lparr>q_Paused := paused, q_UpdatedAt := ck 0\<rparr>) =
        (Inr (paused_queue ck paused q), s')"
      "bdata B s' = (bdata B s)(kQueue qid \<mapsto> QueueJ (paused_queue ck paused q))" by auto
    from quiet_commit [OF assms(2)] obtain s'' where c: "bcommit B s [] s' = Inr s''" by blast
    have m: "bdata B s'' = bdata B s'" using badger_commit [OF assms(1) c] by simp
    have id: "q_ID (paused_queue ck paused q) = qid" by (simp add: paused_queue_def q)
    have "op qid s = (Inr (), s'')"
      using get Some cx assms(2) s'(1) c
      by (simp add: op set_paused_def RunInTx_def quiet_begin)
    moreover have "repo_ok L (bdata B s'')"
      unfolding m s'(2) using repo_ok_puts(1) [OF assms(3), of "paused_queue ck paused q"] q id by simp
    ultimately show ?thesis using Some by (auto simp: m s'(2))
  qed
qed

lemma pause_queue_correct_witness:
  "PauseQueue mem_badger (\<lambda>_. live) demo_clock ''main'' demo_store = (Inl ErrNotFound, demo_store) \<and>
   (\<exists>s s'. PauseQueue mem_badger (\<lambda>_. live) demo_clock ''main'' s = (Inr (), s') \<and>
     (\<exists>q. queues (bdata mem_badger s') ''main'' = Some q \<and> q_Paused q))"
proof
  have "queues (bdata mem_badger demo_store) ''main'' = None" by (simp add: demo_net queues_def kQueue_def)
  then show "PauseQueue mem_badger (\<lambda>_. live) demo_clock ''main'' demo_store = (Inl ErrNotFound, demo_store)"
    using pause_queue_correct [where cxs = "\<lambda>_. live" and ck = demo_clock and qid = "''main''",
        OF demo_svc_facts(1,2) demo_repo_ok [folded mem_badger_sel(1)] alive_live alive_live disjI1 [OF refl]]
    by simp
next
  obtain q s where r: "SaveQueue mem_badger live demo_clock demo_store demo_queue = (Inr q, s)"
    using SaveQueue_quiet [OF mem_badger_laws mem_badger_quiet, of live demo_queue demo_clock demo_store] by auto
  from SaveQueue_net [OF mem_badger_laws r] have q: "q_ID q = ''main''"
    "bdata mem_badger s = (bdata mem_badger demo_store)(kQueue ''main'' \<mapsto> QueueJ q)" by simp_all
  have ok: "repo_ok basic_lib (bdata mem_badger s)" unfolding q(2)
    using repo_ok_puts(1) [OF demo_repo_ok [folded mem_badger_sel(1)], of q] q(1) by simp
  have "queues (bdata mem_badger s) ''main'' = Some q" unfolding q(2) by simp
  with pause_queue_correct [where cxs = "\<lambda>_. live" and ck = demo_clock and qid = "''main''",
      OF demo_svc_facts(1,2) ok alive_live alive_live disjI1 [OF refl]]
  obtain s' where "PauseQueue mem_badger (\<lambda>_. live) demo_clock ''main'' s = (Inr (), s')"
    "queues (bdata mem_badger s') = (queues (bdata mem_badger s))(''main'' \<mapsto> paused_queue demo_clock True q)"
    by auto
  then show "\<exists>s s'. PauseQueue mem_badger (\<lambda>_. live) demo_clock ''main'' s = (Inr (), s') \<and>
     (\<exists>q. queues (bdata mem_badger s') ''main'' = Some q \<and> q_Paused q)"
    by (intro exI [of _ s] exI [of _ s']) (simp add: paused_queue_def)
qed

end
