(* ===== verification/Tx_Repo.thy ===== *)
theory Tx_Repo
  imports Queue_Service
begin

text \<open>
  \<open>txRepo\<close> of \<open>internal/repository/repository.go\<close>: the repository that the callback of \<open>RunInTx\<close> gets.
  Creating and updating a download and the reads of one row go through the held transaction; every other
  method is the repository's own, with transactions of its own on the database as it is then.  A callback
  is a list of operations that ends with the first error, as the callbacks of the services do.
\<close>

section \<open>Operations\<close>

datatype held_op = TxCreateDownload Download | TxUpdateDownload Download

datatype row_op =
    TxDeleteDownload string
  | TxUpsertSegment Segment
  | TxUpdateSegment Segment
  | TxDeleteSegments string
  | TxSaveQueue Queue

datatype queue_op = TxDeleteQueue string | TxSaveQueueStats QueueStats

datatype bulk_op =
    TxBulkCreate "Download list"
  | TxBulkUpdate "Download list"
  | TxBulkDelete "string list"
  | TxBulkDeleteQueue string
  | TxBulkReassign string string
  | TxBulkPriority string int
  | TxBulkStatus string DownloadStatus

datatype tx_op = Held held_op | OnRow row_op | OnQueue queue_op | OnMany bulk_op

text \<open>\<open>s0\<close> is the snapshot of the held transaction, \<open>tx\<close> its writes so far, and \<open>s\<close> the database now.\<close>

fun held_do :: "'s badger \<Rightarrow> stdlib \<Rightarrow> gctx \<Rightarrow> clock \<Rightarrow> 's \<Rightarrow> held_op \<Rightarrow> wr list \<Rightarrow> (Download \<times> wr list) res" where
  "held_do B L cx ck s0 (TxCreateDownload d) tx = createDownloadTxn B L cx ck s0 d tx"
| "held_do B L cx ck s0 (TxUpdateDownload d) tx = updateDownloadTxn B L cx ck s0 d tx"

fun row_do :: "'s badger \<Rightarrow> stdlib \<Rightarrow> gctx \<Rightarrow> clock \<Rightarrow> row_op \<Rightarrow> 's \<Rightarrow> unit res \<times> 's" where
  "row_do B L cx ck (TxDeleteDownload did) s = DeleteDownload B L cx ck s did"
| "row_do B L cx ck (TxUpsertSegment g) s = UpsertSegment B cx s g"
| "row_do B L cx ck (TxUpdateSegment g) s = UpdateSegment B cx s g"
| "row_do B L cx ck (TxDeleteSegments did) s = DeleteSegments B cx s did"
| "row_do B L cx ck (TxSaveQueue q) s = unit_of (SaveQueue B cx ck s q)"

fun queue_do :: "'s badger \<Rightarrow> gctx \<Rightarrow> queue_op \<Rightarrow> 's \<Rightarrow> unit res \<times> 's" where
  "queue_do B cx (TxDeleteQueue qid) s = DeleteQueue B cx s qid"
| "queue_do B cx (TxSaveQueueStats st) s = SaveQueueStats B cx s st"

fun bulk_do :: "'s badger \<Rightarrow> stdlib \<Rightarrow> gctxs \<Rightarrow> clock \<Rightarrow> bulk_op \<Rightarrow> 's \<Rightarrow> unit res \<times> 's" where
  "bulk_do B L cxs ck (TxBulkCreate ds) s = BulkCreateDownloads B L (cxs 0) ck s ds"
| "bulk_do B L cxs ck (TxBulkUpdate ds) s = BulkUpdateDownloads B L cxs ck s ds"
| "bulk_do B L cxs ck (TxBulkDelete ids) s = BulkDeleteDownloads B L cxs ck s ids"
| "bulk_do B L cxs ck (TxBulkDeleteQueue qid) s = BulkDeleteDownloadsByQueueID B L cxs ck s qid"
| "bulk_do B L cxs ck (TxBulkReassign q q') s = BulkReassignDownloadsQueue B L cxs ck s q q'"
| "bulk_do B L cxs ck (TxBulkPriority q n) s = BulkSetPriorityByQueueID B L cxs ck s q n"
| "bulk_do B L cxs ck (TxBulkStatus q st) s = BulkUpdateStatusByQueueID B L cxs ck s q st"

fun tx_do ::
    "'s badger \<Rightarrow> stdlib \<Rightarrow> gctxs \<Rightarrow> clock \<Rightarrow> 's \<Rightarrow> tx_op \<Rightarrow> wr list \<Rightarrow> 's \<Rightarrow> unit res \<times> wr list \<times> 's" where
  "tx_do B L cxs ck s0 (Held x) tx s =
     (case held_do B L (cxs 0) ck s0 x tx of Inl e \<Rightarrow> (Inl e, tx, s) | Inr (d, tx') \<Rightarrow> (Inr (), tx', s))"
| "tx_do B L cxs ck s0 (OnRow x) tx s = (case row_do B L (cxs 0) ck x s of (r, s') \<Rightarrow> (r, tx, s'))"
| "tx_do B L cxs ck s0 (OnQueue x) tx s = (case queue_do B (cxs 0) x s of (r, s') \<Rightarrow> (r, tx, s'))"
| "tx_do B L cxs ck s0 (OnMany x) tx s = (case bulk_do B L cxs ck x s of (r, s') \<Rightarrow> (r, tx, s'))"

text \<open>The reads; \<open>GetDownload\<close>, \<open>GetQueue\<close> and \<open>GetQueueStats\<close> are \<open>txGetDownload\<close>, \<open>txGetQueue\<close> and \<open>txGetQueueStats\<close>.\<close>

definition txListDownloads ::
    "'s badger \<Rightarrow> stdlib \<Rightarrow> gctx \<Rightarrow> 's \<Rightarrow> wr list \<Rightarrow> ListDownloadsOptions \<Rightarrow> int \<Rightarrow> int \<Rightarrow> Download list res" where
  "txListDownloads B L cx s0 tx opt limit offset = listDownloadsTxn B L cx s0 tx opt limit offset"

definition txListSegments :: "'s badger \<Rightarrow> gctx \<Rightarrow> 's \<Rightarrow> string \<Rightarrow> Segment list res" where
  "txListSegments B cx s did = ListSegments B cx s did"

definition txListQueues :: "'s badger \<Rightarrow> gctx \<Rightarrow> 's \<Rightarrow> Queue list res" where
  "txListQueues B cx s = ListQueues B cx s"

definition txCountDownloads :: "'s badger \<Rightarrow> stdlib \<Rightarrow> gctx \<Rightarrow> 's \<Rightarrow> ListDownloadsOptions \<Rightarrow> int res" where
  "txCountDownloads B L cx s opt = CountDownloads B L cx s opt"

text \<open>A nested \<open>RunInTx\<close> runs its callback in the held transaction.\<close>

definition txRunInTx :: "('s \<Rightarrow> 'w \<Rightarrow> ('a \<times> wr list) res \<times> 's \<times> 'w) \<Rightarrow> 's \<Rightarrow> 'w \<Rightarrow> ('a \<times> wr list) res \<times> 's \<times> 'w" where
  "txRunInTx fn s w = fn s w"

section \<open>Callbacks\<close>

fun tx_script ::
    "'s badger \<Rightarrow> stdlib \<Rightarrow> (nat \<Rightarrow> gctxs) \<Rightarrow> (nat \<Rightarrow> clock) \<Rightarrow> 's \<Rightarrow> tx_op list \<Rightarrow> wr list \<Rightarrow> 's \<Rightarrow> (unit \<times> wr list) res \<times> 's" where
  "tx_script B L cxss cks s0 [] tx s = (Inr ((), tx), s)"
| "tx_script B L cxss cks s0 (oper # ops) tx s =
     (case tx_do B L (cxss 0) (cks 0) s0 oper tx s of
        (Inl e, tx', s') \<Rightarrow> (Inl e, s')
      | (Inr u, tx', s') \<Rightarrow> tx_script B L (skip 1 cxss) (skip 1 cks) s0 ops tx' s')"

definition run_script ::
    "'s badger \<Rightarrow> stdlib \<Rightarrow> gctx \<Rightarrow> (nat \<Rightarrow> gctxs) \<Rightarrow> (nat \<Rightarrow> clock) \<Rightarrow> tx_op list \<Rightarrow> 's \<Rightarrow> unit res \<times> 's" where
  "run_script B L cx cxss cks ops s =
     (let (r, s', w) = RunInTx B cx (\<lambda>s0 w. case tx_script B L cxss cks s0 ops [] s0 of (r, s') \<Rightarrow> (r, s', w)) s ()
      in (r, s'))"

section \<open>What a failed transaction leaves behind\<close>

fun held :: "tx_op \<Rightarrow> bool" where
  "held (Held x) \<longleftrightarrow> True"
| "held oper \<longleftrightarrow> False"

lemma tx_do_held: "held oper \<Longrightarrow> snd (snd (tx_do B L cxs ck s0 oper tx s)) = s"
  by (cases oper) (simp_all split: sum.splits prod.splits)

lemma tx_script_held: "list_all held ops \<Longrightarrow> snd (tx_script B L cxss cks s0 ops tx s) = s"
proof (induction ops arbitrary: cxss cks tx s)
  case (Cons oper ops)
  then have "snd (snd (tx_do B L (cxss 0) (cks 0) s0 oper tx s)) = s" by (simp add: tx_do_held)
  with Cons show ?case
    by (cases "tx_do B L (cxss 0) (cks 0) s0 oper tx s") (auto split: sum.splits)
qed simp

text \<open>A callback that only creates and updates downloads is all or nothing.\<close>

lemma held_script_atomic:
  assumes "list_all held ops" "run_script B L cx cxss cks ops s = (Inl e, s')"
  shows "s' = s"
proof -
  have "snd (tx_script B L cxss cks s ops [] s) = s" by (rule tx_script_held [OF assms(1)])
  then show ?thesis
    using assms(2) by (auto simp: run_script_def RunInTx_def split: option.splits prod.splits sum.splits)
qed

text \<open>
  The other methods escape the transaction: a queue that the callback saves stays saved when a later
  operation of the callback fails, here the update of a download that is not stored.
\<close>

lemma saved_queue_escapes:
  assumes laws: "badger_laws B" "badger_quiet B" and ok: "repo_ok L (bdata B s)" and cx: "alive 2 cx" "cxss 0 0 = live" "cxss 1 0 0 = None"
    and q: "q_ID q \<noteq> []" and d: "d_ID d \<noteq> []" "stored (bdata B s) (d_ID d) = None"
  shows "\<exists>s' q'. run_script B L cx cxss cks [OnRow (TxSaveQueue q), Held (TxUpdateDownload d)] s = (Inl ErrKeyNotFound, s') \<and>
    queues (bdata B s') (q_ID q) = Some q' \<and> q_Name q' = q_Name q"
proof -
  from SaveQueue_quiet [OF laws, of live q "cks 0" s] q obtain q' s' where
    r: "SaveQueue B live (cks 0) s q = (Inr q', s')" by auto
  note kept = SaveQueue_keeps [OF laws ok r]
  have "txview B s [] (kDownload (d_ID d)) = None" using repo_ok_get [OF ok, of "d_ID d"] d(2) by simp
  from updateDownloadTxn_missing [where cx = "cxss 1 0" and ck = "cks 1" and L = L, OF laws cx(3) d(1) this]
  have "tx_script B L cxss cks s [OnRow (TxSaveQueue q), Held (TxUpdateDownload d)] [] s = (Inl ErrKeyNotFound, s')"
    using r cx(2) by (simp add: skip_apply)
  with cx(1) have "run_script B L cx cxss cks [OnRow (TxSaveQueue q), Held (TxUpdateDownload d)] s = (Inl ErrKeyNotFound, s')"
    by (simp add: run_script_def RunInTx_def quiet_begin [OF laws(2)] alive_def)
  with kept(1,2) show ?thesis by (intro exI [of _ s'] exI [of _ q']) simp
qed

text \<open>The callback of \<open>PauseQueue\<close> and \<open>ResumeQueue\<close> in these terms.\<close>

lemma set_paused_script:
  "set_paused B cxs ck paused qid s =
     (let (r, s', w) = RunInTx B (cxs 0) (\<lambda>s w. case txGetQueue B (skip 2 (cxs 0)) s [] qid of
            Inl e \<Rightarrow> (Inl e, s, w)
          | Inr q \<Rightarrow> (case tx_script B L (\<lambda>j. skip 1 cxs) (\<lambda>j. skip 1 ck) s
                [OnRow (TxSaveQueue (q\<lparr>q_Paused := paused, q_UpdatedAt := ck 0\<rparr>))] [] s of (r, s') \<Rightarrow> (r, s', w))) s ()
      in (r, s'))"
proof -
  have "(case txGetQueue B (skip 2 (cxs 0)) s [] qid of
       Inl e \<Rightarrow> (Inl e, s, w)
     | Inr q \<Rightarrow> (case SaveQueue B (cxs 1) (skip 1 ck) s (q\<lparr>q_Paused := paused, q_UpdatedAt := ck 0\<rparr>) of
         (Inl e, s') \<Rightarrow> (Inl e, s', w)
       | (Inr q, s') \<Rightarrow> (Inr ((), []), s', w))) =
     (case txGetQueue B (skip 2 (cxs 0)) s [] qid of
       Inl e \<Rightarrow> (Inl e, s, w)
     | Inr q \<Rightarrow> (case tx_script B L (\<lambda>j. skip 1 cxs) (\<lambda>j. skip 1 ck) s
           [OnRow (TxSaveQueue (q\<lparr>q_Paused := paused, q_UpdatedAt := ck 0\<rparr>))] [] s of (r, s') \<Rightarrow> (r, s', w)))" for s and w :: unit
    by (auto simp: unit_of_def skip_apply split: sum.splits prod.splits)
  then show ?thesis by (simp only: set_paused_def)
qed

end
