(* ===== verification/Planner.thy ===== *)
theory Planner
  imports Interfaces
begin

text \<open>
  \<open>SimplePlanner.Plan\<close> of \<open>internal/planner/planner.go\<close>: how a download is cut into segments.  The
  64-bit arithmetic of the code is kept; the theorems show that it does not wrap.
\<close>

definition max_conns :: "Download \<Rightarrow> int" where
  "max_conns d =
     (case d_Config d of None \<Rightarrow> 4
      | Some c \<Rightarrow> if 0 < c_MaxConnections c then c_MaxConnections c else 4)"

definition plan_segment :: "Download \<Rightarrow> int \<Rightarrow> int \<Rightarrow> int \<Rightarrow> Segment" where
  "plan_segment d contentLength maxConns i =
     (let start = mul64 (div64 contentLength maxConns) i;
          stop = mul64 (div64 contentLength maxConns) (add64 i 1);
          stop = (if i = sub64 maxConns 1 then sub64 contentLength 1 else sub64 stop 1)
      in zero_Segment\<lparr>s_Index := i, s_DownloadID := d_ID d, s_Status := SegmentPending,
           s_Start := start, s_End := stop\<rparr>)"

definition Plan :: "Download \<Rightarrow> int \<Rightarrow> bool \<Rightarrow> Segment list res" where
  "Plan d contentLength acceptRanges =
     (if \<not> acceptRanges \<or> contentLength \<le> 0
      then Inr [zero_Segment\<lparr>s_Index := 0, s_DownloadID := d_ID d, s_Status := SegmentPending,
                  s_Start := 0, s_End := - 1\<rparr>]
      else let maxConns = max_conns d
           in Inr (map (plan_segment d contentLength maxConns) [0..maxConns - 1]))"

lemma max_conns_pos: "0 < max_conns d"
  by (auto simp: max_conns_def split: option.splits)

section \<open>No overflow\<close>

lemma share_bounds:
  assumes "0 < (n :: int)" "0 < c" "0 \<le> i" "i \<le> c"
  shows "0 \<le> n div c * i" "n div c * i \<le> n"
proof -
  have "0 \<le> n div c" using assms by (simp add: pos_imp_zdiv_nonneg_iff)
  then show "0 \<le> n div c * i" using assms by simp
  have "n div c * i \<le> n div c * c" using assms \<open>0 \<le> n div c\<close> by (simp add: mult_left_mono)
  also have "\<dots> \<le> n" using assms pos_mod_sign [of c n] by (simp add: div_mult_mod_eq [symmetric] minus_mod_eq_div_mult [symmetric])
  finally show "n div c * i \<le> n" .
qed

lemma plan_segment_exact:
  assumes "0 < n" "in64 n" "0 < c" "in64 c" "0 \<le> i" "i < c"
  shows "s_Start (plan_segment d n c i) = n div c * i"
    and "s_End (plan_segment d n c i) = (if i = c - 1 then n - 1 else n div c * (i + 1) - 1)"
    and "s_Index (plan_segment d n c i) = i" "s_DownloadID (plan_segment d n c i) = d_ID d"
proof -
  have q: "div64 n c = n div c" by (rule div64_nonneg) (use assms in simp_all)
  have "in64 (n div c * i)" "in64 (n div c * (i + 1))"
    using share_bounds [of n c i] share_bounds [of n c "i + 1"] assms by (simp_all add: in64_def)
  moreover from this share_bounds [of n c "i + 1"] assms have "in64 (n div c * (i + 1) - 1)"
    by (simp add: in64_def)
  moreover have "in64 (n - 1)" "in64 (c - 1)" "in64 (i + 1)" using assms by (simp_all add: in64_def)
  ultimately show "s_Start (plan_segment d n c i) = n div c * i"
    "s_End (plan_segment d n c i) = (if i = c - 1 then n - 1 else n div c * (i + 1) - 1)"
    "s_Index (plan_segment d n c i) = i" "s_DownloadID (plan_segment d n c i) = d_ID d"
    by (simp_all add: plan_segment_def Let_def q mul64_id add64_id sub64_id)
qed

section \<open>The ranges tile the file\<close>

lemma upto_split: "a \<le> b \<Longrightarrow> b \<le> c + 1 \<Longrightarrow> [a..b - 1] @ [b..c] = [a..c]" for a b c :: int
proof (induction "nat (b - a)" arbitrary: a)
  case (Suc k)
  then have ab: "a < b" by simp
  with Suc(3,4) Suc(1) [of "a + 1"] Suc(2) have "[a + 1..b - 1] @ [b..c] = [a + 1..c]" by simp
  with ab Suc(3,4) show ?case by (simp add: upto_rec1 [of a "b - 1"] upto_rec1 [of a c])
qed simp

lemma tiles:
  fixes q :: int
  assumes "0 \<le> q" "0 \<le> k"
  shows "concat (map (\<lambda>i. [q * i..q * (i + 1) - 1]) [0..k - 1]) = [0..q * k - 1]"
  using assms(2)
proof (induction k rule: int_ge_induct)
  case (step k)
  have "[0..k] = [0..k - 1] @ [k]" using step.hyps by (simp add: upto_rec2)
  moreover have "[0..q * k - 1] @ [q * k..q * (k + 1) - 1] = [0..q * (k + 1) - 1]"
    using assms(1) step.hyps by (intro upto_split) (simp_all add: algebra_simps)
  ultimately show ?case using step.IH by simp
qed simp

lemma Plan_ranges:
  assumes "0 < n" "in64 n" "max_conns d \<le> n"
  shows "\<exists>gs. Plan d n True = Inr gs \<and> length gs = nat (max_conns d) \<and>
    concat (map (\<lambda>g. [s_Start g..s_End g]) gs) = [0..n - 1] \<and>
    (\<forall>g \<in> set gs. s_DownloadID g = d_ID d \<and> 0 \<le> s_Start g \<and> s_Start g \<le> s_End g \<and> s_End g < n) \<and>
    map s_Index gs = [0..max_conns d - 1]"
proof -
  let ?c = "max_conns d" and ?q = "n div max_conns d"
  let ?g = "plan_segment d n ?c" and ?range = "\<lambda>g. [s_Start g..s_End g]"
  have c: "0 < ?c" "in64 ?c" using max_conns_pos [of d] assms by (simp_all add: in64_def)
  note seg = plan_segment_exact [OF assms(1,2) c, of _ d]
  have q: "0 < ?q" using assms(3) c by (simp add: pos_imp_zdiv_pos_iff)
  have cq: "?q * (?c - 1) \<le> n - 1" "?q * ?c \<le> n"
    using share_bounds [of n ?c ?c] c assms(1) q by (simp_all add: algebra_simps)
  have split: "[0..?c - 1] = [0..?c - 2] @ [?c - 1]"
    using c upto_rec2 [of 0 "?c - 1"] by simp
  have last: "?range (?g (?c - 1)) = [?q * (?c - 1)..n - 1]"
    using seg(1,2) [of "?c - 1"] c by simp
  have init: "map (\<lambda>i. ?range (?g i)) [0..?c - 2] = map (\<lambda>i. [?q * i..?q * (i + 1) - 1]) [0..?c - 2]"
    by (rule map_cong) (use seg(1,2) in auto)
  have "concat (map (\<lambda>i. ?range (?g i)) [0..?c - 1]) = [0..?q * (?c - 1) - 1] @ [?q * (?c - 1)..n - 1]"
    unfolding split map_append concat_append init using tiles [of ?q "?c - 1"] q c last by simp
  also have "\<dots> = [0..n - 1]" using upto_split [of 0 "?q * (?c - 1)" "n - 1"] q c cq by simp
  finally have "concat (map ?range (map ?g [0..?c - 1])) = [0..n - 1]" by (simp add: comp_def)
  moreover have "s_DownloadID g = d_ID d \<and> 0 \<le> s_Start g \<and> s_Start g \<le> s_End g \<and> s_End g < n"
    if "g \<in> set (map ?g [0..?c - 1])" for g
  proof -
    from that obtain i where i: "g = ?g i" "0 \<le> i" "i < ?c" by auto
    have "?q * (i + 1) \<le> n" using share_bounds [of n ?c "i + 1"] i(2,3) c assms(1) by simp
    moreover have "0 \<le> ?q * i" using q i(2) by simp
    moreover have "?q * i + 1 \<le> ?q * (i + 1)" using q by (simp add: algebra_simps)
    ultimately show ?thesis using seg [of i] i cq by auto
  qed
  moreover have "map s_Index (map ?g [0..?c - 1]) = [0..?c - 1]"
    by (rule nth_equalityI) (use seg(3) in auto)
  ultimately show ?thesis using assms(1) by (simp add: Plan_def Let_def)
qed

interpretation pl: segment_planner Plan max_conns
proof unfold_locales
  fix ranges :: bool and n :: int and d :: Download
  assume "\<not> ranges \<or> n \<le> 0"
  then show "\<exists>g. Plan d n ranges = Inr [g] \<and> s_Start g = 0 \<and> s_End g = - 1"
    by (auto simp: Plan_def)
next
  fix n :: int and d :: Download
  assume "0 < n" "in64 n" "max_conns d \<le> n"
  from Plan_ranges [OF this] show "\<exists>gs. Plan d n True = Inr gs \<and>
      concat (map (\<lambda>g. [s_Start g..s_End g]) gs) = [0..n - 1] \<and>
      (\<forall>g \<in> set gs. 0 \<le> s_Start g \<and> s_Start g \<le> s_End g)" by blast
qed

section \<open>Properties\<close>

text \<open>
  When the server accepts ranges and there are no more connections than bytes, the planned
  segments are one per connection, numbered in order, non-empty, inside the file, and they tile it:
  every byte lies in exactly one segment.
\<close>

lemma plan_partition:
  assumes "0 < n" "in64 n" "max_conns d \<le> n"
  shows "\<exists>gs. Plan d n True = Inr gs \<and> length gs = nat (max_conns d) \<and>
    concat (map (\<lambda>g. [s_Start g..s_End g]) gs) = [0..n - 1] \<and>
    (\<forall>g \<in> set gs. s_DownloadID g = d_ID d \<and> 0 \<le> s_Start g \<and> s_Start g \<le> s_End g \<and> s_End g < n) \<and>
    map s_Index gs = [0..max_conns d - 1]"
  by (rule Plan_ranges [OF assms])

lemma plan_partition_witness:
  "\<exists>gs. Plan zero_Download 10 True = Inr gs \<and> length gs = 4 \<and>
     concat (map (\<lambda>g. [s_Start g..s_End g]) gs) = [0..9]"
proof -
  have "max_conns zero_Download = 4" by (simp add: max_conns_def)
  with plan_partition [of 10 zero_Download] show ?thesis by (auto simp: in64_def)
qed

text \<open>
  C28.  When a file has at least as many bytes as the download has connections, the merge step may
  concatenate: the slices of the file taken by the planned segments, in the order of the plan, are the
  file.  A file with fewer bytes is not planned as a partition, \<open>plan_tiny_file\<close>.
\<close>

theorem plan_slices_merge:
  assumes "body \<noteq> []" "in64 (int (length body))" "max_conns d \<le> int (length body)"
  shows "\<exists>gs. Plan d (int (length body)) True = Inr gs \<and> concat (map (slice body) gs) = body"
  by (rule pl.slices_are_body [OF assms])

theorem plan_slices_merge_witness:
  "\<exists>gs. Plan zero_Download 5 True = Inr gs \<and> concat (map (slice ''hello'') gs) = ''hello''"
  using plan_slices_merge [of "''hello''" zero_Download] by (simp add: in64_def max_conns_def)

text \<open>
  With fewer bytes than connections the plan is not a partition: every segment but the last is
  the range from 0 to -1, which the rest of the program reads as "the whole file", and the last one is
  the whole file.
\<close>

lemma plan_tiny_file:
  assumes "0 < n" "n < max_conns d" "in64 (max_conns d)"
  shows "\<exists>gs. Plan d n True = Inr gs \<and> length gs = nat (max_conns d) \<and>
    (\<forall>g \<in> set gs. s_Start g = 0 \<and>
       s_End g = (if s_Index g = max_conns d - 1 then n - 1 else - 1))"
proof -
  let ?c = "max_conns d"
  have n: "in64 n" using assms by (simp add: in64_def)
  have "s_Start g = 0 \<and> s_End g = (if s_Index g = ?c - 1 then n - 1 else - 1)"
    if "g \<in> set (map (plan_segment d n ?c) [0..?c - 1])" for g
  proof -
    from that obtain i where i: "g = plan_segment d n ?c i" "0 \<le> i" "i < ?c" by auto
    from plan_segment_exact [OF assms(1) n _ assms(3) i(2,3), of d] i assms(1,2) show ?thesis
      by (simp add: div_pos_pos_trivial)
  qed
  with assms(1) show ?thesis by (simp add: Plan_def Let_def)
qed

lemma plan_tiny_file_witness:
  "\<exists>gs. Plan zero_Download 3 True = Inr gs \<and> length gs = 4 \<and>
     (\<forall>g. \<not> (g \<in> set gs \<and> s_Start g \<noteq> 0))"
proof -
  have "max_conns zero_Download = 4" by (simp add: max_conns_def)
  with plan_tiny_file [of 3 zero_Download] show ?thesis by (auto simp: in64_def)
qed

end
