(* ===== verification/Options.thy ===== *)
theory Options
  imports Paths Models
begin

text \<open>
  The configuration (\<open>internal/config/config.go\<close>), the command line options with their defaults and the
  arguments of the daemon (\<open>internal/cli/options.go\<close>), and the API key check
  (\<open>internal/auth/auth.go\<close>).  The parsing of flags and of their environment variables is the library
  humacli, which fills an \<open>Options\<close> before this code runs; \<open>getenv\<close> is \<open>os.Getenv\<close>.
\<close>

section \<open>Configuration\<close>

record Config =
  g_HTTPPort :: int
  g_DataDir :: string
  g_BadgerDir :: string
  g_MaxBodyBytes :: int
  g_DefaultQueueID :: string
  g_GracefulSecs :: duration
  g_GlobalRateLimitBPS :: int
  g_APIKey :: string
  g_EnableAuth :: bool
  g_WorkerTickInterval :: duration
  g_StaleDownloadTimeout :: duration

definition Default :: Config where
  "Default =
     \<lparr>g_HTTPPort = 8089, g_DataDir = ''./data'', g_BadgerDir = ''./data/badger'',
      g_MaxBodyBytes = 25 * 2 ^ 20, g_DefaultQueueID = ''main'', g_GracefulSecs = 10 * time_Second,
      g_GlobalRateLimitBPS = 0, g_APIKey = [], g_EnableAuth = False,
      g_WorkerTickInterval = 2 * time_Second, g_StaleDownloadTimeout = 5 * time_Minute\<rparr>"

record Options =
  op_Port :: int
  op_DataDir :: string
  op_BadgerDir :: string
  op_MaxBodyBytes :: int
  op_DefaultQueueID :: string
  op_GracefulShutdownSecs :: int
  op_GlobalRateLimitBPS :: int
  op_Daemonize :: bool
  op_PIDFile :: string
  op_LogFile :: string
  op_APIKey :: string
  op_EnableAuth :: bool
  op_WorkerTickInterval :: int
  op_StaleDownloadTimeout :: int

section \<open>Defaults\<close>

text \<open>\<open>strconv.Atoi\<close> is \<open>ParseInt\<close> with 64 bits here; an unparsable value is ignored.\<close>

definition env_int :: "(string \<Rightarrow> string) \<Rightarrow> string \<Rightarrow> int \<Rightarrow> int" where
  "env_int getenv name old =
     (if getenv name = [] then old
      else case ParseInt (getenv name) of None \<Rightarrow> old | Some v \<Rightarrow> v)"

text \<open>A value that was not given, 0 or the empty string, takes the default.\<close>

definition or_default :: "int \<Rightarrow> int \<Rightarrow> int" where
  "or_default v d = (if v = 0 then d else v)"

definition or_text :: "string \<Rightarrow> string \<Rightarrow> string" where
  "or_text v d = (if v = [] then d else v)"

definition env_defaults :: "(string \<Rightarrow> string) \<Rightarrow> Options \<Rightarrow> Options" where
  "env_defaults getenv opt =
     opt\<lparr>op_Port := env_int getenv ''PORT'' (op_Port opt),
        op_GlobalRateLimitBPS := env_int getenv ''GLOBAL_RATE_LIMIT_BPS'' (op_GlobalRateLimitBPS opt)\<rparr>"

definition server_defaults :: "Options \<Rightarrow> Options" where
  "server_defaults opt =
     (let def = Default in
      opt\<lparr>op_Port := or_default (op_Port opt) (g_HTTPPort def),
         op_DataDir := or_text (op_DataDir opt) (g_DataDir def),
         op_BadgerDir := or_text (op_BadgerDir opt) (g_BadgerDir def),
         op_MaxBodyBytes := or_default (op_MaxBodyBytes opt) (g_MaxBodyBytes def),
         op_DefaultQueueID := or_text (op_DefaultQueueID opt) (g_DefaultQueueID def),
         op_GracefulShutdownSecs :=
           or_default (op_GracefulShutdownSecs opt) (div64 (g_GracefulSecs def) time_Second)\<rparr>)"

text \<open>The test of \<open>EnableAuth\<close> is the one of the code: a flag that was given is reset.\<close>

definition auth_defaults :: "Options \<Rightarrow> Options" where
  "auth_defaults opt =
     (let def = Default in
      opt\<lparr>op_APIKey := or_text (op_APIKey opt) (g_APIKey def),
         op_EnableAuth := (if op_EnableAuth opt then g_EnableAuth def else op_EnableAuth opt)\<rparr>)"

definition worker_defaults :: "Options \<Rightarrow> Options" where
  "worker_defaults opt =
     (let def = Default in
      opt\<lparr>op_WorkerTickInterval :=
           or_default (op_WorkerTickInterval opt) (div64 (g_WorkerTickInterval def) time_Second),
         op_StaleDownloadTimeout :=
           or_default (op_StaleDownloadTimeout opt) (div64 (g_StaleDownloadTimeout def) time_Second)\<rparr>)"

definition file_defaults :: "Options \<Rightarrow> Options" where
  "file_defaults opt =
     opt\<lparr>op_PIDFile := or_text (op_PIDFile opt) (Join [op_DataDir opt, ''svc-downloader.pid'']),
        op_LogFile := or_text (op_LogFile opt) (Join [op_DataDir opt, ''svc-downloader.log''])\<rparr>"

definition applyDynamicDefaults :: "(string \<Rightarrow> string) \<Rightarrow> Options \<Rightarrow> Options" where
  "applyDynamicDefaults getenv opt =
     file_defaults (worker_defaults (auth_defaults (server_defaults (env_defaults getenv opt))))"

definition toConfig :: "Options \<Rightarrow> Config" where
  "toConfig opt =
     \<lparr>g_HTTPPort = op_Port opt, g_DataDir = op_DataDir opt, g_BadgerDir = op_BadgerDir opt,
      g_MaxBodyBytes = op_MaxBodyBytes opt, g_DefaultQueueID = op_DefaultQueueID opt,
      g_GracefulSecs = mul64 (op_GracefulShutdownSecs opt) time_Second,
      g_GlobalRateLimitBPS = op_GlobalRateLimitBPS opt, g_APIKey = op_APIKey opt,
      g_EnableAuth = (op_EnableAuth opt \<or> op_APIKey opt \<noteq> []),
      g_WorkerTickInterval = mul64 (op_WorkerTickInterval opt) time_Second,
      g_StaleDownloadTimeout = mul64 (op_StaleDownloadTimeout opt) time_Second\<rparr>"

text \<open>\<open>strconv.FormatBool\<close>.\<close>

definition FormatBool :: "bool \<Rightarrow> string" where
  "FormatBool b = (if b then ''true'' else ''false'')"

definition buildArgsFromOptions :: "Options \<Rightarrow> string list" where
  "buildArgsFromOptions opt =
     [''serve''] @
     (if op_Port opt \<noteq> 0 then [''--port'', FormatInt (op_Port opt)] else []) @
     (if op_DataDir opt \<noteq> [] then [''--data-dir'', op_DataDir opt] else []) @
     (if op_BadgerDir opt \<noteq> [] then [''--badger-dir'', op_BadgerDir opt] else []) @
     (if op_MaxBodyBytes opt \<noteq> 0 then [''--max-body-bytes'', FormatInt (op_MaxBodyBytes opt)] else []) @
     (if op_DefaultQueueID opt \<noteq> [] then [''--default-queue-id'', op_DefaultQueueID opt] else []) @
     (if op_GracefulShutdownSecs opt \<noteq> 0
      then [''--graceful-shutdown-secs'', FormatInt (op_GracefulShutdownSecs opt)] else []) @
     (if op_GlobalRateLimitBPS opt \<noteq> 0
      then [''--global-rate-limit-bps'', FormatInt (op_GlobalRateLimitBPS opt)] else []) @
     [''--daemonize='' @ FormatBool (op_Daemonize opt)]"

section \<open>The API key\<close>

text \<open>
  What the middleware does with a request of a path and an \<open>Authorization\<close> header (empty when there is
  none): pass it on, with the key in its context when it was checked, or answer 401.
\<close>

datatype verdict = Serve "string option" | Unauthorized string

definition Middleware :: "string \<Rightarrow> string \<Rightarrow> string \<Rightarrow> verdict" where
  "Middleware key path authHeader =
     (if path = ''/health'' \<or> path = ''/openapi.yaml'' \<or> path = ''/openapi.json'' then Serve None
      else if authHeader = [] then Unauthorized ''Missing Authorization header''
      else if \<not> HasPrefix authHeader ''Bearer '' then Unauthorized ''Invalid Authorization header format''
      else let apiKey = TrimPrefix authHeader ''Bearer ''
           in if apiKey \<noteq> key then Unauthorized ''Invalid API key'' else Serve (Some apiKey))"

definition HumaMiddleware :: "string \<Rightarrow> string \<Rightarrow> string \<Rightarrow> verdict" where
  "HumaMiddleware key = Middleware key"

text \<open>\<open>server.New\<close> wraps the handler when authentication is on and a key is set.\<close>

definition guarded :: "Config \<Rightarrow> string \<Rightarrow> string \<Rightarrow> verdict" where
  "guarded cfg path authHeader =
     (if g_EnableAuth cfg \<and> g_APIKey cfg \<noteq> [] then HumaMiddleware (g_APIKey cfg) path authHeader
      else Serve None)"

section \<open>What the defaults leave alone\<close>

lemma applyDynamicDefaults_sel [simp]:
  "op_APIKey (applyDynamicDefaults getenv opt) = op_APIKey opt"
  "op_EnableAuth (applyDynamicDefaults getenv opt) = False"
  "op_Daemonize (applyDynamicDefaults getenv opt) = op_Daemonize opt"
  by (simp_all add: applyDynamicDefaults_def file_defaults_def worker_defaults_def auth_defaults_def
      server_defaults_def env_defaults_def or_text_def Let_def Default_def)

lemma buildArgs_ignore [simp]:
  "buildArgsFromOptions (opt\<lparr>op_APIKey := k\<rparr>) = buildArgsFromOptions opt"
  "buildArgsFromOptions (opt\<lparr>op_EnableAuth := e\<rparr>) = buildArgsFromOptions opt"
  "buildArgsFromOptions (opt\<lparr>op_WorkerTickInterval := w\<rparr>) = buildArgsFromOptions opt"
  "buildArgsFromOptions (opt\<lparr>op_StaleDownloadTimeout := t\<rparr>) = buildArgsFromOptions opt"
  by (simp_all add: buildArgsFromOptions_def)

section \<open>Properties\<close>

definition zero_CliOptions :: Options where
  "zero_CliOptions =
     \<lparr>op_Port = 0, op_DataDir = [], op_BadgerDir = [], op_MaxBodyBytes = 0, op_DefaultQueueID = [],
      op_GracefulShutdownSecs = 0, op_GlobalRateLimitBPS = 0, op_Daemonize = False, op_PIDFile = [],
      op_LogFile = [], op_APIKey = [], op_EnableAuth = False, op_WorkerTickInterval = 0,
      op_StaleDownloadTimeout = 0\<rparr>"

text \<open>
  A server started with an API key, on whatever flags and environment, serves exactly the requests
  for the three public paths and those with the header \<open>Bearer\<close> followed by that key; every other
  request is answered with 401.  Without a key everything is served, even when \<open>--enable-auth\<close> is
  given.
\<close>

lemma auth_exact:
  "guarded (toConfig (applyDynamicDefaults getenv opt)) path authHeader =
     (if op_APIKey opt = [] \<or> path \<in> {''/health'', ''/openapi.yaml'', ''/openapi.json''} then Serve None
      else if authHeader = ''Bearer '' @ op_APIKey opt then Serve (Some (op_APIKey opt))
      else if authHeader = [] then Unauthorized ''Missing Authorization header''
      else if prefix ''Bearer '' authHeader then Unauthorized ''Invalid API key''
      else Unauthorized ''Invalid Authorization header format'')"
proof (cases "prefix ''Bearer '' authHeader")
  case True
  then obtain k where "authHeader = ''Bearer '' @ k" by (rule prefixE)
  then show ?thesis
    by (simp add: guarded_def toConfig_def HumaMiddleware_def Middleware_def HasPrefix_def Let_def TrimPrefix_def)
next
  case False
  then have "authHeader \<noteq> ''Bearer '' @ op_APIKey opt" by (metis prefixI)
  with False show ?thesis
    by (simp add: guarded_def toConfig_def HumaMiddleware_def Middleware_def HasPrefix_def)
qed

text \<open>
  Options without any flag or environment variable give the default configuration, and options
  that spell out the defaults give it as well.
\<close>

lemma defaults_give_Default:
  "toConfig (applyDynamicDefaults (\<lambda>_. []) zero_CliOptions) = Default \<and>
   toConfig (applyDynamicDefaults (\<lambda>_. []) (applyDynamicDefaults (\<lambda>_. []) zero_CliOptions)) = Default"
proof -
  have "toConfig (applyDynamicDefaults (\<lambda>_. []) zero_CliOptions) = Default" by code_simp
  moreover have "toConfig (applyDynamicDefaults (\<lambda>_. []) (applyDynamicDefaults (\<lambda>_. []) zero_CliOptions)) = Default"
    by code_simp
  ultimately show ?thesis by simp
qed

end
