(* ===== verification/Transport.thy ===== *)
theory Transport
  imports Interfaces
begin

text \<open>
  \<open>internal/transport/httpclient.go\<close>: the requests that are sent, the choice among mirrors and the
  metadata of a response.  What a server answers is a parameter: \<open>net k\<close> is the answer to the \<open>k\<close>-th
  request that an operation sends, an error or a response whose body is its bytes and the error that
  ends it (\<open>None\<close> for EOF).  \<open>U\<close> is \<open>net/url\<close>'s parser and printer.  A \<open>map[string]string\<close> is the
  list of its entries in the order of the iteration, which Go leaves open.
\<close>

section \<open>Headers\<close>

text \<open>\<open>textproto.CanonicalMIMEHeaderKey\<close>: a key with a byte that no header name has is left alone.\<close>

definition upper_byte :: "char \<Rightarrow> char" where
  "upper_byte c =
     (let n = of_char c :: nat in if 97 \<le> n \<and> n \<le> 122 then char_of (n - 32) else c)"

definition is_alpha :: "char \<Rightarrow> bool" where
  "is_alpha c \<longleftrightarrow> (let n = of_char c :: nat in 65 \<le> n \<and> n \<le> 90 \<or> 97 \<le> n \<and> n \<le> 122)"

definition token_byte :: "char \<Rightarrow> bool" where
  "token_byte c \<longleftrightarrow> is_alpha c \<or> is_digit c \<or> c \<in> set ''!#$%&*+-.^_`|~'' \<or> (of_char c :: nat) = 39"

fun canon_bytes :: "bool \<Rightarrow> string \<Rightarrow> string" where
  "canon_bytes up [] = []"
| "canon_bytes up (c # cs) =
     (if up then upper_byte c else lower_byte c) # canon_bytes (c = CHR ''-'') cs"

definition canonical :: "string \<Rightarrow> string" where
  "canonical k = (if list_all token_byte k then canon_bytes True k else k)"

type_synonym header = "string \<Rightarrow> string list"

definition hdr_get :: "header \<Rightarrow> string \<Rightarrow> string" where
  "hdr_get h k = (case h (canonical k) of [] \<Rightarrow> [] | v # vs \<Rightarrow> v)"

definition hdr_set :: "string \<Rightarrow> string \<Rightarrow> header \<Rightarrow> header" where
  "hdr_set k v h = h(canonical k := [v])"

definition set_missing :: "string \<Rightarrow> string \<Rightarrow> header \<Rightarrow> header" where
  "set_missing k v h = (if hdr_get h k = [] then hdr_set k v h else h)"

definition set_all :: "smap \<Rightarrow> header \<Rightarrow> header" where
  "set_all kvs h = foldl (\<lambda>h (k, v). hdr_set k v h) h kvs"

text \<open>\<open>AddCookie\<close>: a name without line breaks, a value without the bytes that a cookie value may not have.\<close>

definition cookie_name :: "string \<Rightarrow> string" where
  "cookie_name s = map (\<lambda>c. if (of_char c :: nat) \<in> {10, 13} then CHR ''-'' else c) s"

definition cookie_byte :: "char \<Rightarrow> bool" where
  "cookie_byte c \<longleftrightarrow>
     (let n = of_char c :: nat in 32 \<le> n \<and> n < 127 \<and> n \<noteq> 34 \<and> c \<noteq> CHR '';'' \<and> n \<noteq> 92)"

definition cookie_value :: "string \<Rightarrow> string" where
  "cookie_value s =
     (let v = filter cookie_byte s; quote = [char_of (34::nat)]
      in if CHR '' '' \<in> set v \<or> CHR '','' \<in> set v then quote @ v @ quote else v)"

definition add_cookie :: "string \<times> string \<Rightarrow> header \<Rightarrow> header" where
  "add_cookie kv h =
     (let s = cookie_name (fst kv) @ ''='' @ cookie_value (snd kv); c = hdr_get h ''Cookie''
      in hdr_set ''Cookie'' (if c = [] then s else c @ ''; '' @ s) h)"

definition add_cookies :: "smap \<Rightarrow> header \<Rightarrow> header" where
  "add_cookies kvs h = foldl (\<lambda>h kv. add_cookie kv h) h kvs"

text \<open>\<open>SetBasicAuth\<close>, with the standard base64 alphabet and padding.\<close>

definition b64_char :: "nat \<Rightarrow> char" where
  "b64_char n = ''ABCDEFGHIJKLMNOPQRSTUVWXYZabcdefghijklmnopqrstuvwxyz0123456789+/'' ! n"

fun base64 :: "nat list \<Rightarrow> string" where
  "base64 [] = []"
| "base64 [a] = [b64_char (a div 4), b64_char (a mod 4 * 16), CHR ''='', CHR ''='']"
| "base64 [a, b] =
     [b64_char (a div 4), b64_char (a mod 4 * 16 + b div 16), b64_char (b mod 16 * 4), CHR ''='']"
| "base64 (a # b # c # bs) =
     b64_char (a div 4) # b64_char (a mod 4 * 16 + b div 16) # b64_char (b mod 16 * 4 + c div 64) #
     b64_char (c mod 64) # base64 bs"

definition basic_auth :: "string \<Rightarrow> string \<Rightarrow> string" where
  "basic_auth user pass = ''Basic '' @ base64 (map of_char (user @ '':'' @ pass))"

section \<open>URLs\<close>

text \<open>What the program reads of a \<open>url.URL\<close>; the rest of it is carried along.\<close>

record url =
  u_Scheme :: string
  u_Host :: string
  u_RawQuery :: string
  u_rest :: string

record urllib =
  url_Parse :: "string \<Rightarrow> url res"
  url_String :: "url \<Rightarrow> string"

definition withMirrors :: "RequestOptions \<Rightarrow> string list" where
  "withMirrors req = r_URL req # filter (\<lambda>m. m \<noteq> []) (r_MirrorURLs req)"

text \<open>\<open>url.QueryEscape\<close> and \<open>url.QueryUnescape\<close>, on the parts of a query.\<close>

definition hex_digit :: "nat \<Rightarrow> char" where
  "hex_digit n = ''0123456789ABCDEF'' ! n"

definition unhex :: "char \<Rightarrow> nat option" where
  "unhex c =
     (let n = of_char c :: nat
      in if 48 \<le> n \<and> n \<le> 57 then Some (n - 48)
         else if 65 \<le> n \<and> n \<le> 70 then Some (n - 55)
         else if 97 \<le> n \<and> n \<le> 102 then Some (n - 87) else None)"

definition query_plain :: "char \<Rightarrow> bool" where
  "query_plain c \<longleftrightarrow> is_alpha c \<or> is_digit c \<or> c \<in> set ''-_.~''"

definition escape_byte :: "char \<Rightarrow> string" where
  "escape_byte c =
     (if query_plain c then [c] else if c = CHR '' '' then ''+''
      else [CHR ''%'', hex_digit (of_char c div 16), hex_digit (of_char c mod 16)])"

definition QueryEscape :: "string \<Rightarrow> string" where
  "QueryEscape s = concat (map escape_byte s)"

fun QueryUnescape :: "string \<Rightarrow> string option" where
  "QueryUnescape [] = Some []"
| "QueryUnescape (c # s) =
     (if c = CHR ''%''
      then (case s of a # b # s' \<Rightarrow>
              (case (unhex a, unhex b) of
                 (Some m, Some n) \<Rightarrow> map_option (\<lambda>t. char_of (16 * m + n) # t) (QueryUnescape s')
               | _ \<Rightarrow> None)
            | _ \<Rightarrow> None)
      else map_option (\<lambda>t. (if c = CHR ''+'' then CHR '' '' else c) # t) (QueryUnescape s))"

text \<open>
  \<open>url.Values\<close>: \<open>Query\<close> drops the settings that it cannot parse, \<open>Encode\<close> sorts by key.  The values of
  a key are in the order in which they occur.
\<close>

type_synonym vals = "(string \<times> string) list"

definition cut_eq :: "string \<Rightarrow> string \<times> string" where
  "cut_eq s =
     (let k = takeWhile (\<lambda>c. c \<noteq> CHR ''='') s in (k, drop (Suc (length k)) s))"

definition parse_setting :: "string \<Rightarrow> (string \<times> string) option" where
  "parse_setting s =
     (if s = [] \<or> CHR '';'' \<in> set s then None
      else case (QueryUnescape (fst (cut_eq s)), QueryUnescape (snd (cut_eq s))) of
        (Some k, Some v) \<Rightarrow> Some (k, v) | _ \<Rightarrow> None)"

definition ParseQuery :: "string \<Rightarrow> vals" where
  "ParseQuery s = List.map_filter parse_setting (split_on (CHR ''&'') s)"

definition vals_set :: "string \<Rightarrow> string \<Rightarrow> vals \<Rightarrow> vals" where
  "vals_set k v q = filter (\<lambda>(k', v'). k' \<noteq> k) q @ [(k, v)]"

definition Encode :: "vals \<Rightarrow> string" where
  "Encode q =
     join_with (CHR ''&'')
       (map (\<lambda>(k, v). QueryEscape k @ ''='' @ QueryEscape v)
         (concat (map (\<lambda>k. filter (\<lambda>(k', v). k' = k) q) (sort (remdups (map fst q))))))"

definition addQuery :: "urllib \<Rightarrow> string \<Rightarrow> RequestOptions \<Rightarrow> string" where
  "addQuery U u req =
     (case r_Extra req of
        None \<Rightarrow> u
      | Some x \<Rightarrow>
          if x_QueryParams x = [] then u
          else case url_Parse U u of Inl e \<Rightarrow> u
            | Inr u2 \<Rightarrow>
                let q = foldl (\<lambda>q (k, v). vals_set k v q) (ParseQuery (u_RawQuery u2)) (x_QueryParams x)
                in url_String U (u2\<lparr>u_RawQuery := Encode q\<rparr>))"

section \<open>Requests and responses\<close>

record http_request =
  hq_Method :: string
  hq_URL :: string
  hq_Header :: header

text \<open>The bytes of a body and the error that ends it.\<close>

type_synonym body = "string \<times> gerr option"

record http_response =
  hp_StatusCode :: int
  hp_Status :: string
  hp_Header :: header
  hp_Body :: body

text \<open>The client of a configuration: transport settings, redirects and timeout.\<close>

record http_client =
  cl_Insecure :: bool
  cl_ServerName :: string
  cl_MinVersion :: int
  cl_MaxVersion :: int
  cl_Proxy :: "(string \<times> (string \<times> string) option) option"
  cl_Follow :: bool
  cl_Limit :: int
  cl_Timeout :: duration

type_synonym network = "nat \<Rightarrow> http_client \<Rightarrow> http_request \<Rightarrow> http_response res"

text \<open>\<open>HTTPClient\<close> keeps the timeout; the transport that is cloned has no setting that is read here.\<close>

definition NewHTTPClient :: "duration \<Rightarrow> duration" where
  "NewHTTPClient timeout = (if timeout = 0 then 30 * time_Minute else timeout)"

definition clientFor :: "duration \<Rightarrow> DownloadConfig \<Rightarrow> http_client" where
  "clientFor timeout cfg =
     \<lparr>cl_Insecure = (case c_TLS cfg of None \<Rightarrow> c_AllowInsecureTLS cfg
        | Some t \<Rightarrow> tl_InsecureSkipVerify t \<or> c_AllowInsecureTLS cfg),
      cl_ServerName = (case c_TLS cfg of None \<Rightarrow> [] | Some t \<Rightarrow> tl_ServerName t),
      cl_MinVersion = (case c_TLS cfg of None \<Rightarrow> 0 | Some t \<Rightarrow> tl_MinVersion t),
      cl_MaxVersion = (case c_TLS cfg of None \<Rightarrow> 0 | Some t \<Rightarrow> tl_MaxVersion t),
      cl_Proxy = (case c_Proxy cfg of None \<Rightarrow> None
        | Some p \<Rightarrow> if px_IP p \<noteq> [] \<and> px_Port p \<noteq> 0
            then Some (px_IP p @ '':'' @ FormatInt (px_Port p),
                   if px_Username p \<noteq> [] then Some (px_Username p, px_Password p) else None)
            else None),
      cl_Follow = c_FollowRedirects cfg, cl_Limit = c_RedirectsLimit cfg,
      cl_Timeout = (if 0 < c_Timeout cfg then c_Timeout cfg else timeout)\<rparr>"

text \<open>\<open>CheckRedirect\<close>, for a redirect after \<open>via\<close> requests; \<open>http.ErrUseLastResponse\<close> ends without error.\<close>

datatype redirect = FollowIt | UseLast | StopRedirect gerr

definition CheckRedirect :: "http_client \<Rightarrow> nat \<Rightarrow> redirect" where
  "CheckRedirect cl via =
     (if \<not> cl_Follow cl then UseLast
      else if 0 < cl_Limit cl \<and> cl_Limit cl \<le> int via
      then StopRedirect (ErrText ''stopped after too many redirects'') else FollowIt)"

definition default_headers :: "header \<Rightarrow> header" where
  "default_headers h =
     (let q = [char_of (34::nat)];
          h = set_missing ''User-Agent'' ''Mozilla/5.0 (Macintosh; Intel Mac OS X 10_15_7) AppleWebKit/537.36 (KHTML, like Gecko) Chrome/140.0.0.0 Safari/537.36'' h;
          h = set_missing ''Accept'' ''*/*'' h;
          h = set_missing ''Accept-Language'' ''en-GB,en-US;q=0.9,en;q=0.8,bn;q=0.7'' h;
          h = set_missing ''Connection'' ''keep-alive'' h;
          h = set_missing ''DNT'' ''1'' h
      in set_missing ''sec-ch-ua''
           (q @ ''Chromium'' @ q @ '';v='' @ q @ ''140'' @ q @ '', '' @ q @ ''Not=A?Brand'' @ q @ '';v='' @ q @
            ''24'' @ q @ '', '' @ q @ ''Google Chrome'' @ q @ '';v='' @ q @ ''140'' @ q) h)"

definition extra_headers :: "urllib \<Rightarrow> RequestOptions \<Rightarrow> header \<Rightarrow> header" where
  "extra_headers U req h =
     (case r_Extra req of
        None \<Rightarrow> h
      | Some x \<Rightarrow>
          let h = add_cookies (x_Cookies x) (set_all (x_Headers x) h)
          in if hdr_get h ''Referer'' = [] \<and> r_URL req \<noteq> []
             then (case url_Parse U (r_URL req) of Inl e \<Rightarrow> h
                   | Inr u \<Rightarrow> hdr_set ''Referer'' (u_Scheme u @ ''://'' @ u_Host u) h)
             else h)"

definition auth_header :: "DownloadConfig \<Rightarrow> header \<Rightarrow> header" where
  "auth_header cfg h =
     (case c_Auth cfg of
        None \<Rightarrow> h
      | Some a \<Rightarrow>
          if au_BearerToken a \<noteq> [] then hdr_set ''Authorization'' (''Bearer '' @ au_BearerToken a) h
          else if au_Username a \<noteq> []
          then hdr_set ''Authorization'' (basic_auth (au_Username a) (au_Password a)) h
          else h)"

definition applyHeaders :: "urllib \<Rightarrow> RequestOptions \<Rightarrow> DownloadConfig \<Rightarrow> header \<Rightarrow> header" where
  "applyHeaders U req cfg h =
     auth_header cfg (extra_headers U req
       (add_cookies (c_Cookies cfg) (set_all (c_Headers cfg) (default_headers h))))"

text \<open>\<open>http.NewRequestWithContext\<close> fails when the URL cannot be parsed.\<close>

definition new_request ::
    "urllib \<Rightarrow> RequestOptions \<Rightarrow> DownloadConfig \<Rightarrow> string \<Rightarrow> header \<Rightarrow> string \<Rightarrow> http_request res" where
  "new_request U req cfg verb h u =
     (let target = addQuery U u req
      in bindE (url_Parse U target) (\<lambda>_.
           Inr \<lparr>hq_Method = verb, hq_URL = target, hq_Header = applyHeaders U req cfg h\<rparr>))"

definition no_headers :: header where "no_headers = (\<lambda>k. [])"

section \<open>Metadata\<close>

definition parseMeta :: "header \<Rightarrow> ResponseMetadata" where
  "parseMeta h =
     \<lparr>m_ETag = hdr_get h ''ETag'', m_LastModified = hdr_get h ''Last-Modified'',
      m_AcceptRanges = (hdr_get h ''Accept-Ranges'' = ''bytes'' \<or> hdr_get h ''Content-Range'' \<noteq> []),
      m_ContentType = hdr_get h ''Content-Type'',
      m_ContentLength =
        (let cl = hdr_get h ''Content-Length''
         in if cl = [] then 0 else case ParseInt cl of None \<Rightarrow> 0 | Some n \<Rightarrow> n)\<rparr>"

fun last_slash_at :: "nat \<Rightarrow> string \<Rightarrow> int" where
  "last_slash_at 0 s = - 1"
| "last_slash_at (Suc i) s = (if s ! i = slash then int i else last_slash_at i s)"

definition lastSlash :: "string \<Rightarrow> int" where
  "lastSlash s = last_slash_at (length s) s"

definition total_length :: "header \<Rightarrow> ResponseMetadata \<Rightarrow> ResponseMetadata" where
  "total_length h md =
     (let cr = hdr_get h ''Content-Range''; i = lastSlash cr
      in if cr \<noteq> [] \<and> 0 \<le> i
         then case ParseInt (drop (nat i + 1) cr) of None \<Rightarrow> md | Some n \<Rightarrow> md\<lparr>m_ContentLength := n\<rparr>
         else md)"

section \<open>Operations\<close>

text \<open>\<open>headFallback\<close> over the remaining URLs; \<open>err\<close> is \<open>lastErr\<close>.\<close>

fun fallback_loop ::
    "urllib \<Rightarrow> network \<Rightarrow> http_client \<Rightarrow> RequestOptions \<Rightarrow> DownloadConfig \<Rightarrow> gerr option \<Rightarrow> string list \<Rightarrow>
       ((ResponseMetadata \<times> header) option \<times> gerr option)" where
  "fallback_loop U net cl req cfg err [] = (None, err)"
| "fallback_loop U net cl req cfg err (u # us) =
     (case new_request U req cfg ''GET'' (hdr_set ''Range'' ''bytes=0-'' no_headers) u of
        Inl e \<Rightarrow> fallback_loop U net cl req cfg (Some e) us
      | Inr r \<Rightarrow> (case net 0 cl r of
          Inl e \<Rightarrow> fallback_loop U (skip 1 net) cl req cfg (Some e) us
        | Inr resp \<Rightarrow>
            if 400 \<le> hp_StatusCode resp
            then fallback_loop U (skip 1 net) cl req cfg
                   (Some (ErrText (''head fallback failed: '' @ hp_Status resp))) us
            else (Some (total_length (hp_Header resp) (parseMeta (hp_Header resp)), hp_Header resp), None)))"

definition headFallback ::
    "urllib \<Rightarrow> network \<Rightarrow> duration \<Rightarrow> RequestOptions \<Rightarrow> DownloadConfig \<Rightarrow>
       ((ResponseMetadata \<times> header) option \<times> gerr option)" where
  "headFallback U net timeout req cfg =
     fallback_loop U net (clientFor timeout cfg) req cfg None (withMirrors req)"

text \<open>The number of requests that were sent and the metadata of the first answer that is not an error.\<close>

fun head_loop ::
    "urllib \<Rightarrow> network \<Rightarrow> http_client \<Rightarrow> RequestOptions \<Rightarrow> DownloadConfig \<Rightarrow> nat \<Rightarrow> string list \<Rightarrow>
       nat \<times> (ResponseMetadata \<times> header) option" where
  "head_loop U net cl req cfg n [] = (n, None)"
| "head_loop U net cl req cfg n (u # us) =
     (case new_request U req cfg ''HEAD'' no_headers u of
        Inl e \<Rightarrow> head_loop U net cl req cfg n us
      | Inr r \<Rightarrow> (case net n cl r of
          Inl e \<Rightarrow> head_loop U net cl req cfg (Suc n) us
        | Inr resp \<Rightarrow>
            if 400 \<le> hp_StatusCode resp then head_loop U net cl req cfg (Suc n) us
            else (Suc n, Some (parseMeta (hp_Header resp), hp_Header resp))))"

definition Head ::
    "urllib \<Rightarrow> network \<Rightarrow> duration \<Rightarrow> RequestOptions \<Rightarrow> DownloadConfig \<Rightarrow>
       ((ResponseMetadata \<times> header) option \<times> gerr option)" where
  "Head U net timeout req cfg =
     (if c_DisableHead cfg then headFallback U net timeout req cfg
      else case head_loop U net (clientFor timeout cfg) req cfg 0 (withMirrors req) of
        (n, Some m) \<Rightarrow> (Some m, None)
      | (n, None) \<Rightarrow> headFallback U (skip n net) timeout req cfg)"

text \<open>What \<open>GetRange\<close> returns: the last status and the last error, or the answer of a server.\<close>

datatype range_result =
    RangeFail int "gerr option"
  | RangeOk (rg_body: body) (rg_meta: ResponseMetadata) (rg_header: header) (rg_code: int)

definition range_value :: "int \<Rightarrow> int \<Rightarrow> string" where
  "range_value start stop =
     ''bytes='' @ FormatInt start @ ''-'' @ (if 0 \<le> stop then FormatInt stop else [])"

fun range_loop ::
    "urllib \<Rightarrow> network \<Rightarrow> http_client \<Rightarrow> RequestOptions \<Rightarrow> DownloadConfig \<Rightarrow> int \<Rightarrow> int \<Rightarrow> int \<Rightarrow>
       gerr option \<Rightarrow> string list \<Rightarrow> range_result" where
  "range_loop U net cl req cfg start stop status err [] = RangeFail status err"
| "range_loop U net cl req cfg start stop status err (u # us) =
     (case new_request U req cfg ''GET'' (hdr_set ''Range'' (range_value start stop) no_headers) u of
        Inl e \<Rightarrow> range_loop U net cl req cfg start stop status (Some e) us
      | Inr r \<Rightarrow> (case net 0 cl r of
          Inl e \<Rightarrow> range_loop U (skip 1 net) cl req cfg start stop status (Some e) us
        | Inr resp \<Rightarrow>
            if 400 \<le> hp_StatusCode resp
            then range_loop U (skip 1 net) cl req cfg start stop (hp_StatusCode resp)
                   (Some (ErrText (''get range failed: '' @ hp_Status resp))) us
            else RangeOk (hp_Body resp) (parseMeta (hp_Header resp)) (hp_Header resp) (hp_StatusCode resp)))"

definition GetRange ::
    "urllib \<Rightarrow> network \<Rightarrow> duration \<Rightarrow> RequestOptions \<Rightarrow> DownloadConfig \<Rightarrow> int \<Rightarrow> int \<Rightarrow> range_result" where
  "GetRange U net timeout req cfg start stop =
     range_loop U net (clientFor timeout cfg) req cfg start stop 0 None (withMirrors req)"

section \<open>Queries\<close>

lemma unhex_hex_digit: "n < 16 \<Longrightarrow> unhex (hex_digit n) = Some n"
proof -
  have "list_all (\<lambda>n. unhex (hex_digit n) = Some n) [0..<16]" by code_simp
  then show "n < 16 \<Longrightarrow> unhex (hex_digit n) = Some n" by (simp add: list_all_iff)
qed

lemma hex_digit_alnum: "n < 16 \<Longrightarrow> is_alpha (hex_digit n) \<or> is_digit (hex_digit n)"
proof -
  have "list_all (\<lambda>n. is_alpha (hex_digit n) \<or> is_digit (hex_digit n)) [0..<16]" by code_simp
  then show "n < 16 \<Longrightarrow> is_alpha (hex_digit n) \<or> is_digit (hex_digit n)" by (simp add: list_all_iff)
qed

lemma byte_of_nibbles: "char_of (16 * (of_char c div 16) + of_char c mod (16::nat)) = c"
  by (metis char_of_char mult.commute div_mult_mod_eq)

lemma nibbles: "(of_char c :: nat) div 16 < 16" "(of_char c :: nat) mod 16 < 16"
  using nat_of_char_less_256 [of c] by linarith simp

lemma not_query_plain [simp]: "\<not> query_plain (CHR ''%'')" "\<not> query_plain (CHR ''+'')"
  by (simp_all add: query_plain_def is_alpha_def is_digit_def Let_def)

lemma unescape_byte: "QueryUnescape (escape_byte c @ s) = map_option ((#) c) (QueryUnescape s)"
proof (cases "query_plain c")
  case True
  then have "c \<noteq> CHR ''%''" "c \<noteq> CHR ''+''" by (metis not_query_plain)+
  with True show ?thesis by (simp add: escape_byte_def)
next
  case False
  then show ?thesis
    by (simp add: escape_byte_def unhex_hex_digit nibbles byte_of_nibbles)
qed

lemma unescape_escape: "QueryUnescape (QueryEscape s) = Some s"
  by (induction s) (simp_all add: QueryEscape_def unescape_byte)

lemma escape_chars: "c \<in> set (QueryEscape s) \<Longrightarrow> query_plain c \<or> c = CHR ''+'' \<or> c = CHR ''%''"
  using hex_digit_alnum [OF nibbles(1)] hex_digit_alnum [OF nibbles(2)]
  by (auto simp: QueryEscape_def escape_byte_def query_plain_def split: if_splits)

lemma escape_free [simp]:
  "CHR ''&'' \<notin> set (QueryEscape s)" "CHR '';'' \<notin> set (QueryEscape s)" "CHR ''='' \<notin> set (QueryEscape s)"
  using escape_chars [of "CHR ''&''" s] escape_chars [of "CHR '';''" s] escape_chars [of "CHR ''=''" s]
  by (auto simp: query_plain_def is_alpha_def is_digit_def Let_def)

lemma cut_eq_append: "CHR ''='' \<notin> set k \<Longrightarrow> cut_eq (k @ CHR ''='' # v) = (k, v)"
proof -
  assume "CHR ''='' \<notin> set k"
  then have "takeWhile (\<lambda>c. c \<noteq> CHR ''='') (k @ CHR ''='' # v) = k" by (induction k) auto
  then show ?thesis by (simp add: cut_eq_def)
qed

lemma parse_setting_escaped:
  "parse_setting (QueryEscape k @ CHR ''='' # QueryEscape v) = Some (k, v)"
  by (simp add: parse_setting_def cut_eq_append unescape_escape)

definition grouped :: "vals \<Rightarrow> vals" where
  "grouped q = concat (map (\<lambda>k. filter (\<lambda>(k', v). k' = k) q) (sort (remdups (map fst q))))"

lemma ParseQuery_Encode: "ParseQuery (Encode q) = grouped q"
proof (cases "grouped q = []")
  case True
  then have "Encode q = []" unfolding Encode_def grouped_def [symmetric] by simp
  with True show ?thesis by (simp add: ParseQuery_def List.map_filter_def parse_setting_def)
next
  case False
  let ?f = "\<lambda>(k, v). QueryEscape k @ ''='' @ QueryEscape v"
  have "split_on (CHR ''&'') (Encode q) = map ?f (grouped q)"
    unfolding Encode_def grouped_def [symmetric]
    by (rule split_on_join) (use False in \<open>auto simp: case_prod_beta\<close>)
  moreover have "List.map_filter parse_setting (map ?f kvs) = kvs" for kvs
    by (induction kvs) (auto simp: List.map_filter_def parse_setting_escaped)
  ultimately show ?thesis by (simp add: ParseQuery_def)
qed

definition vals_of :: "string \<Rightarrow> vals \<Rightarrow> string list" where
  "vals_of k q = map snd (filter (\<lambda>(k', v). k' = k) q)"

lemma grouped_key:
  assumes "distinct ks"
  shows "filter (\<lambda>(k', v). k' = k) (concat (map (\<lambda>k. filter (\<lambda>(k', v). k' = k) q) ks)) =
    (if k \<in> set ks then filter (\<lambda>(k', v). k' = k) q else [])"
  using assms
proof (induction ks)
  case (Cons k0 ks)
  have "filter (\<lambda>(k', v). k' = k) (filter (\<lambda>(k', v). k' = k0) q) =
      (if k = k0 then filter (\<lambda>(k', v). k' = k) q else [])"
    by (auto simp: filter_empty_conv)
  with Cons show ?case by auto
qed simp

lemma vals_of_grouped: "vals_of k (grouped q) = vals_of k q"
  using grouped_key [of "sort (remdups (map fst q))" k q]
  by (force simp: vals_of_def grouped_def filter_empty_conv)

lemma vals_of_set: "vals_of k (vals_set k' v q) = (if k = k' then [v] else vals_of k q)"
proof -
  have "filter (\<lambda>(x, v). x = k) (filter (\<lambda>(x, v). x \<noteq> k') q) = (if k = k' then [] else filter (\<lambda>(x, v). x = k) q)"
    by (induction q) auto
  then show ?thesis by (simp add: vals_of_def vals_set_def)
qed

lemma vals_of_set_all:
  "vals_of k (foldl (\<lambda>q (k, v). vals_set k v q) q kvs) =
     (case map_of (rev kvs) k of Some v \<Rightarrow> [v] | None \<Rightarrow> vals_of k q)"
  by (induction kvs rule: rev_induct) (auto simp: vals_of_set)

text \<open>
  What is used of \<open>net/url\<close>: replacing the query of a parsed URL by an encoded one, printing it and
  parsing it again gives the same parts.
\<close>

definition url_laws :: "urllib \<Rightarrow> bool" where
  "url_laws U \<longleftrightarrow> (\<forall>s u q. url_Parse U s = Inr u \<longrightarrow>
     url_Parse U (url_String U (u\<lparr>u_RawQuery := Encode q\<rparr>)) = Inr (u\<lparr>u_RawQuery := Encode q\<rparr>))"

definition demo_extra :: RequestExtra where
  "demo_extra =
     \<lparr>x_Method = [], x_QueryParams = [(''k&'', ''v 1'')], x_Headers = [], x_Cookies = [], x_Body = [],
      x_ContentLength = 0, x_ContentType = [], x_Protocol = [], x_FollowRedirects = False,
      x_AllowInsecureTLS = False\<rparr>"

definition demo_urllib :: urllib where
  "demo_urllib =
     \<lparr>url_Parse = (\<lambda>s. let p = takeWhile (\<lambda>c. c \<noteq> CHR ''?'') s
        in Inr \<lparr>u_Scheme = ''http'', u_Host = ''h'', u_RawQuery = drop (Suc (length p)) s, u_rest = p\<rparr>),
      url_String = (\<lambda>u. takeWhile (\<lambda>c. c \<noteq> CHR ''?'') (u_rest u) @ CHR ''?'' # u_RawQuery u)\<rparr>"

lemma demo_url_laws: "url_laws demo_urllib"
proof -
  have t: "takeWhile P (takeWhile P s @ c # t) = takeWhile P s" if "\<not> P c" for P s c and t :: string
    using that by (induction s) auto
  show ?thesis
    by (auto simp: url_laws_def demo_urllib_def Let_def t)
qed

text \<open>
  C33.  The URL that is requested has every configured query parameter with its last value, once; the
  other parameters of the URL and its other parts are kept, whatever bytes the values hold.
\<close>

theorem add_query_correct:
  assumes "url_laws U" "url_Parse U s = Inr u" "r_Extra req = Some x" "x_QueryParams x \<noteq> []"
  shows "\<exists>q. url_Parse U (addQuery U s req) = Inr (u\<lparr>u_RawQuery := q\<rparr>) \<and>
    (\<forall>k. vals_of k (ParseQuery q) = (case map_of (rev (x_QueryParams x)) k of
       Some v \<Rightarrow> [v] | None \<Rightarrow> vals_of k (ParseQuery (u_RawQuery u))))"
  using assms
  by (auto simp: addQuery_def Let_def url_laws_def ParseQuery_Encode vals_of_grouped vals_of_set_all)

theorem add_query_correct_witness:
  "\<exists>q. url_Parse demo_urllib (addQuery demo_urllib ''http://h/f?a=1''
      (zero_RequestOptions\<lparr>r_Extra := Some demo_extra\<rparr>)) =
     Inr \<lparr>u_Scheme = ''http'', u_Host = ''h'', u_RawQuery = q, u_rest = ''http://h/f''\<rparr> \<and>
   vals_of ''k&'' (ParseQuery q) = [''v 1''] \<and> vals_of ''a'' (ParseQuery q) = [''1'']"
proof -
  let ?u = "\<lparr>u_Scheme = ''http'', u_Host = ''h'', u_RawQuery = ''a=1'', u_rest = ''http://h/f''\<rparr>"
  have p: "url_Parse demo_urllib ''http://h/f?a=1'' = Inr ?u" by (simp add: demo_urllib_def)
  have a: "vals_of ''a'' (ParseQuery ''a=1'') = [''1'']" by code_simp
  show ?thesis
    using add_query_correct [where req = "zero_RequestOptions\<lparr>r_Extra := Some demo_extra\<rparr>",
      OF demo_url_laws p, of demo_extra] a
    by (auto simp: demo_extra_def)
qed

section \<open>Choosing a mirror\<close>

lemma withMirrors_nonempty [simp]: "withMirrors req \<noteq> []"
  by (simp add: withMirrors_def)

definition range_request ::
    "urllib \<Rightarrow> RequestOptions \<Rightarrow> DownloadConfig \<Rightarrow> int \<Rightarrow> int \<Rightarrow> string \<Rightarrow> http_request res" where
  "range_request U req cfg start stop u =
     new_request U req cfg ''GET'' (hdr_set ''Range'' (range_value start stop) no_headers) u"

text \<open>The answer of a URL, when the request can be built and the status is not an error.\<close>

definition good_answer ::
    "urllib \<Rightarrow> (http_client \<Rightarrow> http_request \<Rightarrow> http_response res) \<Rightarrow> http_client \<Rightarrow> RequestOptions \<Rightarrow>
       DownloadConfig \<Rightarrow> int \<Rightarrow> int \<Rightarrow> string \<Rightarrow> http_response option" where
  "good_answer U f cl req cfg start stop u =
     (case bindE (range_request U req cfg start stop u) (f cl) of
        Inl e \<Rightarrow> None | Inr r \<Rightarrow> if 400 \<le> hp_StatusCode r then None else Some r)"

definition range_ok :: "http_response \<Rightarrow> range_result" where
  "range_ok r = RangeOk (hp_Body r) (parseMeta (hp_Header r)) (hp_Header r) (hp_StatusCode r)"

lemma range_loop_picks:
  assumes "err \<noteq> None \<or> us \<noteq> []"
  shows "case List.map_filter (good_answer U f cl req cfg start stop) us of
      [] \<Rightarrow> \<exists>n e. range_loop U (\<lambda>_. f) cl req cfg start stop status err us = RangeFail n (Some e)
    | r # rs \<Rightarrow> range_loop U (\<lambda>_. f) cl req cfg start stop status err us = range_ok r"
  using assms
proof (induction us arbitrary: status err)
  case (Cons u us)
  note step = good_answer_def range_request_def range_ok_def map_filter_simps
  show ?case
  proof (cases "new_request U req cfg ''GET'' (hdr_set ''Range'' (range_value start stop) no_headers) u")
    case (Inl e)
    with Cons.IH [of "Some e" status] show ?thesis by (simp add: step split: list.splits)
  next
    case (Inr r)
    show ?thesis
    proof (cases "f cl r")
      case (Inl e)
      with Inr Cons.IH [of "Some e" status] show ?thesis by (simp add: step split: list.splits)
    next
      case resp: (Inr resp)
      with Inr Cons.IH [of "Some (ErrText (''get range failed: '' @ hp_Status resp))" "hp_StatusCode resp"]
      show ?thesis by (simp add: step split: list.splits)
    qed
  qed
qed (auto simp: map_filter_simps)

text \<open>
  With servers whose answers do not change during the call, a range is the answer of the first of
  the URL and its mirrors, in their order, that the request can be built for and that answers below
  400, with its status, body and metadata; when there is none, the call fails with an error.
\<close>

lemma get_range_first_good:
  "case List.map_filter (good_answer U f (clientFor timeout cfg) req cfg start stop) (withMirrors req) of
      [] \<Rightarrow> \<exists>n e. GetRange U (\<lambda>_. f) timeout req cfg start stop = RangeFail n (Some e)
    | r # rs \<Rightarrow> GetRange U (\<lambda>_. f) timeout req cfg start stop = range_ok r"
  unfolding GetRange_def by (rule range_loop_picks) simp

text \<open>Whatever the servers do, a result is one of their answers or a failure with an error.\<close>

definition answered ::
    "urllib \<Rightarrow> network \<Rightarrow> http_client \<Rightarrow> RequestOptions \<Rightarrow> DownloadConfig \<Rightarrow> int \<Rightarrow> int \<Rightarrow> string set \<Rightarrow>
       range_result \<Rightarrow> bool" where
  "answered U net cl req cfg start stop urls res \<longleftrightarrow>
     (\<exists>n e. res = RangeFail n (Some e)) \<or>
     (\<exists>k u hr r. u \<in> urls \<and> range_request U req cfg start stop u = Inr hr \<and> net k cl hr = Inr r \<and>
        hp_StatusCode r < 400 \<and> res = range_ok r)"

lemma answered_later:
  assumes "answered U (skip n net) cl req cfg start stop (set us) res"
  shows "answered U net cl req cfg start stop (set (u # us)) res"
  using assms unfolding answered_def skip_apply by (metis list.set_intros(2))

lemma range_loop_answered:
  assumes "err \<noteq> None \<or> us \<noteq> []"
  shows "answered U net cl req cfg start stop (set us) (range_loop U net cl req cfg start stop status err us)"
  using assms
proof (induction us arbitrary: net status err)
  case (Cons u us)
  let ?new = "new_request U req cfg ''GET'' (hdr_set ''Range'' (range_value start stop) no_headers) u"
  have later: "answered U net cl req cfg start stop (set (u # us))
      (range_loop U (skip n net) cl req cfg start stop status' (Some e) us)" for n status' e
    by (rule answered_later [OF Cons.IH]) simp
  have now: "answered U net cl req cfg start stop (set (u # us))
      (range_loop U net cl req cfg start stop status' (Some e) us)" for status' e
    using later [of 0] by (simp add: skip_def)
  show ?case
  proof (cases ?new)
    case (Inl e)
    with now show ?thesis by simp
  next
    case new: (Inr hr)
    show ?thesis
    proof (cases "net 0 cl hr")
      case (Inl e)
      with new later [of 1] show ?thesis by simp
    next
      case (Inr r)
      show ?thesis
      proof (cases "400 \<le> hp_StatusCode r")
        case True
        with new Inr later [of 1] show ?thesis by simp
      next
        case False
        have "range_request U req cfg start stop u = Inr hr" using new by (simp add: range_request_def)
        moreover have "range_loop U net cl req cfg start stop status err (u # us) = range_ok r"
          using new Inr False by (simp add: range_ok_def)
        ultimately show ?thesis using Inr False unfolding answered_def
          by (intro disjI2 exI [of _ 0] exI [of _ u] exI [of _ hr] exI [of _ r]) auto
      qed
    qed
  qed
qed (auto simp: answered_def)

lemma GetRange_answered:
  "answered U net (clientFor timeout cfg) req cfg start stop (set (withMirrors req))
     (GetRange U net timeout req cfg start stop)"
  unfolding GetRange_def by (rule range_loop_answered) simp

section \<open>The range that is asked for\<close>

text \<open>No entry of the map stands for the header \<open>k\<close>.\<close>

definition without_key :: "string \<Rightarrow> smap \<Rightarrow> bool" where
  "without_key k kvs \<longleftrightarrow> (\<forall>(x, v) \<in> set kvs. canonical x \<noteq> canonical k)"

lemma hdr_get_set: "hdr_get (hdr_set k v h) j = (if canonical k = canonical j then v else hdr_get h j)"
  by (simp add: hdr_get_def hdr_set_def)

lemma hdr_get_missing:
  "canonical k \<noteq> canonical j \<Longrightarrow> hdr_get (set_missing k v h) j = hdr_get h j"
  by (simp add: set_missing_def hdr_get_set)

lemma hdr_get_set_all: "without_key j kvs \<Longrightarrow> hdr_get (set_all kvs h) j = hdr_get h j"
  unfolding without_key_def set_all_def
  by (induction kvs arbitrary: h) (auto simp: hdr_get_set)

lemma hdr_get_cookies:
  "canonical ''Cookie'' \<noteq> canonical j \<Longrightarrow> hdr_get (add_cookies kvs h) j = hdr_get h j"
  unfolding add_cookies_def
  by (induction kvs arbitrary: h) (auto simp: hdr_get_set add_cookie_def Let_def)

lemma range_key:
  "canonical ''User-Agent'' \<noteq> canonical ''Range''" "canonical ''Accept'' \<noteq> canonical ''Range''"
  "canonical ''Accept-Language'' \<noteq> canonical ''Range''" "canonical ''Connection'' \<noteq> canonical ''Range''"
  "canonical ''DNT'' \<noteq> canonical ''Range''" "canonical ''sec-ch-ua'' \<noteq> canonical ''Range''"
  "canonical ''Cookie'' \<noteq> canonical ''Range''" "canonical ''Referer'' \<noteq> canonical ''Range''"
  "canonical ''Authorization'' \<noteq> canonical ''Range''"
  by code_simp+

definition plain_range :: "RequestOptions \<Rightarrow> DownloadConfig \<Rightarrow> bool" where
  "plain_range req cfg \<longleftrightarrow>
     without_key ''Range'' (c_Headers cfg) \<and>
     (case r_Extra req of None \<Rightarrow> True | Some x \<Rightarrow> without_key ''Range'' (x_Headers x))"

lemma applyHeaders_range:
  assumes "plain_range req cfg"
  shows "hdr_get (applyHeaders U req cfg h) ''Range'' = hdr_get h ''Range''"
proof -
  have d: "hdr_get (default_headers h) ''Range'' = hdr_get h ''Range''" for h
    by (simp add: default_headers_def Let_def hdr_get_missing range_key)
  have x: "hdr_get (extra_headers U req h) ''Range'' = hdr_get h ''Range''" for h
    using assms range_key
    by (auto simp: extra_headers_def Let_def hdr_get_set hdr_get_cookies hdr_get_set_all plain_range_def
        split: option.splits sum.splits)
  have a: "hdr_get (auth_header cfg h) ''Range'' = hdr_get h ''Range''" for h
    using range_key by (auto simp: auth_header_def hdr_get_set split: option.splits)
  show ?thesis
    using assms range_key(7) by (simp add: applyHeaders_def a x d hdr_get_cookies hdr_get_set_all plain_range_def)
qed

lemma range_request_header:
  assumes "plain_range req cfg" "range_request U req cfg start stop u = Inr hr"
  shows "hdr_get (hq_Header hr) ''Range'' = range_value start stop"
  using assms
  by (auto simp: range_request_def new_request_def Let_def bindE_eq_Inr applyHeaders_range hdr_get_set)

section \<open>Servers of a file\<close>

text \<open>The bytes from \<open>start\<close> to \<open>stop\<close>, both included; a negative \<open>stop\<close> means up to the end.\<close>

definition range_bytes :: "string \<Rightarrow> int \<Rightarrow> int \<Rightarrow> string" where
  "range_bytes content start stop =
     (let rest = drop (nat start) content in if stop < 0 then rest else take (nat (stop - start + 1)) rest)"

definition content_range :: "string \<Rightarrow> int \<Rightarrow> int \<Rightarrow> string" where
  "content_range content start stop =
     ''bytes '' @ FormatInt start @ ''-'' @
     FormatInt (start + int (length (range_bytes content start stop)) - 1) @ ''/'' @ FormatInt (int (length content))"

text \<open>
  A server of a file answers a request for a range with an error status, with the whole file and 200,
  or, when the range begins inside the file, with exactly the range and 206, as RFC 9110 has it.
\<close>

definition serves_range :: "string \<Rightarrow> int \<Rightarrow> int \<Rightarrow> int \<Rightarrow> body \<Rightarrow> string list \<Rightarrow> bool" where
  "serves_range content start stop code bd cr \<longleftrightarrow>
     (code = 200 \<and> bd = (content, None)) \<or>
     (code = 206 \<and> start < int (length content) \<and> (stop < 0 \<or> start \<le> stop) \<and>
        bd = (range_bytes content start stop, None) \<and> (cr = [] \<or> cr = [content_range content start stop]))"

text \<open>
  What the header \<open>Range: bytes=first-last\<close> asks a server for; without a last position, up to the end.
\<close>

definition asked_range :: "string \<Rightarrow> (int \<times> int) option" where
  "asked_range s =
     (let spec = drop 6 s; first = takeWhile (\<lambda>c. c \<noteq> CHR ''-'') spec; last = drop (length first + 1) spec
      in if take 6 s \<noteq> ''bytes='' \<or> first = [] \<or> CHR ''-'' \<notin> set spec then None
         else case digits_value 0 first of None \<Rightarrow> None
           | Some n \<Rightarrow> if last = [] then Some (int n, - 1)
               else map_option (\<lambda>m. (int n, int m)) (digits_value 0 last))"

definition origin :: "network \<Rightarrow> string \<Rightarrow> bool" where
  "origin net content \<longleftrightarrow>
     (\<forall>k cl r resp start stop. asked_range (hdr_get (hq_Header r) ''Range'') = Some (start, stop) \<longrightarrow>
        net k cl r = Inr resp \<longrightarrow> hp_StatusCode resp < 400 \<longrightarrow>
        serves_range content start stop (hp_StatusCode resp) (hp_Body resp) (hp_Header resp ''Content-Range''))"

text \<open>The header that the client sends asks for the range that the runner wants.\<close>

lemma asked_range_value:
  assumes "0 \<le> start"
  shows "asked_range (range_value start stop) = Some (start, if 0 \<le> stop then stop else - 1)"
proof -
  have minus: "CHR ''-'' \<notin> set (digits n)" for n by (auto simp: is_digit_def dest: digits_all)
  have first: "takeWhile (\<lambda>c. c \<noteq> CHR ''-'') (digits n @ CHR ''-'' # x) = digits n" for n x
    using minus [of n] by (subst takeWhile_append2) auto
  show ?thesis
    using assms by (simp add: asked_range_def range_value_def FormatInt_def first digits_value_digits)
qed

lemma serves_range_open: "serves_range content start (- 1) code bd cr \<Longrightarrow> stop < 0 \<Longrightarrow> serves_range content start stop code bd cr"
  by (auto simp: serves_range_def range_bytes_def content_range_def)

text \<open>A request for a range fails, or its answer is one to a request that asks for the range.\<close>

lemma GetRange_asked:
  assumes "plain_range req cfg" "0 \<le> start"
  shows "(\<exists>c e. GetRange U net timeout req cfg start stop = RangeFail c (Some e)) \<or>
    (\<exists>k cl hr r. asked_range (hdr_get (hq_Header hr) ''Range'') = Some (start, if 0 \<le> stop then stop else - 1) \<and>
       net k cl hr = Inr r \<and> hp_StatusCode r < 400 \<and> GetRange U net timeout req cfg start stop = range_ok r)"
  using GetRange_answered [of U net timeout cfg req start stop] unfolding answered_def
proof (elim disjE exE conjE)
  fix k u hr r
  assume r: "range_request U req cfg start stop u = Inr hr" "net k (clientFor timeout cfg) hr = Inr r"
    "hp_StatusCode r < 400" "GetRange U net timeout req cfg start stop = range_ok r"
  have "asked_range (hdr_get (hq_Header hr) ''Range'') = Some (start, if 0 \<le> stop then stop else - 1)"
    unfolding range_request_header [OF assms(1) r(1)] by (rule asked_range_value [OF assms(2)])
  with r(2-4) show ?thesis by blast
qed blast

text \<open>
  \<open>models.TransportClient\<close> as the runner uses it: a range of a file that is served comes back as
  \<open>serves_range\<close> says, or as an error.
\<close>

locale range_source =
  fixes serves :: "'n \<Rightarrow> string \<Rightarrow> bool" and get :: "'n \<Rightarrow> int \<Rightarrow> int \<Rightarrow> range_result"
  assumes get_served: "serves n content \<Longrightarrow> 0 \<le> start \<Longrightarrow>
      (\<exists>c e. get n start stop = RangeFail c (Some e)) \<or>
      (\<exists>bd md h code. get n start stop = RangeOk bd md h code \<and>
         serves_range content start stop code bd (h ''Content-Range''))"
begin

text \<open>Skipping \<open>start\<close> bytes of a whole file and then cutting to the range gives the range.\<close>

lemma whole_or_range:
  assumes "serves n content" "0 \<le> start" "get n start stop = RangeOk bd md h code"
  shows "code = 200 \<or> code = 206" and "snd bd = None"
    and "code = 206 \<Longrightarrow> fst bd = range_bytes content start stop"
    and "code = 200 \<Longrightarrow> start \<le> int (length content) \<Longrightarrow> range_bytes (fst bd) start stop = range_bytes content start stop"
  using get_served [OF assms(1,2), of stop] assms(3) by (auto simp: serves_range_def)

end

interpretation tr: range_source "\<lambda>net content. plain_range req cfg \<and> origin net content"
    "\<lambda>net. GetRange U net timeout req cfg"
  for U timeout req cfg
proof unfold_locales
  fix net :: network and content :: string and start stop :: int
  assume srv: "plain_range req cfg \<and> origin net content" and start: "0 \<le> start"
  from srv have plain: "plain_range req cfg" by blast
  from GetRange_asked [OF plain start, of U net timeout stop]
  show "(\<exists>c e. GetRange U net timeout req cfg start stop = RangeFail c (Some e)) \<or>
      (\<exists>bd md h code. GetRange U net timeout req cfg start stop = RangeOk bd md h code \<and>
         serves_range content start stop code bd (h ''Content-Range''))"
  proof (elim disjE exE conjE)
    fix k cl hr r
    assume r: "asked_range (hdr_get (hq_Header hr) ''Range'') = Some (start, if 0 \<le> stop then stop else - 1)"
      "net k cl hr = Inr r" "hp_StatusCode r < 400" "GetRange U net timeout req cfg start stop = range_ok r"
    with srv have "serves_range content start (if 0 \<le> stop then stop else - 1)
        (hp_StatusCode r) (hp_Body r) (hp_Header r ''Content-Range'')"
      unfolding origin_def by blast
    then have "serves_range content start stop (hp_StatusCode r) (hp_Body r) (hp_Header r ''Content-Range'')"
      by (cases "0 \<le> stop") (auto intro: serves_range_open)
    with r(4) show ?thesis by (simp add: range_ok_def)
  qed blast
qed

end
