(* ===== verification/Runner.thy ===== *)
theory Runner
  imports Service_Laws Planner Transport
begin

text \<open>
  \<open>DownloadRunner\<close> of \<open>internal/service/runner.go\<close>.  The runner works on its own copy of the download
  (\<open>rn_d\<close>), which all its goroutines share.  A goroutine of a segment takes one step per round of its
  loop, the progress monitor one per value that it receives; a schedule says which one moves next and
  what it reads from its surroundings (\<open>readings\<close>).  Other parts of the process may change the
  database, the publisher and the limiter between two steps.  Only a panic makes a step fail.
\<close>

section \<open>State and surroundings\<close>

text \<open>
  What does not change during a run: the string and float libraries, \<open>math.Pow\<close>, the home directory,
  the digests, \<open>net/url\<close>, the timeout of the client, \<open>strings.Fields\<close> outside ASCII, and the texts of
  the errors of the libraries.
\<close>

record runtime =
  ru_lib :: stdlib
  ru_fpu :: fpu
  ru_pow :: "rat \<Rightarrow> rat \<Rightarrow> rat"
  ru_home :: "string res"
  ru_digest :: "string \<Rightarrow> string \<Rightarrow> string"
  ru_url :: urllib
  ru_timeout :: duration
  ru_fields :: "string \<Rightarrow> string list"
  ru_text :: "gerr \<Rightarrow> string"

record 's rstate =
  rn_db :: 's
  rn_pub :: publisher
  rn_lim :: "limiter option"
  rn_fs :: fsys
  rn_d :: Download
  rn_progress :: "int list"
  rn_errs :: "gerr list"

text \<open>
  What one round reads: whether its context is done, the context and the clock of its repository
  calls, the errors of the operating system, the answers of the servers, \<open>rand.Int63n\<close>, and how far
  the writes to the part get (\<open>Some (k, e)\<close>: the one that passes \<open>k\<close> bytes fails with \<open>e\<close>).
\<close>

record readings =
  rd_done :: "gerr option"
  rd_cx :: gctx
  rd_ck :: clock
  rd_io :: oserrs
  rd_net :: network
  rd_rand :: duration
  rd_short :: "(nat \<times> gerr) option"

text \<open>\<open>err.Error()\<close>.\<close>

definition err_text :: "runtime \<Rightarrow> gerr \<Rightarrow> string" where
  "err_text ru e =
     (case e of
        ErrText m \<Rightarrow> m | ErrNotFound \<Rightarrow> ''not found'' | ErrConflict \<Rightarrow> ''conflict''
      | ErrBadRequest \<Rightarrow> ''bad request'' | ErrValidation \<Rightarrow> ''validation failed''
      | ErrEOF \<Rightarrow> ''EOF'' | ErrUnexpectedEOF \<Rightarrow> ''unexpected EOF''
      | ErrCanceled \<Rightarrow> ''context canceled'' | ErrDeadlineExceeded \<Rightarrow> ''context deadline exceeded''
      | _ \<Rightarrow> ru_text ru e)"

section \<open>Helpers\<close>

definition pickCfg :: "Download \<Rightarrow> DownloadConfig" where
  "pickCfg d = (case d_Config d of Some c \<Rightarrow> c | None \<Rightarrow> zero_DownloadConfig)"

definition safeSpan :: "int \<Rightarrow> int \<Rightarrow> int" where
  "safeSpan stop start =
     (if stop < 0 then 2 ^ 20
      else let sz = add64 (sub64 stop start) 1 in if sz < 0 then 0 else sz)"

text \<open>\<open>_ = r.deps.Repo.UpdateDownload(ctx, d)\<close>; the time stamps that a failed update leaves in the copy
  are those it had.\<close>

definition save_copy :: "'s badger \<Rightarrow> runtime \<Rightarrow> gctx \<Rightarrow> clock \<Rightarrow> 's rstate \<Rightarrow> unit res \<times> 's rstate" where
  "save_copy B ru cx ck w =
     (case UpdateDownload B (ru_lib ru) cx ck (rn_db w) (rn_d w) of
        (Inl e, s) \<Rightarrow> (Inl e, w\<lparr>rn_db := s\<rparr>)
      | (Inr d, s) \<Rightarrow> (Inr (), w\<lparr>rn_db := s, rn_d := d\<rparr>))"

definition run_publish ::
    "gtime \<Rightarrow> DownloadEventType \<Rightarrow> event_data \<Rightarrow> 's rstate \<Rightarrow> 's rstate res" where
  "run_publish now typ dat w =
     bindE (Publish (rn_pub w) \<lparr>ev_Type = typ, ev_Download = rn_d w, ev_Timestamp = now, ev_Data = dat\<rparr>)
       (\<lambda>p. Inr (w\<lparr>rn_pub := p\<rparr>))"

definition run_fail :: "'s badger \<Rightarrow> runtime \<Rightarrow> gctx \<Rightarrow> clock \<Rightarrow> gerr \<Rightarrow> 's rstate \<Rightarrow> 's rstate res" where
  "run_fail B ru cx ck e w =
     (let w = w\<lparr>rn_d := (rn_d w)\<lparr>d_Status := StatusFailed, d_Error := err_text ru e, d_UpdatedAt := ck 0\<rparr>\<rparr>;
          w = snd (save_copy B ru cx (skip 2 ck) w)
      in run_publish (ck 1) EventFailed (ErrorData e) w)"

text \<open>An error that ends the goroutine, unless it is a panic, which ends the process.\<close>

definition unless_panic :: "gerr \<Rightarrow> 'a \<Rightarrow> 'a res" where
  "unless_panic e x = (if is_panic e then Inl e else Inr x)"

section \<open>One segment\<close>

record seg_run =
  sr_seg :: Segment
  sr_start :: int
  sr_existing :: int
  sr_attempts :: int
  sr_slept :: "duration list"

datatype seg_phase = SegNew Segment | SegTry seg_run | SegEnd Segment "gerr option"

definition max_retries :: "Download \<Rightarrow> int" where
  "max_retries d =
     (case d_Config d of None \<Rightarrow> 3
      | Some c \<Rightarrow> if 0 < rp_MaxRetries (c_Retry c) then rp_MaxRetries (c_Retry c) else 3)"

definition base_delay :: "Download \<Rightarrow> duration" where
  "base_delay d =
     (case d_Config d of None \<Rightarrow> time_Second
      | Some c \<Rightarrow> if 0 < rp_RetryDelay (c_Retry c) then rp_RetryDelay (c_Retry c) else time_Second)"

text \<open>The product of \<open>mathPow\<close> with 1 changes nothing.\<close>

definition backoff_delay :: "runtime \<Rightarrow> duration \<Rightarrow> Download \<Rightarrow> int \<Rightarrow> duration" where
  "backoff_delay ru rnd d attempts =
     (let factor = (case d_Config d of None \<Rightarrow> 3 / 2
            | Some c \<Rightarrow> if 0 < c_BackoffFactor c then c_BackoffFactor c else 3 / 2);
          R = fp_round (ru_fpu ru);
          delay = fp_int (ru_fpu ru)
            (R (R (of_int (base_delay d)) * ru_pow ru factor (R (of_int (sub64 attempts 1)))))
      in case d_Config d of None \<Rightarrow> delay
         | Some c \<Rightarrow> if 0 < rp_Jitter (c_Retry c) then add64 delay rnd else delay)"

text \<open>The reservations of one round and the time slept for them.\<close>

definition limit_keys :: "Download \<Rightarrow> string list" where
  "limit_keys d =
     [''global''] @ (if d_QueueID d \<noteq> [] then [d_QueueID d] else []) @ [d_ID d]"

fun reserve_keys ::
    "fpu \<Rightarrow> clock \<Rightarrow> limiter \<Rightarrow> string list \<Rightarrow> int \<Rightarrow> duration list \<times> limiter" where
  "reserve_keys F ck rl [] n = ([], rl)"
| "reserve_keys F ck rl (k # ks) n =
     (let (wait, rl) = Reserve F (ck 0) rl k n; (waits, rl) = reserve_keys F (skip 1 ck) rl ks n
      in (if 0 < wait then wait # waits else waits, rl))"

definition throttle ::
    "runtime \<Rightarrow> clock \<Rightarrow> Download \<Rightarrow> int \<Rightarrow> limiter option \<Rightarrow> duration list \<times> limiter option" where
  "throttle ru ck d bytes rl =
     (case rl of None \<Rightarrow> ([], None)
      | Some l \<Rightarrow> (let (waits, l) = reserve_keys (ru_fpu ru) ck l (limit_keys d) bytes in (waits, Some l)))"

text \<open>\<open>strings.Fields\<close> and \<open>strings.Index\<close> for one byte.\<close>

fun ascii_fields :: "string \<Rightarrow> string \<Rightarrow> string list" where
  "ascii_fields word [] = (if word = [] then [] else [rev word])"
| "ascii_fields word (c # s) =
     (if is_space c then (if word = [] then [] else [rev word]) @ ascii_fields [] s
      else ascii_fields (c # word) s)"

definition Fields :: "runtime \<Rightarrow> string \<Rightarrow> string list" where
  "Fields ru s = (if is_ascii s then ascii_fields [] s else ru_fields ru s)"

definition Index :: "string \<Rightarrow> char \<Rightarrow> int" where
  "Index s c = (if c \<in> set s then int (length (takeWhile (\<lambda>x. x \<noteq> c) s)) else - 1)"

text \<open>Whether the \<open>Content-Range\<close> of a 206 answer contradicts the range that was asked for.\<close>

definition range_mismatch :: "runtime \<Rightarrow> header \<Rightarrow> int \<Rightarrow> int \<Rightarrow> bool" where
  "range_mismatch ru hdrs start stop =
     (let cr = (case hdrs ''Content-Range'' of [] \<Rightarrow> [] | v # vs \<Rightarrow> v);
          parts = Fields ru cr
      in cr \<noteq> [] \<and> length parts = 2 \<and> ToLower (lib_lower (ru_lib ru)) (parts ! 0) = ''bytes'' \<and>
         (let dash = Index (parts ! 1) slash; rangeOnly = take (nat dash) (parts ! 1);
              hy = Index rangeOnly (CHR ''-'');
              rs = take (nat hy) rangeOnly; re = drop (nat hy + 1) rangeOnly
          in 0 < dash \<and> 0 < hy \<and>
             ((case ParseInt rs of None \<Rightarrow> False | Some rsn \<Rightarrow> rsn \<noteq> start) \<or>
              (0 \<le> stop \<and> (case ParseInt re of None \<Rightarrow> False | Some ren \<Rightarrow> ren < start \<or> stop < ren)))))"

text \<open>
  \<open>io.LimitReader\<close>, and the reader of a segment: of a 200 answer the bytes before the start are
  skipped and the rest is cut to the range; \<open>io.CopyN\<close> fails when there are too few.
\<close>

definition LimitReader :: "int \<Rightarrow> body \<Rightarrow> body" where
  "LimitReader n r = (if n \<le> int (length (fst r)) then (take (nat n) (fst r), None) else r)"

definition range_reader :: "int \<Rightarrow> int \<Rightarrow> int \<Rightarrow> body \<Rightarrow> body res" where
  "range_reader code start stop bd =
     (if code = 200
      then bindE (if 0 < start
                  then if start \<le> int (length (fst bd)) then Inr (drop (nat start) (fst bd), snd bd)
                       else Inl (case snd bd of None \<Rightarrow> ErrEOF | Some e \<Rightarrow> e)
                  else Inr bd)
             (\<lambda>bd. if 0 \<le> stop
                   then let span = add64 (sub64 stop start) 1
                        in Inr (LimitReader (if span < 0 then 0 else span) bd)
                   else Inr bd)
      else Inr bd)"

definition size_reader :: "Download \<Rightarrow> body \<Rightarrow> body" where
  "size_reader d bd =
     (case d_File d of None \<Rightarrow> bd
      | Some f \<Rightarrow> if 0 < f_MaxFileSize f
          then let remaining = sub64 (f_MaxFileSize f) (d_BytesCompleted d)
               in LimitReader (if remaining < 0 then 0 else remaining) bd
          else bd)"

definition segment_hash :: "runtime \<Rightarrow> Download \<Rightarrow> string option" where
  "segment_hash ru d =
     (let sht = (case d_Config d of None \<Rightarrow> ''md5''
            | Some c \<Rightarrow> if c_SegmentChecksumType c \<noteq> []
                then ToLower (lib_lower (ru_lib ru)) (c_SegmentChecksumType c) else ''md5'')
      in if sht = ''none'' then None
         else if sht \<in> {''md5'', ''sha1'', ''sha256'', ''crc32c''} then Some sht else Some ''md5'')"

text \<open>\<open>io.Copy\<close>: the bytes that reach the part and the error.\<close>

definition copied :: "(nat \<times> gerr) option \<Rightarrow> body \<Rightarrow> body" where
  "copied short r =
     (case short of
        Some (k, e) \<Rightarrow> if k < length (fst r) then (take k (fst r), Some e) else r
      | None \<Rightarrow> r)"

definition retry :: "int \<Rightarrow> gerr \<Rightarrow> (int \<Rightarrow> duration) \<Rightarrow> seg_run \<Rightarrow> seg_phase" where
  "retry limit e delay st =
     (let a = add64 (sr_attempts st) 1
      in if limit < a then SegEnd (sr_seg st) (Some e)
         else SegTry (st\<lparr>sr_attempts := a, sr_slept := sr_slept st @ [delay a]\<rparr>))"

definition attempt_seconds :: "int \<Rightarrow> duration" where
  "attempt_seconds a = mul64 a time_Second"

text \<open>No usable answer.  The error that is returned in the end is nil when a server answered.\<close>

definition failed_get ::
    "'s badger \<Rightarrow> runtime \<Rightarrow> readings \<Rightarrow> gerr option \<Rightarrow> seg_run \<Rightarrow> 's rstate \<Rightarrow> seg_phase \<times> 's rstate" where
  "failed_get B ru rd e st w =
     (let a = add64 (sr_attempts st) 1;
          w = w\<lparr>rn_d := (rn_d w)\<lparr>d_RetriesAttempted := a\<rparr>\<rparr>;
          w = snd (save_copy B ru (rd_cx rd) (skip 3 (rd_ck rd)) w)
      in if max_retries (rn_d w) < a then (SegEnd (sr_seg st) e, w)
         else (SegTry (st\<lparr>sr_attempts := a,
                 sr_slept := sr_slept st @ [backoff_delay ru (rd_rand rd) (rn_d w) a]\<rparr>), w))"

definition finish_segment ::
    "'s badger \<Rightarrow> runtime \<Rightarrow> readings \<Rightarrow> string \<Rightarrow> seg_run \<Rightarrow> 's rstate \<Rightarrow> seg_phase \<times> 's rstate" where
  "finish_segment B ru rd bytes st w =
     (let written = int (length bytes);
          g = (case segment_hash ru (rn_d w) of None \<Rightarrow> sr_seg st
               | Some alg \<Rightarrow> (sr_seg st)\<lparr>s_Checksum := ru_digest ru alg bytes\<rparr>);
          g = g\<lparr>s_BytesCompleted := add64 (sr_existing st) written\<rparr>;
          g = g\<lparr>s_Status := SegmentCompleted, s_UpdatedAt := rd_ck rd 3\<rparr>;
          (r, s) = UpsertSegment B (rd_cx rd) (rn_db w) g
      in (SegEnd g None, w\<lparr>rn_db := s, rn_progress := rn_progress w @ [written]\<rparr>))"

text \<open>An answer that is used: the part is opened again and what the reader gives is appended to it.\<close>

definition write_answer ::
    "'s badger \<Rightarrow> runtime \<Rightarrow> readings \<Rightarrow> int \<Rightarrow> body \<Rightarrow> seg_run \<Rightarrow> 's rstate \<Rightarrow> (seg_phase \<times> 's rstate) res" where
  "write_answer B ru rd code bd st w =
     (let g = sr_seg st; stop = s_End g; d = rn_d w; limit = max_retries d
      in case OpenSegmentWriter (rd_io rd) (ru_home ru) d g (rn_fs w) of
           (Inl e, fs) \<Rightarrow> unless_panic e (SegEnd g (Some e), w\<lparr>rn_fs := fs\<rparr>)
         | (Inr (p, n), fs) \<Rightarrow>
             (case range_reader code (sr_start st) stop bd of
                Inl e \<Rightarrow> Inr (retry limit e attempt_seconds st, w\<lparr>rn_fs := fs\<rparr>)
              | Inr rdr \<Rightarrow>
                  let (bytes, err) = copied (rd_short rd) (size_reader d rdr);
                      w = w\<lparr>rn_fs := append_part p bytes fs\<rparr>;
                      written = int (length bytes)
                  in if err \<noteq> None \<and> err \<noteq> Some ErrEOF
                     then Inr (retry limit (the err) attempt_seconds st, w)
                     else if 0 \<le> stop \<and>
                             add64 (sr_existing st) written \<noteq> add64 (sub64 stop (s_Start g)) 1
                     then Inr (retry limit ErrUnexpectedEOF (\<lambda>a. time_Second) st, w)
                     else Inr (finish_segment B ru rd bytes st w)))"

text \<open>One round of the loop.\<close>

definition seg_attempt ::
    "'s badger \<Rightarrow> runtime \<Rightarrow> readings \<Rightarrow> seg_run \<Rightarrow> 's rstate \<Rightarrow> (seg_phase \<times> 's rstate) res" where
  "seg_attempt B ru rd st w =
     (case rd_done rd of
        Some e \<Rightarrow> Inr (SegEnd (sr_seg st) (Some e), w)
      | None \<Rightarrow>
          let start = sr_start st; stop = s_End (sr_seg st);
              (waits, rl) = throttle ru (rd_ck rd) (rn_d w) (safeSpan stop start) (rn_lim w);
              w = w\<lparr>rn_lim := rl\<rparr>; st = st\<lparr>sr_slept := sr_slept st @ waits\<rparr>
          in case d_Request (rn_d w) of
               None \<Rightarrow> Inl (ErrPanic ''nil pointer dereference'')
             | Some req \<Rightarrow>
                 (case GetRange (ru_url ru) (rd_net rd) (ru_timeout ru) req (pickCfg (rn_d w)) start stop of
                    RangeFail n e \<Rightarrow> Inr (failed_get B ru rd e st w)
                  | RangeOk bd md hdrs code \<Rightarrow>
                      if code \<noteq> 200 \<and> code \<noteq> 206 then Inr (failed_get B ru rd None st w)
                      else if code = 206 \<and> range_mismatch ru hdrs start stop
                      then Inr (SegTry (st\<lparr>sr_attempts := add64 (sr_attempts st) 1,
                             sr_slept := sr_slept st @ [time_Second]\<rparr>), w)
                      else write_answer B ru rd code bd st w))"

text \<open>The first step finds out how much of the segment is there already.\<close>

definition seg_step ::
    "'s badger \<Rightarrow> runtime \<Rightarrow> readings \<Rightarrow> seg_phase \<Rightarrow> 's rstate \<Rightarrow> (seg_phase \<times> 's rstate) res" where
  "seg_step B ru rd ph w =
     (case ph of
        SegNew g \<Rightarrow>
          (case OpenSegmentWriter (rd_io rd) (ru_home ru) (rn_d w) g (rn_fs w) of
             (Inl e, fs) \<Rightarrow> unless_panic e (SegEnd g (Some e), w\<lparr>rn_fs := fs\<rparr>)
           | (Inr (p, n), fs) \<Rightarrow>
               Inr (SegTry \<lparr>sr_seg = g, sr_start = (if 0 < n then add64 (s_Start g) n else s_Start g),
                     sr_existing = n, sr_attempts = 0, sr_slept = []\<rparr>, w\<lparr>rn_fs := fs\<rparr>))
      | SegTry st \<Rightarrow> seg_attempt B ru rd st w
      | SegEnd g e \<Rightarrow> Inr (ph, w))"

text \<open>\<open>downloadSegment\<close> alone, over the readings of its rounds; it has returned when it is \<open>SegEnd\<close>.\<close>

fun downloadSegment ::
    "'s badger \<Rightarrow> runtime \<Rightarrow> readings list \<Rightarrow> seg_phase \<Rightarrow> 's rstate \<Rightarrow> (seg_phase \<times> 's rstate) res" where
  "downloadSegment B ru [] ph w = Inr (ph, w)"
| "downloadSegment B ru (rd # rds) ph w =
     bindE (seg_step B ru rd ph w) (\<lambda>(ph, w). downloadSegment B ru rds ph w)"

section \<open>All segments and the progress monitor\<close>

text \<open>One value that the monitor receives; \<open>progressCh\<close> has room for one value of every segment.\<close>

definition monitor_step :: "'s badger \<Rightarrow> runtime \<Rightarrow> gctx \<Rightarrow> clock \<Rightarrow> 's rstate \<Rightarrow> 's rstate res" where
  "monitor_step B ru cx ck w =
     (case rn_progress w of
        [] \<Rightarrow> Inr w
      | got # rest \<Rightarrow>
          let d = rn_d w;
              d = d\<lparr>d_BytesCompleted := add64 (d_BytesCompleted d) got\<rparr>;
              R = fp_round (ru_fpu ru);
              d = (if 0 < d_BytesTotal d
                   then d\<lparr>d_Progress := R (R (of_int (d_BytesCompleted d)) / R (of_int (d_BytesTotal d)))\<rparr>
                   else d);
              d = d\<lparr>d_UpdatedAt := ck 0\<rparr>;
              w = snd (save_copy B ru cx (skip 2 ck) (w\<lparr>rn_d := d, rn_progress := rest\<rparr>))
          in run_publish (ck 1) EventProgress (BytesData got) w)"

fun monitor_steps :: "'s badger \<Rightarrow> runtime \<Rightarrow> (gctx \<times> clock) list \<Rightarrow> 's rstate \<Rightarrow> 's rstate res" where
  "monitor_steps B ru [] w = Inr w"
| "monitor_steps B ru ((cx, ck) # ms) w = bindE (monitor_step B ru cx ck w) (monitor_steps B ru ms)"

text \<open>
  A schedule: a goroutine takes a step, the monitor receives, or another part of the process changes
  what it shares with the run.
\<close>

datatype 's sched =
    StepSeg nat readings
  | StepMonitor gctx clock
  | StepOther 's publisher "limiter option"

text \<open>\<open>errCh <- err\<close> when the goroutine of a segment has returned an error.\<close>

definition note_error :: "seg_phase \<Rightarrow> seg_phase \<Rightarrow> 's rstate \<Rightarrow> 's rstate" where
  "note_error old new w =
     (case (old, new) of
        (SegEnd g e, _) \<Rightarrow> w
      | (_, SegEnd g (Some e)) \<Rightarrow> w\<lparr>rn_errs := rn_errs w @ [e]\<rparr>
      | _ \<Rightarrow> w)"

fun run_segments ::
    "'s badger \<Rightarrow> runtime \<Rightarrow> 's sched list \<Rightarrow> seg_phase list \<Rightarrow> 's rstate \<Rightarrow> (seg_phase list \<times> 's rstate) res" where
  "run_segments B ru [] phs w = Inr (phs, w)"
| "run_segments B ru (StepSeg i rd # evs) phs w =
     (if i < length phs
      then bindE (seg_step B ru rd (phs ! i) w) (\<lambda>(ph, w).
             run_segments B ru evs (phs[i := ph]) (note_error (phs ! i) ph w))
      else run_segments B ru evs phs w)"
| "run_segments B ru (StepMonitor cx ck # evs) phs w =
     bindE (monitor_step B ru cx ck w) (run_segments B ru evs phs)"
| "run_segments B ru (StepOther s p rl # evs) phs w =
     run_segments B ru evs phs (w\<lparr>rn_db := s, rn_pub := p, rn_lim := rl\<rparr>)"

fun seg_ended :: "seg_phase \<Rightarrow> bool" where
  "seg_ended (SegEnd g e) = True"
| "seg_ended ph = False"

text \<open>
  The result of \<open>downloadSegments\<close> once \<open>wg.Wait\<close> has returned, the first error that was sent; the
  outer \<open>None\<close> is a schedule after which a goroutine is still running.
\<close>

definition downloadSegments ::
    "'s badger \<Rightarrow> runtime \<Rightarrow> 's sched list \<Rightarrow> Segment list \<Rightarrow> 's rstate \<Rightarrow> (gerr option option \<times> 's rstate) res" where
  "downloadSegments B ru evs gs w =
     bindE (run_segments B ru evs (map SegNew gs) (w\<lparr>rn_progress := [], rn_errs := []\<rparr>)) (\<lambda>(phs, w).
       Inr (if list_all seg_ended phs
            then Some (case rn_errs w of [] \<Rightarrow> None | e # es \<Rightarrow> Some e) else None, w))"

section \<open>Preparing and finishing\<close>

text \<open>What the parts of a run outside the segments read.\<close>

record surroundings =
  sd_get :: gctx
  sd_prepare :: readings
  sd_fail :: readings
  sd_begin :: readings
  sd_merge_io :: oserrs
  sd_verify_io :: oserrs
  sd_complete :: readings
  sd_late :: "nat \<Rightarrow> (gctx \<times> clock) list"
  sd_fuel :: nat

definition content_type_ok :: "Download \<Rightarrow> ResponseMetadata \<Rightarrow> bool" where
  "content_type_ok d md =
     (case d_Config d of None \<Rightarrow> True
      | Some c \<Rightarrow> \<not> (c_VerifyContentType c \<and> c_Mime c \<noteq> [] \<and>
          m_ContentType md \<noteq> [] \<and> m_ContentType md \<noteq> c_Mime c))"

definition accepts_ranges :: "Download \<Rightarrow> ResponseMetadata \<Rightarrow> bool" where
  "accepts_ranges d md =
     (case d_Config d of None \<Rightarrow> m_AcceptRanges md
      | Some c \<Rightarrow> if \<not> c_AcceptRanges c then False else m_AcceptRanges md)"

definition prepareDownload ::
    "'s badger \<Rightarrow> runtime \<Rightarrow> readings \<Rightarrow> 's rstate \<Rightarrow> Segment list res \<times> 's rstate" where
  "prepareDownload B ru rd w =
     (let d = rn_d w
      in case Prepare (rd_io rd) (ru_home ru) d of
        Inl e \<Rightarrow> (Inl e, w)
      | Inr u \<Rightarrow> (case d_Request d of
          None \<Rightarrow> (Inl (ErrPanic ''nil pointer dereference''), w)
        | Some req \<Rightarrow> (case Head (ru_url ru) (rd_net rd) (ru_timeout ru) req (pickCfg d) of
            (m, Some e) \<Rightarrow> (Inl e, w)
          | (None, None) \<Rightarrow> (Inl (ErrPanic ''nil pointer dereference''), w)
          | (Some (md, hdrs), None) \<Rightarrow>
              if \<not> content_type_ok d md
              then (Inl (ErrText (''unexpected content-type: '' @ m_ContentType md)), w)
              else let d = d\<lparr>d_Response := Some md\<rparr>;
                       d = (if d_BytesTotal d = 0 \<and> 0 < m_ContentLength md
                            then d\<lparr>d_BytesTotal := m_ContentLength md\<rparr> else d)
                   in case save_copy B ru (rd_cx rd) (rd_ck rd) (w\<lparr>rn_d := d\<rparr>) of
                        (Inl e, w) \<Rightarrow> (Inl e, w)
                      | (Inr u, w) \<Rightarrow> (Plan (rn_d w) (m_ContentLength md) (accepts_ranges (rn_d w) md), w))))"

text \<open>
  \<open>finalizeDownload\<close>; the monitor may still have values to receive, which it does between the parts
  (\<open>late j\<close>).  The outer \<open>None\<close> is a search for a free name that the fuel did not end.
\<close>

definition finish_begin :: "'s badger \<Rightarrow> runtime \<Rightarrow> readings \<Rightarrow> 's rstate \<Rightarrow> 's rstate" where
  "finish_begin B ru rd w =
     snd (save_copy B ru (rd_cx rd) (skip 1 (rd_ck rd))
       (w\<lparr>rn_d := (rn_d w)\<lparr>d_Error := [], d_UpdatedAt := rd_ck rd 0\<rparr>\<rparr>))"

definition finish_complete :: "'s badger \<Rightarrow> runtime \<Rightarrow> readings \<Rightarrow> 's rstate \<Rightarrow> 's rstate res" where
  "finish_complete B ru rd w =
     (let now = rd_ck rd 0;
          w = w\<lparr>rn_d := (rn_d w)\<lparr>d_Status := StatusCompleted, d_UpdatedAt := now, d_CompletedAt := Some now\<rparr>\<rparr>;
          w = snd (save_copy B ru (rd_cx rd) (skip 2 (rd_ck rd)) w)
      in run_publish (rd_ck rd 1) EventCompleted NoData w)"

definition merge_and_verify ::
    "runtime \<Rightarrow> nat \<Rightarrow> oserrs \<Rightarrow> oserrs \<Rightarrow> 's rstate \<Rightarrow> (unit res \<times> 's rstate) option" where
  "merge_and_verify ru fuel mio vio w =
     (case MergeSegments fuel mio (ru_home ru) (rn_d w) (rn_fs w) of
        None \<Rightarrow> None
      | Some (Inl e, d, fs) \<Rightarrow> Some (Inl e, w\<lparr>rn_d := d, rn_fs := fs\<rparr>)
      | Some (Inr u, d, fs) \<Rightarrow>
          let w = w\<lparr>rn_d := d, rn_fs := fs\<rparr>
          in (case VerifyChecksum (ru_lib ru) vio (ru_digest ru) d fs of
                Inl e \<Rightarrow> Some (Inl e, w)
              | Inr ok \<Rightarrow> Some (if ok then Inr () else Inl ErrUnexpectedEOF, w)))"

definition run_failed :: "'s badger \<Rightarrow> runtime \<Rightarrow> surroundings \<Rightarrow> gerr \<Rightarrow> 's rstate \<Rightarrow> 's rstate res" where
  "run_failed B ru sd e w =
     (if is_panic e then Inl e else run_fail B ru (rd_cx (sd_fail sd)) (rd_ck (sd_fail sd)) e w)"

text \<open>A failure once the monitor has been started: it may receive before and after \<open>fail\<close>.\<close>

definition run_failed_late ::
    "'s badger \<Rightarrow> runtime \<Rightarrow> surroundings \<Rightarrow> gerr \<Rightarrow> 's rstate \<Rightarrow> 's rstate res" where
  "run_failed_late B ru sd e w =
     bindE (monitor_steps B ru (sd_late sd 1) w) (\<lambda>w.
       bindE (run_failed B ru sd e w) (monitor_steps B ru (sd_late sd 2)))"

definition finalizeDownload ::
    "'s badger \<Rightarrow> runtime \<Rightarrow> surroundings \<Rightarrow> 's rstate \<Rightarrow> 's rstate res option" where
  "finalizeDownload B ru sd w =
     (case monitor_steps B ru (sd_late sd 0) (finish_begin B ru (sd_begin sd) w) of
        Inl e \<Rightarrow> Some (Inl e)
      | Inr w \<Rightarrow> (case merge_and_verify ru (sd_fuel sd) (sd_merge_io sd) (sd_verify_io sd) w of
          None \<Rightarrow> None
        | Some (Inl e, w) \<Rightarrow> Some (run_failed_late B ru sd e w)
        | Some (Inr u, w) \<Rightarrow>
            Some (bindE (monitor_steps B ru (sd_late sd 1) w) (\<lambda>w.
                  bindE (finish_complete B ru (sd_complete sd) w) (monitor_steps B ru (sd_late sd 2))))))"

text \<open>
  \<open>Run\<close>: \<open>None\<close> for a schedule that stops early, otherwise the state at the end or a panic.  When the
  download cannot be read, a minimal one takes its place.
\<close>

definition Run ::
    "'s badger \<Rightarrow> runtime \<Rightarrow> surroundings \<Rightarrow> 's sched list \<Rightarrow> string \<Rightarrow> 's rstate \<Rightarrow> 's rstate res option" where
  "Run B ru sd evs did w =
     (case GetDownload B (sd_get sd) (rn_db w) did of
        Inl e \<Rightarrow> Some (run_failed B ru sd e
          (w\<lparr>rn_d := zero_Download\<lparr>d_ID := did, d_Status := StatusFailed, d_Error := err_text ru e\<rparr>\<rparr>))
      | Inr d \<Rightarrow> (case prepareDownload B ru (sd_prepare sd) (w\<lparr>rn_d := d\<rparr>) of
          (Inl e, w) \<Rightarrow> Some (run_failed B ru sd e w)
        | (Inr gs, w) \<Rightarrow> (case downloadSegments B ru evs gs w of
            Inl e \<Rightarrow> Some (Inl e)
          | Inr (None, w) \<Rightarrow> None
          | Inr (Some (Some e), w) \<Rightarrow> Some (run_failed_late B ru sd e w)
          | Inr (Some None, w) \<Rightarrow> finalizeDownload B ru sd w)))"

end
