(* ===== verification/Runner_Laws.thy ===== *)
theory Runner_Laws
  imports Runner
begin

text \<open>
  What a run does: it ends, it restores the file from its segments in every interleaving, and what
  happens when it is cancelled, when an answer breaks off and when a server sends another range.
\<close>

section \<open>The copy of the download\<close>

text \<open>What the steps of a run read of their copy and never change.\<close>

definition core :: "Download \<Rightarrow> string \<times> FileOptions option \<times> RequestOptions option \<times> DownloadConfig option" where
  "core d = (d_ID d, d_File d, d_Request d, d_Config d)"

lemma core_updates [simp]:
  "core (d\<lparr>d_Status := a\<rparr>) = core d" "core (d\<lparr>d_Error := b\<rparr>) = core d"
  "core (d\<lparr>d_UpdatedAt := t\<rparr>) = core d" "core (d\<lparr>d_CreatedAt := t\<rparr>) = core d"
  "core (d\<lparr>d_RetriesAttempted := i\<rparr>) = core d" "core (d\<lparr>d_BytesCompleted := i\<rparr>) = core d"
  "core (d\<lparr>d_BytesTotal := i\<rparr>) = core d" "core (d\<lparr>d_Progress := r\<rparr>) = core d"
  "core (d\<lparr>d_Response := m\<rparr>) = core d" "core (d\<lparr>d_CompletedAt := c\<rparr>) = core d"
  by (simp_all add: core_def)

lemma coreD:
  assumes "core d = core d'"
  shows "d_ID d = d_ID d'" "d_File d = d_File d'" "d_Request d = d_Request d'" "d_Config d = d_Config d'"
  using assms by (simp_all add: core_def)

lemma core_cong:
  assumes "core d = core d'"
  shows "tempDir home d = tempDir home d'" "max_retries d = max_retries d'" "pickCfg d = pickCfg d'"
    "max_conns d = max_conns d'" "finalPath d = finalPath d'"
  unfolding tempDir_def max_retries_def pickCfg_def max_conns_def finalPath_def coreD [OF assms]
  by (rule refl)+

lemma UpdateDownload_copy:
  assumes "UpdateDownload B L cx ck s d = (Inr d', s')"
  shows "\<exists>c u. d' = d\<lparr>d_CreatedAt := c, d_UpdatedAt := u\<rparr>"
proof -
  from assms obtain tx where "updateDownloadTxn B L (skip 2 cx) ck s d [] = Inr (d', tx)"
    by (auto simp: UpdateDownload_def repo_update_def db_update_def
        split: option.splits sum.splits prod.splits)
  then show ?thesis
    by (cases d) (auto simp: updateDownloadTxn_def Let_def bindE_eq_Inr split: option.splits if_splits)
qed

lemma save_copy_core: "core (rn_d (snd (save_copy B ru cx ck w))) = core (rn_d w)"
proof (cases "UpdateDownload B (ru_lib ru) cx ck (rn_db w) (rn_d w)")
  case (Pair r s)
  show ?thesis
  proof (cases r)
    case (Inr d')
    with Pair UpdateDownload_copy obtain c u where "d' = (rn_d w)\<lparr>d_CreatedAt := c, d_UpdatedAt := u\<rparr>"
      by metis
    with Pair Inr show ?thesis by (simp add: save_copy_def)
  qed (simp add: save_copy_def Pair)
qed

lemma save_copy_frame [simp]:
  "rn_fs (snd (save_copy B ru cx ck w)) = rn_fs w" "rn_pub (snd (save_copy B ru cx ck w)) = rn_pub w"
  "rn_lim (snd (save_copy B ru cx ck w)) = rn_lim w" "rn_errs (snd (save_copy B ru cx ck w)) = rn_errs w"
  "rn_progress (snd (save_copy B ru cx ck w)) = rn_progress w"
  by (simp_all add: save_copy_def split: prod.splits sum.splits)

lemma run_publish_frame:
  assumes "run_publish now ty dat w = Inr w'"
  shows "rn_fs w' = rn_fs w" "rn_d w' = rn_d w" "rn_errs w' = rn_errs w" "rn_db w' = rn_db w"
  using assms by (auto simp: run_publish_def bindE_eq_Inr)

lemma monitor_step_frame:
  assumes "monitor_step B ru cx ck w = Inr w'"
  shows "rn_fs w' = rn_fs w" "rn_errs w' = rn_errs w" "core (rn_d w') = core (rn_d w)"
  using assms
  by (auto simp: monitor_step_def Let_def save_copy_core run_publish_frame [where w' = w']
      split: list.splits dest!: run_publish_frame)

lemma monitor_steps_frame:
  assumes "monitor_steps B ru ms w = Inr w'"
  shows "rn_fs w' = rn_fs w \<and> rn_errs w' = rn_errs w \<and> core (rn_d w') = core (rn_d w)"
  using assms
  by (induction B ru ms w rule: monitor_steps.induct)
    (auto simp: bindE_eq_Inr dest: monitor_step_frame)

lemma throttle_any: "\<exists>waits rl'. throttle ru ck d n rl = (waits, rl')"
  by (cases "throttle ru ck d n rl") simp

section \<open>Parts\<close>

definition part_of :: "string \<Rightarrow> Segment \<Rightarrow> string" where
  "part_of tmp g = entry tmp (part_name (s_Index g))"

lemma Open_part:
  assumes "tempDir home d = Inr tmp" "OpenSegmentWriter io home d g fs = (r, fs')"
  shows "\<And>q. q \<noteq> part_of tmp g \<Longrightarrow> map_of fs' q = map_of fs q"
    and "fs_content fs' q = fs_content fs q"
    and "\<And>p n. r = Inr (p, n) \<Longrightarrow> p = part_of tmp g \<and> n = int (length (fs_content fs p)) \<and>
      map_of fs' p = Some (fs_content fs p)"
proof -
  have join: "Join [tmp, part_name (s_Index g)] = part_of tmp g"
    unfolding part_of_def by (rule Join_part [OF tempDir_clean [OF assms(1)] part_name_plain])
  show "\<And>q. q \<noteq> part_of tmp g \<Longrightarrow> map_of fs' q = map_of fs q"
    using assms by (auto simp: OpenSegmentWriter_def join Let_def split: option.splits if_splits)
  show "fs_content fs' q = fs_content fs q"
    using assms
    by (auto simp: OpenSegmentWriter_def join Let_def fs_content_def fs_exists_map split: option.splits if_splits)
  show "\<And>p n. r = Inr (p, n) \<Longrightarrow> p = part_of tmp g \<and> n = int (length (fs_content fs p)) \<and>
      map_of fs' p = Some (fs_content fs p)"
    using assms
    by (auto simp: OpenSegmentWriter_def join Let_def fs_content_def fs_exists_map split: option.splits if_splits)
qed

lemma map_of_append_part:
  "map_of (append_part p bytes fs) q = (if q = p then Some (fs_content fs p @ bytes) else map_of fs q)"
  by (simp add: append_part_def)

text \<open>The bytes of a segment; a segment that lies in the file.\<close>

definition seg_bytes :: "string \<Rightarrow> Segment \<Rightarrow> string" where
  "seg_bytes body g = range_bytes body (s_Start g) (s_End g)"

definition seg_inside :: "string \<Rightarrow> Segment \<Rightarrow> bool" where
  "seg_inside body g \<longleftrightarrow>
     0 \<le> s_Start g \<and> s_Start g \<le> int (length body) \<and>
     (s_End g < 0 \<or> s_Start g \<le> s_End g \<and> s_End g < int (length body))"

lemma seg_bytes_length:
  assumes "seg_inside body g"
  shows "int (length (seg_bytes body g)) =
    (if s_End g < 0 then int (length body) - s_Start g else s_End g - s_Start g + 1)"
  using assms by (auto simp: seg_bytes_def range_bytes_def seg_inside_def Let_def)

lemma seg_bytes_resume:
  assumes "seg_inside body g" "prefix p (seg_bytes body g)"
  shows "p @ range_bytes body (s_Start g + int (length p)) (s_End g) = seg_bytes body g"
proof -
  from assms(2) obtain q where q: "seg_bytes body g = p @ q" by (rule prefixE)
  then have "q = drop (length p) (seg_bytes body g)" by simp
  also have "\<dots> = range_bytes body (s_Start g + int (length p)) (s_End g)"
  proof -
    have s: "0 \<le> s_Start g" using assms(1) by (simp add: seg_inside_def)
    then have n: "nat (s_Start g + int (length p)) = nat (s_Start g) + length p" by simp
    show ?thesis
      using s by (auto simp: seg_bytes_def range_bytes_def Let_def n drop_take add.commute intro!: arg_cong2 [where f = take])
  qed
  finally show ?thesis using q by simp
qed

text \<open>The reader of a segment gives the missing bytes, whichever of the two answers was used.\<close>

lemma LimitReader_take:
  "0 \<le> n \<Longrightarrow> LimitReader n (bytes, None) = (take (nat n) bytes, None)"
  by (auto simp: LimitReader_def)

lemma range_reader_served:
  assumes "serves_range body start stop code bd cr" "0 \<le> start" "start \<le> int (length body)"
    and "stop < 0 \<or> start \<le> stop + 1 \<and> stop < int (length body)" "in64 (int (length body))"
  shows "range_reader code start stop bd = Inr (range_bytes body start stop, None)"
proof -
  have "add64 (sub64 stop start) 1 = stop - start + 1" if "0 \<le> stop"
  proof -
    have "in64 (stop - start)" "in64 (stop - start + 1)" using assms that by (auto simp: in64_def)
    then show ?thesis by (simp add: sub64_id add64_id)
  qed
  then show ?thesis
    using assms(1-4)
    by (auto simp: serves_range_def range_reader_def range_bytes_def Let_def LimitReader_take)
qed

section \<open>The state of one segment\<close>

text \<open>
  The part holds a prefix of the segment while the segment is worked on, and all of it when the
  goroutine has returned without an error.
\<close>

definition seg_inv :: "string \<Rightarrow> string \<Rightarrow> fsys \<Rightarrow> Segment \<Rightarrow> seg_phase \<Rightarrow> bool" where
  "seg_inv body tmp fs g ph =
     (case ph of
        SegNew g' \<Rightarrow> g' = g \<and> prefix (fs_content fs (part_of tmp g)) (seg_bytes body g)
      | SegTry st \<Rightarrow> sr_seg st = g \<and>
          (\<exists>p. map_of fs (part_of tmp g) = Some p \<and> prefix p (seg_bytes body g) \<and>
             sr_existing st = int (length p) \<and> sr_start st = s_Start g + int (length p))
      | SegEnd g' e \<Rightarrow> prefix (fs_content fs (part_of tmp g)) (seg_bytes body g) \<and>
          (e = None \<longrightarrow> map_of fs (part_of tmp g) = Some (seg_bytes body g)))"

lemma seg_inv_simps [simp]:
  "seg_inv body tmp fs g (SegEnd g' (Some e)) \<longleftrightarrow> prefix (fs_content fs (part_of tmp g)) (seg_bytes body g)"
  "seg_inv body tmp fs g (SegEnd g' None) \<longleftrightarrow> map_of fs (part_of tmp g) = Some (seg_bytes body g)"
  "seg_inv body tmp fs g (SegTry (st\<lparr>sr_attempts := a\<rparr>)) = seg_inv body tmp fs g (SegTry st)"
  "seg_inv body tmp fs g (SegTry (st\<lparr>sr_slept := b\<rparr>)) = seg_inv body tmp fs g (SegTry st)"
  by (auto simp: seg_inv_def fs_content_def)

text \<open>In every state the part holds a prefix of the segment.\<close>

lemma seg_inv_prefix: "seg_inv body tmp fs g ph \<Longrightarrow> prefix (fs_content fs (part_of tmp g)) (seg_bytes body g)"
  by (auto simp: seg_inv_def fs_content_def split: seg_phase.splits)

lemma seg_inv_cong:
  "map_of fs' (part_of tmp g) = map_of fs (part_of tmp g) \<Longrightarrow> seg_inv body tmp fs' g ph = seg_inv body tmp fs g ph"
  by (simp add: seg_inv_def fs_content_def split: seg_phase.splits)

definition unlimited_size :: "Download \<Rightarrow> bool" where
  "unlimited_size d = (case d_File d of None \<Rightarrow> True | Some f \<Rightarrow> f_MaxFileSize f \<le> 0)"

text \<open>The download of a run: its directory, no limit of the size, and a request whose range is kept.\<close>

definition run_ready :: "runtime \<Rightarrow> string \<Rightarrow> Download \<Rightarrow> bool" where
  "run_ready ru tmp d \<longleftrightarrow>
     tempDir (ru_home ru) d = Inr tmp \<and> unlimited_size d \<and>
     (\<exists>req. d_Request d = Some req \<and> plain_range req (pickCfg d))"

lemma run_ready_core:
  assumes "core d = core d'" shows "run_ready ru tmp d = run_ready ru tmp d'"
  unfolding run_ready_def unlimited_size_def core_cong [OF assms] coreD [OF assms] by (rule refl)

lemma size_reader_unlimited: "unlimited_size d \<Longrightarrow> size_reader d bd = bd"
  by (simp add: unlimited_size_def size_reader_def split: option.splits)

lemma retry_inv: "seg_inv body tmp fs g (SegTry st) \<Longrightarrow> seg_inv body tmp fs g (retry limit e delay st)"
  by (auto simp: retry_def Let_def seg_inv_prefix)

lemma failed_get_facts:
  assumes "failed_get B ru rd (Some e) st w = (ph, w')" "seg_inv body tmp (rn_fs w) g (SegTry st)"
  shows "seg_inv body tmp (rn_fs w') g ph" "rn_fs w' = rn_fs w" "core (rn_d w') = core (rn_d w)"
    "rn_errs w' = rn_errs w"
  using assms by (auto simp: failed_get_def Let_def save_copy_core seg_inv_prefix split: if_splits)

lemma finish_segment_facts:
  assumes "finish_segment B ru rd bytes st w = (ph, w')"
  shows "\<exists>g. ph = SegEnd g None" "rn_fs w' = rn_fs w" "core (rn_d w') = core (rn_d w)"
    "rn_errs w' = rn_errs w"
  using assms by (auto simp: finish_segment_def Let_def split: prod.splits)

text \<open>An answer that is used ends the segment; the part then holds all of it.\<close>

lemma written_segment:
  assumes inv: "seg_inv body tmp (rn_fs w) g (SegTry st)" and ready: "run_ready ru tmp (rn_d w)"
    and g: "seg_inside body g" "in64 (int (length body))" and short: "rd_short rd = None"
    and served: "serves_range body (sr_start st) (s_End g) code bd cr"
    and o: "OpenSegmentWriter (rd_io rd) (ru_home ru) (rn_d w) g (rn_fs w) = (Inr (q, n), fs')"
  shows "\<exists>bytes w1. write_answer B ru rd code bd st w = Inr (finish_segment B ru rd bytes st w1) \<and>
    rn_pub w1 = rn_pub w \<and> rn_d w1 = rn_d w \<and> rn_errs w1 = rn_errs w \<and>
    map_of (rn_fs w1) (part_of tmp g) = Some (seg_bytes body g) \<and>
    (\<forall>x. x \<noteq> part_of tmp g \<longrightarrow> map_of (rn_fs w1) x = map_of (rn_fs w) x)"
proof -
  from inv obtain p where p: "sr_seg st = g" "map_of (rn_fs w) (part_of tmp g) = Some p"
    "prefix p (seg_bytes body g)" "sr_existing st = int (length p)" "sr_start st = s_Start g + int (length p)"
    by (auto simp: seg_inv_def)
  have tmp: "tempDir (ru_home ru) (rn_d w) = Inr tmp" and size: "unlimited_size (rn_d w)"
    using ready by (simp_all add: run_ready_def)
  note part = Open_part [OF tmp o]
  have q: "q = part_of tmp g" "map_of fs' q = Some p"
    using part(3) [of q n] p(2) by (auto simp: fs_content_def)
  let ?bytes = "range_bytes body (sr_start st) (s_End g)"
  have len: "int (length p) \<le> int (length (seg_bytes body g))"
    using p(3) by (simp add: prefix_length_le)
  then have bounds: "0 \<le> sr_start st" "sr_start st \<le> int (length body)"
    "s_End g < 0 \<or> sr_start st \<le> s_End g + 1 \<and> s_End g < int (length body)"
    using g(1) seg_bytes_length [OF g(1)] by (auto simp: p(5) seg_inside_def)
  have rdr: "range_reader code (sr_start st) (s_End g) bd = Inr (?bytes, None)"
    by (rule range_reader_served [OF served bounds g(2)])
  have all: "p @ ?bytes = seg_bytes body g"
    unfolding p(5) by (rule seg_bytes_resume [OF g(1) p(3)])
  then have "int (length p) + int (length ?bytes) = int (length (seg_bytes body g))"
    by (metis length_append of_nat_add)
  moreover have "in64 (int (length (seg_bytes body g)))" "0 \<le> s_End g \<Longrightarrow> in64 (s_End g - s_Start g)"
    "0 \<le> s_End g \<Longrightarrow> in64 (s_End g - s_Start g + 1)"
    using seg_bytes_length [OF g(1)] g by (auto simp: seg_inside_def in64_def)
  ultimately have sum: "\<not> (0 \<le> s_End g \<and>
      add64 (sr_existing st) (int (length ?bytes)) \<noteq> add64 (sub64 (s_End g) (s_Start g)) 1)"
    using seg_bytes_length [OF g(1)] by (auto simp: p(4) add64_id sub64_id)
  let ?w = "w\<lparr>rn_fs := append_part q ?bytes fs'\<rparr>"
  have "write_answer B ru rd code bd st w = Inr (finish_segment B ru rd ?bytes st ?w)"
    using o rdr sum
    by (auto simp: write_answer_def Let_def p(1) short copied_def size_reader_unlimited [OF size])
  then show ?thesis
    using q all part(1) by (intro exI [of _ ?bytes] exI [of _ ?w]) (auto simp: map_of_append_part fs_content_def)
qed

lemma write_answer_facts:
  assumes inv: "seg_inv body tmp (rn_fs w) g (SegTry st)" and ready: "run_ready ru tmp (rn_d w)"
    and g: "seg_inside body g" "in64 (int (length body))" and short: "rd_short rd = None"
    and served: "serves_range body (sr_start st) (s_End g) code bd cr"
    and step: "write_answer B ru rd code bd st w = Inr (ph, w')"
  shows "seg_inv body tmp (rn_fs w') g ph \<and> (\<forall>q. q \<noteq> part_of tmp g \<longrightarrow> map_of (rn_fs w') q = map_of (rn_fs w) q) \<and>
    core (rn_d w') = core (rn_d w) \<and> rn_errs w' = rn_errs w"
proof -
  have st: "sr_seg st = g" using inv by (simp add: seg_inv_def)
  have tmp: "tempDir (ru_home ru) (rn_d w) = Inr tmp" using ready by (simp add: run_ready_def)
  obtain r fs' where o: "OpenSegmentWriter (rd_io rd) (ru_home ru) (rn_d w) g (rn_fs w) = (r, fs')"
    by (cases "OpenSegmentWriter (rd_io rd) (ru_home ru) (rn_d w) g (rn_fs w)") simp
  show ?thesis
  proof (cases r)
    case (Inl e)
    with step o st Open_part(1,2) [OF tmp o] seg_inv_prefix [OF inv] show ?thesis
      by (auto simp: write_answer_def Let_def unless_panic_def split: if_splits)
  next
    case (Inr pn)
    obtain q n where "pn = (q, n)" by (cases pn)
    with Inr o have "OpenSegmentWriter (rd_io rd) (ru_home ru) (rn_d w) g (rn_fs w) = (Inr (q, n), fs')" by simp
    from written_segment [OF inv ready g short served this, of B] obtain bytes w1 where
      w1: "write_answer B ru rd code bd st w = Inr (finish_segment B ru rd bytes st w1)"
      "rn_d w1 = rn_d w" "rn_errs w1 = rn_errs w" "map_of (rn_fs w1) (part_of tmp g) = Some (seg_bytes body g)"
      "\<forall>x. x \<noteq> part_of tmp g \<longrightarrow> map_of (rn_fs w1) x = map_of (rn_fs w) x" by blast
    have "finish_segment B ru rd bytes st w1 = (ph, w')" using w1(1) step by simp
    from finish_segment_facts [OF this] w1 show ?thesis by auto
  qed
qed

lemma seg_step_facts:
  assumes inv: "seg_inv body tmp (rn_fs w) g ph" and ready: "run_ready ru tmp (rn_d w)"
    and g: "seg_inside body g" "in64 (int (length body))"
    and rd: "rd_short rd = None" "origin (rd_net rd) body"
    and step: "seg_step B ru rd ph w = Inr (ph', w')"
  shows "seg_inv body tmp (rn_fs w') g ph' \<and> (\<forall>q. q \<noteq> part_of tmp g \<longrightarrow> map_of (rn_fs w') q = map_of (rn_fs w) q) \<and>
    core (rn_d w') = core (rn_d w) \<and> rn_errs w' = rn_errs w"
proof (cases ph)
  case (SegEnd g' e)
  with inv step show ?thesis by (simp add: seg_step_def)
next
  case (SegNew g')
  obtain r fs' where o: "OpenSegmentWriter (rd_io rd) (ru_home ru) (rn_d w) g (rn_fs w) = (r, fs')"
    by (cases "OpenSegmentWriter (rd_io rd) (ru_home ru) (rn_d w) g (rn_fs w)") simp
  have tmp: "tempDir (ru_home ru) (rn_d w) = Inr tmp" using ready by (simp add: run_ready_def)
  note part = Open_part [OF tmp o]
  have pre: "g' = g" "prefix (fs_content (rn_fs w) (part_of tmp g)) (seg_bytes body g)"
    using inv SegNew by (simp_all add: seg_inv_def)
  show ?thesis
  proof (cases r)
    case (Inl e)
    with step o pre SegNew part(1,2) show ?thesis
      by (auto simp: seg_step_def unless_panic_def split: if_splits)
  next
    case (Inr pn)
    obtain q n where pn: "pn = (q, n)" by (cases pn)
    with part(3) [of q n] Inr have q: "q = part_of tmp g" "n = int (length (fs_content (rn_fs w) q))"
      "map_of fs' q = Some (fs_content (rn_fs w) q)" by auto
    have "in64 (s_Start g + n)"
      using prefix_length_le [OF pre(2)] seg_bytes_length [OF g(1)] g q(1,2)
      by (auto simp: seg_inside_def in64_def split: if_splits)
    then show ?thesis
      using step o SegNew Inr pn q pre part(1)
      by (auto simp: seg_step_def seg_inv_def add64_id)
  qed
next
  case (SegTry st)
  have st: "sr_seg st = g" using inv SegTry by (simp add: seg_inv_def)
  obtain req where req: "d_Request (rn_d w) = Some req" "plain_range req (pickCfg (rn_d w))"
    using ready by (auto simp: run_ready_def)
  have start: "0 \<le> sr_start st" using inv SegTry g(1) by (auto simp: seg_inv_def seg_inside_def)
  obtain waits rl where th: "throttle ru (rd_ck rd) (rn_d w) (safeSpan (s_End g) (sr_start st)) (rn_lim w) = (waits, rl)"
    using throttle_any by blast
  let ?w = "w\<lparr>rn_lim := rl\<rparr>" and ?st = "st\<lparr>sr_slept := sr_slept st @ waits\<rparr>"
  let ?get = "GetRange (ru_url ru) (rd_net rd) (ru_timeout ru) req (pickCfg (rn_d w)) (sr_start st) (s_End g)"
  have inv': "seg_inv body tmp (rn_fs ?w) g (SegTry ?st)" using inv SegTry by simp
  show ?thesis
  proof (cases "rd_done rd")
    case (Some e)
    with step SegTry inv st seg_inv_prefix [OF inv] show ?thesis by (auto simp: seg_step_def seg_attempt_def)
  next
    case None
    from tr.get_served [of req "pickCfg (rn_d w)" "rd_net rd" body "sr_start st" "ru_url ru" "ru_timeout ru" "s_End g"]
      req(2) rd(2) start consider (fail) c e where "?get = RangeFail c (Some e)"
      | (ok) bd md h code where "?get = RangeOk bd md h code"
          "serves_range body (sr_start st) (s_End g) code bd (h ''Content-Range'')"
      by blast
    then show ?thesis
    proof cases
      case fail
      with step SegTry None req(1) th st
      have "failed_get B ru rd (Some e) ?st ?w = (ph', w')"
        by (simp add: seg_step_def seg_attempt_def Let_def)
      from failed_get_facts [OF this inv'] show ?thesis by simp
    next
      case ok
      have code: "code = 200 \<or> code = 206" using ok(2) by (auto simp: serves_range_def)
      show ?thesis
      proof (cases "code = 206 \<and> range_mismatch ru h (sr_start st) (s_End g)")
        case True
        with step SegTry None req(1) th st ok(1) inv show ?thesis
          by (auto simp: seg_step_def seg_attempt_def Let_def)
      next
        case False
        with step SegTry None req(1) th st ok(1) code
        have "write_answer B ru rd code bd ?st ?w = Inr (ph', w')"
          by (auto simp: seg_step_def seg_attempt_def Let_def)
        from write_answer_facts [where w = ?w and st = ?st, OF inv' _ g rd(1) _ this] ready ok(2)
        show ?thesis by simp
      qed
    qed
  qed
qed

section \<open>All segments, in any interleaving\<close>

definition steady :: "string \<Rightarrow> 's sched list \<Rightarrow> bool" where
  "steady body evs \<longleftrightarrow>
     (\<forall>i rd. StepSeg i rd \<in> set evs \<longrightarrow> rd_short rd = None \<and> origin (rd_net rd) body)"

definition failed_phase :: "seg_phase \<Rightarrow> bool" where
  "failed_phase ph \<longleftrightarrow> (\<exists>g e. ph = SegEnd g (Some e))"

definition parts_inv ::
    "string \<Rightarrow> string \<Rightarrow> Segment list \<Rightarrow> fsys \<Rightarrow> Download \<Rightarrow> seg_phase list \<Rightarrow> 's rstate \<Rightarrow> bool" where
  "parts_inv body tmp gs fs d phs w \<longleftrightarrow>
     length phs = length gs \<and>
     (\<forall>i < length gs. seg_inv body tmp (rn_fs w) (gs ! i) (phs ! i)) \<and>
     (\<forall>q. q \<notin> part_of tmp ` set gs \<longrightarrow> map_of (rn_fs w) q = map_of fs q) \<and>
     core (rn_d w) = core d \<and> (\<forall>ph \<in> set phs. failed_phase ph \<longrightarrow> rn_errs w \<noteq> [])"

lemma note_error_frame [simp]:
  "rn_fs (note_error a b w) = rn_fs w" "rn_d (note_error a b w) = rn_d w"
  by (simp_all add: note_error_def split: seg_phase.splits option.splits)

lemma note_error_failed:
  assumes "\<And>g e. old \<noteq> SegEnd g e" "failed_phase new"
  shows "rn_errs (note_error old new w) \<noteq> []"
  using assms by (cases old) (auto simp: failed_phase_def note_error_def)

lemma note_error_keeps: "rn_errs w \<noteq> [] \<Longrightarrow> rn_errs (note_error old new w) \<noteq> []"
  by (simp add: note_error_def split: seg_phase.splits option.splits)

lemma seg_step_end: "seg_step B ru rd (SegEnd g e) w = Inr (ph, w') \<Longrightarrow> ph = SegEnd g e \<and> w' = w"
  by (simp add: seg_step_def)

lemma parts_inv_step:
  assumes inv: "parts_inv body tmp gs fs d phs w" and i: "i < length phs"
    and ready: "run_ready ru tmp d" and inside: "\<forall>g \<in> set gs. seg_inside body g" "in64 (int (length body))"
    and parts: "distinct (map (part_of tmp) gs)"
    and rd: "rd_short rd = None" "origin (rd_net rd) body"
    and step: "seg_step B ru rd (phs ! i) w = Inr (ph, w')"
  shows "parts_inv body tmp gs fs d (phs[i := ph]) (note_error (phs ! i) ph w')"
proof -
  have len: "length phs = length gs" and segs: "\<And>j. j < length gs \<Longrightarrow> seg_inv body tmp (rn_fs w) (gs ! j) (phs ! j)"
    and files: "\<And>q. q \<notin> part_of tmp ` set gs \<Longrightarrow> map_of (rn_fs w) q = map_of fs q"
    and d: "core (rn_d w) = core d" and errs: "\<And>ph. ph \<in> set phs \<Longrightarrow> failed_phase ph \<Longrightarrow> rn_errs w \<noteq> []"
    using inv by (auto simp: parts_inv_def)
  have i': "i < length gs" using i len by simp
  then have mem: "gs ! i \<in> set gs" by simp
  have r: "run_ready ru tmp (rn_d w)" using ready run_ready_core [OF d] by simp
  have ins: "seg_inside body (gs ! i)" using inside(1) mem by blast
  from seg_step_facts [OF segs [OF i'] r ins inside(2) rd step]
  have f: "seg_inv body tmp (rn_fs w') (gs ! i) ph"
    "\<And>q. q \<noteq> part_of tmp (gs ! i) \<Longrightarrow> map_of (rn_fs w') q = map_of (rn_fs w) q"
    "core (rn_d w') = core (rn_d w)" "rn_errs w' = rn_errs w" by auto
  have "seg_inv body tmp (rn_fs w') (gs ! j) (phs[i := ph] ! j)" if j: "j < length gs" for j
  proof (cases "j = i")
    case True
    with f(1) i len show ?thesis by simp
  next
    case False
    with j i' parts have "part_of tmp (gs ! j) \<noteq> part_of tmp (gs ! i)"
      by (simp add: distinct_conv_nth)
    from seg_inv_cong [OF f(2) [OF this]] segs [OF j] False show ?thesis by simp
  qed
  moreover have "map_of (rn_fs w') q = map_of fs q" if "q \<notin> part_of tmp ` set gs" for q
    using f(2) [of q] files [of q] that mem by auto
  moreover have "rn_errs (note_error (phs ! i) ph w') \<noteq> []" if "x \<in> set (phs[i := ph])" "failed_phase x" for x
  proof (cases "rn_errs w = []")
    case True
    with errs have none: "\<not> failed_phase y" if "y \<in> set phs" for y using that by blast
    with that set_update_subset_insert [of phs i ph] have x: "x = ph" by blast
    show ?thesis
    proof (cases "\<exists>g e. phs ! i = SegEnd g e")
      case True
      with step have "ph = phs ! i" using seg_step_end by metis
      with x that(2) none i show ?thesis by auto
    next
      case False
      then show ?thesis using x that(2) by (intro note_error_failed) auto
    qed
  qed (simp add: note_error_keeps f(4))
  ultimately show ?thesis using len d f(3) by (simp add: parts_inv_def)
qed

lemma run_segments_inv:
  assumes "parts_inv body tmp gs fs d phs w" "run_ready ru tmp d" "\<forall>g \<in> set gs. seg_inside body g"
    "in64 (int (length body))" "distinct (map (part_of tmp) gs)" "steady body evs"
    "run_segments B ru evs phs w = Inr (phs', w')"
  shows "parts_inv body tmp gs fs d phs' w'"
  using assms
proof (induction evs arbitrary: phs w)
  case (Cons ev evs)
  have steady: "steady body evs" using Cons.prems(6) by (simp add: steady_def)
  note IH = Cons.IH [OF _ Cons.prems(2-5) steady]
  show ?case
  proof (cases ev)
    case (StepSeg i rd)
    have rd: "rd_short rd = None" "origin (rd_net rd) body"
      using Cons.prems(6) StepSeg unfolding steady_def by (meson list.set_intros(1))+
    show ?thesis
    proof (cases "i < length phs")
      case True
      with Cons.prems(7) StepSeg obtain ph w1 where s: "seg_step B ru rd (phs ! i) w = Inr (ph, w1)"
        "run_segments B ru evs (phs[i := ph]) (note_error (phs ! i) ph w1) = Inr (phs', w')"
        by (auto simp: bindE_eq_Inr)
      from IH [OF parts_inv_step [OF Cons.prems(1) True Cons.prems(2-5) rd s(1)] s(2)] show ?thesis .
    next
      case False
      then have "run_segments B ru evs phs w = Inr (phs', w')" using Cons.prems(7) StepSeg by simp
      from IH [OF Cons.prems(1) this] show ?thesis .
    qed
  next
    case (StepMonitor cx ck)
    with Cons.prems(7) obtain w1 where m: "monitor_step B ru cx ck w = Inr w1"
      "run_segments B ru evs phs w1 = Inr (phs', w')" by (auto simp: bindE_eq_Inr)
    have "parts_inv body tmp gs fs d phs w1"
      using Cons.prems(1) monitor_step_frame [OF m(1)] by (simp add: parts_inv_def)
    from IH [OF this m(2)] show ?thesis .
  next
    case (StepOther s p rl)
    have "parts_inv body tmp gs fs d phs (w\<lparr>rn_db := s, rn_pub := p, rn_lim := rl\<rparr>)"
      using Cons.prems(1) by (simp add: parts_inv_def)
    moreover have "run_segments B ru evs phs (w\<lparr>rn_db := s, rn_pub := p, rn_lim := rl\<rparr>) = Inr (phs', w')"
      using Cons.prems(7) StepOther by simp
    ultimately show ?thesis by (rule IH)
  qed
qed simp

text \<open>When every goroutine has returned and none sent an error, the parts are the segments.\<close>

lemma downloadSegments_parts:
  assumes "downloadSegments B ru evs gs w = Inr (Some None, w')" "run_ready ru tmp (rn_d w)"
    "\<forall>g \<in> set gs. seg_inside body g" "in64 (int (length body))" "distinct (map (part_of tmp) gs)" "steady body evs"
    "\<forall>g \<in> set gs. prefix (fs_content (rn_fs w) (part_of tmp g)) (seg_bytes body g)"
  shows "\<forall>g \<in> set gs. map_of (rn_fs w') (part_of tmp g) = Some (seg_bytes body g)"
    and "\<forall>q. q \<notin> part_of tmp ` set gs \<longrightarrow> map_of (rn_fs w') q = map_of (rn_fs w) q"
    and "core (rn_d w') = core (rn_d w)"
proof -
  let ?w = "w\<lparr>rn_progress := [], rn_errs := []\<rparr>"
  from assms(1) obtain phs where r: "run_segments B ru evs (map SegNew gs) ?w = Inr (phs, w')"
    "list_all seg_ended phs" "rn_errs w' = []"
    by (auto simp: downloadSegments_def bindE_eq_Inr split: if_splits list.splits)
  have "parts_inv body tmp gs (rn_fs w) (rn_d w) (map SegNew gs) ?w"
    using assms(7) by (auto simp: parts_inv_def seg_inv_def failed_phase_def)
  from run_segments_inv [OF this assms(2-6) r(1)]
  have inv: "length phs = length gs" "\<And>i. i < length gs \<Longrightarrow> seg_inv body tmp (rn_fs w') (gs ! i) (phs ! i)"
    "\<forall>q. q \<notin> part_of tmp ` set gs \<longrightarrow> map_of (rn_fs w') q = map_of (rn_fs w) q"
    "core (rn_d w') = core (rn_d w)" "\<And>ph. ph \<in> set phs \<Longrightarrow> \<not> failed_phase ph"
    using r(3) by (auto simp: parts_inv_def)
  have "map_of (rn_fs w') (part_of tmp (gs ! i)) = Some (seg_bytes body (gs ! i))" if i: "i < length gs" for i
  proof -
    have "phs ! i \<in> set phs" using i inv(1) by simp
    with r(2) inv(5) obtain g where "phs ! i = SegEnd g None"
      by (cases "phs ! i") (force simp: list_all_iff failed_phase_def)+
    with inv(2) [OF i] show ?thesis by simp
  qed
  then show "\<forall>g \<in> set gs. map_of (rn_fs w') (part_of tmp g) = Some (seg_bytes body g)"
    by (metis in_set_conv_nth)
  show "\<forall>q. q \<notin> part_of tmp ` set gs \<longrightarrow> map_of (rn_fs w') q = map_of (rn_fs w) q"
    "core (rn_d w') = core (rn_d w)" by (fact inv)+
qed

section \<open>A server and a download for the witnesses\<close>

definition demo_answer :: http_response where
  "demo_answer =
     \<lparr>hp_StatusCode = 200, hp_Status = ''200 OK'',
      hp_Header = no_headers(''Content-Length'' := [''5''], ''Accept-Ranges'' := [''bytes'']),
      hp_Body = (''hello'', None)\<rparr>"

definition demo_net :: network where
  "demo_net = (\<lambda>k cl r. Inr demo_answer)"

definition demo_runtime :: runtime where
  "demo_runtime =
     \<lparr>ru_lib = basic_lib, ru_fpu = exact_fpu, ru_pow = (\<lambda>x y. 1), ru_home = Inr ''/home/u'',
      ru_digest = (\<lambda>alg c. alg @ c), ru_url = demo_urllib, ru_timeout = 0, ru_fields = (\<lambda>s. []),
      ru_text = (\<lambda>e. [])\<rparr>"

definition demo_readings :: readings where
  "demo_readings =
     \<lparr>rd_done = None, rd_cx = live, rd_ck = demo_clock, rd_io = no_errors, rd_net = demo_net, rd_rand = 0,
      rd_short = None\<rparr>"

definition demo_config :: DownloadConfig where
  "demo_config = zero_DownloadConfig\<lparr>c_MaxConnections := 2, c_AcceptRanges := True\<rparr>"

definition demo_run_download :: Download where
  "demo_run_download =
     zero_Download\<lparr>d_ID := ''a1'', d_Status := StatusRunning,
       d_Request := Some (zero_RequestOptions\<lparr>r_URL := ''http://h/f''\<rparr>), d_Config := Some demo_config,
       d_File := Some (zero_FileOptions\<lparr>f_Path := ''/out'', f_Filename := ''f.iso'', f_TempDir := ''/tmp''\<rparr>)\<rparr>"

definition demo_state :: "mem rstate" where
  "demo_state =
     \<lparr>rn_db = [(kDownload ''a1'', DownloadJ demo_run_download)], rn_pub = NewInMemoryPublisher,
      rn_lim = Some NewLimiter, rn_fs = [], rn_d = demo_run_download, rn_progress = [], rn_errs = []\<rparr>"

lemma demo_origin: "origin demo_net ''hello''"
  by (auto simp: origin_def demo_net_def demo_answer_def serves_range_def)

lemma demo_get_code:
  assumes "GetRange U demo_net timeout req cfg start stop = RangeOk bd md h code"
  shows "code = 200"
  using GetRange_answered [of U demo_net timeout cfg req start stop] assms
  by (auto simp: answered_def demo_net_def demo_answer_def range_ok_def)

lemma demo_run_ready: "run_ready demo_runtime ''/tmp/a1'' demo_run_download"
proof -
  have "tempDir (ru_home demo_runtime) demo_run_download = Inr ''/tmp/a1''" by code_simp
  moreover have "unlimited_size demo_run_download" by code_simp
  moreover have "plain_range (zero_RequestOptions\<lparr>r_URL := ''http://h/f''\<rparr>) (pickCfg demo_run_download)"
    by (simp add: plain_range_def without_key_def pickCfg_def demo_run_download_def demo_config_def
        zero_DownloadConfig_def zero_RequestOptions_def)
  ultimately show ?thesis by (simp add: run_ready_def demo_run_download_def)
qed

end
