(* ===== verification/Runner_Loop.thy ===== *)
theory Runner_Loop
  imports Runner_Laws
begin

text \<open>
  The retry loop of one segment: when it ends, what it does with answers that break off, with a range
  that was not asked for and with statuses that it does not expect, and what a run leaves behind when
  its context is done.
\<close>

section \<open>A round either ends the loop or counts an attempt\<close>

definition advances :: "int \<Rightarrow> seg_run \<Rightarrow> seg_phase \<Rightarrow> bool" where
  "advances limit st ph \<longleftrightarrow>
     seg_ended ph \<or>
     (\<exists>st'. ph = SegTry st' \<and> sr_attempts st' = add64 (sr_attempts st) 1 \<and> sr_attempts st' \<le> limit)"

text \<open>No 206 answer contradicts the range that was asked for.\<close>

definition ranges_match :: "runtime \<Rightarrow> readings \<Rightarrow> bool" where
  "ranges_match ru rd \<longleftrightarrow>
     (\<forall>req cfg start stop bd md h.
        GetRange (ru_url ru) (rd_net rd) (ru_timeout ru) req cfg start stop = RangeOk bd md h 206 \<longrightarrow>
        \<not> range_mismatch ru h start stop)"

lemma retry_advances: "advances limit st (retry limit e delay st)"
  by (simp add: advances_def retry_def Let_def)

lemma advances_slept [simp]: "advances limit (st\<lparr>sr_slept := x\<rparr>) ph = advances limit st ph"
  by (simp add: advances_def)

lemma failed_get_advances:
  assumes "failed_get B ru rd e st w = (ph, w')"
  shows "advances (max_retries (rn_d w)) st ph" "core (rn_d w') = core (rn_d w)"
proof -
  let ?w = "snd (save_copy B ru (rd_cx rd) (skip 3 (rd_ck rd))
    (w\<lparr>rn_d := (rn_d w)\<lparr>d_RetriesAttempted := add64 (sr_attempts st) 1\<rparr>\<rparr>))"
  have c: "core (rn_d ?w) = core (rn_d w)" by (simp add: save_copy_core)
  from core_cong(2) [OF c] assms show "advances (max_retries (rn_d w)) st ph"
    by (auto simp: failed_get_def Let_def advances_def split: if_splits)
  show "core (rn_d w') = core (rn_d w)" using assms c by (auto simp: failed_get_def Let_def split: if_splits)
qed

lemma write_answer_advances:
  assumes "write_answer B ru rd code bd st w = Inr (ph, w')"
  shows "advances (max_retries (rn_d w)) st ph \<and> core (rn_d w') = core (rn_d w)"
proof -
  have fin: "advances limit st ph \<and> core (rn_d w') = core (rn_d w)"
    if "finish_segment B ru rd bytes st (w\<lparr>rn_fs := fs\<rparr>) = (ph, w')" for bytes fs limit
    using finish_segment_facts [OF that] by (auto simp: advances_def)
  have ended: "advances limit st (SegEnd g e)" for limit g e by (simp add: advances_def)
  show ?thesis
    using assms
    by (auto simp: write_answer_def Let_def unless_panic_def retry_advances ended fin
        split: prod.splits sum.splits if_splits)
qed

lemma seg_attempt_advances:
  assumes "seg_attempt B ru rd st w = Inr (ph, w')" "ranges_match ru rd"
  shows "advances (max_retries (rn_d w)) st ph \<and> core (rn_d w') = core (rn_d w)"
proof (cases "rd_done rd")
  case (Some e)
  with assms(1) show ?thesis by (auto simp: seg_attempt_def advances_def)
next
  case None
  obtain waits rl where th: "throttle ru (rd_ck rd) (rn_d w) (safeSpan (s_End (sr_seg st)) (sr_start st)) (rn_lim w) = (waits, rl)"
    using throttle_any by blast
  let ?w = "w\<lparr>rn_lim := rl\<rparr>" and ?st = "st\<lparr>sr_slept := sr_slept st @ waits\<rparr>"
  from None assms(1) obtain req where req: "d_Request (rn_d w) = Some req"
    by (cases "d_Request (rn_d w)") (auto simp: seg_attempt_def Let_def th)
  let ?get = "GetRange (ru_url ru) (rd_net rd) (ru_timeout ru) req (pickCfg (rn_d w)) (sr_start st) (s_End (sr_seg st))"
  show ?thesis
  proof (cases ?get)
    case (RangeFail n e)
    with assms(1) None req have "failed_get B ru rd e ?st ?w = (ph, w')" by (simp add: seg_attempt_def Let_def th)
    from failed_get_advances [OF this] show ?thesis by simp
  next
    case (RangeOk bd md h code)
    show ?thesis
    proof (cases "code \<noteq> 200 \<and> code \<noteq> 206")
      case True
      with assms(1) None req RangeOk have "failed_get B ru rd None ?st ?w = (ph, w')"
        by (simp add: seg_attempt_def Let_def th)
      from failed_get_advances [OF this] show ?thesis by simp
    next
      case False
      moreover have "\<not> (code = 206 \<and> range_mismatch ru h (sr_start st) (s_End (sr_seg st)))"
        using RangeOk assms(2) unfolding ranges_match_def by blast
      ultimately have "write_answer B ru rd code bd ?st ?w = Inr (ph, w')"
        using assms(1) None req RangeOk by (auto simp: seg_attempt_def Let_def th)
      from write_answer_advances [OF this] show ?thesis by simp
    qed
  qed
qed

lemma write_answer_panic:
  assumes "write_answer B ru rd code bd st w = Inl e" shows "is_panic e"
  using assms
  by (auto simp: write_answer_def Let_def unless_panic_def split: prod.splits sum.splits if_splits)

lemma seg_attempt_panic:
  assumes "seg_attempt B ru rd st w = Inl e" shows "is_panic e"
proof -
  obtain waits rl where th: "throttle ru (rd_ck rd) (rn_d w) (safeSpan (s_End (sr_seg st)) (sr_start st)) (rn_lim w) = (waits, rl)"
    using throttle_any by blast
  show ?thesis
    using assms
    by (auto simp: seg_attempt_def Let_def th dest: write_answer_panic
        split: option.splits if_splits range_result.splits)
qed

lemma seg_step_panic:
  assumes "seg_step B ru rd ph w = Inl e" shows "is_panic e"
  using assms
proof (cases ph)
  case (SegNew g)
  obtain r fs where "OpenSegmentWriter (rd_io rd) (ru_home ru) (rn_d w) g (rn_fs w) = (r, fs)"
    by (cases "OpenSegmentWriter (rd_io rd) (ru_home ru) (rn_d w) g (rn_fs w)")
  with SegNew assms show ?thesis
    by (cases r) (auto simp: seg_step_def unless_panic_def split: if_splits)
qed (use assms seg_attempt_panic in \<open>auto simp: seg_step_def\<close>)

lemma downloadSegment_ended: "downloadSegment B ru rds (SegEnd g e) w = Inr (SegEnd g e, w)"
  by (induction rds) (simp_all add: seg_step_def)

lemma attempts_end:
  assumes "\<forall>rd \<in> set rds. ranges_match ru rd" "max_retries (rn_d w) = limit" "in64 (limit + 1)"
    "0 \<le> sr_attempts st" "sr_attempts st \<le> limit" "nat (limit - sr_attempts st) < length rds"
  shows "case downloadSegment B ru rds (SegTry st) w of Inl e \<Rightarrow> is_panic e | Inr (ph, w') \<Rightarrow> seg_ended ph"
  using assms
proof (induction rds arbitrary: st w)
  case (Cons rd rds)
  show ?case
  proof (cases "seg_step B ru rd (SegTry st) w")
    case (Inl e)
    with seg_step_panic [OF Inl] show ?thesis by simp
  next
    case (Inr r)
    obtain ph w1 where r: "r = (ph, w1)" by (cases r)
    with Inr have "seg_attempt B ru rd st w = Inr (ph, w1)" by (simp add: seg_step_def)
    from seg_attempt_advances [OF this] Cons.prems(1,2)
    have adv: "advances limit st ph" "core (rn_d w1) = core (rn_d w)" by simp_all
    have limit: "max_retries (rn_d w1) = limit" using core_cong(2) [OF adv(2)] Cons.prems(2) by (rule trans)
    show ?thesis
    proof (cases ph)
      case (SegEnd g e)
      with Inr r show ?thesis by (simp add: downloadSegment_ended)
    next
      case (SegTry st')
      have "in64 (sr_attempts st + 1)" using Cons.prems(3-5) by (simp add: in64_def)
      with adv(1) SegTry have st': "sr_attempts st' = sr_attempts st + 1" "sr_attempts st' \<le> limit"
        by (auto simp: advances_def add64_id)
      from Cons.IH [OF _ limit Cons.prems(3), of st'] st' Cons.prems(1,4,6) SegTry Inr r
      show ?thesis by simp
    next
      case (SegNew g)
      with adv(1) show ?thesis by (simp add: advances_def)
    qed
  qed
qed simp

section \<open>Properties\<close>

text \<open>
  C6.  The goroutine of a segment ends: when no server answers with a range that was not asked for, it
  returns after at most two rounds more than the number of retries, whatever the servers, the
  operating system and the database do.
\<close>

theorem segment_ends:
  assumes "\<forall>rd \<in> set rds. ranges_match ru rd" "in64 (max_retries (rn_d w) + 1)"
    and "nat (max_retries (rn_d w)) + 2 \<le> length rds"
  shows "case downloadSegment B ru rds (SegNew g) w of Inl e \<Rightarrow> is_panic e | Inr (ph, w') \<Rightarrow> seg_ended ph"
proof (cases rds)
  case (Cons rd rs)
  show ?thesis
  proof (cases "seg_step B ru rd (SegNew g) w")
    case (Inl e)
    with Cons seg_step_panic [OF Inl] show ?thesis by simp
  next
    case (Inr r)
    obtain ph w1 where r: "r = (ph, w1)" by (cases r)
    have w1: "rn_d w1 = rn_d w" and ph: "seg_ended ph \<or> (\<exists>st. ph = SegTry st \<and> sr_attempts st = 0)"
      using Inr r by (auto simp: seg_step_def unless_panic_def split: prod.splits sum.splits if_splits)
    have pos: "0 \<le> max_retries (rn_d w)" by (simp add: max_retries_def split: option.splits)
    show ?thesis
    proof (cases ph)
      case (SegEnd g e)
      with Inr r Cons show ?thesis by (simp add: downloadSegment_ended)
    next
      case (SegTry st)
      with ph have "sr_attempts st = 0" by simp
      with attempts_end [of rs ru w1 "max_retries (rn_d w)" st B] assms Cons w1 pos Inr r SegTry
      show ?thesis by simp
    qed (use ph in simp)
  qed
qed (use assms in simp)

theorem segment_ends_witness:
  "case downloadSegment mem_badger demo_runtime (replicate 5 demo_readings) (SegNew zero_Segment) demo_state of
     Inl e \<Rightarrow> is_panic e | Inr (ph, w') \<Rightarrow> seg_ended ph"
proof (rule segment_ends)
  show "\<forall>rd \<in> set (replicate 5 demo_readings). ranges_match demo_runtime rd"
    using demo_get_code by (fastforce simp: ranges_match_def demo_readings_def)
  have "max_retries (rn_d demo_state) = 3"
    by (simp add: max_retries_def demo_state_def demo_run_download_def demo_config_def
        zero_DownloadConfig_def zero_RetryPolicy_def)
  then show "in64 (max_retries (rn_d demo_state) + 1)"
    "nat (max_retries (rn_d demo_state)) + 2 \<le> length (replicate 5 demo_readings)"
    by (simp_all add: in64_def)
qed

section \<open>One round, given the answer\<close>

definition round_get ::
    "runtime \<Rightarrow> readings \<Rightarrow> seg_run \<Rightarrow> Download \<Rightarrow> range_result option" where
  "round_get ru rd st d =
     (case d_Request d of None \<Rightarrow> None
      | Some req \<Rightarrow> Some (GetRange (ru_url ru) (rd_net rd) (ru_timeout ru) req (pickCfg d)
          (sr_start st) (s_End (sr_seg st))))"

lemma round_get_core:
  assumes "core d = core d'" shows "round_get ru rd st d = round_get ru rd st d'"
  unfolding round_get_def core_cong [OF assms] coreD [OF assms] by (rule refl)

lemma round_get_cong:
  assumes "sr_start st' = sr_start st" "sr_seg st' = sr_seg st"
  shows "round_get ru rd st' d = round_get ru rd st d"
  unfolding round_get_def assms by (rule refl)

lemma round_get_slept [simp]:
  "round_get ru rd (st\<lparr>sr_slept := x\<rparr>) d = round_get ru rd st d"
  "round_get ru rd (st\<lparr>sr_attempts := a\<rparr>) d = round_get ru rd st d"
  by (rule round_get_cong; simp)+

text \<open>What the reservations change is left open: the limiter and the time slept.\<close>

lemma seg_attempt_round:
  assumes "rd_done rd = None" "round_get ru rd st (rn_d w) = Some (RangeOk bd md h code)"
  shows "\<exists>rl waits. seg_attempt B ru rd st w =
    (let w = w\<lparr>rn_lim := rl\<rparr>; st = st\<lparr>sr_slept := sr_slept st @ waits\<rparr>
     in if code \<noteq> 200 \<and> code \<noteq> 206 then Inr (failed_get B ru rd None st w)
        else if code = 206 \<and> range_mismatch ru h (sr_start st) (s_End (sr_seg st))
        then Inr (SegTry (st\<lparr>sr_attempts := add64 (sr_attempts st) 1,
               sr_slept := sr_slept st @ [time_Second]\<rparr>), w)
        else write_answer B ru rd code bd st w)"
proof -
  obtain waits rl where th: "throttle ru (rd_ck rd) (rn_d w) (safeSpan (s_End (sr_seg st)) (sr_start st)) (rn_lim w) = (waits, rl)"
    using throttle_any by blast
  obtain req where "d_Request (rn_d w) = Some req"
    using assms(2) by (auto simp: round_get_def split: option.splits)
  with assms th show ?thesis
    by (intro exI [of _ rl] exI [of _ waits]) (simp add: seg_attempt_def round_get_def Let_def)
qed

section \<open>Another range\<close>

text \<open>
  A server that keeps answering 206 with a range that does not begin where the segment does keeps
  the goroutine in its loop: after any number of rounds it has neither returned nor written a byte,
  because this branch counts the attempt but never compares the count with the limit.
\<close>

lemma mismatch_retries_forever:
  assumes "\<forall>rd \<in> set rds. rd_done rd = None \<and> (\<exists>bd md h.
      round_get ru rd st (rn_d w) = Some (RangeOk bd md h 206) \<and>
      range_mismatch ru h (sr_start st) (s_End (sr_seg st)))"
  shows "\<exists>st' w'. downloadSegment B ru rds (SegTry st) w = Inr (SegTry st', w') \<and>
    rn_fs w' = rn_fs w \<and> sr_seg st' = sr_seg st"
  using assms
proof (induction rds arbitrary: st w)
  case (Cons rd rds)
  then obtain bd md h where rd: "rd_done rd = None" "round_get ru rd st (rn_d w) = Some (RangeOk bd md h 206)"
    "range_mismatch ru h (sr_start st) (s_End (sr_seg st))" by auto
  from seg_attempt_round [OF rd(1,2), of B] rd(3) obtain rl waits where step: "seg_step B ru rd (SegTry st) w =
      Inr (SegTry (st\<lparr>sr_attempts := add64 (sr_attempts st) 1, sr_slept := sr_slept st @ waits @ [time_Second]\<rparr>),
        w\<lparr>rn_lim := rl\<rparr>)"
    by (auto simp: seg_step_def Let_def)
  let ?st = "st\<lparr>sr_attempts := add64 (sr_attempts st) 1, sr_slept := sr_slept st @ waits @ [time_Second]\<rparr>"
  have "\<forall>rd \<in> set rds. rd_done rd = None \<and> (\<exists>bd md h.
      round_get ru rd ?st (rn_d (w\<lparr>rn_lim := rl\<rparr>)) = Some (RangeOk bd md h 206) \<and>
      range_mismatch ru h (sr_start ?st) (s_End (sr_seg ?st)))"
    using Cons.prems by simp
  from Cons.IH [OF this] step show ?case by auto
qed simp

definition demo_shifted :: readings where
  "demo_shifted = demo_readings\<lparr>rd_net := (\<lambda>k cl r. Inr (demo_answer\<lparr>hp_StatusCode := 206,
     hp_Header := no_headers(''Content-Range'' := [''bytes 7-9/10''])\<rparr>))\<rparr>"

definition demo_try :: seg_run where
  "demo_try = \<lparr>sr_seg = zero_Segment\<lparr>s_Start := 0, s_End := 4\<rparr>, sr_start = 0, sr_existing = 0, sr_attempts = 0,
     sr_slept = []\<rparr>"

lemma mismatch_retries_forever_witness:
  "\<exists>st' w'. downloadSegment mem_badger demo_runtime (replicate 1000 demo_shifted) (SegTry demo_try) demo_state =
     Inr (SegTry st', w') \<and> rn_fs w' = []"
proof -
  let ?h = "no_headers(''Content-Range'' := [''bytes 7-9/10''])"
  have "round_get demo_runtime demo_shifted demo_try (rn_d demo_state) =
      Some (RangeOk (''hello'', None) (parseMeta ?h) ?h 206)"
    by (simp add: round_get_def demo_shifted_def demo_state_def demo_run_download_def GetRange_def withMirrors_def
        demo_readings_def demo_runtime_def new_request_def demo_urllib_def Let_def addQuery_def zero_RequestOptions_def
        demo_answer_def)
  moreover have "range_mismatch demo_runtime ?h (sr_start demo_try) (s_End (sr_seg demo_try))"
    by code_simp
  ultimately have "\<forall>rd \<in> set (replicate 1000 demo_shifted). rd_done rd = None \<and> (\<exists>bd md h.
      round_get demo_runtime rd demo_try (rn_d demo_state) = Some (RangeOk bd md h 206) \<and>
      range_mismatch demo_runtime h (sr_start demo_try) (s_End (sr_seg demo_try)))"
    by (auto simp: demo_shifted_def demo_readings_def)
  from mismatch_retries_forever [OF this, of mem_badger] obtain st' w' where
    "downloadSegment mem_badger demo_runtime (replicate 1000 demo_shifted) (SegTry demo_try) demo_state =
       Inr (SegTry st', w')" "rn_fs w' = rn_fs demo_state" by blast
  then show ?thesis by (auto simp: demo_state_def)
qed

section \<open>An answer that breaks off\<close>

text \<open>
  When an answer breaks off after some bytes, the bytes stay in the part but the next round asks
  for the same range again and appends all of it; since only the bytes of that round are counted, the
  goroutine reports the segment as complete although its part holds the first bytes twice.
\<close>

lemma broken_answer_duplicates:
  assumes "run_ready ru tmp (rn_d w)" "map_of (rn_fs w) (part_of tmp (sr_seg st)) = Some old"
    and "rd_done rd1 = None" "rd_io rd1 = no_errors" "rd_short rd1 = None"
    and "round_get ru rd1 st (rn_d w) = Some (RangeOk (pre, Some e) md1 h1 206)" "e \<noteq> ErrEOF"
    and "\<not> range_mismatch ru h1 (sr_start st) (s_End (sr_seg st))"
    and "rd_done rd2 = None" "rd_io rd2 = no_errors" "rd_short rd2 = None"
    and "round_get ru rd2 st (rn_d w) = Some (RangeOk (full, None) md2 h2 206)"
    and "\<not> range_mismatch ru h2 (sr_start st) (s_End (sr_seg st))"
    and "add64 (sr_attempts st) 1 \<le> max_retries (rn_d w)"
    and "add64 (sr_existing st) (int (length full)) = add64 (sub64 (s_End (sr_seg st)) (s_Start (sr_seg st))) 1"
  shows "\<exists>g w'. downloadSegment B ru [rd1, rd2] (SegTry st) w = Inr (SegEnd g None, w') \<and>
    s_Status g = SegmentCompleted \<and>
    map_of (rn_fs w') (part_of tmp (sr_seg st)) = Some (old @ pre @ full)"
proof -
  let ?g = "sr_seg st"
  have tmp: "tempDir (ru_home ru) (rn_d w) = Inr tmp" and size: "unlimited_size (rn_d w)"
    using assms(1) by (simp_all add: run_ready_def)
  have open_part: "\<exists>fs'. OpenSegmentWriter no_errors (ru_home ru) (rn_d w) ?g fs = (Inr (part_of tmp ?g, n), fs') \<and>
      map_of fs' (part_of tmp ?g) = Some c" if "map_of fs (part_of tmp ?g) = Some c" "n = int (length c)" for fs c n
  proof -
    have "Join [tmp, part_name (s_Index ?g)] = part_of tmp ?g"
      unfolding part_of_def by (rule Join_part [OF tempDir_clean [OF tmp] part_name_plain])
    with tmp that show ?thesis
      by (auto simp: OpenSegmentWriter_def Let_def fs_exists_map fs_content_def)
  qed
  from open_part [OF assms(2)] obtain fs1 where o1:
    "OpenSegmentWriter no_errors (ru_home ru) (rn_d w) ?g (rn_fs w) = (Inr (part_of tmp ?g, int (length old)), fs1)"
    "map_of fs1 (part_of tmp ?g) = Some old" by auto
  let ?fs1 = "append_part (part_of tmp ?g) pre fs1"
  have c1: "map_of ?fs1 (part_of tmp ?g) = Some (old @ pre)"
    using o1(2) by (simp add: map_of_append_part fs_content_def)
  from seg_attempt_round [OF assms(3,6), of B] assms(8) obtain rl1 waits1 where
    a1: "seg_attempt B ru rd1 st w =
      write_answer B ru rd1 206 (pre, Some e) (st\<lparr>sr_slept := sr_slept st @ waits1\<rparr>) (w\<lparr>rn_lim := rl1\<rparr>)"
    by (auto simp: Let_def)
  obtain st1 where st1: "seg_step B ru rd1 (SegTry st) w = Inr (SegTry st1, w\<lparr>rn_lim := rl1, rn_fs := ?fs1\<rparr>)"
    "sr_seg st1 = ?g" "sr_start st1 = sr_start st" "sr_existing st1 = sr_existing st"
    using o1(1) assms(4,5,7,14)
    by (auto simp: seg_step_def a1 write_answer_def Let_def range_reader_def size_reader_unlimited [OF size]
        copied_def retry_def)
  let ?w1 = "w\<lparr>rn_lim := rl1, rn_fs := ?fs1\<rparr>"
  from open_part [OF c1] obtain fs2 where o2:
    "OpenSegmentWriter no_errors (ru_home ru) (rn_d w) ?g ?fs1 = (Inr (part_of tmp ?g, int (length (old @ pre))), fs2)"
    "map_of fs2 (part_of tmp ?g) = Some (old @ pre)" by auto
  have g2: "round_get ru rd2 st1 (rn_d ?w1) = Some (RangeOk (full, None) md2 h2 206)"
    using assms(12) round_get_cong [OF st1(3,2)] by simp
  from seg_attempt_round [OF assms(9) g2, of B] assms(13) st1(2,3) obtain rl2 waits2 where
    a2: "seg_attempt B ru rd2 st1 ?w1 =
      write_answer B ru rd2 206 (full, None) (st1\<lparr>sr_slept := sr_slept st1 @ waits2\<rparr>) (?w1\<lparr>rn_lim := rl2\<rparr>)"
    by (auto simp: Let_def)
  obtain g w' where fin: "finish_segment B ru rd2 full (st1\<lparr>sr_slept := sr_slept st1 @ waits2\<rparr>)
      (?w1\<lparr>rn_lim := rl2, rn_fs := append_part (part_of tmp ?g) full fs2\<rparr>) = (SegEnd g None, w')"
    by (metis finish_segment_facts(1) surj_pair)
  have "seg_step B ru rd2 (SegTry st1) ?w1 = Inr (SegEnd g None, w')"
    using o2(1) assms(10,11,15) st1(2-4) fin
    by (simp add: seg_step_def a2 write_answer_def Let_def range_reader_def size_reader_unlimited [OF size] copied_def)
  moreover have "s_Status g = SegmentCompleted" using fin by (auto simp: finish_segment_def Let_def split: prod.splits)
  moreover have "map_of (rn_fs w') (part_of tmp ?g) = Some (old @ pre @ full)"
    using finish_segment_facts(2) [OF fin] o2(2) by (simp add: map_of_append_part fs_content_def)
  ultimately show ?thesis using st1(1) by auto
qed

definition demo_partial :: "body \<Rightarrow> readings" where
  "demo_partial bd = demo_readings\<lparr>rd_net := (\<lambda>k cl r. Inr \<lparr>hp_StatusCode = 206, hp_Status = [],
     hp_Header = no_headers, hp_Body = bd\<rparr>)\<rparr>"

lemma demo_partial_get:
  "round_get demo_runtime (demo_partial bd) demo_try demo_run_download =
     Some (RangeOk bd (parseMeta no_headers) no_headers 206)"
  by (simp add: round_get_def demo_partial_def demo_run_download_def GetRange_def withMirrors_def
      demo_readings_def demo_runtime_def new_request_def demo_urllib_def Let_def addQuery_def zero_RequestOptions_def)

lemma broken_answer_duplicates_witness:
  "\<exists>g w'. downloadSegment mem_badger demo_runtime
       [demo_partial (''he'', Some ErrUnexpectedEOF), demo_partial (''hello'', None)] (SegTry demo_try)
       (demo_state\<lparr>rn_fs := [(part_of ''/tmp/a1'' (sr_seg demo_try), [])]\<rparr>) = (Inr (SegEnd g None, w')) \<and>
     map_of (rn_fs w') (part_of ''/tmp/a1'' (sr_seg demo_try)) = Some ''hehello''"
proof -
  let ?w = "demo_state\<lparr>rn_fs := [(part_of ''/tmp/a1'' (sr_seg demo_try), [])]\<rparr>"
  have d: "rn_d ?w = demo_run_download" by (simp add: demo_state_def)
  have nm: "\<not> range_mismatch demo_runtime no_headers (sr_start demo_try) (s_End (sr_seg demo_try))" by code_simp
  have arith: "add64 (sr_attempts demo_try) 1 \<le> max_retries demo_run_download"
    "add64 (sr_existing demo_try) (int (length ''hello'')) =
       add64 (sub64 (s_End (sr_seg demo_try)) (s_Start (sr_seg demo_try))) 1" by code_simp+
  show ?thesis
    using broken_answer_duplicates [of demo_runtime "''/tmp/a1''" ?w demo_try "[]"
        "demo_partial (''he'', Some ErrUnexpectedEOF)" "''he''" ErrUnexpectedEOF _ no_headers
        "demo_partial (''hello'', None)" "''hello''" _ no_headers mem_badger]
      demo_run_ready demo_partial_get nm arith d
    by (auto simp: demo_partial_def demo_readings_def)
qed

section \<open>Unexpected statuses, cancelled runs and concurrent changes\<close>

text \<open>
  A server that answers with a status below 400 other than 200 and 206 makes the goroutine return
  without an error after its retries, so the run goes on to the merge although nothing was written.
\<close>

lemma odd_status_succeeds:
  assumes "\<forall>rd \<in> set rds. rd_done rd = None \<and>
      (\<exists>bd md h code. code \<noteq> 200 \<and> code \<noteq> 206 \<and> round_get ru rd st (rn_d w) = Some (RangeOk bd md h code))"
    and "0 \<le> sr_attempts st" "in64 (max_retries (rn_d w) + 1)" "sr_attempts st \<le> max_retries (rn_d w)"
    and "length rds = nat (max_retries (rn_d w) - sr_attempts st) + 1"
  shows "\<exists>w'. downloadSegment B ru rds (SegTry st) w = Inr (SegEnd (sr_seg st) None, w') \<and> rn_fs w' = rn_fs w"
  using assms
proof (induction rds arbitrary: st w)
  case (Cons rd rds)
  then obtain bd md h code where rd: "rd_done rd = None" "code \<noteq> 200" "code \<noteq> 206"
    "round_get ru rd st (rn_d w) = Some (RangeOk bd md h code)" by auto
  from seg_attempt_round [OF rd(1,4), of B] rd(2,3) obtain rl waits where step:
    "seg_step B ru rd (SegTry st) w =
       Inr (failed_get B ru rd None (st\<lparr>sr_slept := sr_slept st @ waits\<rparr>) (w\<lparr>rn_lim := rl\<rparr>))"
    by (auto simp: seg_step_def Let_def)
  obtain ph w1 where f: "failed_get B ru rd None (st\<lparr>sr_slept := sr_slept st @ waits\<rparr>) (w\<lparr>rn_lim := rl\<rparr>) = (ph, w1)"
    by (metis surj_pair)
  have core: "core (rn_d w1) = core (rn_d w)" and fs: "rn_fs w1 = rn_fs w"
    using failed_get_advances(2) [OF f] f by (auto simp: failed_get_def Let_def split: if_splits)
  have max: "max_retries (rn_d w1) = max_retries (rn_d w)" by (rule core_cong(2) [OF core])
  have att: "add64 (sr_attempts st) 1 = sr_attempts st + 1"
    using Cons.prems(2-4) by (intro add64_id) (simp add: in64_def)
  show ?case
  proof (cases "sr_attempts st = max_retries (rn_d w)")
    case True
    with Cons.prems(5) have "rds = []" by simp
    moreover have "ph = SegEnd (sr_seg st) None"
      using f True att max by (auto simp: failed_get_def Let_def split: if_splits)
    ultimately show ?thesis using step f fs by simp
  next
    case False
    then have lt: "sr_attempts st + 1 \<le> max_retries (rn_d w)" using Cons.prems(4) by simp
    obtain st1 where st1: "ph = SegTry st1" "sr_attempts st1 = sr_attempts st + 1" "sr_seg st1 = sr_seg st"
      "sr_start st1 = sr_start st"
      using f lt att max by (auto simp: failed_get_def Let_def split: if_splits)
    have "\<forall>rd \<in> set rds. rd_done rd = None \<and> (\<exists>bd md h code. code \<noteq> 200 \<and> code \<noteq> 206 \<and>
        round_get ru rd st1 (rn_d w1) = Some (RangeOk bd md h code))"
      using Cons.prems(1) unfolding round_get_cong [OF st1(4,3)] round_get_core [OF core] by simp
    from Cons.IH [OF this] st1 lt max Cons.prems(2,3,5) fs step f show ?thesis by auto
  qed
qed simp

text \<open>
  After a pause the context of the run is done: the run ends with an error and publishes that the
  download has failed, but its last update does not reach the database, where the row says paused.
\<close>

lemma cancelled_run_reports_failure:
  assumes "\<not> is_panic e" "rd_cx (sd_fail sd) 0 = Some c" "publisher_ok (rn_pub w)"
  shows "\<exists>w'. run_failed B ru sd e w = Inr w' \<and> rn_db w' = rn_db w \<and>
    d_Status (rn_d w') = StatusFailed \<and>
    Publish (rn_pub w) \<lparr>ev_Type = EventFailed, ev_Download = rn_d w', ev_Timestamp = rd_ck (sd_fail sd) 1,
      ev_Data = ErrorData e\<rparr> = Inr (rn_pub w')"
proof -
  let ?d = "(rn_d w)\<lparr>d_Status := StatusFailed, d_Error := err_text ru e, d_UpdatedAt := rd_ck (sd_fail sd) 0\<rparr>"
  have "save_copy B ru (rd_cx (sd_fail sd)) ck (w\<lparr>rn_d := ?d\<rparr>) = (Inl c, w\<lparr>rn_d := ?d\<rparr>)" for ck
    using assms(2) by (simp add: save_copy_def UpdateDownload_def repo_update_def)
  with bus.pub_returns [OF assms(3), of "\<lparr>ev_Type = EventFailed, ev_Download = ?d,
      ev_Timestamp = rd_ck (sd_fail sd) 1, ev_Data = ErrorData e\<rparr>"] assms(1) show ?thesis
    by (auto simp: run_failed_def run_fail_def run_publish_def Let_def)
qed

text \<open>
  Progress is saved from the copy that the run read at its start: whatever other calls have changed in
  the row since then is overwritten.
\<close>

lemma progress_overwrites:
  assumes "badger_laws B" "badger_quiet B" "repo_ok (ru_lib ru) (bdata B (rn_db w))" "alive 3 cx"
    and "stored (bdata B (rn_db w)) (d_ID (rn_d w)) = Some old" "rn_progress w = n # ns" "publisher_ok (rn_pub w)"
  shows "\<exists>w' d. monitor_step B ru cx ck w = Inr w' \<and>
    stored (bdata B (rn_db w')) (d_ID (rn_d w)) = Some d \<and>
    d_Tags d = d_Tags (rn_d w) \<and> d_Priority d = d_Priority (rn_d w) \<and> d_Config d = d_Config (rn_d w) \<and>
    d_QueueID d = d_QueueID (rn_d w) \<and> d_Status d = d_Status (rn_d w)"
proof -
  define d0 where "d0 = (rn_d w)\<lparr>d_BytesCompleted := add64 (d_BytesCompleted (rn_d w)) n\<rparr>"
  define d1 where "d1 = (if 0 < d_BytesTotal d0
    then d0\<lparr>d_Progress := fp_round (ru_fpu ru) (fp_round (ru_fpu ru) (of_int (d_BytesCompleted d0)) /
           fp_round (ru_fpu ru) (of_int (d_BytesTotal d0)))\<rparr> else d0)"
  let ?d = "d1\<lparr>d_UpdatedAt := ck 0\<rparr>"
  have same: "d_ID ?d = d_ID (rn_d w)" "d_Tags ?d = d_Tags (rn_d w)" "d_Priority ?d = d_Priority (rn_d w)"
    "d_Config ?d = d_Config (rn_d w)" "d_QueueID ?d = d_QueueID (rn_d w)" "d_Status ?d = d_Status (rn_d w)"
    by (simp_all add: d1_def d0_def)
  have old: "stored (bdata B (rn_db w)) (d_ID ?d) = Some old" using assms(5) same(1) by simp
  from UpdateDownload_quiet [OF assms(1-3) _ _ _ old, of cx "skip 2 ck"] assms(4) obtain s' where
    s': "UpdateDownload B (ru_lib ru) cx (skip 2 ck) (rn_db w) ?d = (Inr (updated (skip 2 ck) old ?d), s')"
    "bdata B s' = put_store (ru_lib ru) (updated (skip 2 ck) old ?d) (bdata B (rn_db w))"
    by (auto simp: alive_at)
  let ?u = "updated (skip 2 ck) old ?d"
  have "save_copy B ru cx (skip 2 ck) (w\<lparr>rn_d := ?d, rn_progress := ns\<rparr>) =
      (Inr (), w\<lparr>rn_d := ?u, rn_progress := ns, rn_db := s'\<rparr>)"
    using s'(1) by (simp add: save_copy_def)
  moreover have "monitor_step B ru cx ck w = run_publish (ck 1) EventProgress (BytesData n)
      (snd (save_copy B ru cx (skip 2 ck) (w\<lparr>rn_d := ?d, rn_progress := ns\<rparr>)))"
    using assms(6) by (simp add: monitor_step_def d1_def d0_def Let_def)
  moreover obtain p where "Publish (rn_pub w) \<lparr>ev_Type = EventProgress, ev_Download = ?u,
      ev_Timestamp = ck 1, ev_Data = BytesData n\<rparr> = Inr p"
    using bus.pub_returns [OF assms(7)] by blast
  ultimately have m: "monitor_step B ru cx ck w =
      Inr (w\<lparr>rn_d := ?u, rn_progress := ns, rn_db := s', rn_pub := p\<rparr>)"
    by (simp add: run_publish_def)
  have "stored (bdata B s') (d_ID ?u) = Some ?u"
    unfolding s'(2) by simp
  then show ?thesis using m same
    by (intro exI [of _ "w\<lparr>rn_d := ?u, rn_progress := ns, rn_db := s', rn_pub := p\<rparr>"] exI [of _ ?u])
      (simp add: updated_def)
qed

end
