(* ===== verification/Runner_Cut.thy ===== *)
theory Runner_Cut
  imports Runner_Laws
begin

text \<open>
  Runs that are cut off while the segments of a download are fetched (\<open>downloadSegment\<close> and
  \<open>downloadSegments\<close> of \<open>internal/service/runner.go\<close>): answers that break off in mid body, writes that stop
  short, and a context that is done afterwards.  Up to then every part is a beginning of its segment.
\<close>

section \<open>Rounds that break off\<close>

text \<open>
  A round in which the answer breaks off after some bytes, with or without an error, or in which only
  some of the bytes reach the part.
\<close>

definition serves_cut :: "string \<Rightarrow> int \<Rightarrow> int \<Rightarrow> int \<Rightarrow> body \<Rightarrow> string list \<Rightarrow> bool" where
  "serves_cut content start stop code bd cr \<longleftrightarrow>
     (\<exists>whole. serves_range content start stop code whole cr \<and> prefix (fst bd) (fst whole))"

definition origin_cut :: "network \<Rightarrow> string \<Rightarrow> bool" where
  "origin_cut net content \<longleftrightarrow>
     (\<forall>k cl r resp start stop. asked_range (hdr_get (hq_Header r) ''Range'') = Some (start, stop) \<longrightarrow>
        net k cl r = Inr resp \<longrightarrow> hp_StatusCode resp < 400 \<longrightarrow>
        serves_cut content start stop (hp_StatusCode resp) (hp_Body resp) (hp_Header resp ''Content-Range''))"

lemma serves_cut_open: "serves_cut content start (- 1) code bd cr \<Longrightarrow> stop < 0 \<Longrightarrow> serves_cut content start stop code bd cr"
  unfolding serves_cut_def by (blast intro: serves_range_open)

lemma get_cut:
  assumes "plain_range req cfg" "origin_cut net content" "0 \<le> start"
  shows "(\<exists>c e. GetRange U net timeout req cfg start stop = RangeFail c (Some e)) \<or>
    (\<exists>bd md h code. GetRange U net timeout req cfg start stop = RangeOk bd md h code \<and>
       serves_cut content start stop code bd (h ''Content-Range''))"
  using GetRange_asked [OF assms(1,3), of U net timeout stop]
proof (elim disjE exE conjE)
  fix k cl hr r
  assume r: "asked_range (hdr_get (hq_Header hr) ''Range'') = Some (start, if 0 \<le> stop then stop else - 1)"
    "net k cl hr = Inr r" "hp_StatusCode r < 400" "GetRange U net timeout req cfg start stop = range_ok r"
  with assms(2) have "serves_cut content start (if 0 \<le> stop then stop else - 1)
      (hp_StatusCode r) (hp_Body r) (hp_Header r ''Content-Range'')"
    unfolding origin_cut_def by blast
  then have "serves_cut content start stop (hp_StatusCode r) (hp_Body r) (hp_Header r ''Content-Range'')"
    by (cases "0 \<le> stop") (auto intro: serves_cut_open)
  with r(4) show ?thesis by (simp add: range_ok_def)
qed blast

lemma prefix_drop: "prefix p q \<Longrightarrow> prefix (drop n p) (drop n q)"
  by (auto simp: prefix_def)

lemma LimitReader_cut:
  assumes "prefix (fst r) q" "0 \<le> n" shows "prefix (fst (LimitReader n r)) (take (nat n) q)"
proof -
  have "fst (LimitReader n r) = take (nat n) (fst r)" using assms(2) by (auto simp: LimitReader_def)
  with assms(1) show ?thesis by (auto simp: prefix_def)
qed

lemma range_reader_cut:
  assumes "serves_cut body start stop code bd cr" "range_reader code start stop bd = Inr r" "0 \<le> start"
    "start \<le> int (length body)" "stop < 0 \<or> start \<le> stop + 1 \<and> stop < int (length body)" "in64 (int (length body))"
  shows "prefix (fst r) (range_bytes body start stop)"
proof (cases "code = 200")
  case True
  with assms(1) have pre: "prefix (fst bd) body" by (auto simp: serves_cut_def serves_range_def)
  have span: "add64 (sub64 stop start) 1 = stop - start + 1" if "0 \<le> stop"
  proof -
    have "in64 (stop - start)" "in64 (stop - start + 1)" using assms(3-6) that by (auto simp: in64_def)
    then show ?thesis by (simp add: sub64_id add64_id)
  qed
  from True assms(2) obtain e where
    "r = (if 0 \<le> stop then let span = add64 (sub64 stop start) 1
       in LimitReader (if span < 0 then 0 else span) (drop (nat start) (fst bd), e) else (drop (nat start) (fst bd), e))"
    using assms(3) by (cases bd) (auto simp: range_reader_def Let_def bindE_eq_Inr split: if_splits)
  moreover have "prefix (fst (drop (nat start) (fst bd), e)) (drop (nat start) body)"
    using prefix_drop [OF pre] by simp
  moreover have "0 \<le> stop \<longrightarrow> 0 \<le> stop - start + 1" using assms(5) by auto
  ultimately show ?thesis
    using span LimitReader_cut [of "(drop (nat start) (fst bd), e)" "drop (nat start) body" "stop - start + 1"]
    by (auto simp: range_bytes_def Let_def)
next
  case False
  with assms(1,2) show ?thesis by (auto simp: serves_cut_def serves_range_def range_reader_def)
qed

lemma copied_cut: "prefix (fst (copied short r)) (fst r)"
  by (auto simp: copied_def take_is_prefix split: option.splits prod.splits)

lemma finish_segment_frame:
  "finish_segment B ru rd bytes st w = (ph, w') \<Longrightarrow> rn_fs w' = rn_fs w \<and> core (rn_d w') = core (rn_d w)"
  using finish_segment_facts(2,3) by blast

text \<open>Whatever reaches the part in such a round, the part is still a beginning of its segment.\<close>

lemma write_answer_cut:
  assumes inv: "seg_inv body tmp (rn_fs w) g (SegTry st)" and ready: "run_ready ru tmp (rn_d w)"
    and g: "seg_inside body g" "in64 (int (length body))"
    and served: "serves_cut body (sr_start st) (s_End g) code bd cr"
    and step: "write_answer B ru rd code bd st w = Inr (ph, w')"
  shows "prefix (fs_content (rn_fs w') (part_of tmp g)) (seg_bytes body g) \<and>
    (\<forall>q. q \<noteq> part_of tmp g \<longrightarrow> map_of (rn_fs w') q = map_of (rn_fs w) q) \<and> core (rn_d w') = core (rn_d w)"
proof -
  from inv obtain p where p: "sr_seg st = g" "map_of (rn_fs w) (part_of tmp g) = Some p"
    "prefix p (seg_bytes body g)" "sr_start st = s_Start g + int (length p)"
    by (auto simp: seg_inv_def)
  have tmp: "tempDir (ru_home ru) (rn_d w) = Inr tmp" and size: "unlimited_size (rn_d w)"
    using ready by (simp_all add: run_ready_def)
  obtain r fs' where o: "OpenSegmentWriter (rd_io rd) (ru_home ru) (rn_d w) g (rn_fs w) = (r, fs')"
    by (cases "OpenSegmentWriter (rd_io rd) (ru_home ru) (rn_d w) g (rn_fs w)") simp
  note part = Open_part [OF tmp o]
  have kept: "prefix (fs_content fs' (part_of tmp g)) (seg_bytes body g)"
    using part(2) seg_inv_prefix [OF inv] by simp
  show ?thesis
  proof (cases r)
    case (Inl e)
    with step o p(1) part(1) kept show ?thesis
      by (auto simp: write_answer_def Let_def unless_panic_def split: if_splits)
  next
    case (Inr qn)
    obtain q n where qn: "qn = (q, n)" by (cases qn)
    have q: "q = part_of tmp g" using part(3) [of q n] Inr qn by simp
    have bounds: "0 \<le> sr_start st" "sr_start st \<le> int (length body)"
      "s_End g < 0 \<or> sr_start st \<le> s_End g + 1 \<and> s_End g < int (length body)"
      using g(1) seg_bytes_length [OF g(1)] prefix_length_le [OF p(3)] by (auto simp: p(4) seg_inside_def)
    show ?thesis
    proof (cases "range_reader code (sr_start st) (s_End g) bd")
      case (Inl e)
      with step o Inr qn p(1) part(1) kept show ?thesis by (auto simp: write_answer_def Let_def)
    next
      case (Inr rdr)
      obtain bytes err where c: "copied (rd_short rd) rdr = (bytes, err)" by fastforce
      with copied_cut [of "rd_short rd" rdr] range_reader_cut [OF served Inr bounds g(2)]
      have "prefix bytes (range_bytes body (sr_start st) (s_End g))" by (metis fst_conv prefix_order.trans)
      then have "prefix (p @ bytes) (p @ range_bytes body (sr_start st) (s_End g))" by simp
      then have pre: "prefix (p @ bytes) (seg_bytes body g)"
        unfolding p(4) seg_bytes_resume [OF g(1) p(3)] .
      let ?w = "w\<lparr>rn_fs := append_part q bytes fs'\<rparr>"
      have "rn_fs w' = rn_fs ?w \<and> core (rn_d w') = core (rn_d w)"
        using step o \<open>r = Inr qn\<close> qn Inr c p(1)
        by (auto simp: write_answer_def Let_def size_reader_unlimited [OF size] split: if_splits
            dest!: finish_segment_frame)
      moreover have "fs_content fs' q = p" using part(2) p(2) q by (simp add: fs_content_def)
      ultimately show ?thesis using pre part(1) q by (auto simp: map_of_append_part fs_content_def)
    qed
  qed
qed

lemma seg_step_cut:
  assumes inv: "seg_inv body tmp (rn_fs w) g ph" and ready: "run_ready ru tmp (rn_d w)"
    and g: "seg_inside body g" "in64 (int (length body))"
    and rd: "origin_cut (rd_net rd) body"
    and step: "seg_step B ru rd ph w = Inr (ph', w')"
  shows "prefix (fs_content (rn_fs w') (part_of tmp g)) (seg_bytes body g) \<and>
    (\<forall>q. q \<noteq> part_of tmp g \<longrightarrow> map_of (rn_fs w') q = map_of (rn_fs w) q) \<and> core (rn_d w') = core (rn_d w)"
proof (cases ph)
  case (SegEnd g' e)
  with step seg_inv_prefix [OF inv] show ?thesis by (simp add: seg_step_def)
next
  case (SegNew g')
  let ?rd = "rd\<lparr>rd_short := None, rd_net := (\<lambda>k cl r. Inl ErrCanceled)\<rparr>"
  have "seg_step B ru ?rd ph w = Inr (ph', w')" using step SegNew by (simp add: seg_step_def)
  from seg_step_facts [OF inv ready g _ _ this] seg_inv_prefix show ?thesis by (auto simp: origin_def)
next
  case (SegTry st)
  have st: "sr_seg st = g" using inv SegTry by (simp add: seg_inv_def)
  obtain req where req: "d_Request (rn_d w) = Some req" "plain_range req (pickCfg (rn_d w))"
    using ready by (auto simp: run_ready_def)
  have start: "0 \<le> sr_start st" using inv SegTry g(1) by (auto simp: seg_inv_def seg_inside_def)
  obtain waits rl where th: "throttle ru (rd_ck rd) (rn_d w) (safeSpan (s_End g) (sr_start st)) (rn_lim w) = (waits, rl)"
    using throttle_any by blast
  let ?w = "w\<lparr>rn_lim := rl\<rparr>" and ?st = "st\<lparr>sr_slept := sr_slept st @ waits\<rparr>"
  let ?get = "GetRange (ru_url ru) (rd_net rd) (ru_timeout ru) req (pickCfg (rn_d w)) (sr_start st) (s_End g)"
  have inv': "seg_inv body tmp (rn_fs ?w) g (SegTry ?st)" using inv SegTry by simp
  note pre = seg_inv_prefix [OF inv]
  show ?thesis
  proof (cases "rd_done rd")
    case (Some e)
    with step SegTry pre show ?thesis by (auto simp: seg_step_def seg_attempt_def)
  next
    case None
    from get_cut [OF req(2) rd start, of "ru_url ru" "ru_timeout ru" "s_End g"]
    consider (fail) c e where "?get = RangeFail c (Some e)"
      | (ok) bd md h code where "?get = RangeOk bd md h code"
          "serves_cut body (sr_start st) (s_End g) code bd (h ''Content-Range'')" by blast
    then show ?thesis
    proof cases
      case fail
      with step SegTry None req(1) th st
      have "failed_get B ru rd (Some e) ?st ?w = (ph', w')"
        by (simp add: seg_step_def seg_attempt_def Let_def)
      from failed_get_facts [OF this inv'] pre show ?thesis by simp
    next
      case ok
      have code: "code = 200 \<or> code = 206" using ok(2) by (auto simp: serves_cut_def serves_range_def)
      show ?thesis
      proof (cases "code = 206 \<and> range_mismatch ru h (sr_start st) (s_End g)")
        case True
        with step SegTry None req(1) th st ok(1) pre show ?thesis
          by (auto simp: seg_step_def seg_attempt_def Let_def)
      next
        case False
        with step SegTry None req(1) th st ok(1) code
        have "write_answer B ru rd code bd ?st ?w = Inr (ph', w')"
          by (auto simp: seg_step_def seg_attempt_def Let_def)
        from write_answer_cut [OF inv' _ g _ this, of "h ''Content-Range''"] ready ok(2) show ?thesis by simp
      qed
    qed
  qed
qed

text \<open>A goroutine that finds its context done leaves the parts as they are.\<close>

lemma seg_step_done:
  assumes "rd_done rd \<noteq> None" "tempDir (ru_home ru) (rn_d w) = Inr tmp"
    and "case ph of SegNew g' \<Rightarrow> g' = g | SegTry st \<Rightarrow> True | SegEnd g' e \<Rightarrow> True"
    and "seg_step B ru rd ph w = Inr (ph', w')"
  shows "fs_content (rn_fs w') q = fs_content (rn_fs w) q \<and>
    (\<forall>q. q \<noteq> part_of tmp g \<longrightarrow> map_of (rn_fs w') q = map_of (rn_fs w) q) \<and> core (rn_d w') = core (rn_d w) \<and>
    (case ph' of SegNew g' \<Rightarrow> g' = g | SegTry st \<Rightarrow> True | SegEnd g' e \<Rightarrow> True)"
proof (cases ph)
  case (SegNew g')
  obtain r fs' where o: "OpenSegmentWriter (rd_io rd) (ru_home ru) (rn_d w) g (rn_fs w) = (r, fs')"
    by (cases "OpenSegmentWriter (rd_io rd) (ru_home ru) (rn_d w) g (rn_fs w)") simp
  note part = Open_part(1,2) [OF assms(2) o]
  from SegNew assms(3,4) o part show ?thesis
    by (auto simp: seg_step_def unless_panic_def split: sum.splits prod.splits if_splits)
next
  case (SegTry st)
  with assms(1,4) show ?thesis by (auto simp: seg_step_def seg_attempt_def)
next
  case (SegEnd g' e)
  with assms(3,4) show ?thesis by (auto simp: seg_step_def)
qed

text \<open>
  A schedule that may be cut off at any moment: a segment gets whole rounds, and after a round that
  breaks off its goroutine finds the context done.
\<close>

definition quits :: "nat \<Rightarrow> 's sched list \<Rightarrow> bool" where
  "quits i evs \<longleftrightarrow> (\<forall>rd. StepSeg i rd \<in> set evs \<longrightarrow> rd_done rd \<noteq> None)"

fun cut_off :: "string \<Rightarrow> 's sched list \<Rightarrow> bool" where
  "cut_off body [] \<longleftrightarrow> True"
| "cut_off body (StepSeg i rd # evs) \<longleftrightarrow> cut_off body evs \<and>
     (rd_done rd \<noteq> None \<or> rd_short rd = None \<and> origin (rd_net rd) body \<or>
      origin_cut (rd_net rd) body \<and> quits i evs)"
| "cut_off body (ev # evs) \<longleftrightarrow> cut_off body evs"

text \<open>Of a segment: its round has not broken off, or it will not be written again.\<close>

definition seg_safe :: "string \<Rightarrow> string \<Rightarrow> fsys \<Rightarrow> Segment \<Rightarrow> seg_phase \<Rightarrow> bool \<Rightarrow> bool" where
  "seg_safe body tmp fs g ph quit \<longleftrightarrow>
     seg_inv body tmp fs g ph \<or>
     quit \<and> prefix (fs_content fs (part_of tmp g)) (seg_bytes body g) \<and>
       (case ph of SegNew g' \<Rightarrow> g' = g | SegTry st \<Rightarrow> True | SegEnd g' e \<Rightarrow> True)"

lemma seg_safe_prefix: "seg_safe body tmp fs g ph quit \<Longrightarrow> prefix (fs_content fs (part_of tmp g)) (seg_bytes body g)"
  by (auto simp: seg_safe_def seg_inv_prefix)

lemma seg_safe_mono: "seg_safe body tmp fs g ph q \<Longrightarrow> (q \<Longrightarrow> q') \<Longrightarrow> seg_safe body tmp fs g ph q'"
  by (auto simp: seg_safe_def)

lemma seg_safe_cong:
  "map_of fs' (part_of tmp g) = map_of fs (part_of tmp g) \<Longrightarrow> seg_safe body tmp fs' g ph q = seg_safe body tmp fs g ph q"
  using seg_inv_cong [of fs' tmp g fs body ph] by (simp add: seg_safe_def fs_content_def)

lemma seg_step_new:
  assumes "seg_step B ru rd ph w = Inr (SegNew g', w')" shows "ph = SegNew g'"
  using assms
  by (auto simp: seg_step_def seg_attempt_def write_answer_def failed_get_def finish_segment_def retry_def Let_def
      unless_panic_def split: seg_phase.splits sum.splits prod.splits option.splits range_result.splits if_splits)

text \<open>One step of a goroutine.\<close>

lemma seg_safe_step:
  assumes inv: "seg_safe body tmp (rn_fs w) g ph (rd_done rd \<noteq> None \<and> quit)" and ready: "run_ready ru tmp (rn_d w)"
    and g: "seg_inside body g" "in64 (int (length body))"
    and rd: "rd_done rd \<noteq> None \<or> rd_short rd = None \<and> origin (rd_net rd) body \<or> origin_cut (rd_net rd) body \<and> quit"
    and step: "seg_step B ru rd ph w = Inr (ph', w')"
  shows "seg_safe body tmp (rn_fs w') g ph' quit \<and>
    (\<forall>q. q \<noteq> part_of tmp g \<longrightarrow> map_of (rn_fs w') q = map_of (rn_fs w) q) \<and> core (rn_d w') = core (rn_d w)"
proof -
  have tmp: "tempDir (ru_home ru) (rn_d w) = Inr tmp" using ready by (simp add: run_ready_def)
  consider (weak) "rd_done rd \<noteq> None" "quit" "prefix (fs_content (rn_fs w) (part_of tmp g)) (seg_bytes body g)"
      "case ph of SegNew g' \<Rightarrow> g' = g | SegTry st \<Rightarrow> True | SegEnd g' e \<Rightarrow> True"
    | (quiet) "rd_done rd \<noteq> None" "seg_inv body tmp (rn_fs w) g ph"
    | (whole) "seg_inv body tmp (rn_fs w) g ph" "rd_short rd = None" "origin (rd_net rd) body"
    | (cut) "seg_inv body tmp (rn_fs w) g ph" "origin_cut (rd_net rd) body" quit
    using inv rd by (auto simp: seg_safe_def)
  then show ?thesis
  proof cases
    case weak
    with seg_step_done [OF weak(1) tmp weak(4) step] show ?thesis by (simp add: seg_safe_def)
  next
    case quiet
    let ?rd = "rd\<lparr>rd_short := None, rd_net := (\<lambda>k cl r. Inl ErrCanceled)\<rparr>"
    have "seg_step B ru ?rd ph w = Inr (ph', w')"
      using step quiet(1) by (cases ph) (auto simp: seg_step_def seg_attempt_def)
    from seg_step_facts [OF quiet(2) ready g _ _ this] show ?thesis by (auto simp: origin_def seg_safe_def)
  next
    case whole
    from seg_step_facts [OF whole(1) ready g whole(2,3) step] show ?thesis by (auto simp: seg_safe_def)
  next
    case cut
    have "case ph' of SegNew g' \<Rightarrow> g' = g | SegTry st \<Rightarrow> True | SegEnd g' e \<Rightarrow> True"
      using cut(1) seg_step_new [of B ru rd ph w _ w'] step by (cases ph') (auto simp: seg_inv_def)
    with seg_step_cut [OF cut(1) ready g cut(2) step] cut(3) show ?thesis by (auto simp: seg_safe_def)
  qed
qed

text \<open>All segments, up to any moment of such a schedule.\<close>

lemma run_segments_cut:
  assumes "length phs = length gs" "\<forall>i < length gs. seg_safe body tmp (rn_fs w) (gs ! i) (phs ! i) (quits i evs)"
    and "run_ready ru tmp (rn_d w)" "\<forall>g \<in> set gs. seg_inside body g" "in64 (int (length body))"
    and "distinct (map (part_of tmp) gs)" "cut_off body evs" "run_segments B ru evs phs w = Inr (phs', w')"
  shows "(\<forall>g \<in> set gs. prefix (fs_content (rn_fs w') (part_of tmp g)) (seg_bytes body g)) \<and>
    (\<forall>q. q \<notin> part_of tmp ` set gs \<longrightarrow> map_of (rn_fs w') q = map_of (rn_fs w) q)"
  using assms(1-3,7,8)
proof (induction evs arbitrary: phs w)
  case Nil
  then show ?case using seg_safe_prefix by (fastforce simp: in_set_conv_nth)
next
  case (Cons ev evs)
  have later: "quits i (ev # evs) \<Longrightarrow> quits i evs" for i by (simp add: quits_def)
  have cut: "cut_off body evs" using Cons.prems(4) by (cases ev) simp_all
  show ?case
  proof (cases ev)
    case (StepSeg i rd)
    show ?thesis
    proof (cases "i < length gs")
      case True
      then have i: "i < length phs" using Cons.prems(1) by simp
      from Cons.prems(5) StepSeg i obtain ph w1 where s: "seg_step B ru rd (phs ! i) w = Inr (ph, w1)"
        "run_segments B ru evs (phs[i := ph]) (note_error (phs ! i) ph w1) = Inr (phs', w')"
        by (auto simp: bindE_eq_Inr)
      have quits: "quits i (ev # evs) \<longleftrightarrow> rd_done rd \<noteq> None \<and> quits i evs" by (auto simp: StepSeg quits_def)
      have safe: "seg_safe body tmp (rn_fs w) (gs ! i) (phs ! i) (rd_done rd \<noteq> None \<and> quits i evs)"
        using Cons.prems(2) True unfolding quits [symmetric] by blast
      have "seg_inside body (gs ! i)" using assms(4) True by simp
      from seg_safe_step [OF safe Cons.prems(3) this assms(5) _ s(1)] Cons.prems(4) StepSeg
      have f: "seg_safe body tmp (rn_fs w1) (gs ! i) ph (quits i evs)"
        "\<And>q. q \<noteq> part_of tmp (gs ! i) \<Longrightarrow> map_of (rn_fs w1) q = map_of (rn_fs w) q"
        "core (rn_d w1) = core (rn_d w)" by auto
      have "seg_safe body tmp (rn_fs w1) (gs ! j) (phs[i := ph] ! j) (quits j evs)" if j: "j < length gs" for j
      proof (cases "j = i")
        case False
        with j True assms(6) have "part_of tmp (gs ! j) \<noteq> part_of tmp (gs ! i)" by (simp add: distinct_conv_nth)
        from seg_safe_cong [OF f(2) [OF this]] Cons.prems(2) j False show ?thesis
          by (auto intro: seg_safe_mono later)
      qed (use f(1) i in simp)
      moreover have "run_ready ru tmp (rn_d w1)" using Cons.prems(3) run_ready_core [OF f(3)] by simp
      ultimately have "(\<forall>g \<in> set gs. prefix (fs_content (rn_fs w') (part_of tmp g)) (seg_bytes body g)) \<and>
          (\<forall>q. q \<notin> part_of tmp ` set gs \<longrightarrow> map_of (rn_fs w') q = map_of (rn_fs w1) q)"
        using Cons.IH [OF _ _ _ cut s(2)] Cons.prems(1) by simp
      moreover have "map_of (rn_fs w1) q = map_of (rn_fs w) q" if "q \<notin> part_of tmp ` set gs" for q
        using f(2) that True by (metis imageI nth_mem)
      ultimately show ?thesis by simp
    next
      case False
      with Cons.prems(1,5) StepSeg have "run_segments B ru evs phs w = Inr (phs', w')" by simp
      with Cons.IH [OF Cons.prems(1) _ Cons.prems(3) cut] Cons.prems(2) show ?thesis
        by (auto intro: seg_safe_mono later)
    qed
  next
    case (StepMonitor cx ck)
    with Cons.prems(5) obtain w1 where m: "monitor_step B ru cx ck w = Inr w1"
      "run_segments B ru evs phs w1 = Inr (phs', w')" by (auto simp: bindE_eq_Inr)
    have w1: "rn_fs w1 = rn_fs w" "run_ready ru tmp (rn_d w1)"
      using monitor_step_frame [OF m(1)] run_ready_core Cons.prems(3) by metis+
    have "\<forall>i < length gs. seg_safe body tmp (rn_fs w1) (gs ! i) (phs ! i) (quits i evs)"
      using Cons.prems(2) w1(1) by (auto intro: seg_safe_mono later)
    from Cons.IH [OF Cons.prems(1) this w1(2) cut m(2)] w1(1) show ?thesis by simp
  next
    case (StepOther s p rl)
    let ?w = "w\<lparr>rn_db := s, rn_pub := p, rn_lim := rl\<rparr>"
    have safe: "\<forall>i < length gs. seg_safe body tmp (rn_fs ?w) (gs ! i) (phs ! i) (quits i evs)"
      using Cons.prems(2) by (auto intro: seg_safe_mono later)
    have "run_ready ru tmp (rn_d ?w)" "run_segments B ru evs phs ?w = Inr (phs', w')"
      using Cons.prems(3,5) StepOther by simp_all
    from Cons.IH [OF Cons.prems(1) safe this(1) cut this(2)] show ?thesis by simp
  qed
qed

end
