(* ===== verification/Servers.thy ===== *)
theory Servers
  imports Runner
begin

text \<open>
  Servers that serve a file as HTTP says, and what the transport makes of their answers: the length that a
  \<open>HEAD\<close> or its fallback reports, an answer to every request for a range, and a \<open>Content-Range\<close> that the
  runner accepts.
\<close>

section \<open>The announced length\<close>

text \<open>
  An answer to a \<open>HEAD\<close>, or to a request for the range from 0, names the length of the file, and when it
  carries a \<open>Content-Range\<close>, that of the whole file.
\<close>

definition announced :: "string \<Rightarrow> http_response \<Rightarrow> bool" where
  "announced content resp \<longleftrightarrow>
     hdr_get (hp_Header resp) ''Content-Length'' = FormatInt (int (length content)) \<and>
     hdr_get (hp_Header resp) ''Content-Range'' \<in> {[], content_range content 0 (- 1)}"

definition announcing :: "network \<Rightarrow> string \<Rightarrow> bool" where
  "announcing net content \<longleftrightarrow>
     (\<forall>k cl r resp. hq_Method r = ''HEAD'' \<or> asked_range (hdr_get (hq_Header r) ''Range'') = Some (0, - 1) \<longrightarrow>
        net k cl r = Inr resp \<longrightarrow> hp_StatusCode resp < 400 \<longrightarrow> announced content resp)"

lemma announcing_skip: "announcing net content \<Longrightarrow> announcing (skip n net) content"
  by (simp add: announcing_def skip_def)

lemma last_slash_at_end:
  "i \<le> length q \<Longrightarrow> slash \<notin> set q \<Longrightarrow> last_slash_at (Suc (length p) + i) (p @ slash # q) = int (length p)"
proof (induction i)
  case (Suc i)
  then have "q ! i \<noteq> slash" by (metis Suc_le_eq nth_mem)
  with Suc show ?case by (simp add: nth_append)
qed simp

lemma lastSlash_append: "slash \<notin> set q \<Longrightarrow> lastSlash (p @ slash # q) = int (length p)"
  using last_slash_at_end [of "length q" q p] by (simp add: lastSlash_def)

lemma FormatInt_no_slash: "slash \<notin> set (FormatInt i)"
  using digits_all [of slash] by (auto simp: FormatInt_def slash_def is_digit_def)

lemma announced_length:
  assumes "announced content resp" "in64 (int (length content))"
  shows "m_ContentLength (parseMeta (hp_Header resp)) = int (length content)"
    and "m_ContentLength (total_length (hp_Header resp) (parseMeta (hp_Header resp))) = int (length content)"
proof -
  have "FormatInt (int (length content)) \<noteq> []" by (simp add: FormatInt_def)
  then show len: "m_ContentLength (parseMeta (hp_Header resp)) = int (length content)"
    using assms by (simp add: parseMeta_def announced_def ParseInt_FormatInt Let_def)
  show "m_ContentLength (total_length (hp_Header resp) (parseMeta (hp_Header resp))) = int (length content)"
  proof (cases "hdr_get (hp_Header resp) ''Content-Range'' = []")
    case True
    with len show ?thesis by (simp add: total_length_def)
  next
    case False
    let ?n = "FormatInt (int (length content))"
    from False assms(1) obtain p where cr: "hdr_get (hp_Header resp) ''Content-Range'' = p @ slash # ?n"
      by (auto simp: announced_def content_range_def slash_def)
    have "lastSlash (p @ slash # ?n) = int (length p)" by (rule lastSlash_append [OF FormatInt_no_slash])
    moreover have "drop (nat (int (length p)) + 1) (p @ slash # ?n) = ?n" by simp
    ultimately show ?thesis using assms(2) by (simp add: total_length_def cr Let_def ParseInt_FormatInt)
  qed
qed

lemma fallback_loop_length:
  assumes "announcing net content" "plain_range req cfg" "in64 (int (length content))"
    and "fallback_loop U net cl req cfg err us = (Some (md, h), None)"
  shows "m_ContentLength md = int (length content)"
  using assms(1,4)
proof (induction us arbitrary: net err)
  case (Cons u us)
  have asked: "asked_range (hdr_get (hq_Header r) ''Range'') = Some (0, - 1)"
    if "new_request U req cfg ''GET'' (hdr_set ''Range'' ''bytes=0-'' no_headers) u = Inr r" for r
  proof -
    have "range_value 0 (- 1) = ''bytes=0-''" by code_simp
    with that have "range_request U req cfg 0 (- 1) u = Inr r" by (simp add: range_request_def)
    from range_request_header [OF assms(2) this]
    have "hdr_get (hq_Header r) ''Range'' = range_value 0 (- 1)" .
    then show ?thesis by (simp add: asked_range_value)
  qed
  show ?case
  proof (cases "new_request U req cfg ''GET'' (hdr_set ''Range'' ''bytes=0-'' no_headers) u")
    case (Inl e)
    with Cons show ?thesis by simp
  next
    case (Inr r)
    note r = Inr
    show ?thesis
    proof (cases "net 0 cl r")
      case (Inl e)
      with Cons r announcing_skip show ?thesis by (simp del: One_nat_def) blast
    next
      case (Inr resp)
      show ?thesis
      proof (cases "400 \<le> hp_StatusCode resp")
        case True
        with Cons r Inr announcing_skip show ?thesis by (simp del: One_nat_def) blast
      next
        case False
        with Cons.prems(1) asked [OF r] Inr have "announced content resp" unfolding announcing_def by fastforce
        from announced_length(2) [OF this assms(3)] Cons.prems(2) r Inr False show ?thesis by auto
      qed
    qed
  qed
qed simp

lemma head_loop_length:
  assumes "announcing net content" "in64 (int (length content))"
    and "head_loop U net cl req cfg n us = (m, Some (md, h))"
  shows "m_ContentLength md = int (length content)"
  using assms(3)
proof (induction us arbitrary: n)
  case (Cons u us)
  show ?case
  proof (cases "new_request U req cfg ''HEAD'' no_headers u")
    case (Inl e)
    with Cons show ?thesis by simp
  next
    case (Inr r)
    note r = Inr
    then have verb: "hq_Method r = ''HEAD''" by (auto simp: new_request_def Let_def bindE_eq_Inr)
    show ?thesis
    proof (cases "net n cl r")
      case (Inl e)
      with Cons r show ?thesis by simp
    next
      case (Inr resp)
      show ?thesis
      proof (cases "400 \<le> hp_StatusCode resp")
        case True
        with Cons r Inr show ?thesis by simp
      next
        case False
        with assms(1) verb Inr have "announced content resp" unfolding announcing_def by fastforce
        from announced_length(1) [OF this assms(2)] Cons.prems r Inr False show ?thesis by auto
      qed
    qed
  qed
qed simp

lemma Head_length:
  assumes "announcing net content" "plain_range req cfg" "in64 (int (length content))"
    and "Head U net timeout req cfg = (Some (md, h), None)"
  shows "m_ContentLength md = int (length content)"
proof (cases "c_DisableHead cfg")
  case True
  with assms(4) fallback_loop_length [OF assms(1-3)] show ?thesis by (simp add: Head_def headFallback_def)
next
  case False
  obtain n m where hl: "head_loop U net (clientFor timeout cfg) req cfg 0 (withMirrors req) = (n, m)" by fastforce
  show ?thesis
  proof (cases m)
    case (Some x)
    with False assms(4) hl have "head_loop U net (clientFor timeout cfg) req cfg 0 (withMirrors req) = (n, Some (md, h))"
      by (simp add: Head_def)
    from head_loop_length [OF assms(1,3) this] show ?thesis .
  next
    case None
    with False assms(4) hl fallback_loop_length [OF announcing_skip [OF assms(1)] assms(2,3)] show ?thesis
      by (simp add: Head_def headFallback_def)
  qed
qed

section \<open>Servers that answer\<close>

text \<open>Some URL of the request can be parsed, and every request is answered without an error status.\<close>

definition answering :: "urllib \<Rightarrow> network \<Rightarrow> RequestOptions \<Rightarrow> bool" where
  "answering U net req \<longleftrightarrow>
     (\<forall>k cl r. \<exists>resp. net k cl r = Inr resp \<and> hp_StatusCode resp < 400) \<and>
     (\<exists>u \<in> set (withMirrors req). \<exists>p. url_Parse U (addQuery U u req) = Inr p)"

lemma GetRange_answering:
  assumes "answering U net req"
  shows "\<exists>bd md h code. GetRange U net timeout req cfg start stop = RangeOk bd md h code"
proof -
  have net: "\<exists>resp. net k cl r = Inr resp \<and> hp_StatusCode resp < 400" for k cl r
    using assms by (auto simp: answering_def)
  have "\<exists>bd md h code. range_loop U net cl req cfg start stop status err us = RangeOk bd md h code"
    if "\<exists>u \<in> set us. \<exists>p. url_Parse U (addQuery U u req) = Inr p" for cl status err us
    using that
  proof (induction us arbitrary: err)
    case (Cons u us)
    let ?h = "hdr_set ''Range'' (range_value start stop) no_headers"
    show ?case
    proof (cases "url_Parse U (addQuery U u req)")
      case (Inl e)
      with Cons show ?thesis by (simp add: new_request_def Let_def)
    next
      case (Inr p)
      then obtain r where r: "new_request U req cfg ''GET'' ?h u = Inr r" by (simp add: new_request_def Let_def)
      from net [of 0 cl r] obtain resp where "net 0 cl r = Inr resp" "hp_StatusCode resp < 400" by blast
      with r show ?thesis by simp
    qed
  qed simp
  then show ?thesis using assms by (simp add: GetRange_def answering_def)
qed

lemma fallback_answering:
  assumes "\<And>k cl r. \<exists>resp. net k cl r = Inr resp \<and> hp_StatusCode resp < 400"
    and "\<exists>u \<in> set us. \<exists>p. url_Parse U (addQuery U u req) = Inr p"
  shows "\<exists>m. fallback_loop U net cl req cfg err us = (Some m, None)"
  using assms(2)
proof (induction us arbitrary: err)
  case (Cons u us)
  show ?case
  proof (cases "url_Parse U (addQuery U u req)")
    case (Inl e)
    with Cons show ?thesis by (simp add: new_request_def Let_def)
  next
    case (Inr p)
    then obtain r where r: "new_request U req cfg ''GET'' (hdr_set ''Range'' ''bytes=0-'' no_headers) u = Inr r"
      by (simp add: new_request_def Let_def)
    from assms(1) [of 0 cl r] obtain resp where "net 0 cl r = Inr resp" "hp_StatusCode resp < 400" by blast
    with r show ?thesis by simp
  qed
qed simp

lemma Head_answering:
  assumes "answering U net req"
  shows "\<exists>md h. Head U net timeout req cfg = (Some (md, h), None)"
proof -
  have net: "\<exists>resp. net k cl r = Inr resp \<and> hp_StatusCode resp < 400" for k cl r
    using assms by (auto simp: answering_def)
  have urls: "\<exists>u \<in> set (withMirrors req). \<exists>p. url_Parse U (addQuery U u req) = Inr p"
    using assms by (simp add: answering_def)
  have fb: "\<exists>m. headFallback U (skip n net) timeout req cfg = (Some m, None)" for n
    unfolding headFallback_def by (rule fallback_answering [OF _ urls]) (simp add: skip_apply net)
  show ?thesis
  proof (cases "c_DisableHead cfg")
    case True
    with fb [of 0] show ?thesis by (simp add: Head_def skip_def)
  next
    case False
    obtain n m where "head_loop U net (clientFor timeout cfg) req cfg 0 (withMirrors req) = (n, m)" by fastforce
    with False fb [of n] show ?thesis by (cases m) (auto simp: Head_def)
  qed
qed

section \<open>Ranges that the runner accepts\<close>

lemma FormatInt_chars: "c \<in> set (FormatInt i) \<Longrightarrow> is_digit c \<or> c = CHR ''-''"
  by (auto simp: FormatInt_def dest: digits_all split: if_splits)

lemma ascii_fields_word:
  "\<forall>c \<in> set s. \<not> is_space c \<Longrightarrow> ascii_fields word s = (if word = [] \<and> s = [] then [] else [rev word @ s])"
  by (induction s arbitrary: word) auto

lemma ascii_fields_space:
  "\<forall>c \<in> set s. \<not> is_space c \<Longrightarrow> is_space c \<Longrightarrow> word \<noteq> [] \<or> s \<noteq> [] \<Longrightarrow>
     ascii_fields word (s @ c # t) = (rev word @ s) # ascii_fields [] t"
  by (induction s arbitrary: word) auto

lemma Index_append: "c \<notin> set p \<Longrightarrow> Index (p @ c # q) c = int (length p)"
proof -
  assume "c \<notin> set p"
  then have "takeWhile (\<lambda>x. x \<noteq> c) (p @ c # q) = p" by (subst takeWhile_append2) auto
  then show ?thesis by (simp add: Index_def)
qed

lemma Fields_content_range:
  "Fields ru (content_range content start stop) =
     [''bytes'', FormatInt start @ ''-'' @ FormatInt (start + int (length (range_bytes content start stop)) - 1) @
        ''/'' @ FormatInt (int (length content))]" (is "_ = [_, ?r]")
proof -
  have r: "is_digit c \<or> c = CHR ''-'' \<or> c = slash" if "c \<in> set ?r" for c
    using that FormatInt_chars by (auto simp: slash_def)
  have plain: "\<not> is_space c \<and> (of_char c :: nat) < 128" if "c \<in> set ?r" for c
    using r [OF that] by (elim disjE) (auto simp: is_digit_def is_space_def slash_def)
  then have space: "\<forall>c \<in> set ?r. \<not> is_space c" by blast
  have "\<forall>c \<in> set ?r. (of_char c :: nat) < 128" using plain by blast
  moreover have cr: "content_range content start stop = ''bytes'' @ CHR '' '' # ?r" by (simp add: content_range_def)
  ultimately have ascii: "is_ascii (content_range content start stop)" by (simp add: is_ascii_def list_all_iff)
  have "ascii_fields [] (''bytes'' @ CHR '' '' # ?r) = (rev [] @ ''bytes'') # ascii_fields [] ?r"
    by (rule ascii_fields_space) (simp_all add: is_space_def)
  also have "ascii_fields [] ?r = [?r]" using ascii_fields_word [OF space, of "[]"] by simp
  finally show ?thesis unfolding Fields_def using ascii cr by simp
qed

text \<open>A mismatch with a start that agrees can only be an end beyond the one asked for.\<close>

lemma range_mismatch_end:
  assumes "hdrs ''Content-Range'' = v # vs" "Fields ru v = [''bytes'', p @ CHR ''-'' # q @ slash # t]"
    and "CHR ''-'' \<notin> set p" "slash \<notin> set p" "slash \<notin> set q"
    and "ParseInt p = Some start" "ParseInt q = Some e" "start \<le> e" "range_mismatch ru hdrs start stop"
  shows "0 \<le> stop \<and> stop < e"
proof -
  have "slash \<notin> set (p @ CHR ''-'' # q)" using assms(4,5) by (simp add: slash_def)
  from Index_append [OF this, of t]
  have dash: "Index (p @ CHR ''-'' # q @ slash # t) slash = int (length (p @ CHR ''-'' # q))" by simp
  have range: "take (nat (int (length (p @ CHR ''-'' # q)))) (p @ CHR ''-'' # q @ slash # t) = p @ CHR ''-'' # q"
    unfolding nat_int by simp
  have hy: "Index (p @ CHR ''-'' # q) (CHR ''-'') = int (length p)" by (rule Index_append [OF assms(3)])
  have cut: "take (nat (int (length p))) (p @ CHR ''-'' # q) = p" "drop (nat (int (length p)) + 1) (p @ CHR ''-'' # q) = q"
    by simp_all
  have "0 \<le> stop \<and> (e < start \<or> stop < e)"
    using assms(9) unfolding range_mismatch_def Let_def assms(1,2) list.case nth_Cons_0 One_nat_def nth_Cons_Suc
      dash range hy cut assms(6,7) option.case by (auto simp: cut [unfolded One_nat_def] assms(6,7))
  with assms(8) show ?thesis by simp
qed

text \<open>The range that a server of the file names is never taken for another one.\<close>

lemma served_range_matches:
  assumes "serves_range content start stop 206 bd (h ''Content-Range'')" "0 \<le> start" "in64 (int (length content))"
  shows "\<not> range_mismatch ru h start stop"
proof (cases "h ''Content-Range''")
  case Nil
  then show ?thesis by (simp add: range_mismatch_def Let_def)
next
  case (Cons v vs)
  let ?k = "int (length (range_bytes content start stop))" and ?n = "int (length content)"
  let ?e = "start + ?k - 1"
  have s: "start < ?n" "stop < 0 \<or> start \<le> stop" and v: "v = content_range content start stop"
    using assms(1) Cons by (auto simp: serves_range_def)
  have k: "0 < ?k" "start + ?k \<le> ?n" "0 \<le> stop \<Longrightarrow> ?e \<le> stop"
    using s assms(2) by (auto simp: range_bytes_def Let_def)
  have minus: "CHR ''-'' \<notin> set (FormatInt start)"
    using assms(2) by (auto simp: FormatInt_def is_digit_def dest: digits_all)
  have slash: "slash \<notin> set (FormatInt start)" "slash \<notin> set (FormatInt ?e)" by (rule FormatInt_no_slash)+
  have nums: "ParseInt (FormatInt start) = Some start" "ParseInt (FormatInt ?e) = Some ?e"
    using s k assms(2,3) by (auto intro!: ParseInt_FormatInt simp: in64_def)
  have parts: "Fields ru v = [''bytes'', FormatInt start @ CHR ''-'' # FormatInt ?e @ slash # FormatInt ?n]"
    by (simp add: v Fields_content_range slash_def)
  have "start \<le> ?e" using k(1) by simp
  from range_mismatch_end [where hdrs = h and t = "FormatInt ?n" and p = "FormatInt start" and q = "FormatInt ?e", OF Cons parts minus slash nums this] k(3) show ?thesis by fastforce
qed

end
