(* ===== verification/Runner_Run.thy ===== *)
theory Runner_Run
  imports Runner_Cut Servers
begin

text \<open>
  Whole runs: from the plan over the segments and the merge to the file, the end of a run, and runs
  that are cancelled or fail.
\<close>

section \<open>The planned segments\<close>

definition plan_fits :: "Download \<Rightarrow> string \<Rightarrow> bool \<Rightarrow> bool" where
  "plan_fits d body ranges \<longleftrightarrow>
     body \<noteq> [] \<and> in64 (int (length body)) \<and>
     (ranges \<longrightarrow> max_conns d \<le> int (length body) \<and> max_conns d \<le> 10 ^ 9)"

lemma range_bytes_slice:
  assumes "0 \<le> s_Start g" "s_Start g \<le> s_End g" "s_End g < int (length body)"
  shows "seg_bytes body g = slice body g"
proof (rule nth_equalityI)
  show "length (seg_bytes body g) = length (slice body g)"
    using assms by (auto simp: seg_bytes_def range_bytes_def slice_def Let_def)
  fix i assume i: "i < length (seg_bytes body g)"
  then have "i < nat (s_End g - s_Start g + 1)" "nat (s_Start g) + i < length body"
    using assms by (auto simp: seg_bytes_def range_bytes_def Let_def)
  with assms show "seg_bytes body g ! i = slice body g ! i"
    by (simp add: seg_bytes_def range_bytes_def slice_def Let_def nat_add_distrib)
qed

lemma Plan_segments:
  assumes "plan_fits d body ranges"
  shows "\<exists>gs. Plan d (int (length body)) ranges = Inr gs \<and> gs \<noteq> [] \<and>
    (\<forall>g \<in> set gs. seg_inside body g) \<and> concat (map (seg_bytes body) gs) = body \<and>
    map s_Index gs = map int [0..<length gs] \<and> int (length gs) \<le> 10 ^ 9"
proof (cases ranges)
  case True
  with assms have n: "0 < int (length body)" "in64 (int (length body))" "max_conns d \<le> int (length body)"
    "max_conns d \<le> 10 ^ 9" by (simp_all add: plan_fits_def)
  from Plan_ranges [OF n(1-3)] obtain gs where gs: "Plan d (int (length body)) True = Inr gs"
    "length gs = nat (max_conns d)"
    "\<forall>g \<in> set gs. s_DownloadID g = d_ID d \<and> 0 \<le> s_Start g \<and> s_Start g \<le> s_End g \<and> s_End g < int (length body)"
    "map s_Index gs = [0..max_conns d - 1]" by blast
  from pl.slices_are_body [OF _ n(2,3)] assms gs(1) have sl: "concat (map (slice body) gs) = body"
    by (auto simp: plan_fits_def)
  have "map (seg_bytes body) gs = map (slice body) gs"
    by (rule map_cong) (use gs(3) range_bytes_slice in auto)
  with sl have "concat (map (seg_bytes body) gs) = body" by (simp only:)
  moreover have "map s_Index gs = map int [0..<length gs]"
    using gs(2,4) max_conns_pos [of d] by (auto intro!: nth_equalityI)
  moreover have "gs \<noteq> []" "int (length gs) \<le> 10 ^ 9" using gs(2) max_conns_pos [of d] n(4) by auto
  moreover have "\<forall>g \<in> set gs. seg_inside body g" using gs(3) by (auto simp: seg_inside_def)
  ultimately show ?thesis using True gs(1) by (intro exI [of _ gs]) simp
next
  case False
  let ?g = "zero_Segment\<lparr>s_Index := 0, s_DownloadID := d_ID d, s_Status := SegmentPending, s_Start := 0, s_End := - 1\<rparr>"
  have "Plan d (int (length body)) ranges = Inr [?g]" using False by (simp add: Plan_def)
  moreover have "seg_inside body ?g" "seg_bytes body ?g = body"
    by (simp_all add: seg_inside_def seg_bytes_def range_bytes_def)
  ultimately show ?thesis by (intro exI [of _ "[?g]"]) simp
qed

lemma part_of_distinct:
  assumes "map s_Index gs = map int [0..<length gs]" "int (length gs) \<le> 10 ^ 9"
  shows "distinct (map (part_of tmp) gs)"
proof -
  have idx: "s_Index (gs ! i) = int i" if "i < length gs" for i
    using that assms(1) by (metis add.left_neutral diff_zero length_upt nth_map nth_upt)
  have "part_of tmp (gs ! i) \<noteq> part_of tmp (gs ! j)" if "i < length gs" "j < length gs" "i < j" for i j
  proof -
    have "part_name (int i) < part_name (int j)" using that assms(2) by (simp add: part_name_less)
    then show ?thesis using that by (auto simp: part_of_def idx entry_def split: if_splits)
  qed
  then show ?thesis by (fastforce simp: distinct_conv_nth linorder_neq_iff)
qed

text \<open>The parts of a directory that held no other part are what the merge expects.\<close>

lemma parts_are_segments:
  assumes "map s_Index gs = map int [0..<length gs]" "int (length gs) \<le> 10 ^ 9"
    and "\<forall>g \<in> set gs. map_of fs (part_of tmp g) = Some (seg_bytes body g)"
    and "\<forall>n. plain_name n \<and> HasSuffix n ''.part'' \<and> fs_exists fs (entry tmp n) \<longrightarrow>
      entry tmp n \<in> part_of tmp ` set gs"
  shows "parts_are fs tmp (map (seg_bytes body) gs)"
proof -
  have idx: "s_Index (gs ! i) = int i" if "i < length gs" for i
    using that assms(1) by (metis add.left_neutral diff_zero length_upt nth_map nth_upt)
  have "\<exists>i < length gs. n = part_name (int i)"
    if n: "plain_name n" "HasSuffix n ''.part''" "fs_exists fs (entry tmp n)" for n
  proof -
    from assms(4) n have "entry tmp n \<in> part_of tmp ` set gs" by blast
    then obtain g where g: "entry tmp n = part_of tmp g" "g \<in> set gs" by blast
    then obtain i where "i < length gs" "gs ! i = g" by (auto simp: in_set_conv_nth)
    with g(1) idx show ?thesis by (intro exI [of _ i]) (auto simp: part_of_def entry_def split: if_splits)
  qed
  then show ?thesis
    using assms(2,3) idx by (auto simp: parts_are_def part_of_def [symmetric]) (metis nth_mem part_of_def)
qed

section \<open>From the run to the file\<close>

lemma save_copy_status: "d_Status (rn_d (snd (save_copy B ru cx ck w))) = d_Status (rn_d w)"
  by (cases "UpdateDownload B (ru_lib ru) cx ck (rn_db w) (rn_d w)")
    (auto simp: save_copy_def split: sum.splits dest: UpdateDownload_copy)

lemma monitor_step_status:
  assumes "monitor_step B ru cx ck w = Inr w'" shows "d_Status (rn_d w') = d_Status (rn_d w)"
  using assms
  by (auto simp: monitor_step_def Let_def save_copy_status split: list.splits if_splits dest!: run_publish_frame(2))

lemma monitor_steps_status:
  assumes "monitor_steps B ru ms w = Inr w'" shows "d_Status (rn_d w') = d_Status (rn_d w)"
  using assms
  by (induction B ru ms w rule: monitor_steps.induct) (auto simp: bindE_eq_Inr dest: monitor_step_status)

lemma run_fail_status:
  assumes "run_failed B ru sd e w = Inr w'" shows "d_Status (rn_d w') = StatusFailed"
  using assms
  by (auto simp: run_failed_def run_fail_def Let_def save_copy_status split: if_splits dest!: run_publish_frame(2))

lemma run_fail_late_status:
  assumes "run_failed_late B ru sd e w = Inr w'" shows "d_Status (rn_d w') = StatusFailed"
proof -
  from assms obtain w1 w2 where "run_failed B ru sd e w1 = Inr w2" "monitor_steps B ru (sd_late sd 2) w2 = Inr w'"
    by (auto simp: run_failed_late_def bindE_eq_Inr)
  with run_fail_status monitor_steps_status show ?thesis by metis
qed

lemma completed_not_failed [simp]: "StatusFailed \<noteq> StatusCompleted" "StatusCompleted \<noteq> StatusFailed"
  by (simp_all add: StatusFailed_def StatusCompleted_def)

text \<open>A run that ends as completed has gone through all its stages.\<close>

lemma Run_completed:
  assumes "Run B ru sd evs did w = Some (Inr w')" "d_Status (rn_d w') = StatusCompleted"
    and "GetDownload B (sd_get sd) (rn_db w) did = Inr d"
  shows "\<exists>gs w1 w2 w3 w4. prepareDownload B ru (sd_prepare sd) (w\<lparr>rn_d := d\<rparr>) = (Inr gs, w1) \<and>
    downloadSegments B ru evs gs w1 = Inr (Some None, w2) \<and>
    monitor_steps B ru (sd_late sd 0) (finish_begin B ru (sd_begin sd) w2) = Inr w3 \<and>
    merge_and_verify ru (sd_fuel sd) (sd_merge_io sd) (sd_verify_io sd) w3 = Some (Inr (), w4) \<and>
    rn_fs w' = rn_fs w4 \<and>
    (\<exists>w5 w6. monitor_steps B ru (sd_late sd 1) w4 = Inr w5 \<and> finish_complete B ru (sd_complete sd) w5 = Inr w6 \<and>
       monitor_steps B ru (sd_late sd 2) w6 = Inr w')"
proof -
  obtain r w1 where p: "prepareDownload B ru (sd_prepare sd) (w\<lparr>rn_d := d\<rparr>) = (r, w1)"
    by (cases "prepareDownload B ru (sd_prepare sd) (w\<lparr>rn_d := d\<rparr>)")
  from assms p run_fail_status obtain gs where r: "r = Inr gs"
    by (cases r) (force simp: Run_def)+
  from assms p r run_fail_late_status obtain w2 where d: "downloadSegments B ru evs gs w1 = Inr (Some None, w2)"
    by (fastforce simp: Run_def split: sum.splits option.splits prod.splits)
  have fin: "finalizeDownload B ru sd w2 = Some (Inr w')" using assms(1,3) p r d by (simp add: Run_def)
  then obtain w3 where m: "monitor_steps B ru (sd_late sd 0) (finish_begin B ru (sd_begin sd) w2) = Inr w3"
    by (auto simp: finalizeDownload_def split: sum.splits)
  with fin assms(2) run_fail_late_status obtain w4 where v:
    "merge_and_verify ru (sd_fuel sd) (sd_merge_io sd) (sd_verify_io sd) w3 = Some (Inr (), w4)"
    by (fastforce simp: finalizeDownload_def split: option.splits sum.splits prod.splits)
  from fin m v obtain w5 w6 where t: "monitor_steps B ru (sd_late sd 1) w4 = Inr w5"
    "finish_complete B ru (sd_complete sd) w5 = Inr w6" "monitor_steps B ru (sd_late sd 2) w6 = Inr w'"
    by (auto simp: finalizeDownload_def bindE_eq_Inr)
  have "rn_fs w' = rn_fs w4"
    using monitor_steps_frame [OF t(1)] monitor_steps_frame [OF t(3)] t(2)
    by (auto simp: finish_complete_def Let_def dest!: run_publish_frame(1))
  with p r d m v t show ?thesis by blast
qed

lemma prepareDownload_ok:
  assumes "prepareDownload B ru rd w = (Inr gs, w')"
  shows "\<exists>req md h. d_Request (rn_d w) = Some req \<and>
    Head (ru_url ru) (rd_net rd) (ru_timeout ru) req (pickCfg (rn_d w)) = (Some (md, h), None) \<and>
    rn_fs w' = rn_fs w \<and> rn_pub w' = rn_pub w \<and> core (rn_d w') = core (rn_d w) \<and>
    Plan (rn_d w') (m_ContentLength md) (accepts_ranges (rn_d w') md) = Inr gs"
proof -
  from assms obtain u req where q: "Prepare (rd_io rd) (ru_home ru) (rn_d w) = Inr u" "d_Request (rn_d w) = Some req"
    by (auto simp: prepareDownload_def Let_def split: sum.splits option.splits)
  obtain m err where hd: "Head (ru_url ru) (rd_net rd) (ru_timeout ru) req (pickCfg (rn_d w)) = (m, err)"
    by (cases "Head (ru_url ru) (rd_net rd) (ru_timeout ru) req (pickCfg (rn_d w))")
  with assms q have none: "err = None"
    by (cases err; cases m) (auto simp: prepareDownload_def)
  with assms q hd obtain md h where m: "m = Some (md, h)"
    by (cases m) (auto simp: prepareDownload_def)
  with assms q hd none have ct: "content_type_ok (rn_d w) md"
    by (auto simp: prepareDownload_def Let_def split: if_splits)
  note h = q(2) hd [unfolded m none] ct
  let ?d = "(rn_d w)\<lparr>d_Response := Some md\<rparr>"
  define d where "d = (if d_BytesTotal ?d = 0 \<and> 0 < m_ContentLength md
    then ?d\<lparr>d_BytesTotal := m_ContentLength md\<rparr> else ?d)"
  have core: "core d = core (rn_d w)" by (simp add: d_def)
  obtain r w1 where s: "save_copy B ru (rd_cx rd) (rd_ck rd) (w\<lparr>rn_d := d\<rparr>) = (r, w1)"
    by (cases "save_copy B ru (rd_cx rd) (rd_ck rd) (w\<lparr>rn_d := d\<rparr>)")
  have "rn_fs w1 = rn_fs w" "rn_pub w1 = rn_pub w" "core (rn_d w1) = core (rn_d w)"
    using save_copy_frame(1,2) [of B ru "rd_cx rd" "rd_ck rd" "w\<lparr>rn_d := d\<rparr>"]
      save_copy_core [of B ru "rd_cx rd" "rd_ck rd" "w\<lparr>rn_d := d\<rparr>"] s core by simp_all
  moreover have "Plan (rn_d w1) (m_ContentLength md) (accepts_ranges (rn_d w1) md) = Inr gs \<and> w1 = w'"
    using assms q(1) h s [unfolded d_def]
    by (cases r) (auto simp: prepareDownload_def Let_def)
  ultimately show ?thesis using h(1,2) by blast
qed

text \<open>What is assumed of a run: its servers, its directory and its target.\<close>

definition run_setting ::
    "runtime \<Rightarrow> surroundings \<Rightarrow> 's sched list \<Rightarrow> string \<Rightarrow> string \<Rightarrow> string \<Rightarrow> Download \<Rightarrow> fsys \<Rightarrow> bool" where
  "run_setting ru sd evs body tmp out d fs \<longleftrightarrow>
     run_ready ru tmp d \<and> finalPath d = Inr out \<and>
     (case d_File d of None \<Rightarrow> False | Some f \<Rightarrow> f_Overwrite f \<or> \<not> fs_exists fs out) \<and>
     tmp \<noteq> ''.'' \<and> tmp \<noteq> [slash] \<and> \<not> below tmp out \<and> \<not> below tmp (out @ ''.merge.tmp'') \<and>
     sd_merge_io sd = no_errors \<and> steady body evs"

text \<open>Servers that announce the length of the file, and a plan that fits it.\<close>

definition announces :: "runtime \<Rightarrow> network \<Rightarrow> string \<Rightarrow> Download \<Rightarrow> bool" where
  "announces ru net body d \<longleftrightarrow> announcing net body \<and>
     (\<forall>req md h. d_Request d = Some req \<longrightarrow>
        Head (ru_url ru) net (ru_timeout ru) req (pickCfg d) = (Some (md, h), None) \<longrightarrow>
        plan_fits d body (accepts_ranges d md))"

text \<open>The parts that are there already are prefixes of their segments, and no other file is a part.\<close>

definition resumable :: "string \<Rightarrow> string \<Rightarrow> Segment list \<Rightarrow> fsys \<Rightarrow> bool" where
  "resumable body tmp gs fs \<longleftrightarrow>
     (\<forall>g \<in> set gs. prefix (fs_content fs (part_of tmp g)) (seg_bytes body g)) \<and>
     (\<forall>n. plain_name n \<and> HasSuffix n ''.part'' \<and> fs_exists fs (entry tmp n) \<longrightarrow>
        entry tmp n \<in> part_of tmp ` set gs)"

lemma parts_below:
  assumes "run_setting ru sd evs body tmp out d fs" "q \<in> part_of tmp ` set gs"
  shows "below tmp q"
proof -
  from assms(1) have "tempDir (ru_home ru) d = Inr tmp" "tmp \<noteq> ''.''" "tmp \<noteq> [slash]"
    by (simp_all add: run_setting_def run_ready_def)
  with assms(2) below_entry [OF part_name_plain] tempDir_clean show ?thesis
    by (fastforce simp: part_of_def)
qed

lemma Plan_core:
  assumes "core d = core d'"
  shows "Plan d n (accepts_ranges d md) = Plan d' n (accepts_ranges d' md)"
  unfolding Plan_def plan_segment_def [abs_def] accepts_ranges_def core_cong(4) [OF assms] coreD [OF assms]
  by (rule refl)

lemma finish_begin_frame:
  "rn_fs (finish_begin B ru rd w) = rn_fs w" "core (rn_d (finish_begin B ru rd w)) = core (rn_d w)"
  by (simp_all add: finish_begin_def save_copy_core)

text \<open>What a run that could be prepared works on.\<close>

lemma prepared_plan:
  assumes "prepareDownload B ru rd w = (Inr gs, w1)" "rn_d w = d" "announces ru (rd_net rd) body d"
    and "run_ready ru tmp d"
  shows "\<exists>ranges. rn_fs w1 = rn_fs w \<and> core (rn_d w1) = core d \<and> plan_fits d body ranges \<and>
    Plan d (int (length body)) ranges = Inr gs"
proof -
  from prepareDownload_ok [OF assms(1)] assms(2) obtain req md h where
    hd: "d_Request d = Some req" "Head (ru_url ru) (rd_net rd) (ru_timeout ru) req (pickCfg d) = (Some (md, h), None)"
    and w1: "rn_fs w1 = rn_fs w" "core (rn_d w1) = core d"
    and plan: "Plan (rn_d w1) (m_ContentLength md) (accepts_ranges (rn_d w1) md) = Inr gs" by auto
  have fits: "plan_fits d body (accepts_ranges d md)" and ann: "announcing (rd_net rd) body"
    using assms(3) hd by (auto simp: announces_def)
  have plain: "plain_range req (pickCfg d)" using assms(4) hd(1) by (auto simp: run_ready_def)
  have "in64 (int (length body))" using fits by (simp add: plan_fits_def)
  note md = Head_length [OF ann plain this hd(2)] fits
  have "Plan d (int (length body)) (accepts_ranges d md) = Inr gs"
    using plan unfolding md(1) Plan_core [OF w1(2)] .
  with w1 md(2) show ?thesis by blast
qed

text \<open>The merge after the segments.\<close>

lemma merge_after_segments:
  assumes set: "run_setting ru sd evs body tmp out d fs" and fits: "plan_fits d body ranges"
    and plan: "Plan d (int (length body)) ranges = Inr gs" and r: "resumable body tmp gs fs"
    and w1: "rn_fs w1 = fs" "core (rn_d w1) = core d"
    and s: "downloadSegments B ru evs gs w1 = Inr (Some None, w2)"
    and w3: "rn_fs w3 = rn_fs w2" "core (rn_d w3) = core (rn_d w2)"
  shows "\<exists>fs'. MergeSegments fuel no_errors (ru_home ru) (rn_d w3) (rn_fs w3) = Some (Inr (), rn_d w3, fs') \<and>
    map_of fs' out = Some body \<and> (\<forall>p. below tmp p \<longrightarrow> map_of fs' p = None) \<and>
    (\<forall>p. \<not> below tmp p \<longrightarrow> p \<noteq> out \<longrightarrow> p \<noteq> out @ ''.merge.tmp'' \<longrightarrow> map_of fs' p = map_of fs p)"
proof -
  from Plan_segments [OF fits] plan have gs: "gs \<noteq> []" "\<forall>g \<in> set gs. seg_inside body g"
    "concat (map (seg_bytes body) gs) = body" "map s_Index gs = map int [0..<length gs]"
    "int (length gs) \<le> 10 ^ 9" by auto
  have dist: "distinct (map (part_of tmp) gs)" by (rule part_of_distinct [OF gs(4,5)])
  have ready: "run_ready ru tmp (rn_d w1)" using set run_ready_core [OF w1(2)] by (simp add: run_setting_def)
  have len: "in64 (int (length body))" using fits by (simp add: plan_fits_def)
  have steady: "steady body evs" using set by (simp add: run_setting_def)
  have pre: "\<forall>g \<in> set gs. prefix (fs_content (rn_fs w1) (part_of tmp g)) (seg_bytes body g)"
    using r w1(1) by (simp add: resumable_def)
  note dl = downloadSegments_parts [OF s ready gs(2) len dist steady pre]
  have d3: "core (rn_d w3) = core d" using w3(2) dl(3) w1(2) by simp
  have other: "\<forall>n. plain_name n \<and> HasSuffix n ''.part'' \<and> fs_exists (rn_fs w3) (entry tmp n) \<longrightarrow>
      entry tmp n \<in> part_of tmp ` set gs"
    using r dl(2) w3(1) w1(1) unfolding resumable_def fs_exists_map by metis
  have parts: "parts_are (rn_fs w3) tmp (map (seg_bytes body) gs)"
    by (rule parts_are_segments [OF gs(4,5) _ other]) (use dl(1) w3(1) in simp)
  obtain fo where fo: "d_File d = Some fo" "f_Overwrite fo \<or> \<not> fs_exists fs out"
    using set by (auto simp: run_setting_def split: option.splits)
  have outside: "map_of (rn_fs w3) q = map_of fs q" if "\<not> below tmp q" for q
    using dl(2) parts_below [OF set, of q gs] that w3(1) w1(1) by metis
  have set': "tempDir (ru_home ru) (rn_d w3) = Inr tmp" "finalPath (rn_d w3) = Inr out" "d_File (rn_d w3) = Some fo"
    "\<not> fs_exists (rn_fs w3) out \<or> f_Overwrite fo" "tmp \<noteq> ''.''" "tmp \<noteq> [slash]" "\<not> below tmp out"
    "\<not> below tmp (out @ ''.merge.tmp'')"
    using set fo outside [of out]
    by (auto simp: run_setting_def run_ready_def core_cong [OF d3] coreD [OF d3] fs_exists_map)
  have "map (seg_bytes body) gs \<noteq> []" using gs(1) by simp
  from MergeSegments_ok [OF set'(1,2,3) parts this set'(4-8), of fuel] show ?thesis
    unfolding gs(3) using outside by auto
qed

lemma completed_run_file:
  assumes "Run B ru sd evs did w = Some (Inr w')" "d_Status (rn_d w') = StatusCompleted"
    and "GetDownload B (sd_get sd) (rn_db w) did = Inr d"
    and set: "run_setting ru sd evs body tmp out d (rn_fs w)"
    and ann: "announces ru (rd_net (sd_prepare sd)) body d"
    and res: "\<And>gs ranges. Plan d (int (length body)) ranges = Inr gs \<Longrightarrow> resumable body tmp gs (rn_fs w)"
  shows "map_of (rn_fs w') out = Some body \<and> (\<forall>p. below tmp p \<longrightarrow> map_of (rn_fs w') p = None) \<and>
    (\<forall>p. \<not> below tmp p \<longrightarrow> p \<noteq> out \<longrightarrow> p \<noteq> out @ ''.merge.tmp'' \<longrightarrow> map_of (rn_fs w') p = map_of (rn_fs w) p)"
proof -
  from Run_completed [OF assms(1-3)] obtain gs w1 w2 w3 w4 where
    p: "prepareDownload B ru (sd_prepare sd) (w\<lparr>rn_d := d\<rparr>) = (Inr gs, w1)"
    and s: "downloadSegments B ru evs gs w1 = Inr (Some None, w2)"
    and m: "monitor_steps B ru (sd_late sd 0) (finish_begin B ru (sd_begin sd) w2) = Inr w3"
    and v: "merge_and_verify ru (sd_fuel sd) (sd_merge_io sd) (sd_verify_io sd) w3 = Some (Inr (), w4)"
    and f: "rn_fs w' = rn_fs w4" by blast
  have ready: "run_ready ru tmp d" using set by (simp add: run_setting_def)
  from prepared_plan [OF p _ ann ready] obtain ranges where
    w1: "rn_fs w1 = rn_fs w" "core (rn_d w1) = core d" and fits: "plan_fits d body ranges"
    and plan: "Plan d (int (length body)) ranges = Inr gs" by auto
  have w3: "rn_fs w3 = rn_fs w2" "core (rn_d w3) = core (rn_d w2)"
    using monitor_steps_frame [OF m] by (simp_all add: finish_begin_frame)
  from merge_after_segments [OF set fits plan res [OF plan] w1 s w3, of "sd_fuel sd"] obtain fs' where fs':
    "MergeSegments (sd_fuel sd) no_errors (ru_home ru) (rn_d w3) (rn_fs w3) = Some (Inr (), rn_d w3, fs')"
    "map_of fs' out = Some body" "\<forall>p. below tmp p \<longrightarrow> map_of fs' p = None"
    "\<forall>p. \<not> below tmp p \<longrightarrow> p \<noteq> out \<longrightarrow> p \<noteq> out @ ''.merge.tmp'' \<longrightarrow> map_of fs' p = map_of (rn_fs w) p" by blast
  have "rn_fs w4 = fs'"
    using v fs'(1) set by (auto simp: merge_and_verify_def run_setting_def Let_def split: sum.splits)
  with fs' f show ?thesis by auto
qed

section \<open>A run that completes\<close>

text \<open>
  Readings of a round in which nothing goes wrong: the context is live, the operating system and the
  disk work, and the server answers every request.
\<close>

definition smooth :: "runtime \<Rightarrow> Download \<Rightarrow> readings \<Rightarrow> bool" where
  "smooth ru d rd \<longleftrightarrow>
     rd_done rd = None \<and> rd_io rd = no_errors \<and> rd_short rd = None \<and>
     (\<forall>req. d_Request d = Some req \<longrightarrow> answering (ru_url ru) (rd_net rd) req)"

lemma smooth_core: "core d = core d' \<Longrightarrow> smooth ru d rd \<longleftrightarrow> smooth ru d' rd"
  unfolding smooth_def by (drule coreD(3)) simp

lemma Open_smooth:
  assumes "tempDir home d = Inr tmp"
  shows "\<exists>fs'. OpenSegmentWriter no_errors home d g fs =
    (Inr (part_of tmp g, int (length (fs_content fs (part_of tmp g)))), fs')"
proof -
  have "Join [tmp, part_name (s_Index g)] = part_of tmp g"
    unfolding part_of_def by (rule Join_part [OF tempDir_clean [OF assms] part_name_plain])
  with assms show ?thesis
    by (auto simp: OpenSegmentWriter_def Let_def fs_exists_map fs_content_def)
qed

lemma smooth_open:
  assumes "run_ready ru tmp (rn_d w)" "smooth ru d rd"
  shows "\<exists>st w'. seg_step B ru rd (SegNew g) w = Inr (SegTry st, w') \<and> rn_pub w' = rn_pub w"
  using Open_smooth [of "ru_home ru" "rn_d w" tmp g "rn_fs w"] assms
  by (auto simp: seg_step_def run_ready_def smooth_def)

lemma finish_segment_pub:
  "finish_segment B ru rd bytes st w = (ph, w') \<Longrightarrow> rn_pub w' = rn_pub w"
  by (auto simp: finish_segment_def Let_def split: prod.splits)

lemma smooth_write:
  assumes inv: "seg_inv body tmp (rn_fs w) g (SegTry st)" and ready: "run_ready ru tmp (rn_d w)"
    and g: "seg_inside body g" "in64 (int (length body))" and rd: "rd_short rd = None" "rd_io rd = no_errors"
    and served: "serves_range body (sr_start st) (s_End g) code bd cr"
  shows "\<exists>g' w'. write_answer B ru rd code bd st w = Inr (SegEnd g' None, w') \<and> rn_pub w' = rn_pub w"
proof -
  have tmp: "tempDir (ru_home ru) (rn_d w) = Inr tmp" using ready by (simp add: run_ready_def)
  have st: "sr_seg st = g" using inv by (simp add: seg_inv_def)
  from Open_smooth [OF tmp] obtain fs' where o: "OpenSegmentWriter (rd_io rd) (ru_home ru) (rn_d w) g (rn_fs w) =
    (Inr (part_of tmp g, int (length (fs_content (rn_fs w) (part_of tmp g)))), fs')"
    unfolding rd(2) by blast
  from written_segment [OF inv ready g rd(1) served o, of B]
  obtain bytes w1 where w: "write_answer B ru rd code bd st w = Inr (finish_segment B ru rd bytes st w1)"
    "rn_pub w1 = rn_pub w" by blast
  obtain ph w' where f: "finish_segment B ru rd bytes st w1 = (ph, w')" by fastforce
  from finish_segment_facts(1) [OF f] finish_segment_pub [OF f] w f show ?thesis by auto
qed

lemma smooth_get:
  assumes inv: "seg_inv body tmp (rn_fs w) g (SegTry st)" and ready: "run_ready ru tmp (rn_d w)"
    and g: "seg_inside body g" "in64 (int (length body))"
    and rd: "smooth ru (rn_d w) rd" "origin (rd_net rd) body"
  shows "\<exists>g' w'. seg_step B ru rd (SegTry st) w = Inr (SegEnd g' None, w') \<and> rn_pub w' = rn_pub w"
proof -
  have st: "sr_seg st = g" using inv by (simp add: seg_inv_def)
  obtain req where req: "d_Request (rn_d w) = Some req" "plain_range req (pickCfg (rn_d w))"
    using ready by (auto simp: run_ready_def)
  have start: "0 \<le> sr_start st" using inv g(1) by (auto simp: seg_inv_def seg_inside_def)
  obtain waits rl where th: "throttle ru (rd_ck rd) (rn_d w) (safeSpan (s_End g) (sr_start st)) (rn_lim w) = (waits, rl)"
    using throttle_any by blast
  let ?get = "GetRange (ru_url ru) (rd_net rd) (ru_timeout ru) req (pickCfg (rn_d w)) (sr_start st) (s_End g)"
  have "answering (ru_url ru) (rd_net rd) req" using rd(1) req(1) by (simp add: smooth_def)
  then obtain bd md h code where ok: "?get = RangeOk bd md h code" using GetRange_answering by blast
  from tr.get_served [of req "pickCfg (rn_d w)" "rd_net rd" body "sr_start st" "ru_url ru" "ru_timeout ru" "s_End g"]
    req(2) rd(2) start ok
  have served: "serves_range body (sr_start st) (s_End g) code bd (h ''Content-Range'')" by auto
  then have code: "code = 200 \<or> code = 206" by (auto simp: serves_range_def)
  have fit: "\<not> (code = 206 \<and> range_mismatch ru h (sr_start st) (s_End g))"
    using served_range_matches [OF _ start g(2)] served by blast
  let ?w = "w\<lparr>rn_lim := rl\<rparr>" and ?st = "st\<lparr>sr_slept := sr_slept st @ waits\<rparr>"
  have "seg_step B ru rd (SegTry st) w = write_answer B ru rd code bd ?st ?w"
    using rd(1) req(1) th st ok fit code by (auto simp: seg_step_def seg_attempt_def Let_def smooth_def)
  with smooth_write [where w = ?w and st = ?st, of body tmp g ru rd code bd "h ''Content-Range''" B] inv ready g rd(1) served
  show ?thesis by (auto simp: smooth_def)
qed

text \<open>One segment after the other, two rounds each: a schedule for the witnesses.\<close>

definition in_turn :: "(nat \<Rightarrow> readings) \<Rightarrow> nat \<Rightarrow> 's sched list" where
  "in_turn rds n = concat (map (\<lambda>i. [StepSeg i (rds i), StepSeg i (rds i)]) [0..<n])"

lemma in_turn_steady:
  "\<forall>i < n. rd_short (rds i) = None \<and> origin (rd_net (rds i)) body \<Longrightarrow> steady body (in_turn rds n :: 's sched list)"
  by (auto simp: in_turn_def steady_def)

lemma note_error_good [simp]:
  "note_error ph (SegTry st) w = w" "note_error ph (SegEnd g None) w = w"
  by (cases ph; simp add: note_error_def)+

text \<open>
  Schedules in which nothing goes wrong: the goroutines take smooth rounds in any order, the monitor
  receives in between as it likes, and no other part of the process moves.  Two rounds bring a segment
  to its end.
\<close>

fun calm_event :: "runtime \<Rightarrow> string \<Rightarrow> Download \<Rightarrow> 's sched \<Rightarrow> bool" where
  "calm_event ru body d (StepSeg i rd) \<longleftrightarrow> smooth ru d rd \<and> origin (rd_net rd) body"
| "calm_event ru body d (StepMonitor cx ck) \<longleftrightarrow> True"
| "calm_event ru body d (StepOther s p rl) \<longleftrightarrow> False"

fun rounds :: "nat \<Rightarrow> 's sched list \<Rightarrow> nat" where
  "rounds i [] = 0"
| "rounds i (StepSeg j rd # evs) = (if i = j then Suc (rounds i evs) else rounds i evs)"
| "rounds i (ev # evs) = rounds i evs"

fun seg_rank :: "seg_phase \<Rightarrow> nat" where
  "seg_rank (SegNew g) = 0"
| "seg_rank (SegTry st) = 1"
| "seg_rank (SegEnd g e) = 2"

lemma calm_core:
  fixes evs :: "'s sched list"
  assumes "core d = core d'" shows "list_all (calm_event ru body d) evs \<longleftrightarrow> list_all (calm_event ru body d') evs"
proof -
  have "calm_event ru body d ev = calm_event ru body d' ev" for ev :: "'s sched"
    using smooth_core [OF assms] by (cases ev) simp_all
  then show ?thesis by (simp add: list_all_iff)
qed

lemma calm_steady: "list_all (calm_event ru body d) evs \<Longrightarrow> steady body evs"
  by (fastforce simp: list_all_iff steady_def smooth_def)

lemma calm_alone: "list_all (calm_event ru body d) evs \<Longrightarrow> \<forall>s p rl. StepOther s p rl \<notin> set evs"
  by (fastforce simp: list_all_iff)

lemma monitor_step_returns:
  assumes "publisher_ok (rn_pub w)"
  shows "\<exists>w'. monitor_step B ru cx ck w = Inr w' \<and> publisher_ok (rn_pub w')"
proof (cases "rn_progress w")
  case (Cons got rest)
  have "\<exists>w'. run_publish now ty dat w1 = Inr w' \<and> publisher_ok (rn_pub w')"
    if "rn_pub w1 = rn_pub w" for now ty dat and w1 :: "'a rstate"
    using bus.pub_returns [OF assms, of "\<lparr>ev_Type = ty, ev_Download = rn_d w1, ev_Timestamp = now, ev_Data = dat\<rparr>"] that
    by (auto simp: run_publish_def)
  with Cons show ?thesis by (simp add: monitor_step_def Let_def)
qed (use assms in \<open>simp add: monitor_step_def\<close>)

lemma monitor_steps_return:
  assumes "publisher_ok (rn_pub w)"
  shows "\<exists>w'. monitor_steps B ru ms w = Inr w' \<and> publisher_ok (rn_pub w')"
  using assms
proof (induction ms arbitrary: w)
  case (Cons m ms)
  obtain cx ck where m: "m = (cx, ck)" by (cases m)
  from monitor_step_returns [OF Cons.prems] obtain w1 where
    "monitor_step B ru cx ck w = Inr w1" "publisher_ok (rn_pub w1)" by blast
  with Cons.IH [of w1] m show ?case by simp
qed simp

text \<open>One smooth round of a segment that has not failed.\<close>

lemma smooth_round:
  assumes inv: "seg_inv body tmp (rn_fs w) g ph" "\<not> failed_phase ph" and ready: "run_ready ru tmp (rn_d w)"
    and g: "seg_inside body g" "in64 (int (length body))"
    and rd: "smooth ru (rn_d w) rd" "origin (rd_net rd) body"
  shows "\<exists>ph' w'. seg_step B ru rd ph w = Inr (ph', w') \<and> rn_pub w' = rn_pub w \<and> rn_errs w' = rn_errs w \<and>
    \<not> failed_phase ph' \<and> min 2 (Suc (seg_rank ph)) \<le> seg_rank ph'"
proof -
  have "\<exists>ph' w'. seg_step B ru rd ph w = Inr (ph', w') \<and> rn_pub w' = rn_pub w \<and>
      \<not> failed_phase ph' \<and> min 2 (Suc (seg_rank ph)) \<le> seg_rank ph'"
  proof (cases ph)
    case (SegNew g')
    with smooth_open [OF ready rd(1), of B g'] show ?thesis by (fastforce simp: failed_phase_def)
  next
    case (SegTry st)
    with inv(1) smooth_get [OF _ ready g rd, of st B] show ?thesis by (fastforce simp: failed_phase_def)
  next
    case (SegEnd g' e)
    with inv(2) show ?thesis by (auto simp: seg_step_def failed_phase_def)
  qed
  then obtain ph' w' where s: "seg_step B ru rd ph w = Inr (ph', w')" "rn_pub w' = rn_pub w"
    "\<not> failed_phase ph'" "min 2 (Suc (seg_rank ph)) \<le> seg_rank ph'" by blast
  moreover have "rn_errs w' = rn_errs w"
    using seg_step_facts [OF inv(1) ready g _ rd(2) s(1)] rd(1) by (simp add: smooth_def)
  ultimately show ?thesis by blast
qed

text \<open>In a calm schedule no step fails, and every round counts.\<close>

lemma calm_runs:
  assumes ready: "run_ready ru tmp d" and gs: "\<forall>g \<in> set gs. seg_inside body g" "in64 (int (length body))"
    "distinct (map (part_of tmp) gs)"
    and "list_all (calm_event ru body d) evs" "parts_inv body tmp gs fs d phs w" "rn_errs w = []" "publisher_ok (rn_pub w)"
  shows "\<exists>phs' w'. run_segments B ru evs phs w = Inr (phs', w') \<and> parts_inv body tmp gs fs d phs' w' \<and>
    rn_errs w' = [] \<and> publisher_ok (rn_pub w') \<and>
    (\<forall>i < length gs. min 2 (seg_rank (phs ! i) + rounds i evs) \<le> seg_rank (phs' ! i))"
  using assms(5-8)
proof (induction evs arbitrary: phs w)
  case (Cons ev evs)
  have calm: "calm_event ru body d ev" "list_all (calm_event ru body d) evs" using Cons.prems(1) by simp_all
  have len: "length phs = length gs" and core: "core (rn_d w) = core d"
    using Cons.prems(2) by (simp_all add: parts_inv_def)
  show ?case
  proof (cases ev)
    case (StepSeg i rd)
    with calm(1) have rd: "smooth ru d rd" "origin (rd_net rd) body" by simp_all
    show ?thesis
    proof (cases "i < length gs")
      case True
      then have i: "i < length phs" using len by simp
      have inv: "seg_inv body tmp (rn_fs w) (gs ! i) (phs ! i)" "\<not> failed_phase (phs ! i)"
        using Cons.prems(2,3) True i by (auto simp: parts_inv_def)
      have ready': "run_ready ru tmp (rn_d w)" "smooth ru (rn_d w) rd"
        using ready rd(1) run_ready_core [OF core] smooth_core [OF core] by simp_all
      have "seg_inside body (gs ! i)" using gs(1) True by simp
      from smooth_round [OF inv ready'(1) this gs(2) ready'(2) rd(2), of B] obtain ph w1 where
        s: "seg_step B ru rd (phs ! i) w = Inr (ph, w1)" "rn_pub w1 = rn_pub w" "rn_errs w1 = rn_errs w"
          "\<not> failed_phase ph" "min 2 (Suc (seg_rank (phs ! i))) \<le> seg_rank ph" by blast
      have short: "rd_short rd = None" using rd(1) by (simp add: smooth_def)
      have quiet: "note_error (phs ! i) ph w1 = w1"
        using s(4) by (auto simp: note_error_def failed_phase_def split: seg_phase.splits option.splits)
      from parts_inv_step [OF Cons.prems(2) i ready gs short rd(2) s(1)] quiet
      have "parts_inv body tmp gs fs d (phs[i := ph]) w1" by simp
      from Cons.IH [OF calm(2) this] s(2,3) Cons.prems(3,4) obtain phs' w' where
        r: "run_segments B ru evs (phs[i := ph]) w1 = Inr (phs', w')" "parts_inv body tmp gs fs d phs' w'"
          "rn_errs w' = []" "publisher_ok (rn_pub w')"
          "\<forall>k < length gs. min 2 (seg_rank (phs[i := ph] ! k) + rounds k evs) \<le> seg_rank (phs' ! k)" by auto
      have "min 2 (seg_rank (phs ! k) + rounds k (ev # evs)) \<le> seg_rank (phs' ! k)" if "k < length gs" for k
      proof (cases "k = i")
        case True
        with r(5) that i s(5) StepSeg show ?thesis by fastforce
      next
        case False
        with r(5) that StepSeg show ?thesis by (metis nth_list_update_neq rounds.simps(2))
      qed
      with r(1-4) s(1) quiet i StepSeg show ?thesis by auto
    next
      case False
      with Cons.IH [OF calm(2) Cons.prems(2-4)] StepSeg len show ?thesis by fastforce
    qed
  next
    case (StepMonitor cx ck)
    from monitor_step_returns [OF Cons.prems(4)] obtain w1 where
      m: "monitor_step B ru cx ck w = Inr w1" "publisher_ok (rn_pub w1)" by blast
    have "parts_inv body tmp gs fs d phs w1" "rn_errs w1 = []"
      using Cons.prems(2,3) monitor_step_frame [OF m(1)] by (simp_all add: parts_inv_def)
    from Cons.IH [OF calm(2) this m(2)] m(1) StepMonitor show ?thesis by auto
  next
    case (StepOther s p rl)
    with calm(1) show ?thesis by simp
  qed
qed simp

text \<open>The last part of a run, when the merge has succeeded and no checksum is asked for.\<close>

lemma finish_complete_status:
  assumes "publisher_ok (rn_pub w)"
  shows "\<exists>w'. finish_complete B ru rd w = Inr w' \<and> d_Status (rn_d w') = StatusCompleted \<and> rn_fs w' = rn_fs w \<and>
    publisher_ok (rn_pub w')"
proof -
  let ?w = "w\<lparr>rn_d := (rn_d w)\<lparr>d_Status := StatusCompleted, d_UpdatedAt := rd_ck rd 0, d_CompletedAt := Some (rd_ck rd 0)\<rparr>\<rparr>"
  let ?s = "snd (save_copy B ru (rd_cx rd) (skip 2 (rd_ck rd)) ?w)"
  have status: "d_Status (rn_d ?s) = StatusCompleted"
    by (cases "UpdateDownload B (ru_lib ru) (rd_cx rd) (skip 2 (rd_ck rd)) (rn_db ?w) (rn_d ?w)")
      (auto simp: save_copy_def split: sum.splits dest: UpdateDownload_copy)
  have frame: "rn_pub ?s = rn_pub w" "rn_fs ?s = rn_fs w" by simp_all
  from bus.pub_returns [OF assms] obtain p where
    "Publish (rn_pub w) \<lparr>ev_Type = EventCompleted, ev_Download = rn_d ?s, ev_Timestamp = rd_ck rd 1, ev_Data = NoData\<rparr> = Inr p"
    "publisher_ok p" by blast
  from this(1) have "run_publish (rd_ck rd 1) EventCompleted NoData ?s = Inr (?s\<lparr>rn_pub := p\<rparr>)"
    unfolding run_publish_def frame(1) by simp
  then have "finish_complete B ru rd w = Inr (?s\<lparr>rn_pub := p\<rparr>)"
    unfolding finish_complete_def Let_def .
  with status frame(2) \<open>publisher_ok p\<close> show ?thesis by simp
qed

lemma no_checksum:
  "d_File d = Some f \<Longrightarrow> f_Checksum f = [] \<Longrightarrow> VerifyChecksum L io digest d fs = Inr True"
  by (simp add: VerifyChecksum_def)

lemma smooth_run:
  fixes B :: "'s badger" and evs :: "'s sched list"
  assumes get: "GetDownload B (sd_get sd) (rn_db w) did = Inr d"
    and prep: "prepareDownload B ru (sd_prepare sd) (w\<lparr>rn_d := d\<rparr>) = (Inr gs, w1)"
    and ann: "announces ru (rd_net (sd_prepare sd)) body d"
    and set: "run_setting ru sd evs body tmp out d (rn_fs w)"
    and res: "resumable body tmp gs (rn_fs w)"
    and calm: "list_all (calm_event ru body d) evs" and two: "\<forall>i < length gs. 2 \<le> rounds i evs"
    and pub: "publisher_ok (rn_pub w1)" and opts: "d_File d = Some f" "f_Checksum f = []"
  shows "\<exists>w'. Run B ru sd evs did w = Some (Inr w') \<and>
    d_Status (rn_d w') = StatusCompleted \<and> map_of (rn_fs w') out = Some body"
proof -
  have ready: "run_ready ru tmp d" using set by (simp add: run_setting_def)
  from prepared_plan [OF prep _ ann ready] obtain ranges where
    w1: "rn_fs w1 = rn_fs w" "core (rn_d w1) = core d" and fits: "plan_fits d body ranges"
    and plan: "Plan d (int (length body)) ranges = Inr gs" by auto
  from Plan_segments [OF fits] plan have gs: "\<forall>g \<in> set gs. seg_inside body g"
    "map s_Index gs = map int [0..<length gs]" "int (length gs) \<le> 10 ^ 9" by auto
  have len: "in64 (int (length body))" using fits by (simp add: plan_fits_def)
  let ?w1 = "w1\<lparr>rn_progress := [], rn_errs := []\<rparr>"
  have inv: "parts_inv body tmp gs (rn_fs w) d (map SegNew gs) ?w1" "rn_errs ?w1 = []" "publisher_ok (rn_pub ?w1)"
    using res w1 pub by (auto simp: parts_inv_def seg_inv_def failed_phase_def resumable_def)
  from calm_runs [OF ready gs(1) len part_of_distinct [OF gs(2,3)] calm inv, of B]
  obtain phs w2 where run: "run_segments B ru evs (map SegNew gs) ?w1 = Inr (phs, w2)"
    "parts_inv body tmp gs (rn_fs w) d phs w2" "rn_errs w2 = []" "publisher_ok (rn_pub w2)"
    "\<forall>i < length gs. min 2 (seg_rank (map SegNew gs ! i) + rounds i evs) \<le> seg_rank (phs ! i)" by blast
  have "length phs = length gs" using run(2) by (simp add: parts_inv_def)
  moreover have "seg_ended (phs ! i)" if "i < length gs" for i
  proof -
    from that two have "2 \<le> rounds i evs" by blast
    moreover from that run(5) have "min 2 (seg_rank (map SegNew gs ! i) + rounds i evs) \<le> seg_rank (phs ! i)" by blast
    ultimately show ?thesis using that by (cases "phs ! i") simp_all
  qed
  ultimately have "list_all seg_ended phs" by (simp add: list_all_length)
  with run(1,3) have segments: "downloadSegments B ru evs gs w1 = Inr (Some None, w2)"
    by (simp add: downloadSegments_def)
  let ?b = "finish_begin B ru (sd_begin sd) w2"
  have "publisher_ok (rn_pub ?b)" using run(4) by (simp add: finish_begin_def)
  from monitor_steps_return [OF this] obtain w3 where m: "monitor_steps B ru (sd_late sd 0) ?b = Inr w3"
    "publisher_ok (rn_pub w3)" by blast
  have w3: "rn_fs w3 = rn_fs w2" "core (rn_d w3) = core (rn_d w2)"
    using monitor_steps_frame [OF m(1)] by (simp_all add: finish_begin_frame)
  from merge_after_segments [OF set fits plan res w1 segments w3, of "sd_fuel sd"] obtain fs' where
    merged: "MergeSegments (sd_fuel sd) no_errors (ru_home ru) (rn_d w3) (rn_fs w3) = Some (Inr (), rn_d w3, fs')"
    "map_of fs' out = Some body" by auto
  have core3: "core (rn_d w3) = core d" using run(2) w3(2) by (simp add: parts_inv_def)
  have "VerifyChecksum (ru_lib ru) (sd_verify_io sd) (ru_digest ru) (rn_d w3) fs' = Inr True"
    by (rule no_checksum [OF _ opts(2)]) (use coreD [OF core3] opts(1) in simp)
  with merged(1) set have mv: "merge_and_verify ru (sd_fuel sd) (sd_merge_io sd) (sd_verify_io sd) w3 =
      Some (Inr (), w3\<lparr>rn_d := rn_d w3, rn_fs := fs'\<rparr>)"
    by (simp add: merge_and_verify_def run_setting_def Let_def)
  let ?w4 = "w3\<lparr>rn_d := rn_d w3, rn_fs := fs'\<rparr>"
  have "publisher_ok (rn_pub ?w4)" using m(2) by simp
  from monitor_steps_return [OF this] obtain w5 where l: "monitor_steps B ru (sd_late sd 1) ?w4 = Inr w5"
    "publisher_ok (rn_pub w5)" by blast
  from finish_complete_status [OF l(2), of B ru "sd_complete sd"] obtain w6 where
    fin: "finish_complete B ru (sd_complete sd) w5 = Inr w6" "d_Status (rn_d w6) = StatusCompleted"
      "rn_fs w6 = rn_fs w5" "publisher_ok (rn_pub w6)" by auto
  from monitor_steps_return [OF fin(4)] obtain w' where e: "monitor_steps B ru (sd_late sd 2) w6 = Inr w'" by blast
  have "finalizeDownload B ru sd w2 = Some (Inr w')"
    using m(1) mv l(1) fin(1) e by (simp add: finalizeDownload_def)
  then have "Run B ru sd evs did w = Some (Inr w')"
    using get prep segments by (simp add: Run_def)
  moreover have "rn_fs w' = fs'" using monitor_steps_frame [OF e] monitor_steps_frame [OF l(1)] fin(3) by simp
  ultimately show ?thesis using fin(2) monitor_steps_status [OF e] merged(2) by simp
qed

section \<open>Properties\<close>

definition demo_surroundings :: surroundings where
  "demo_surroundings =
     \<lparr>sd_get = live, sd_prepare = demo_readings, sd_fail = demo_readings, sd_begin = demo_readings,
      sd_merge_io = no_errors, sd_verify_io = no_errors, sd_complete = demo_readings,
      sd_late = (\<lambda>j. []), sd_fuel = 1\<rparr>"

definition demo_segments :: "Segment list" where
  "demo_segments = (case Plan demo_run_download 5 True of Inr gs \<Rightarrow> gs | Inl e \<Rightarrow> [])"

definition demo_prepared :: "mem rstate" where
  "demo_prepared = snd (prepareDownload mem_badger demo_runtime demo_readings demo_state)"

lemma demo_get: "GetDownload mem_badger (sd_get demo_surroundings) (rn_db demo_state) ''a1'' = Inr demo_run_download"
  by code_simp

lemma demo_prepare:
  "prepareDownload mem_badger demo_runtime demo_readings demo_state = (Inr demo_segments, demo_prepared)"
proof -
  have "fst (prepareDownload mem_badger demo_runtime demo_readings demo_state) = Inr demo_segments"
    by code_simp
  then show ?thesis by (simp add: demo_prepared_def prod_eq_iff)
qed

lemma demo_announcing: "announcing demo_net ''hello''"
proof -
  have "hdr_get (hp_Header demo_answer) ''Content-Length'' = FormatInt 5"
    "hdr_get (hp_Header demo_answer) ''Content-Range'' = []" by code_simp+
  then have "announced ''hello'' demo_answer" by (simp add: announced_def)
  then show ?thesis by (auto simp: announcing_def demo_net_def)
qed

lemma demo_announces: "announces demo_runtime (rd_net demo_readings) ''hello'' demo_run_download"
proof -
  have "max_conns demo_run_download = 2" by code_simp
  with demo_announcing show ?thesis by (auto simp: announces_def plan_fits_def demo_readings_def in64_def)
qed

lemma demo_smooth: "smooth demo_runtime demo_run_download demo_readings"
proof -
  have "answering demo_urllib demo_net (zero_RequestOptions\<lparr>r_URL := ''http://h/f''\<rparr>)"
    by (simp add: answering_def demo_net_def demo_answer_def withMirrors_def demo_urllib_def Let_def
        zero_RequestOptions_def)
  then show ?thesis by (simp add: smooth_def demo_readings_def demo_runtime_def demo_run_download_def)
qed

lemma demo_rounds: "\<forall>i < n. smooth demo_runtime demo_run_download demo_readings \<and> origin (rd_net demo_readings) ''hello''"
  using demo_smooth demo_origin by (simp add: demo_readings_def)

lemma demo_file: "d_File demo_run_download = Some (zero_FileOptions\<lparr>f_Path := ''/out'', f_Filename := ''f.iso'',
    f_TempDir := ''/tmp''\<rparr>)"
  by (simp add: demo_run_download_def)

lemma demo_setting:
  "run_setting demo_runtime demo_surroundings (in_turn (\<lambda>i. demo_readings) n) ''hello'' ''/tmp/a1'' ''/out/f.iso''
     demo_run_download (rn_fs demo_state)"
proof -
  have "finalPath demo_run_download = Inr ''/out/f.iso''" by code_simp
  moreover have "steady ''hello'' (in_turn (\<lambda>i. demo_readings) n)"
    by (rule in_turn_steady) (simp add: demo_readings_def demo_origin)
  ultimately show ?thesis
    using demo_run_ready
    by (simp add: run_setting_def demo_run_download_def demo_state_def fs_exists_def below_def slash_def
        demo_surroundings_def)
qed

lemma demo_resumable: "resumable body tmp gs (rn_fs demo_state)"
  by (simp add: resumable_def demo_state_def fs_content_def fs_exists_def)

lemma demo_prepared_pub: "publisher_ok (rn_pub demo_prepared)"
  using prepareDownload_ok [OF demo_prepare] NewInMemoryPublisher_ready
  by (auto simp: demo_state_def pub_ready_def)

lemma demo_completes:
  "\<exists>w'. Run mem_badger demo_runtime demo_surroundings (in_turn (\<lambda>i. demo_readings) 2) ''a1'' demo_state =
     Some (Inr w') \<and> d_Status (rn_d w') = StatusCompleted \<and> map_of (rn_fs w') ''/out/f.iso'' = Some ''hello''"
proof -
  have n: "length demo_segments = 2" by code_simp
  have prep: "prepareDownload mem_badger demo_runtime demo_readings (demo_state\<lparr>rn_d := demo_run_download\<rparr>) =
      (Inr demo_segments, demo_prepared)"
    using demo_prepare by (simp add: demo_state_def)
  have s: "sd_prepare demo_surroundings = demo_readings" by (simp add: demo_surroundings_def)
  have calm: "list_all (calm_event demo_runtime ''hello'' demo_run_download) (in_turn (\<lambda>i. demo_readings) 2 :: mem sched list)"
    using demo_smooth demo_origin by (simp add: in_turn_def upt_rec demo_readings_def)
  have two: "\<forall>i < length demo_segments. 2 \<le> rounds i (in_turn (\<lambda>i. demo_readings) 2 :: mem sched list)"
    unfolding n by (auto simp: in_turn_def upt_rec less_Suc_eq numeral_2_eq_2)
  show ?thesis
    using smooth_run [where sd = demo_surroundings and w = demo_state and B = mem_badger and ru = demo_runtime,
        unfolded s, OF demo_get prep demo_announces demo_setting demo_resumable calm two demo_prepared_pub demo_file]
    by (simp add: zero_FileOptions_def)
qed


text \<open>
  C1.  A run that ends as completed has restored the file, under these conditions: the servers serve one
  file (an answer is an error status, the whole file, or the range that was asked for, never one that
  breaks off) and announce its length; it is not empty and, when it is planned in ranges, has at least as
  many bytes as there are connections; no size limit is set and no header of the request replaces the
  range; writes to a part are complete or fail at its opening; the merge meets no I/O error; the target is
  free or may be overwritten and lies outside the temporary directory; and the parts that were there are the
  beginnings of their segments.  Then in every interleaving of the goroutines with each other, the monitor
  and the rest of the process, with any refused requests in between, the target holds exactly the bytes of
  the file, the temporary directory is gone and no other file but \<open>out.merge.tmp\<close> has changed.
\<close>

theorem run_restores_file:
  assumes "Run B ru sd evs did w = Some (Inr w')" "d_Status (rn_d w') = StatusCompleted"
    and "GetDownload B (sd_get sd) (rn_db w) did = Inr d"
    and "tempDir (ru_home ru) d = Inr tmp" "finalPath d = Inr out"
    and "tmp \<noteq> ''.''" "tmp \<noteq> [slash]" "\<not> below tmp out" "\<not> below tmp (out @ ''.merge.tmp'')"
    and "d_File d = Some f" "f_MaxFileSize f \<le> 0" "f_Overwrite f \<or> \<not> fs_exists (rn_fs w) out"
    and "d_Request d = Some req" "plain_range req (pickCfg d)"
    and "body \<noteq> []" "in64 (int (length body))" "announcing (rd_net (sd_prepare sd)) body"
    and "\<And>md h. Head (ru_url ru) (rd_net (sd_prepare sd)) (ru_timeout ru) req (pickCfg d) = (Some (md, h), None) \<Longrightarrow>
      accepts_ranges d md \<Longrightarrow> max_conns d \<le> int (length body) \<and> max_conns d \<le> 10 ^ 9"
    and "\<And>i rd. StepSeg i rd \<in> set evs \<Longrightarrow> rd_short rd = None \<and> origin (rd_net rd) body"
    and "sd_merge_io sd = no_errors"
    and "\<And>gs ranges. Plan d (int (length body)) ranges = Inr gs \<Longrightarrow> resumable body tmp gs (rn_fs w)"
  shows "map_of (rn_fs w') out = Some body \<and> (\<forall>p. below tmp p \<longrightarrow> map_of (rn_fs w') p = None) \<and>
    (\<forall>p. \<not> below tmp p \<longrightarrow> p \<noteq> out \<longrightarrow> p \<noteq> out @ ''.merge.tmp'' \<longrightarrow> map_of (rn_fs w') p = map_of (rn_fs w) p)"
proof (rule completed_run_file [OF assms(1-3) _ _ assms(21)])
  show "run_setting ru sd evs body tmp out d (rn_fs w)"
    using assms(4-14,19,20) by (auto simp: run_setting_def run_ready_def unlimited_size_def steady_def)
  show "announces ru (rd_net (sd_prepare sd)) body d"
    using assms(13,15-18) by (auto simp: announces_def plan_fits_def)
qed

theorem run_restores_file_witness:
  "\<exists>w'. Run mem_badger demo_runtime demo_surroundings (in_turn (\<lambda>i. demo_readings) 2) ''a1'' demo_state =
     Some (Inr w') \<and> map_of (rn_fs w') ''/out/f.iso'' = Some ''hello'' \<and>
     map_of (rn_fs w') ''/tmp/a1/000000000.part'' = None"
proof -
  from demo_completes obtain w' where r:
    "Run mem_badger demo_runtime demo_surroundings (in_turn (\<lambda>i. demo_readings) 2) ''a1'' demo_state = Some (Inr w')"
    "d_Status (rn_d w') = StatusCompleted" by blast
  let ?evs = "in_turn (\<lambda>i. demo_readings) 2 :: mem sched list"
  let ?req = "zero_RequestOptions\<lparr>r_URL := ''http://h/f''\<rparr>"
  have set: "run_setting demo_runtime demo_surroundings ?evs ''hello'' ''/tmp/a1'' ''/out/f.iso''
      demo_run_download (rn_fs demo_state)" by (rule demo_setting)
  have req: "d_Request demo_run_download = Some ?req" by (simp add: demo_run_download_def)
  have paths: "tempDir (ru_home demo_runtime) demo_run_download = Inr ''/tmp/a1''"
    "finalPath demo_run_download = Inr ''/out/f.iso''" "''/tmp/a1'' \<noteq> ''.''" "''/tmp/a1'' \<noteq> [slash]"
    "\<not> below ''/tmp/a1'' ''/out/f.iso''" "\<not> below ''/tmp/a1'' (''/out/f.iso'' @ ''.merge.tmp'')"
    "sd_merge_io demo_surroundings = no_errors"
    and free: "\<not> fs_exists (rn_fs demo_state) ''/out/f.iso''" and plain: "plain_range ?req (pickCfg demo_run_download)"
    using set req by (simp_all add: run_setting_def run_ready_def demo_state_def fs_exists_def)
  have nolimit: "f_MaxFileSize (zero_FileOptions\<lparr>f_Path := ''/out'', f_Filename := ''f.iso'', f_TempDir := ''/tmp''\<rparr>) \<le> 0"
    by (simp add: zero_FileOptions_def)
  have conns: "max_conns demo_run_download = 2" by code_simp
  have b: "below ''/tmp/a1'' ''/tmp/a1/000000000.part''" by code_simp
  have "map_of (rn_fs w') ''/out/f.iso'' = Some ''hello'' \<and>
      (\<forall>p. below ''/tmp/a1'' p \<longrightarrow> map_of (rn_fs w') p = None) \<and>
      (\<forall>p. \<not> below ''/tmp/a1'' p \<longrightarrow> p \<noteq> ''/out/f.iso'' \<longrightarrow> p \<noteq> ''/out/f.iso'' @ ''.merge.tmp'' \<longrightarrow>
        map_of (rn_fs w') p = map_of (rn_fs demo_state) p)"
  proof (rule run_restores_file [OF r demo_get paths(1-6) demo_file nolimit _ req plain _ _ _ _ _ paths(7)])
    show "rd_short rd = None \<and> origin (rd_net rd) ''hello''" if "StepSeg i rd \<in> set ?evs" for i rd
      using that demo_rounds [of 1] by (auto simp: in_turn_def smooth_def)
  qed (use free conns demo_announcing demo_resumable in \<open>auto simp: in64_def demo_surroundings_def demo_readings_def\<close>)
  with r(1) b show ?thesis by blast
qed

text \<open>
  C3.  At any moment while a run fetches its segments, wherever its schedule is cut off, each part holds
  the beginning of its segment, there is no other part and no other file has changed: a later run can take
  the parts up.  The cut may come in mid body: the last round of a segment may get an answer that breaks off
  after any number of bytes, or write only some of them, provided that its goroutine finds the context done
  after it.  The rounds before are whole (an error, or an answer that is complete and completely written):
  a retry after a broken answer in the same run duplicates bytes, \<open>broken_answer_duplicates\<close>.  No size limit
  is set and no header of the request replaces the range.  Preparing and merging are not covered.
\<close>

theorem interrupted_run_resumes:
  assumes "run_segments B ru evs (map SegNew gs) w = Inr (phs, w')"
    and "tempDir (ru_home ru) (rn_d w) = Inr tmp" "unlimited_size (rn_d w)"
    and "d_Request (rn_d w) = Some req" "plain_range req (pickCfg (rn_d w))"
    and "\<forall>g \<in> set gs. seg_inside body g" "in64 (int (length body))" "distinct (map (part_of tmp) gs)"
    and "cut_off body evs" "resumable body tmp gs (rn_fs w)"
  shows "resumable body tmp gs (rn_fs w') \<and> (\<forall>q. q \<notin> part_of tmp ` set gs \<longrightarrow> map_of (rn_fs w') q = map_of (rn_fs w) q)"
proof -
  have ready: "run_ready ru tmp (rn_d w)" using assms(2-5) by (simp add: run_ready_def)
  have "\<forall>i < length gs. seg_safe body tmp (rn_fs w) (gs ! i) (map SegNew gs ! i) (quits i evs)"
    using assms(10) by (simp add: seg_safe_def seg_inv_def resumable_def)
  from run_segments_cut [OF _ this ready assms(6-9,1)]
  have pre: "\<forall>g \<in> set gs. prefix (fs_content (rn_fs w') (part_of tmp g)) (seg_bytes body g)"
    and other: "\<And>q. q \<notin> part_of tmp ` set gs \<Longrightarrow> map_of (rn_fs w') q = map_of (rn_fs w) q" by auto
  have "entry tmp n \<in> part_of tmp ` set gs"
    if "plain_name n" "HasSuffix n ''.part''" "fs_exists (rn_fs w') (entry tmp n)" for n
  proof (rule ccontr)
    assume no: "entry tmp n \<notin> part_of tmp ` set gs"
    with that other [OF no] assms(10) show False by (auto simp: resumable_def fs_exists_map)
  qed
  with pre other show ?thesis by (auto simp: resumable_def)
qed

definition demo_broken :: readings where
  "demo_broken = demo_readings\<lparr>rd_net := (\<lambda>k cl r. Inr (demo_answer\<lparr>hp_Body := (''h'', Some ErrUnexpectedEOF)\<rparr>))\<rparr>"

lemma demo_broken_cut: "origin_cut (rd_net demo_broken) ''hello''"
  by (auto simp: origin_cut_def demo_broken_def demo_answer_def serves_cut_def serves_range_def)

theorem interrupted_run_resumes_witness:
  "\<exists>phs w'. run_segments mem_badger demo_runtime
       [StepSeg 0 demo_readings, StepSeg 1 demo_readings, StepSeg 1 demo_readings, StepSeg 0 demo_broken]
       (map SegNew demo_segments) demo_state = Inr (phs, w') \<and>
     fs_content (rn_fs w') ''/tmp/a1/000000000.part'' = ''h'' \<and>
     resumable ''hello'' ''/tmp/a1'' demo_segments (rn_fs w')"
proof -
  let ?evs = "[StepSeg 0 demo_readings, StepSeg 1 demo_readings, StepSeg 1 demo_readings, StepSeg 0 demo_broken]
    :: mem sched list"
  have gs: "\<forall>g \<in> set demo_segments. seg_inside ''hello'' g" "distinct (map (part_of ''/tmp/a1'') demo_segments)"
    by code_simp+
  have "(case run_segments mem_badger demo_runtime ?evs (map SegNew demo_segments) demo_state of
      Inr (phs, w) \<Rightarrow> fs_content (rn_fs w) ''/tmp/a1/000000000.part'' = ''h'' | Inl e \<Rightarrow> False)" by code_simp
  then obtain phs w' where r: "run_segments mem_badger demo_runtime ?evs (map SegNew demo_segments) demo_state = Inr (phs, w')"
    "fs_content (rn_fs w') ''/tmp/a1/000000000.part'' = ''h''"
    by (cases "run_segments mem_badger demo_runtime ?evs (map SegNew demo_segments) demo_state") auto
  have d: "rn_d demo_state = demo_run_download" by (simp add: demo_state_def)
  have ready: "tempDir (ru_home demo_runtime) (rn_d demo_state) = Inr ''/tmp/a1''" "unlimited_size (rn_d demo_state)"
    using demo_run_ready by (simp_all add: d run_ready_def)
  obtain req where req: "d_Request (rn_d demo_state) = Some req" "plain_range req (pickCfg (rn_d demo_state))"
    using demo_run_ready by (auto simp: d run_ready_def)
  have "cut_off ''hello'' ?evs"
    using demo_origin demo_broken_cut by (auto simp: demo_readings_def quits_def)
  from interrupted_run_resumes [OF r(1) ready req gs(1) _ gs(2) this demo_resumable] r show ?thesis
    by (auto simp: in64_def)
qed

end
