(* ===== verification/Service_Lifecycle.thy ===== *)
theory Service_Lifecycle
  imports Service_Laws
begin

text \<open>
  Starting, pausing, resuming, cancelling and the end of runs in \<open>internal/service/download.go\<close>.  The
  first part gives the effect of each operation run on its own; the second is a step relation in which
  the sections under the mutex of any number of calls interleave, with the invariant of the map of
  cancel functions.
\<close>

section \<open>The operations one at a time\<close>

lemma sv_updates [svc_simps]:
  "sv_cancels (spawn_run did sv) = (sv_cancels sv)(did \<mapsto> length (sv_runs sv))"
  "sv_runs (spawn_run did sv) = sv_runs sv @ [\<lparr>run_of = did, run_live = True, run_done = False\<rparr>]"
  "sv_db (spawn_run did sv) = sv_db sv" "sv_pub (spawn_run did sv) = sv_pub sv"
  "sv_lim (spawn_run did sv) = sv_lim sv"
  "sv_cancels (finish_run r sv) = (sv_cancels sv)(run_of (sv_runs sv ! r) := None)"
  "sv_runs (finish_run r sv) = (sv_runs sv)[r := (sv_runs sv ! r)\<lparr>run_done := True\<rparr>]"
  "sv_db (finish_run r sv) = sv_db sv" "sv_pub (finish_run r sv) = sv_pub sv"
  by (simp_all add: spawn_run_def finish_run_def)

lemma cancel_run_sel [svc_simps]:
  "sv_db (cancel_run did sv) = sv_db sv" "sv_pub (cancel_run did sv) = sv_pub sv"
  "sv_lim (cancel_run did sv) = sv_lim sv"
  "sv_cancels (cancel_run did sv) = (sv_cancels sv)(did := None)"
  "length (sv_runs (cancel_run did sv)) = length (sv_runs sv)"
  by (auto simp: cancel_run_def fun_eq_iff split: option.splits)

lemma cancel_run_runs:
  "sv_runs (cancel_run did sv) =
     (case sv_cancels sv did of None \<Rightarrow> sv_runs sv
      | Some r \<Rightarrow> (sv_runs sv)[r := (sv_runs sv ! r)\<lparr>run_live := False\<rparr>])"
  by (simp add: cancel_run_def split: option.splits)

lemma updateStatus_frame [svc_simps]:
  "sv_cancels (snd (updateStatus B L cx ck did st mutate sv)) = sv_cancels sv"
  "sv_runs (snd (updateStatus B L cx ck did st mutate sv)) = sv_runs sv"
  "sv_lim (snd (updateStatus B L cx ck did st mutate sv)) = sv_lim sv"
  by (simp_all add: updateStatus_def case_prod_beta)

lemma start_status_frame [svc_simps]:
  "sv_cancels (snd (start_status B L cxs ck did sv)) = sv_cancels sv"
  "sv_runs (snd (start_status B L cxs ck did sv)) = sv_runs sv"
  by (simp_all add: start_status_def updateStatus_frame split: sum.splits)

text \<open>A limiter that was made with \<open>ratelimit.New\<close> can take a limit; the zero value of the struct cannot.\<close>

definition limiter_usable :: "limiter option \<Rightarrow> bool" where
  "limiter_usable l \<longleftrightarrow> l \<noteq> Some ZeroLimiter"

lemma start_limit_usable:
  assumes "limiter_usable (sv_lim sv)"
  shows "\<exists>rl. start_limit B cx now did sv = Inr rl"
proof (cases "sv_lim sv")
  case (Some rl)
  with assms obtain m where "rl = Some m" by (cases rl) (auto simp: limiter_usable_def ZeroLimiter_def)
  with Some show ?thesis
    by (auto simp: start_limit_def SetLimit_def split: sum.splits option.splits)
qed (simp add: start_limit_def)

lemma start_zero_limiter_panics:
  assumes "badger_laws B" "badger_quiet B" "repo_ok L (bdata B (sv_db sv))" "alive 3 (cxs 0)"
    and "stored (bdata B (sv_db sv)) did = Some d" "d_Config d = Some c" "0 < c_RateLimit c"
    and "sv_lim sv = Some ZeroLimiter" "sv_cancels sv did = None"
  shows "Start B L cxs ck did sv = (Inl (ErrPanic ''assignment to entry in nil map''), sv)"
proof -
  have "GetDownload B (cxs 0) (sv_db sv) did = Inr d"
    using assms(4) repo_ok_get [OF assms(3), of did] assms(1,2,5)
    by (simp add: GetDownload_def repo_view_quiet quiet_get alive_def numeral_2_eq_2)
  with assms(6-9) show ?thesis
    by (simp add: Start_def start_check_def start_status_def start_limit_def SetLimit_def ZeroLimiter_def)
qed

lemma Start_spawns:
  fixes ck :: clock
  assumes "badger_laws B" "badger_quiet B" "repo_ok L (bdata B (sv_db sv))" "pub_ready (sv_pub sv)"
    and "alive 4 (cxs 1)" "start_limit B (cxs 0) (ck 0) did sv = Inr rl"
    and "stored (bdata B (sv_db sv)) did = Some d" "sv_cancels sv did = None"
  defines "d' \<equiv> d\<lparr>d_Status := StatusRunning, d_StartedAt := Some (ck 1), d_UpdatedAt := ck 4\<rparr>"
  shows "\<exists>s' p'. Start B L cxs ck did sv =
      (Inr (), spawn_run did (sv\<lparr>sv_lim := rl, sv_db := s', sv_pub := p'\<rparr>)) \<and>
    rewrote B L did d' (sv_db sv) s' \<and> svc_publish (ck 3) (sv_pub sv) EventStarted d' NoData = Inr p'"
proof -
  let ?sv = "sv\<lparr>sv_lim := rl\<rparr>"
  have sel: "sv_db ?sv = sv_db sv" "sv_pub ?sv = sv_pub sv" by simp_all
  have row: "status_row (skip 1 ck) StatusRunning (\<lambda>now d. d\<lparr>d_StartedAt := Some now\<rparr>) d = d'"
    by (simp add: status_row_def d'_def)
  have ev: "mapStatusToEvent StatusRunning = EventStarted"
    by (simp add: mapStatusToEvent_def const_defs)
  have now: "skip 1 ck 2 = ck 3" by (simp add: skip_apply numeral_3_eq_3)
  from updateStatus_found [where sv = ?sv and ck = "skip 1 ck" and status = StatusRunning and d = d
      and did = did and mutate = "\<lambda>now d. d\<lparr>d_StartedAt := Some now\<rparr>" and cx = "cxs 1",
      unfolded sel row ev now, OF assms(1-3) assms(5) assms(7) assms(4)]
  obtain s' p' where u: "updateStatus B L (cxs 1) (skip 1 ck) did StatusRunning
      (\<lambda>now d. d\<lparr>d_StartedAt := Some now\<rparr>) ?sv = (Inr (), ?sv\<lparr>sv_db := s', sv_pub := p'\<rparr>)"
    "rewrote B L did d' (sv_db sv) s'"
    "svc_publish (ck 3) (sv_pub sv) EventStarted d' NoData = Inr p'"
    by auto
  have "Start B L cxs ck did sv =
      (Inr (), spawn_run did (sv\<lparr>sv_lim := rl, sv_db := s', sv_pub := p'\<rparr>))"
    using assms(6,8) u(1) by (simp add: Start_def start_check_def start_status_def)
  with u(2,3) show ?thesis by blast
qed

text \<open>
  The limiter after the start of \<open>d\<close> at \<open>now\<close>: a full bucket of the download's rate, if it has one.
\<close>

lemma start_limit_value:
  assumes "GetDownload B cx (sv_db sv) did = Inr d"
  shows "start_limit B cx now did sv =
    (case d_Config d of None \<Rightarrow> Inr (sv_lim sv)
     | Some c \<Rightarrow> if c_RateLimit c \<le> 0 then Inr (sv_lim sv)
         else case sv_lim sv of None \<Rightarrow> Inr None
         | Some None \<Rightarrow> Inl (ErrPanic ''assignment to entry in nil map'')
         | Some (Some m) \<Rightarrow> Inr (Some (Some (m(did \<mapsto>
             \<lparr>b_capacity = c_RateLimit c, b_tokens = c_RateLimit c, b_lastRefill = now\<rparr>)))))"
  using assms by (auto simp: start_limit_def SetLimit_def split: option.splits)

text \<open>
  C8.  Starting a stored download that has no run registered stores it as running with the time of the
  start, publishes the event, gives it a full bucket of its rate when it has one, and spawns exactly one
  run, whose cancel function is registered; starting it again while a run is registered changes nothing.
  With the limiter that \<open>server.New\<close> builds, the zero value \<open>&SimpleRateLimiter{}\<close>, the start of a
  download that has a rate limit panics instead, before anything has changed.
\<close>

theorem start_correct:
  fixes ck :: clock
  assumes "badger_laws B" "badger_quiet B" "repo_ok L (bdata B (sv_db sv))" "pub_ready (sv_pub sv)"
    and "alive 3 (cxs 0)" "alive 4 (cxs 1)"
    and "stored (bdata B (sv_db sv)) did = Some d" "sv_cancels sv did = None"
  defines "d' \<equiv> d\<lparr>d_Status := StatusRunning, d_StartedAt := Some (ck 1), d_UpdatedAt := ck 4\<rparr>"
    and "rate \<equiv> (case d_Config d of None \<Rightarrow> 0 | Some c \<Rightarrow> c_RateLimit c)"
  shows "if sv_lim sv = Some ZeroLimiter \<and> 0 < rate
    then Start B L cxs ck did sv = (Inl (ErrPanic ''assignment to entry in nil map''), sv)
    else \<exists>s' p' rl sv'. Start B L cxs ck did sv = (Inr (), sv') \<and>
      sv' = spawn_run did (sv\<lparr>sv_lim := rl, sv_db := s', sv_pub := p'\<rparr>) \<and>
      sv_cancels sv' did = Some (length (sv_runs sv)) \<and>
      sv_runs sv' = sv_runs sv @ [\<lparr>run_of = did, run_live = True, run_done = False\<rparr>] \<and>
      rl = (case sv_lim sv of Some (Some m) \<Rightarrow> Some (Some (if 0 < rate
        then m(did \<mapsto> \<lparr>b_capacity = rate, b_tokens = rate, b_lastRefill = ck 0\<rparr>) else m)) | _ \<Rightarrow> sv_lim sv) \<and>
      rewrote B L did d' (sv_db sv) s' \<and>
      svc_publish (ck 3) (sv_pub sv) EventStarted d' NoData = Inr p' \<and>
      (\<forall>cxs' ck'. Start B L cxs' ck' did sv' = (Inr (), sv'))"
proof (cases "sv_lim sv = Some ZeroLimiter \<and> 0 < rate")
  case True
  then obtain c where "d_Config d = Some c" "0 < c_RateLimit c"
    by (auto simp: rate_def split: option.splits)
  from start_zero_limiter_panics [where cxs = cxs and ck = ck, OF assms(1-3,5,7) this _ assms(8)] True
  show ?thesis by simp
next
  case False
  have get: "GetDownload B (cxs 0) (sv_db sv) did = Inr d"
    using assms(5) repo_ok_get [OF assms(3), of did] assms(1,2,7)
    by (simp add: GetDownload_def repo_view_quiet quiet_get alive_def numeral_2_eq_2)
  let ?rl = "case sv_lim sv of Some (Some m) \<Rightarrow> Some (Some (if 0 < rate
      then m(did \<mapsto> \<lparr>b_capacity = rate, b_tokens = rate, b_lastRefill = ck 0\<rparr>) else m)) | _ \<Rightarrow> sv_lim sv"
  have rl: "start_limit B (cxs 0) (ck 0) did sv = Inr ?rl"
    using False start_limit_value [OF get, of "ck 0"]
    by (auto simp: rate_def ZeroLimiter_def split: option.splits)
  have again: "Start B L cxs' ck' did (spawn_run did sv1) = (Inr (), spawn_run did sv1)" for cxs' ck' sv1
    by (simp add: Start_def start_check_def sv_updates)
  from Start_spawns [where cxs = cxs and ck = ck, OF assms(1-4,6) rl assms(7,8)] obtain s' p' where
    st: "Start B L cxs ck did sv = (Inr (), spawn_run did (sv\<lparr>sv_lim := ?rl, sv_db := s', sv_pub := p'\<rparr>))"
      "rewrote B L did d' (sv_db sv) s'" "svc_publish (ck 3) (sv_pub sv) EventStarted d' NoData = Inr p'"
    unfolding d'_def by blast
  show ?thesis
    unfolding if_not_P [OF False]
    by (rule exI [of _ s'], rule exI [of _ p'], rule exI [of _ ?rl], rule exI, intro conjI, rule st(1))
      (simp_all add: sv_updates st(2,3) again)
qed

theorem start_correct_witness:
  "(\<exists>sv'. Start mem_badger basic_lib (\<lambda>_. live) demo_clock ''a1'' demo_svc = (Inr (), sv') \<and>
     sv_cancels sv' ''a1'' = Some 0 \<and> Start mem_badger basic_lib (\<lambda>_. live) demo_clock ''a1'' sv' = (Inr (), sv'))"
proof -
  have lu: "sv_lim demo_svc \<noteq> Some ZeroLimiter" by (simp add: ZeroLimiter_def NewLimiter_def)
  have "sv_cancels demo_svc ''a1'' = None" by simp
  from start_correct [where cxs = "\<lambda>_. live" and ck = demo_clock, OF demo_svc_facts(1,2,3,5) alive_live alive_live
      demo_svc_facts(4) this] lu show ?thesis
    by (auto simp: sv_updates)
qed

text \<open>
  C21.  Pausing or cancelling a download stores the new status, publishes the event, and cancels the
  context of the run that is registered, if any, and forgets it; other runs are left alone.
\<close>

theorem stop_correct:
  assumes "badger_laws B" "badger_quiet B" "repo_ok L (bdata B (sv_db sv))" "pub_ready (sv_pub sv)"
    and "alive 4 cx" "stored (bdata B (sv_db sv)) did = Some d"
    and "(stop, st, ev) = (Pause B L cx ck did, StatusPaused, EventPaused) \<or>
      (stop, st, ev) = (Cancel B L cx ck did, StatusCancelled, EventCancelled)"
  defines "d' \<equiv> d\<lparr>d_Status := st, d_UpdatedAt := ck 3\<rparr>"
  shows "\<exists>s' p'. stop sv = (Inr (), (cancel_run did sv)\<lparr>sv_db := s', sv_pub := p'\<rparr>) \<and>
    rewrote B L did d' (sv_db sv) s' \<and> svc_publish (ck 2) (sv_pub sv) ev d' NoData = Inr p' \<and>
    sv_cancels (snd (stop sv)) = (sv_cancels sv)(did := None) \<and>
    (\<forall>r. sv_cancels sv did = Some r \<longrightarrow> r < length (sv_runs sv) \<longrightarrow> \<not> run_live (sv_runs (snd (stop sv)) ! r)) \<and>
    (\<forall>r. sv_cancels sv did \<noteq> Some r \<longrightarrow> sv_runs (snd (stop sv)) ! r = sv_runs sv ! r)"
proof -
  have ev: "mapStatusToEvent st = ev" using assms(7) by (auto simp: mapStatusToEvent_def const_defs)
  have stop: "stop = (\<lambda>sv. updateStatus B L cx ck did st (\<lambda>now d. d) (cancel_run did sv))"
    using assms(7) by (auto simp: Pause_def Cancel_def fun_eq_iff)
  have row: "status_row ck st (\<lambda>now d. d) d = d'" by (simp add: status_row_def d'_def)
  from updateStatus_found [where sv = "cancel_run did sv" and status = st and mutate = "\<lambda>now d. d"
      and cx = cx and ck = ck, unfolded cancel_run_sel ev, OF assms(1-3) assms(5,6) assms(4)]
  obtain s' p' where "stop sv = (Inr (), (cancel_run did sv)\<lparr>sv_db := s', sv_pub := p'\<rparr>)"
    "rewrote B L did d' (sv_db sv) s'" "svc_publish (ck 2) (sv_pub sv) ev d' NoData = Inr p'"
    by (auto simp: stop row)
  then show ?thesis
    by (auto simp: cancel_run_sel cancel_run_runs split: option.splits)
qed

theorem stop_correct_witness:
  "\<exists>s' p'. Pause mem_badger basic_lib live demo_clock ''a1'' (spawn_run ''a1'' demo_svc) =
      (Inr (), (cancel_run ''a1'' (spawn_run ''a1'' demo_svc))\<lparr>sv_db := s', sv_pub := p'\<rparr>) \<and>
    \<not> run_live (sv_runs (snd (Pause mem_badger basic_lib live demo_clock ''a1'' (spawn_run ''a1'' demo_svc))) ! 0)"
proof -
  let ?sv = "spawn_run ''a1'' demo_svc"
  have f: "repo_ok basic_lib (bdata mem_badger (sv_db ?sv))" "pub_ready (sv_pub ?sv)"
    "stored (bdata mem_badger (sv_db ?sv)) ''a1'' = Some (created demo_clock demo_download)"
    "sv_cancels ?sv ''a1'' = Some 0" "0 < length (sv_runs ?sv)"
    using demo_svc_facts by (simp_all add: sv_updates)
  show ?thesis
    using stop_correct [where cx = live and ck = demo_clock and sv = ?sv, OF demo_svc_facts(1,2) f(1,2) alive_live f(3) disjI1 [OF refl]]
      f(4,5) by blast
qed

section \<open>Interleavings\<close>

text \<open>
  Where a call stands between two sections: after the check of \<open>Start\<close>, after the status of \<open>Start\<close> or
  \<open>Resume\<close>, after the cancellation of \<open>Pause\<close> or \<open>Cancel\<close>.
\<close>

datatype thread = AfterCheck string | AfterStatus string | AfterCancel string DownloadStatus

fun next_thread :: "unit res \<Rightarrow> thread \<Rightarrow> thread list \<Rightarrow> thread list" where
  "next_thread (Inl e) t ts = ts"
| "next_thread (Inr u) t ts = t # ts"

inductive lifecycle :: "'s badger \<Rightarrow> stdlib \<Rightarrow> 's svc \<Rightarrow> thread list \<Rightarrow> bool" for B L where
  lc_new: "lifecycle B L (NewDownloadService db pub rl fs) []"
| lc_check: "lifecycle B L sv ts \<Longrightarrow> start_check did sv \<Longrightarrow> lifecycle B L sv (AfterCheck did # ts)"
| lc_status: "lifecycle B L sv ts \<Longrightarrow> AfterCheck did \<in> set ts \<Longrightarrow> start_status B L cxs ck did sv = (r, sv') \<Longrightarrow>
    lifecycle B L sv' (next_thread r (AfterStatus did) (remove1 (AfterCheck did) ts))"
| lc_resume: "lifecycle B L sv ts \<Longrightarrow> resume_status B L cx ck did sv = (r, sv') \<Longrightarrow>
    lifecycle B L sv' (next_thread r (AfterStatus did) ts)"
| lc_spawn: "lifecycle B L sv ts \<Longrightarrow> AfterStatus did \<in> set ts \<Longrightarrow>
    lifecycle B L (spawn_run did sv) (remove1 (AfterStatus did) ts)"
| lc_cancel: "lifecycle B L sv ts \<Longrightarrow> st \<in> {StatusPaused, StatusCancelled} \<Longrightarrow>
    lifecycle B L (cancel_run did sv) (AfterCancel did st # ts)"
| lc_settle: "lifecycle B L sv ts \<Longrightarrow> AfterCancel did st \<in> set ts \<Longrightarrow>
    updateStatus B L cx ck did st (\<lambda>now d. d) sv = (r, sv') \<Longrightarrow>
    lifecycle B L sv' (remove1 (AfterCancel did st) ts)"
| lc_finish: "lifecycle B L sv ts \<Longrightarrow> r < length (sv_runs sv) \<Longrightarrow> \<not> run_done (sv_runs sv ! r) \<Longrightarrow>
    lifecycle B L (finish_run r sv) ts"
| lc_other: "lifecycle B L sv ts \<Longrightarrow>
    lifecycle B L (sv\<lparr>sv_db := s, sv_pub := p, sv_lim := rl, sv_fs := fs\<rparr>) ts"

text \<open>Every registered cancel function belongs to a run of that download that has neither ended nor been cancelled.\<close>

definition tracked :: "'s svc \<Rightarrow> bool" where
  "tracked sv \<longleftrightarrow> (\<forall>did r. sv_cancels sv did = Some r \<longrightarrow>
     r < length (sv_runs sv) \<and> sv_runs sv ! r = \<lparr>run_of = did, run_live = True, run_done = False\<rparr>)"

lemma tracked_cong:
  "sv_cancels sv' = sv_cancels sv \<Longrightarrow> sv_runs sv' = sv_runs sv \<Longrightarrow> tracked sv' = tracked sv"
  by (simp add: tracked_def)

lemma tracked_cancel_run:
  assumes "tracked sv"
  shows "tracked (cancel_run did sv)"
  unfolding tracked_def
proof (intro allI impI)
  fix i r assume "sv_cancels (cancel_run did sv) i = Some r"
  then have i: "i \<noteq> did" "sv_cancels sv i = Some r" by (auto simp: cancel_run_sel split: if_splits)
  with assms have r: "r < length (sv_runs sv)"
    "sv_runs sv ! r = \<lparr>run_of = i, run_live = True, run_done = False\<rparr>" by (auto simp: tracked_def)
  have "sv_cancels sv did \<noteq> Some r"
    using assms i(1) r(2) by (auto simp: tracked_def)
  then show "r < length (sv_runs (cancel_run did sv)) \<and>
      sv_runs (cancel_run did sv) ! r = \<lparr>run_of = i, run_live = True, run_done = False\<rparr>"
    using r by (auto simp: cancel_run_sel cancel_run_runs split: option.splits)
qed

lemma lifecycle_tracked: "lifecycle B L sv ts \<Longrightarrow> tracked sv"
proof (induction rule: lifecycle.induct)
  case (lc_status sv ts did cxs ck r sv')
  then show ?case
    using start_status_frame [of B L cxs ck did sv] by (simp add: tracked_cong [of sv' sv])
next
  case (lc_resume sv ts cx ck did r sv')
  then show ?case
    using updateStatus_frame [of B L cx ck did StatusRunning "\<lambda>now d. d" sv]
    by (simp add: resume_status_def tracked_cong [of sv' sv])
next
  case (lc_settle sv ts did st cx ck r sv')
  then show ?case
    using updateStatus_frame [of B L cx ck did st "\<lambda>now d. d" sv] by (simp add: tracked_cong [of sv' sv])
next
  case (lc_spawn sv ts did)
  then show ?case by (fastforce simp: tracked_def sv_updates nth_append split: if_splits)
next
  case (lc_cancel sv ts st did)
  then show ?case by (simp add: tracked_cancel_run)
next
  case (lc_finish sv ts r)
  then show ?case by (fastforce simp: tracked_def sv_updates nth_list_update split: if_splits)
qed (simp_all add: tracked_def NewDownloadService_def)

text \<open>The operations run on their own are paths of the step relation.\<close>

lemma lifecycle_Start: "lifecycle B L sv ts \<Longrightarrow> lifecycle B L (snd (Start B L cxs ck did sv)) ts"
proof -
  assume lc: "lifecycle B L sv ts"
  show ?thesis
  proof (cases "start_check did sv")
    case True
    obtain r sv' where st: "start_status B L cxs ck did sv = (r, sv')" by fastforce
    from lc_status [OF lc_check [OF lc True] _ st] have "lifecycle B L sv' (next_thread r (AfterStatus did) ts)"
      by simp
    then show ?thesis
      using st True lc_spawn [of B L sv' "AfterStatus did # ts" did]
      by (cases r) (simp_all add: Start_def)
  qed (simp add: Start_def lc)
qed

lemma lifecycle_stop:
  assumes "lifecycle B L sv ts" "st \<in> {StatusPaused, StatusCancelled}"
  shows "lifecycle B L (snd (updateStatus B L cx ck did st (\<lambda>now d. d) (cancel_run did sv))) ts"
proof -
  obtain r sv' where "updateStatus B L cx ck did st (\<lambda>now d. d) (cancel_run did sv) = (r, sv')" by fastforce
  with lc_settle [OF lc_cancel [OF assms, where did = did] _ this] show ?thesis by simp
qed

lemma lifecycle_Pause: "lifecycle B L sv ts \<Longrightarrow> lifecycle B L (snd (Pause B L cx ck did sv)) ts"
  by (simp add: Pause_def lifecycle_stop)

lemma lifecycle_Cancel: "lifecycle B L sv ts \<Longrightarrow> lifecycle B L (snd (Cancel B L cx ck did sv)) ts"
  by (simp add: Cancel_def lifecycle_stop)

lemma lifecycle_Resume: "lifecycle B L sv ts \<Longrightarrow> lifecycle B L (snd (Resume B L cx ck did sv)) ts"
proof -
  assume lc: "lifecycle B L sv ts"
  obtain r sv' where st: "resume_status B L cx ck did sv = (r, sv')" by fastforce
  from lc_resume [OF lc st] show ?thesis
    using st lc_spawn [of B L sv' "AfterStatus did # ts" did] by (cases r) (simp_all add: Resume_def)
qed

section \<open>Properties of the interleavings\<close>

text \<open>
  C7.  However the calls interleave, a registered cancel function belongs to a run of its download that
  has neither ended nor been cancelled, so the cancellation in \<open>Pause\<close> and \<open>Cancel\<close> always reaches a
  run that is alive.
\<close>

theorem cancels_track_runs:
  assumes "lifecycle B L sv ts" "sv_cancels sv did = Some r"
  shows "r < length (sv_runs sv) \<and> sv_runs sv ! r = \<lparr>run_of = did, run_live = True, run_done = False\<rparr> \<and>
    sv_runs (cancel_run did sv) ! r = \<lparr>run_of = did, run_live = False, run_done = False\<rparr>"
  using lifecycle_tracked [OF assms(1)] assms(2) by (simp add: tracked_def cancel_run_runs)

lemma demo_lifecycle: "lifecycle B L demo_svc []"
  unfolding demo_svc_def by (rule lc_new)

theorem cancels_track_runs_witness:
  "sv_runs (cancel_run ''a1'' (snd (Resume mem_badger basic_lib live demo_clock ''a1'' demo_svc))) ! 0 =
     \<lparr>run_of = ''a1'', run_live = False, run_done = False\<rparr>"
proof -
  let ?sv = "snd (Resume mem_badger basic_lib live demo_clock ''a1'' demo_svc)"
  from updateStatus_found [where cx = live and ck = demo_clock and status = StatusRunning
      and mutate = "\<lambda>now d. d", OF demo_svc_facts(1-3) alive_live demo_svc_facts(4,5)]
  obtain s' p' where "resume_status mem_badger basic_lib live demo_clock ''a1'' demo_svc =
      (Inr (), demo_svc\<lparr>sv_db := s', sv_pub := p'\<rparr>)" by (auto simp: resume_status_def)
  then have "sv_cancels ?sv ''a1'' = Some 0" by (simp add: Resume_def sv_updates)
  from cancels_track_runs [OF lifecycle_Resume [OF demo_lifecycle] this] show ?thesis by blast
qed

text \<open>
  The end of a run forgets the cancel function of its download even when that function belongs to a
  later run: when a download was paused and started again before its first run had wound down, the
  second run stays alive without a cancel function.  \<open>Pause\<close> and \<open>Cancel\<close> no longer stop it, and
  \<open>Start\<close> no longer takes the download for running.
\<close>

lemma restart_loses_cancel:
  assumes "lifecycle B L sv ts" "sv_cancels sv did = Some r1"
    and "r0 < length (sv_runs sv)" "r0 \<noteq> r1" "run_of (sv_runs sv ! r0) = did" "\<not> run_done (sv_runs sv ! r0)"
  defines "sv' \<equiv> finish_run r0 sv"
  shows "lifecycle B L sv' ts \<and> start_check did sv' \<and>
    sv_runs (snd (Pause B L cx ck did sv')) ! r1 = \<lparr>run_of = did, run_live = True, run_done = False\<rparr> \<and>
    sv_runs (snd (Cancel B L cx ck did sv')) ! r1 = \<lparr>run_of = did, run_live = True, run_done = False\<rparr>"
proof -
  have r1: "r1 < length (sv_runs sv)"
    "sv_runs sv ! r1 = \<lparr>run_of = did, run_live = True, run_done = False\<rparr>"
    using lifecycle_tracked [OF assms(1)] assms(2) by (simp_all add: tracked_def)
  have "sv_cancels sv' did = None" "sv_runs sv' ! r1 = sv_runs sv ! r1"
    using assms(4,5) by (simp_all add: sv'_def sv_updates)
  moreover from this have "cancel_run did sv' = sv'" by (simp add: cancel_run_def)
  ultimately show ?thesis
    using r1(2) lc_finish [OF assms(1,3,6)]
    by (simp add: start_check_def Pause_def Cancel_def updateStatus_frame sv'_def)
qed

lemma lifecycle_spawn:
  assumes lc: "lifecycle mem_badger basic_lib sv []"
    and "stored (bdata mem_badger (sv_db sv)) did = Some d" "repo_ok basic_lib (bdata mem_badger (sv_db sv))"
    and "sv_pub sv = None"
  shows "lifecycle mem_badger basic_lib (spawn_run did sv) []"
proof -
  have ready: "pub_ready (sv_pub sv)" using assms(4) by (simp add: pub_ready_def)
  from updateStatus_found [where cx = live and ck = demo_clock and status = StatusRunning
      and mutate = "\<lambda>now d. d", OF mem_badger_laws mem_badger_quiet assms(3) alive_live assms(2) ready]
  obtain s' p' where "resume_status mem_badger basic_lib live demo_clock did sv =
      (Inr (), sv\<lparr>sv_db := s', sv_pub := p'\<rparr>)" by (auto simp: resume_status_def)
  then have "lifecycle mem_badger basic_lib (spawn_run did (sv\<lparr>sv_db := s', sv_pub := p'\<rparr>)) []"
    using lifecycle_Resume [OF lc, of live demo_clock did] by (simp add: Resume_def)
  then have "lifecycle mem_badger basic_lib ((spawn_run did (sv\<lparr>sv_db := s', sv_pub := p'\<rparr>))
      \<lparr>sv_db := sv_db sv, sv_pub := sv_pub sv, sv_lim := sv_lim sv, sv_fs := sv_fs sv\<rparr>) []"
    by (rule lc_other)
  then show ?thesis by (simp add: spawn_run_def)
qed

lemma restart_loses_cancel_witness:
  "\<exists>sv. lifecycle mem_badger basic_lib sv [] \<and> start_check ''a1'' sv \<and>
     sv_runs (snd (Pause mem_badger basic_lib live demo_clock ''a1'' sv)) ! 1 =
       \<lparr>run_of = ''a1'', run_live = True, run_done = False\<rparr>"
proof -
  let ?new = "demo_svc\<lparr>sv_pub := None\<rparr>"
  let ?two = "spawn_run ''a1'' (cancel_run ''a1'' (spawn_run ''a1'' ?new))"
  have stored: "stored (bdata mem_badger (sv_db ?new)) ''a1'' = Some (created demo_clock demo_download)"
    and ok: "repo_ok basic_lib (bdata mem_badger (sv_db ?new))"
    using demo_svc_facts(3,4) by simp_all
  have "lifecycle mem_badger basic_lib ?new []"
    unfolding demo_svc_def NewDownloadService_def
    using lc_new [of mem_badger basic_lib demo_store None "Some NewLimiter" None]
    by (simp add: NewDownloadService_def)
  from lifecycle_spawn [OF this stored ok] have "lifecycle mem_badger basic_lib (spawn_run ''a1'' ?new) []" by simp
  from lc_cancel [OF this, of StatusPaused "''a1''"]
  have c: "lifecycle mem_badger basic_lib (cancel_run ''a1'' (spawn_run ''a1'' ?new)) [AfterCancel ''a1'' StatusPaused]"
    by simp
  obtain r sv' where u: "updateStatus mem_badger basic_lib live demo_clock ''a1'' StatusPaused (\<lambda>now d. d)
      (cancel_run ''a1'' (spawn_run ''a1'' ?new)) = (r, sv')" by fastforce
  from lc_settle [OF c _ u] have "lifecycle mem_badger basic_lib sv' []" by simp
  from lc_other [OF this, where s = "sv_db ?new" and p = None and rl = "sv_lim ?new" and fs = "sv_fs sv'"]
  have p: "lifecycle mem_badger basic_lib
      (sv'\<lparr>sv_db := sv_db ?new, sv_pub := None, sv_lim := sv_lim ?new, sv_fs := sv_fs sv'\<rparr>) []" .
  let ?paused = "sv'\<lparr>sv_db := sv_db ?new, sv_pub := None, sv_lim := sv_lim ?new, sv_fs := sv_fs sv'\<rparr>"
  have fr: "sv_cancels sv' = sv_cancels (cancel_run ''a1'' (spawn_run ''a1'' ?new))"
    "sv_runs sv' = sv_runs (cancel_run ''a1'' (spawn_run ''a1'' ?new))"
    using updateStatus_frame [of mem_badger basic_lib live demo_clock "''a1''" StatusPaused "\<lambda>now d. d"
        "cancel_run ''a1'' (spawn_run ''a1'' ?new)"] u by simp_all
  have two: "lifecycle mem_badger basic_lib (spawn_run ''a1'' ?paused) []"
    by (rule lifecycle_spawn [OF p]) (use stored ok in simp_all)
  have runs: "sv_runs (spawn_run ''a1'' ?paused) =
      [\<lparr>run_of = ''a1'', run_live = False, run_done = False\<rparr>, \<lparr>run_of = ''a1'', run_live = True, run_done = False\<rparr>]"
    "sv_cancels (spawn_run ''a1'' ?paused) ''a1'' = Some 1"
    by (simp_all add: sv_updates fr cancel_run_runs)
  show ?thesis
    using restart_loses_cancel [OF two runs(2), of 0 live demo_clock] unfolding runs(1) by auto
qed

text \<open>
  What \<open>RemoveDownloadFiles\<close> leaves: the temporary directory and the target go unless their removal
  fails, and every other file stays.
\<close>

definition files_removed :: "oserrs \<Rightarrow> string res \<Rightarrow> Download \<Rightarrow> fsys \<Rightarrow> fsys \<Rightarrow> bool" where
  "files_removed io home d fs fs' \<longleftrightarrow> (\<exists>tmp out. tempDir home d = Inr tmp \<and> finalPath d = Inr out \<and>
     (\<forall>p. map_of fs' p = (if io 0 = None \<and> below tmp p \<or> io 1 = None \<and> p = out then None else map_of fs p)))"

lemma remove_files_ok:
  assumes "d_File d \<noteq> None" "\<forall>k m. io k \<noteq> Some (ErrPanic m)"
  shows "\<exists>fs'. remove_files io home d (Some fs) = (Inr (), Some fs') \<and> files_removed io home d fs fs'"
proof -
  obtain f where f: "d_File d = Some f" using assms(1) by blast
  have "\<exists>tmp. tempDir home d = Inr tmp" using f by (cases home) (simp_all add: tempDir_def)
  then obtain tmp where tmp: "tempDir home d = Inr tmp" by blast
  obtain out where out: "finalPath d = Inr out" using f by (simp add: finalPath_def)
  let ?fs = "if io 0 = None then fs_remove_all tmp fs else fs"
  let ?fs' = "if io 1 = None \<and> fs_exists ?fs out then fs_remove out ?fs else ?fs"
  have np: "\<not> is_panic e" if "io 1 = Some e" for e using that assms(2) by (cases e) auto
  have "remove_files io home d (Some fs) = (Inr (), Some ?fs')"
    using tmp out np by (cases "io 1") (simp_all add: remove_files_def RemoveDownloadFiles_def Let_def)
  moreover have "map_of ?fs' p = (if io 0 = None \<and> below tmp p \<or> io 1 = None \<and> p = out then None else map_of fs p)" for p
    by (auto simp: map_of_remove_all fs_exists_map)
  then have "files_removed io home d fs ?fs'" unfolding files_removed_def using tmp out by blast
  ultimately show ?thesis by blast
qed

lemma remove_files_panic:
  assumes "d_File d = None"
  shows "\<exists>m fs'. remove_files io home d (Some fs) = (Inl (ErrPanic m), fs')"
  using assms
  by (cases home) (auto simp: remove_files_def RemoveDownloadFiles_def Let_def tempDir_def finalPath_def)

text \<open>
  C32.  Removing a stored download deletes its row, its index entries and its segments (those of the id,
  and those of longer ids that begin with it), and touches no other row, queue or segment.  When asked to,
  it then deletes the temporary directory and the target, as far as the operating system lets it, and no
  other file; otherwise no file changes.  The event that says so is published, unless the download has no
  file options while its files are to be deleted: then the call panics after the row is gone.
\<close>

theorem remove_correct:
  assumes "badger_laws B" "badger_quiet B" "repo_ok L (bdata B (sv_db sv))" "pub_ready (sv_pub sv)"
    and "stored (bdata B (sv_db sv)) did = Some d" "\<forall>k m. io k \<noteq> Some (ErrPanic m)"
  shows "\<exists>s'. stored (bdata B s') = (stored (bdata B (sv_db sv)))(did := None) \<and> repo_ok L (bdata B s') \<and>
    (\<forall>i n. bdata B s' (kSegment i n) =
       (if prefix did (i @ bar # Sprintf_0d 9 n) then None else bdata B (sv_db sv) (kSegment i n))) \<and>
    (\<forall>i. bdata B s' (kQueue i) = bdata B (sv_db sv) (kQueue i)) \<and>
    (if deleteFiles \<and> d_File d = None \<and> sv_fs sv \<noteq> None
     then \<exists>m fs'. Remove B L io home (\<lambda>_. live) ck did deleteFiles sv =
       (Inl (ErrPanic m), sv\<lparr>sv_db := s', sv_fs := fs'\<rparr>)
     else \<exists>fs' p'. Remove B L io home (\<lambda>_. live) ck did deleteFiles sv =
       (Inr (), sv\<lparr>sv_db := s', sv_fs := fs', sv_pub := p'\<rparr>) \<and>
       (case sv_fs sv of Some fs \<Rightarrow> if deleteFiles
            then \<exists>tmp out fs1. tempDir home d = Inr tmp \<and> finalPath d = Inr out \<and> fs' = Some fs1 \<and>
              (\<forall>p. map_of fs1 p = (if io 0 = None \<and> below tmp p \<or> io 1 = None \<and> p = out then None else map_of fs p))
            else fs' = Some fs
        | None \<Rightarrow> fs' = None) \<and>
       svc_publish (ck 0) (sv_pub sv) EventCancelled d (DeletedData True) = Inr p')"
    (is "\<exists>s'. ?A s' \<and> ?B s' \<and> ?C s' \<and> ?D s' \<and> ?E s'")
proof -
  have get: "GetDownload B live (sv_db sv) did = Inr d"
    using repo_ok_get [OF assms(3), of did] assms(1,2,5)
    by (simp add: GetDownload_def repo_view_quiet quiet_get)
  from DeleteDownload_live [OF assms(1-3,5), of "skip 1 ck"] obtain s' where
    s': "DeleteDownload B L live (skip 1 ck) (sv_db sv) did = (Inr (), s')"
    "bdata B s' = del_store L did (bdata B (sv_db sv))" by blast
  from svc_publish_ready [OF assms(4)] obtain p' where
    p: "svc_publish (ck 0) (sv_pub sv) EventCancelled d (DeletedData True) = Inr p'" by blast
  have st: "stored (bdata B s') = (stored (bdata B (sv_db sv)))(did := None)" "repo_ok L (bdata B s')"
    "\<And>i n. bdata B s' (kSegment i n) =
       (if prefix did (i @ bar # Sprintf_0d 9 n) then None else bdata B (sv_db sv) (kSegment i n))"
    "\<And>i. bdata B s' (kQueue i) = bdata B (sv_db sv) (kQueue i)"
    using repo_ok_del_store [OF assms(3), of did] by (simp_all add: s'(2) del_store_segment del_store_untouched)
  let ?fs = "if deleteFiles then remove_files io home d (sv_fs sv) else (Inr (), sv_fs sv)"
  have rem: "Remove B L io home (\<lambda>_. live) ck did deleteFiles sv =
      (case r of Inl e \<Rightarrow> (Inl e, sv\<lparr>sv_db := s', sv_fs := fs'\<rparr>)
       | Inr u \<Rightarrow> (Inr (), sv\<lparr>sv_db := s', sv_fs := fs', sv_pub := p'\<rparr>))"
    if "?fs = (r, fs')" for r fs'
    unfolding Remove_def get s'(1) sum.case prod.case that Let_def by (simp add: p split: sum.splits)
  have "?E s'"
  proof (cases "deleteFiles \<and> d_File d = None \<and> sv_fs sv \<noteq> None")
    case True
    then obtain fs m fs' where "sv_fs sv = Some fs" "remove_files io home d (Some fs) = (Inl (ErrPanic m), fs')"
      using remove_files_panic [of d io home] by fastforce
    with True rem [of "Inl (ErrPanic m)" fs'] show ?thesis by auto
  next
    case False
    show ?thesis
    proof (cases "sv_fs sv")
      case None
      then have "?fs = (Inr (), None)" by (simp add: remove_files_def)
      from rem [OF this] None p show ?thesis by auto
    next
      case (Some fs)
      show ?thesis
      proof (cases deleteFiles)
        case True
        with False Some have nf: "d_File d \<noteq> None" by simp
        from remove_files_ok [OF this assms(6)] obtain fs1 where
          "remove_files io home d (Some fs) = (Inr (), Some fs1)" "files_removed io home d fs fs1" by blast
        with rem [of "Inr ()" "Some fs1"] True Some p nf show ?thesis by (auto simp: files_removed_def)
      next
        case no: False
        then have "?fs = (Inr (), Some fs)" using Some by simp
        from rem [OF this] no Some p show ?thesis by auto
      qed
    qed
  qed
  with st show ?thesis by blast
qed

theorem remove_correct_witness:
  "\<exists>m sv'. Remove mem_badger basic_lib no_errors (Inr ''/home/u'') (\<lambda>_. live) demo_clock ''a1'' True
     (demo_svc\<lparr>sv_fs := Some []\<rparr>) = (Inl (ErrPanic m), sv') \<and> stored (bdata mem_badger (sv_db sv')) ''a1'' = None"
proof -
  have f: "repo_ok basic_lib (bdata mem_badger (sv_db (demo_svc\<lparr>sv_fs := Some []\<rparr>)))"
    "pub_ready (sv_pub (demo_svc\<lparr>sv_fs := Some []\<rparr>))"
    "stored (bdata mem_badger (sv_db (demo_svc\<lparr>sv_fs := Some []\<rparr>))) ''a1'' =
      Some (created demo_clock demo_download)"
    using demo_svc_facts by simp_all
  have io: "\<forall>k m. no_errors k \<noteq> Some (ErrPanic m)" by (simp add: no_errors_def)
  have none: "d_File (created demo_clock demo_download) = None"
    by (simp add: created_def demo_download_def)
  from remove_correct [where deleteFiles = True and home = "Inr ''/home/u''" and ck = demo_clock,
      OF demo_svc_facts(1,2) f io] none
  show ?thesis by fastforce
qed

end
