(* ===== verification/Worker.thy ===== *)
theory Worker
  imports Service_Lifecycle
begin

text \<open>
  \<open>WorkerManager\<close> of \<open>internal/service/workers.go\<close>: the periodic tick that puts stale running downloads
  back in their queue, sets the limits of the queues, saves their statistics and starts queued
  downloads up to the concurrency of each queue.  Errors of the repository are dropped as in the
  code; a panic (of \<open>SetLimit\<close>) ends the process, so it is the result of the tick.
\<close>

record WorkerConfig =
  w_TickInterval :: duration
  w_StaleDownloadTimeout :: duration

definition default_WorkerConfig :: WorkerConfig where
  "default_WorkerConfig =
     \<lparr>w_TickInterval = 2 * time_Second, w_StaleDownloadTimeout = 5 * time_Minute\<rparr>"

section \<open>Counting when the error is dropped\<close>

text \<open>\<open>CountDownloads\<close> returns what it has counted so far beside an error, and the worker uses it.\<close>

fun count_seen ::
    "'s badger \<Rightarrow> stdlib \<Rightarrow> gctx \<Rightarrow> 's \<Rightarrow> ListDownloadsOptions \<Rightarrow> int \<Rightarrow> key list \<Rightarrow> int" where
  "count_seen B L cx s opt n [] = n"
| "count_seen B L cx s opt n (k # ks) =
     (case cx 0 of Some e \<Rightarrow> n
      | None \<Rightarrow> (case bindE (bget B s [] (kDownload (key_id k))) decode_download of
          Inl e \<Rightarrow> count_seen B L (skip 1 cx) s opt n ks
        | Inr d \<Rightarrow> count_seen B L (skip 1 cx) s opt (if matches L opt d then n + 1 else n) ks))"

definition counted :: "'s badger \<Rightarrow> stdlib \<Rightarrow> gctx \<Rightarrow> 's \<Rightarrow> ListDownloadsOptions \<Rightarrow> int" where
  "counted B L cx s opt =
     (case repo_view B cx s
         (Inr (count_seen B L (skip 2 cx) s opt 0 (iter_forward B s [] (list_prefix opt)))) of
        Inl e \<Rightarrow> 0 | Inr n \<Rightarrow> n)"

section \<open>Stale downloads\<close>

fun requeue_stale ::
    "'s badger \<Rightarrow> stdlib \<Rightarrow> duration \<Rightarrow> gctxs \<Rightarrow> (nat \<Rightarrow> clock) \<Rightarrow> Download list \<Rightarrow> 's \<Rightarrow> 's" where
  "requeue_stale B L staleAfter cxs cks [] s = s"
| "requeue_stale B L staleAfter cxs cks (d # ds) s =
     requeue_stale B L staleAfter (skip 1 cxs) (skip 1 cks) ds
       (if IsZero (d_UpdatedAt d) \<or> staleAfter < time_Sub (cks 0 0) (d_UpdatedAt d)
        then snd (UpdateDownload B L (cxs 0) (skip 1 (cks 0)) s (d\<lparr>d_Status := StatusQueued\<rparr>))
        else s)"

section \<open>One queue\<close>

definition queue_opts :: "DownloadStatus \<Rightarrow> Queue \<Rightarrow> ListDownloadsOptions" where
  "queue_opts st q = zero_Options\<lparr>o_Statuses := [st], o_QueueIDs := [q_ID q]\<rparr>"

definition queue_limit :: "gtime \<Rightarrow> Queue \<Rightarrow> limiter option \<Rightarrow> limiter option res" where
  "queue_limit now q l =
     (case l of
        None \<Rightarrow> Inr None
      | Some rl \<Rightarrow> if 0 < q_RateLimit q
          then bindE (SetLimit now rl (q_ID q) (q_RateLimit q)) (\<lambda>rl. Inr (Some rl))
          else Inr (Some rl))"

text \<open>\<open>_ = w.svc.Start(...)\<close> for each listed download.\<close>

fun start_all ::
    "'s badger \<Rightarrow> stdlib \<Rightarrow> (nat \<Rightarrow> gctxs) \<Rightarrow> (nat \<Rightarrow> clock) \<Rightarrow> string list \<Rightarrow> 's svc \<Rightarrow> unit res \<times> 's svc" where
  "start_all B L cxss cks [] sv = (Inr (), sv)"
| "start_all B L cxss cks (i # ids) sv =
     (case Start B L (cxss 0) (cks 0) i sv of
        (Inl e, sv') \<Rightarrow> (if is_panic e then (Inl e, sv')
                        else start_all B L (skip 1 cxss) (skip 1 cks) ids sv')
      | (Inr u, sv') \<Rightarrow> start_all B L (skip 1 cxss) (skip 1 cks) ids sv')"

definition tick_queue ::
    "'s badger \<Rightarrow> stdlib \<Rightarrow> gctxs \<Rightarrow> (nat \<Rightarrow> gctxs) \<Rightarrow> (nat \<Rightarrow> clock) \<Rightarrow> Queue \<Rightarrow> 's svc \<Rightarrow> unit res \<times> 's svc" where
  "tick_queue B L cxs cxss cks q sv =
     (if q_Paused q then (Inr (), sv)
      else case queue_limit (cks 0 0) q (sv_lim sv) of
        Inl e \<Rightarrow> (Inl e, sv)
      | Inr rl \<Rightarrow>
          let concurrency = (if q_Concurrency q \<le> 0 then 1 else q_Concurrency q);
              db = sv_db sv;
              running = counted B L (cxs 0) db (queue_opts StatusRunning q);
              queued = counted B L (cxs 1) db (queue_opts StatusQueued q);
              completed = counted B L (cxs 2) db (queue_opts StatusCompleted q);
              failed = counted B L (cxs 3) db (queue_opts StatusFailed q);
              db = snd (SaveQueueStats B (cxs 4) db
                 \<lparr>qs_QueueID = q_ID q, qs_NumPending = queued, qs_NumRunning = running,
                  qs_NumCompleted = completed, qs_NumFailed = failed, qs_BytesPerSec = 0\<rparr>);
              sv = sv\<lparr>sv_lim := rl, sv_db := db\<rparr>;
              toStart = sub64 concurrency running
          in if toStart \<le> 0 then (Inr (), sv)
             else case ListDownloads B L (cxs 5) db
                 ((queue_opts StatusQueued q)\<lparr>o_OrderBy := ''priority'', o_OrderDesc := True\<rparr>) toStart 0 of
               Inl e \<Rightarrow> (Inr (), sv)
             | Inr ds \<Rightarrow> start_all B L cxss (skip 1 cks) (map d_ID ds) sv)"

section \<open>The tick and its loop\<close>

text \<open>The readings of one tick: for the two listings, for the stale downloads, and for each queue.\<close>

record tick_env =
  te_queues :: gctx
  te_running :: gctx
  te_stale :: gctxs
  te_stale_ck :: "nat \<Rightarrow> clock"
  te_queue :: "nat \<Rightarrow> gctxs"
  te_start :: "nat \<Rightarrow> nat \<Rightarrow> gctxs"
  te_ck :: "nat \<Rightarrow> nat \<Rightarrow> clock"

fun tick_queues ::
    "'s badger \<Rightarrow> stdlib \<Rightarrow> (nat \<Rightarrow> gctxs) \<Rightarrow> (nat \<Rightarrow> nat \<Rightarrow> gctxs) \<Rightarrow> (nat \<Rightarrow> nat \<Rightarrow> clock) \<Rightarrow> Queue list \<Rightarrow>
       's svc \<Rightarrow> unit res \<times> 's svc" where
  "tick_queues B L cq cs ck [] sv = (Inr (), sv)"
| "tick_queues B L cq cs ck (q # qs) sv =
     (case tick_queue B L (cq 0) (cs 0) (ck 0) q sv of
        (Inl e, sv') \<Rightarrow> (Inl e, sv')
      | (Inr u, sv') \<Rightarrow> tick_queues B L (skip 1 cq) (skip 1 cs) (skip 1 ck) qs sv')"

definition tick ::
    "'s badger \<Rightarrow> stdlib \<Rightarrow> WorkerConfig \<Rightarrow> tick_env \<Rightarrow> 's svc \<Rightarrow> unit res \<times> 's svc" where
  "tick B L cfg te sv =
     (case ListQueues B (te_queues te) (sv_db sv) of
        Inl e \<Rightarrow> (Inr (), sv)
      | Inr qs \<Rightarrow>
          let runningList = (case ListDownloads B L (te_running te) (sv_db sv)
                  (zero_Options\<lparr>o_Statuses := [StatusRunning]\<rparr>) 1000 0 of Inl e \<Rightarrow> [] | Inr ds \<Rightarrow> ds);
              db = requeue_stale B L (w_StaleDownloadTimeout cfg) (te_stale te) (te_stale_ck te)
                     runningList (sv_db sv)
          in tick_queues B L (te_queue te) (te_start te) (te_ck te) qs (sv\<lparr>sv_db := db\<rparr>))"

text \<open>\<open>loop\<close>: what the \<open>select\<close> takes next, until the context is done or the worker is stopped.\<close>

datatype worker_signal = CtxDone | StopClosed | Tick tick_env

fun worker_loop ::
    "'s badger \<Rightarrow> stdlib \<Rightarrow> WorkerConfig \<Rightarrow> worker_signal list \<Rightarrow> 's svc \<Rightarrow> unit res \<times> 's svc" where
  "worker_loop B L cfg [] sv = (Inr (), sv)"
| "worker_loop B L cfg (CtxDone # sigs) sv = (Inr (), sv)"
| "worker_loop B L cfg (StopClosed # sigs) sv = (Inr (), sv)"
| "worker_loop B L cfg (Tick te # sigs) sv =
     (case tick B L cfg te sv of
        (Inl e, sv') \<Rightarrow> (Inl e, sv')
      | (Inr u, sv') \<Rightarrow> worker_loop B L cfg sigs sv')"

text \<open>The loop begins with \<open>time.NewTicker\<close>, which panics when the interval is not positive.\<close>

definition NewTicker :: "duration \<Rightarrow> unit res" where
  "NewTicker d = (if d \<le> 0 then Inl (ErrPanic ''non-positive interval for NewTicker'') else Inr ())"

definition start_workers ::
    "'s badger \<Rightarrow> stdlib \<Rightarrow> WorkerConfig \<Rightarrow> worker_signal list \<Rightarrow> 's svc \<Rightarrow> unit res \<times> 's svc" where
  "start_workers B L cfg sigs sv =
     (case NewTicker (w_TickInterval cfg) of
        Inl e \<Rightarrow> (Inl e, sv)
      | Inr u \<Rightarrow> worker_loop B L cfg sigs sv)"

section \<open>Counts and listings of a queue\<close>

lemma count_seen_live:
  assumes "badger_laws B" "badger_quiet B"
  shows "count_loop B L live s opt n ks = Inr (count_seen B L live s opt n ks)"
  by (induction ks arbitrary: n) (auto split: sum.splits)

lemma counted_live:
  assumes "badger_laws B" "badger_quiet B" "repo_ok L (bdata B s)" "opts_ok opt"
  shows "counted B L live s opt = int (card (matching L opt (bdata B s)))"
  using CountDownloads_live [OF assms]
  by (simp add: CountDownloads_def counted_def repo_view_quiet [OF assms(2)] count_seen_live [OF assms(1,2)])

lemma queue_opts_sel [simp]:
  "o_Statuses (queue_opts st q) = [st]" "o_QueueIDs (queue_opts st q) = [q_ID q]"
  by (simp_all add: queue_opts_def)

lemma matches_queue_opts [simp]:
  "matches L (queue_opts st q) d \<longleftrightarrow> d_Status d = st \<and> d_QueueID d = q_ID q"
  "matches L ((queue_opts st q)\<lparr>o_OrderBy := ord, o_OrderDesc := desc\<rparr>) d \<longleftrightarrow> d_Status d = st \<and> d_QueueID d = q_ID q"
  by (auto simp: matches_def queue_filter_def status_filter_def tag_filter_def search_filter_def
      created_filter_def queue_opts_def zero_Options_def)

definition in_queue :: "DownloadStatus \<Rightarrow> string \<Rightarrow> store \<Rightarrow> string set" where
  "in_queue st q m = {i. \<exists>d. stored m i = Some d \<and> d_Status d = st \<and> d_QueueID d = q}"

lemma card_in_queue:
  assumes "repo_ok L m"
  shows "card (matching L (queue_opts st q) m) = card (in_queue st (q_ID q) m)"
proof -
  have "bij_betw d_ID (matching L (queue_opts st q) m) (in_queue st (q_ID q) m)"
    unfolding bij_betw_def
  proof
    show "inj_on d_ID (matching L (queue_opts st q) m)"
      by (rule inj_onI) (metis (mono_tags, lifting) matching_def mem_Collect_eq option.inject)
    show "d_ID ` matching L (queue_opts st q) m = in_queue st (q_ID q) m"
    proof (intro equalityI subsetI)
      fix i assume "i \<in> in_queue st (q_ID q) m"
      then obtain d where d: "stored m i = Some d" "d_Status d = st" "d_QueueID d = q_ID q"
        by (auto simp: in_queue_def)
      with repo_ok_valid [OF assms d(1)] show "i \<in> d_ID ` matching L (queue_opts st q) m"
        by (intro image_eqI [of _ _ d]) (auto simp: matching_def valid_download_def)
    qed (auto simp: matching_def in_queue_def)
  qed
  then show ?thesis by (rule bij_betw_same_card)
qed

lemma finite_stored:
  assumes "badger_laws B"
  shows "finite {i. stored (bdata B s) i \<noteq> None}"
proof (rule finite_imageD)
  have "kDownload ` {i. stored (bdata B s) i \<noteq> None} \<subseteq> set (bkeys B s [])"
    unfolding badger_keys_set [OF assms] by (auto simp: stored_def split: option.splits)
  then show "finite (kDownload ` {i. stored (bdata B s) i \<noteq> None})" by (rule finite_subset) simp
qed (simp add: inj_on_def)

section \<open>What the worker changes\<close>

definition svc_ok :: "'s badger \<Rightarrow> stdlib \<Rightarrow> 's svc \<Rightarrow> bool" where
  "svc_ok B L sv \<longleftrightarrow> repo_ok L (bdata B (sv_db sv)) \<and> pub_ready (sv_pub sv)"

text \<open>Between two states only rows of \<open>I\<close> changed, and each of them became running in its queue.\<close>

definition promoted :: "string set \<Rightarrow> store \<Rightarrow> store \<Rightarrow> bool" where
  "promoted I m m' \<longleftrightarrow> (\<forall>i. stored m' i = stored m i \<or>
     i \<in> I \<and> (\<exists>d d'. stored m i = Some d \<and> stored m' i = Some d' \<and> d_Status d' = StatusRunning \<and>
       d_QueueID d' = d_QueueID d))"

lemma promotedD:
  assumes "promoted I m m'"
  obtains "stored m' i = stored m i"
  | d d' where "i \<in> I" "stored m i = Some d" "stored m' i = Some d'" "d_Status d' = StatusRunning"
      "d_QueueID d' = d_QueueID d"
  using spec [OF assms [unfolded promoted_def], of i] by (elim disjE conjE exE) auto

lemma promoted_refl: "stored m' = stored m \<Longrightarrow> promoted I m m'"
  by (simp add: promoted_def)

lemma promoted_mono: "promoted I m m' \<Longrightarrow> I \<subseteq> J \<Longrightarrow> promoted J m m'"
  unfolding promoted_def by (elim all_forward disjE conjE) (simp_all add: subset_iff)

lemma promoted_trans:
  assumes "promoted I m m'" "promoted J m' m''"
  shows "promoted (I \<union> J) m m''"
  unfolding promoted_def
proof
  fix i
  show "stored m'' i = stored m i \<or> i \<in> I \<union> J \<and> (\<exists>d d'. stored m i = Some d \<and>
      stored m'' i = Some d' \<and> d_Status d' = StatusRunning \<and> d_QueueID d' = d_QueueID d)"
  proof (rule promotedD [OF assms(1), of i])
    assume "stored m' i = stored m i"
    note a = this [symmetric]
    show ?thesis by (rule promotedD [OF assms(2), of i]) (simp_all add: a)
  next
    fix d d' assume a: "i \<in> I" "stored m i = Some d" "stored m' i = Some d'" "d_Status d' = StatusRunning"
      "d_QueueID d' = d_QueueID d"
    show ?thesis
    proof (rule promotedD [OF assms(2), of i])
      assume "stored m'' i = stored m' i"
      then have "stored m'' i = Some d'" by (simp add: a(3))
      then show ?thesis using a by (intro disjI2 conjI exI [of _ d] exI [of _ d']) simp_all
    next
      fix e e' assume b: "i \<in> J" "stored m' i = Some e" "stored m'' i = Some e'" "d_Status e' = StatusRunning"
        "d_QueueID e' = d_QueueID e"
      then have "d_QueueID e' = d_QueueID d" using a by simp
      then show ?thesis using a(1,2) b by (intro disjI2 conjI exI [of _ d] exI [of _ e']) simp_all
    qed
  qed
qed

lemma promoted_running:
  assumes "promoted I m m'"
  shows "in_queue StatusRunning q m' \<subseteq> in_queue StatusRunning q m \<union> I"
proof
  fix i assume "i \<in> in_queue StatusRunning q m'"
  then show "i \<in> in_queue StatusRunning q m \<union> I"
    by (rule_tac promotedD [OF assms, of i]) (auto simp: in_queue_def)
qed

lemma svc_publish_keeps:
  "pub_ready pub \<Longrightarrow> svc_publish now pub ty d dat = Inr pub' \<Longrightarrow> pub_ready pub'"
  using svc_publish_ready [of pub now ty d dat] by auto

lemma Start_effect:
  assumes "badger_laws B" "badger_quiet B" "svc_ok B L sv" "alive 4 (cxs 1)"
  shows "svc_ok B L (snd (Start B L cxs ck i sv)) \<and>
    promoted {i} (bdata B (sv_db sv)) (bdata B (sv_db (snd (Start B L cxs ck i sv))))"
proof (cases "\<exists>rl. start_check i sv \<and> start_limit B (cxs 0) (ck 0) i sv = Inr rl")
  case False
  then have "sv_db (snd (Start B L cxs ck i sv)) = sv_db sv \<and> sv_pub (snd (Start B L cxs ck i sv)) = sv_pub sv"
    by (cases "start_limit B (cxs 0) (ck 0) i sv") (auto simp: Start_def start_status_def)
  with assms(3) show ?thesis by (simp add: svc_ok_def promoted_refl)
next
  case True
  then obtain rl where rl: "start_check i sv" "start_limit B (cxs 0) (ck 0) i sv = Inr rl" by blast
  let ?sv = "sv\<lparr>sv_lim := rl\<rparr>"
  let ?mut = "\<lambda>now d. d\<lparr>d_StartedAt := Some now\<rparr>"
  have ok: "repo_ok L (bdata B (sv_db ?sv))" "pub_ready (sv_pub ?sv)" using assms(3) by (simp_all add: svc_ok_def)
  have start: "Start B L cxs ck i sv =
      (case updateStatus B L (cxs 1) (skip 1 ck) i StatusRunning ?mut ?sv of
         (Inl e, sv') \<Rightarrow> (Inl e, sv') | (Inr u, sv') \<Rightarrow> (Inr (), spawn_run i sv'))"
    unfolding Start_def start_status_def rl(2) using rl(1) by simp
  show ?thesis
  proof (cases "stored (bdata B (sv_db sv)) i")
    case None
    then have "updateStatus B L (cxs 1) (skip 1 ck) i StatusRunning ?mut ?sv = (Inl ErrNotFound, ?sv)"
      by (intro updateStatus_missing [OF assms(1,2) ok(1) assms(4)]) simp
    with start ok show ?thesis by (simp add: svc_ok_def promoted_refl)
  next
    case (Some d)
    then have st: "stored (bdata B (sv_db ?sv)) i = Some d" by simp
    from updateStatus_found [where mutate = ?mut and ck = "skip 1 ck" and status = StatusRunning,
        OF assms(1,2) ok(1) assms(4) st ok(2)]
    obtain s' p' where u: "updateStatus B L (cxs 1) (skip 1 ck) i StatusRunning ?mut ?sv =
        (Inr (), ?sv\<lparr>sv_db := s', sv_pub := p'\<rparr>)"
      "rewrote B L i (status_row (skip 1 ck) StatusRunning ?mut d) (sv_db ?sv) s'"
      "svc_publish (skip 1 ck 2) (sv_pub ?sv) (mapStatusToEvent StatusRunning)
         (status_row (skip 1 ck) StatusRunning ?mut d) NoData = Inr p'" by auto
    have "pub_ready p'" by (rule svc_publish_keeps [OF ok(2) u(3)])
    then show ?thesis
      using u(2) Some unfolding start u(1)
      by (auto simp: svc_ok_def sv_updates rewrote_def promoted_def status_row_def)
  qed
qed

lemma start_all_effect:
  assumes "badger_laws B" "badger_quiet B" "svc_ok B L sv" "\<forall>j. alive 4 (cxss j 1)"
  shows "svc_ok B L (snd (start_all B L cxss cks ids sv)) \<and>
    promoted (set ids) (bdata B (sv_db sv)) (bdata B (sv_db (snd (start_all B L cxss cks ids sv))))"
  using assms(3,4)
proof (induction ids arbitrary: cxss cks sv)
  case Nil
  then show ?case by (simp add: promoted_refl)
next
  case (Cons i ids)
  obtain r sv' where st: "Start B L (cxss 0) (cks 0) i sv = (r, sv')" by fastforce
  have eff: "svc_ok B L sv'" "promoted {i} (bdata B (sv_db sv)) (bdata B (sv_db sv'))"
    using Start_effect [OF assms(1,2) Cons.prems(1), of "cxss 0" "cks 0" i] Cons.prems(2) st by auto
  have "\<forall>j. alive 4 (skip 1 cxss j 1)" using Cons.prems(2) by (simp add: skip_apply)
  note ih = Cons.IH [where cxss = "skip 1 cxss" and cks = "skip 1 cks", OF eff(1) this]
  have "promoted ({i} \<union> set ids) (bdata B (sv_db sv))
      (bdata B (sv_db (snd (start_all B L (skip 1 cxss) (skip 1 cks) ids sv'))))"
    using promoted_trans [OF eff(2)] ih by blast
  moreover have "promoted (insert i (set ids)) (bdata B (sv_db sv)) (bdata B (sv_db sv'))"
    by (rule promoted_mono [OF eff(2)]) simp
  ultimately show ?case using ih eff(1) st by (auto split: sum.splits)
qed

lemma SaveQueueStats_keeps:
  assumes "badger_laws B" "repo_ok L (bdata B s)"
  shows "repo_ok L (bdata B (snd (SaveQueueStats B cx s st))) \<and>
    stored (bdata B (snd (SaveQueueStats B cx s st))) = stored (bdata B s)"
proof (cases "SaveQueueStats B cx s st")
  case (Pair r s')
  show ?thesis
  proof (cases r)
    case (Inl e)
    with Pair have "s' = s" by (auto simp: SaveQueueStats_def dest: repo_update_error)
    with Pair assms(2) show ?thesis by simp
  next
    case (Inr u)
    have "bdata B s' = (bdata B s)(kQueueStats (qs_QueueID st) \<mapsto> StatsJ st)"
      using Pair Inr unfolding SaveQueueStats_def
      by (auto simp: bindE_eq_Inr txn_write_Inr elim!: repo_update_ok [OF assms(1)])
    with Pair repo_ok_puts [OF assms(2)] show ?thesis by simp
  qed
qed

section \<open>Properties\<close>

lemma listed_queued:
  assumes "badger_laws B" "badger_quiet B" "sort_contract L" "repo_ok L (bdata B s)" "q_ID q \<noteq> []" "0 < n"
  shows "\<exists>ds. ListDownloads B L live s
      ((queue_opts StatusQueued q)\<lparr>o_OrderBy := ''priority'', o_OrderDesc := True\<rparr>) n 0 = Inr ds \<and>
    int (length ds) \<le> n \<and> d_ID ` set ds \<subseteq> in_queue StatusQueued (q_ID q) (bdata B s)"
proof -
  let ?o = "(queue_opts StatusQueued q)\<lparr>o_OrderBy := ''priority'', o_OrderDesc := True\<rparr>"
  let ?h = "hits B L s [] ?o"
  have "opts_ok ?o" using assms(5) by (simp add: opts_ok_def const_defs)
  then have "set ?h = {d. stored (bdata B s) (d_ID d) = Some d \<and> matches L ?o d}"
    using set_hits [OF assms(1), of L s "[]" ?o] assms(4) by (simp add: matching_def)
  then have "d_ID ` set (page n 0 ?h) \<subseteq> in_queue StatusQueued (q_ID q) (bdata B s)"
    using set_page_subset [of n 0 ?h] by (auto simp: in_queue_def)
  moreover have "int (length (page n 0 ?h)) \<le> n" using assms(6) by (simp add: page_def)
  ultimately show ?thesis
    by (simp add: ListDownloads_live [OF assms(1,2,4)] assms(3))
qed

text \<open>What a tick of a queue comes down to when its context is alive.\<close>

lemma tick_queue_live:
  fixes cks :: "nat \<Rightarrow> clock" and cxss :: "nat \<Rightarrow> gctxs"
  assumes "badger_laws B" "badger_quiet B" "repo_ok L (bdata B (sv_db sv))" "q_ID q \<noteq> []"
    and "in64 (q_Concurrency q)" "int (card (in_queue StatusRunning (q_ID q) (bdata B (sv_db sv)))) < 2 ^ 63"
    and np: "\<not> q_Paused q" and rl: "queue_limit (cks 0 0) q (sv_lim sv) = Inr rl"
  defines "free \<equiv> max 1 (q_Concurrency q) - int (card (in_queue StatusRunning (q_ID q) (bdata B (sv_db sv))))"
  shows "\<exists>db. repo_ok L (bdata B db) \<and> stored (bdata B db) = stored (bdata B (sv_db sv)) \<and>
    tick_queue B L (\<lambda>_. live) cxss cks q sv =
      (if free \<le> 0 then (Inr (), sv\<lparr>sv_lim := rl, sv_db := db\<rparr>)
       else case ListDownloads B L live db
           ((queue_opts StatusQueued q)\<lparr>o_OrderBy := ''priority'', o_OrderDesc := True\<rparr>) free 0 of
         Inl e \<Rightarrow> (Inr (), sv\<lparr>sv_lim := rl, sv_db := db\<rparr>)
       | Inr ds \<Rightarrow> start_all B L cxss (skip 1 cks) (map d_ID ds) (sv\<lparr>sv_lim := rl, sv_db := db\<rparr>))"
proof -
  let ?m = "bdata B (sv_db sv)"
  let ?run = "int (card (in_queue StatusRunning (q_ID q) ?m))"
  let ?conc = "if q_Concurrency q \<le> 0 then 1 else q_Concurrency q"
  have oo: "opts_ok (queue_opts StatusRunning q)" using assms(4) by (simp add: opts_ok_def const_defs)
  have run: "counted B L live (sv_db sv) (queue_opts StatusRunning q) = ?run"
    by (simp add: counted_live [OF assms(1-3) oo] card_in_queue [OF assms(3)])
  have diff: "sub64 ?conc ?run = ?conc - ?run"
    by (rule sub64_id) (use assms(5,6) in \<open>simp add: in64_def\<close>)
  have free: "?conc - ?run = free" by (simp add: free_def)
  define st where "st = \<lparr>qs_QueueID = q_ID q,
      qs_NumPending = counted B L live (sv_db sv) (queue_opts StatusQueued q), qs_NumRunning = ?run,
      qs_NumCompleted = counted B L live (sv_db sv) (queue_opts StatusCompleted q),
      qs_NumFailed = counted B L live (sv_db sv) (queue_opts StatusFailed q), qs_BytesPerSec = 0\<rparr>"
  define db where "db = snd (SaveQueueStats B live (sv_db sv) st)"
  have db: "repo_ok L (bdata B db)" "stored (bdata B db) = stored ?m"
    using SaveQueueStats_keeps [OF assms(1,3), of live st] by (simp_all add: db_def)
  have "tick_queue B L (\<lambda>_. live) cxss cks q sv =
      (if free \<le> 0 then (Inr (), sv\<lparr>sv_lim := rl, sv_db := db\<rparr>)
       else case ListDownloads B L live db
           ((queue_opts StatusQueued q)\<lparr>o_OrderBy := ''priority'', o_OrderDesc := True\<rparr>) free 0 of
         Inl e \<Rightarrow> (Inr (), sv\<lparr>sv_lim := rl, sv_db := db\<rparr>)
       | Inr ds \<Rightarrow> start_all B L cxss (skip 1 cks) (map d_ID ds) (sv\<lparr>sv_lim := rl, sv_db := db\<rparr>))"
    unfolding tick_queue_def if_not_P [OF np] rl sum.case Let_def run diff free st_def [symmetric]
      db_def [symmetric] by (rule refl)
  with db show ?thesis by blast
qed

text \<open>
  C10.  A tick of a queue starts only downloads that were queued in it, and after it the queue runs no
  more downloads than before or than its concurrency (one when none is set), whichever is larger; a
  paused queue is left alone, and the repository invariant is kept.
\<close>

theorem tick_queue_bounded:
  fixes cks :: "nat \<Rightarrow> clock"
  assumes "badger_laws B" "badger_quiet B" "sort_contract L" "svc_ok B L sv" "q_ID q \<noteq> []"
    and "in64 (q_Concurrency q)" "int (card (in_queue StatusRunning (q_ID q) (bdata B (sv_db sv)))) < 2 ^ 63"
  defines "sv' \<equiv> snd (tick_queue B L (\<lambda>_. live) (\<lambda>_ _. live) cks q sv)"
  shows "svc_ok B L sv' \<and>
    promoted (if q_Paused q then {} else in_queue StatusQueued (q_ID q) (bdata B (sv_db sv)))
      (bdata B (sv_db sv)) (bdata B (sv_db sv')) \<and>
    int (card (in_queue StatusRunning (q_ID q) (bdata B (sv_db sv')))) \<le>
      max (int (card (in_queue StatusRunning (q_ID q) (bdata B (sv_db sv))))) (max 1 (q_Concurrency q))"
proof (cases "q_Paused q \<or> (\<exists>e. queue_limit (cks 0 0) q (sv_lim sv) = Inl e)")
  case True
  then have "sv' = sv" by (auto simp: sv'_def tick_queue_def)
  with assms(4) show ?thesis by (simp add: promoted_refl)
next
  case False
  then obtain rl where rl: "queue_limit (cks 0 0) q (sv_lim sv) = Inr rl" and np: "\<not> q_Paused q"
    by (cases "queue_limit (cks 0 0) q (sv_lim sv)") auto
  let ?m = "bdata B (sv_db sv)"
  let ?R = "in_queue StatusRunning (q_ID q)"
  have ok: "repo_ok L ?m" using assms(4) by (simp add: svc_ok_def)
  let ?run = "int (card (?R ?m))"
  let ?conc = "max 1 (q_Concurrency q)"
  from tick_queue_live [where cks = cks and cxss = "\<lambda>_ _. live", OF assms(1,2) ok assms(5-7) np rl] obtain db where
    db: "repo_ok L (bdata B db)" "stored (bdata B db) = stored ?m"
    and tick: "tick_queue B L (\<lambda>_. live) (\<lambda>_ _. live) cks q sv =
      (if ?conc - ?run \<le> 0 then (Inr (), sv\<lparr>sv_lim := rl, sv_db := db\<rparr>)
       else case ListDownloads B L live db
           ((queue_opts StatusQueued q)\<lparr>o_OrderBy := ''priority'', o_OrderDesc := True\<rparr>) (?conc - ?run) 0 of
         Inl e \<Rightarrow> (Inr (), sv\<lparr>sv_lim := rl, sv_db := db\<rparr>)
       | Inr ds \<Rightarrow> start_all B L (\<lambda>_ _. live) (skip 1 cks) (map d_ID ds) (sv\<lparr>sv_lim := rl, sv_db := db\<rparr>))"
    by blast
  let ?sv = "sv\<lparr>sv_lim := rl, sv_db := db\<rparr>"
  have ok1: "svc_ok B L ?sv" using assms(4) db(1) by (simp add: svc_ok_def)
  have same: "in_queue x y (bdata B db) = in_queue x y ?m" for x y by (simp add: in_queue_def db(2))
  have sv': "sv' = (if ?conc - ?run \<le> 0 then ?sv
      else case ListDownloads B L live db
          ((queue_opts StatusQueued q)\<lparr>o_OrderBy := ''priority'', o_OrderDesc := True\<rparr>) (?conc - ?run) 0 of
        Inl e \<Rightarrow> ?sv
      | Inr ds \<Rightarrow> snd (start_all B L (\<lambda>_ _. live) (skip 1 cks) (map d_ID ds) ?sv))"
    unfolding sv'_def tick by (simp split: sum.splits)
  show ?thesis
  proof (cases "?conc - ?run \<le> 0")
    case True
    then have "sv' = ?sv" by (simp add: sv')
    with ok1 db(2) show ?thesis by (simp add: promoted_refl same)
  next
    case False
    from listed_queued [OF assms(1-3) db(1) assms(5), of "?conc - ?run"] False obtain ds where
      ds: "ListDownloads B L live db
        ((queue_opts StatusQueued q)\<lparr>o_OrderBy := ''priority'', o_OrderDesc := True\<rparr>) (?conc - ?run) 0 = Inr ds"
      "int (length ds) \<le> ?conc - ?run" "d_ID ` set ds \<subseteq> in_queue StatusQueued (q_ID q) ?m"
      by (auto simp: same)
    have eq: "sv' = snd (start_all B L (\<lambda>_ _. live) (skip 1 cks) (map d_ID ds) ?sv)"
      unfolding sv' if_not_P [OF False] ds(1) by simp
    from start_all_effect [OF assms(1,2) ok1, of "\<lambda>_ _. live" "skip 1 cks" "map d_ID ds"]
    have eff: "svc_ok B L sv'" "promoted (set (map d_ID ds)) (bdata B db) (bdata B (sv_db sv'))"
      by (simp_all add: eq)
    have sub: "?R (bdata B (sv_db sv')) \<subseteq> ?R ?m \<union> set (map d_ID ds)"
      using promoted_running [OF eff(2)] by (simp add: same)
    have "?R ?m \<subseteq> {i. stored ?m i \<noteq> None}" by (auto simp: in_queue_def)
    then have "finite (?R ?m)" by (rule finite_subset [OF _ finite_stored [OF assms(1)]])
    with sub have "card (?R (bdata B (sv_db sv'))) \<le> card (?R ?m \<union> set (map d_ID ds))"
      by (intro card_mono) simp_all
    also have "\<dots> \<le> card (?R ?m) + length ds"
      using card_Un_le [of "?R ?m" "set (map d_ID ds)"] card_length [of "map d_ID ds"] by simp
    finally have "int (card (?R (bdata B (sv_db sv')))) \<le> ?conc" using ds(2) by simp
    also have "?conc \<le> max ?run (max 1 (q_Concurrency q))" by simp
    finally have "int (card (?R (bdata B (sv_db sv')))) \<le> max ?run (max 1 (q_Concurrency q))" .
    moreover have "promoted (in_queue StatusQueued (q_ID q) ?m) ?m (bdata B (sv_db sv'))"
      using promoted_mono [OF promoted_trans [OF promoted_refl [OF db(2), of "{}"] eff(2)]] ds(3) by simp
    ultimately show ?thesis using eff(1) np by simp
  qed
qed

theorem tick_queue_bounded_witness:
  "int (card (in_queue StatusRunning ''main'' (bdata mem_badger
     (sv_db (snd (tick_queue mem_badger basic_lib (\<lambda>_. live) (\<lambda>_ _. live) (\<lambda>_. demo_clock) demo_queue demo_svc)))))) \<le> 4"
proof -
  have ok: "svc_ok mem_badger basic_lib demo_svc" using demo_svc_facts(3,5) by (simp add: svc_ok_def)
  have none: "in_queue StatusRunning ''main'' (bdata mem_badger (sv_db demo_svc)) = {}"
    using demo_stored by (auto simp: in_queue_def const_defs)
  have q: "q_ID demo_queue \<noteq> []" "in64 (q_Concurrency demo_queue)" "q_Concurrency demo_queue = 4"
    by (simp_all add: demo_queue_def in64_def)
  from tick_queue_bounded [OF demo_svc_facts(1,2) basic_lib_sort_contract ok q(1,2), of "\<lambda>_. demo_clock"] none q(3)
  show ?thesis by simp
qed

definition stale :: "duration \<Rightarrow> clock \<Rightarrow> Download \<Rightarrow> bool" where
  "stale staleAfter ck d \<longleftrightarrow> IsZero (d_UpdatedAt d) \<or> staleAfter < time_Sub (ck 0) (d_UpdatedAt d)"

text \<open>
  The recovery of stale downloads puts exactly those of the listed downloads back into the queued
  state whose last update is unset or older than the timeout, and touches no other row.
\<close>

lemma requeue_stale_rows:
  fixes cks :: "nat \<Rightarrow> clock" and staleAfter :: duration
  assumes "badger_laws B" "badger_quiet B" "repo_ok L (bdata B s)"
    and "distinct (map d_ID ds)" "\<forall>d \<in> set ds. stored (bdata B s) (d_ID d) = Some d"
  defines "s' \<equiv> requeue_stale B L staleAfter (\<lambda>_. live) cks ds s"
  shows "repo_ok L (bdata B s') \<and>
    (\<forall>k < length ds. stored (bdata B s') (d_ID (ds ! k)) =
       Some (if stale staleAfter (cks k) (ds ! k)
             then (ds ! k)\<lparr>d_Status := StatusQueued, d_UpdatedAt := cks k 1\<rparr> else ds ! k)) \<and>
    (\<forall>i. i \<notin> d_ID ` set ds \<longrightarrow> stored (bdata B s') i = stored (bdata B s) i)"
  unfolding s'_def using assms(3-5)
proof (induction ds arbitrary: s cks)
  case (Cons d ds)
  let ?d = "if stale staleAfter (cks 0) d then d\<lparr>d_Status := StatusQueued, d_UpdatedAt := cks 0 1\<rparr> else d"
  define s1 where "s1 = (if stale staleAfter (cks 0) d
    then snd (UpdateDownload B L live (skip 1 (cks 0)) s (d\<lparr>d_Status := StatusQueued\<rparr>)) else s)"
  have row: "stored (bdata B s) (d_ID d) = Some d" using Cons.prems(3) by simp
  have v: "valid_download (d_ID d) d" by (rule repo_ok_valid [OF Cons.prems(1) row])
  have s1: "repo_ok L (bdata B s1) \<and> stored (bdata B s1) = (stored (bdata B s))(d_ID d \<mapsto> ?d)"
  proof (cases "stale staleAfter (cks 0) d")
    case True
    have "stored (bdata B s) (d_ID (d\<lparr>d_Status := StatusQueued\<rparr>)) = Some d" using row by simp
    from UpdateDownload_quiet [where cx = live and ck = "skip 1 (cks 0)", OF assms(1,2) Cons.prems(1) _ _ _ this] v
    obtain s2 where "UpdateDownload B L live (skip 1 (cks 0)) s (d\<lparr>d_Status := StatusQueued\<rparr>) =
        (Inr (?d), s2)" "bdata B s2 = put_store L ?d (bdata B s)" "valid_download (d_ID d) ?d"
      using True by (auto simp: valid_download_def updated_keep skip_apply)
    with True repo_ok_put_store [OF Cons.prems(1), of "d_ID d" ?d] show ?thesis
      by (simp add: s1_def)
  next
    case False
    with Cons.prems(1) row show ?thesis by (auto simp: s1_def fun_eq_iff)
  qed
  have "\<forall>e \<in> set ds. stored (bdata B s1) (d_ID e) = Some e"
  proof
    fix e assume e: "e \<in> set ds"
    then have "d_ID e \<noteq> d_ID d" using Cons.prems(2) by (metis distinct.simps(2) image_eqI list.set_map list.simps(9))
    then show "stored (bdata B s1) (d_ID e) = Some e"
      unfolding conjunct2 [OF s1] using bspec [OF Cons.prems(3), of e] e by simp
  qed
  note ih0 = Cons.IH [where cks = "\<lambda>a. cks (Suc a)", OF conjunct1 [OF s1] _ this]
  have tail: "distinct (map d_ID ds)" using Cons.prems(2) by simp
  note ih = conjunct1 [OF ih0 [OF tail]] conjunct1 [OF conjunct2 [OF ih0 [OF tail]]]
    conjunct2 [OF conjunct2 [OF ih0 [OF tail]]]
  have step: "requeue_stale B L staleAfter (\<lambda>_. live) cks (d # ds) s =
      requeue_stale B L staleAfter (\<lambda>_. live) (\<lambda>a. cks (Suc a)) ds s1"
    unfolding s1_def stale_def by (simp add: skip_def)
  have "d_ID d \<notin> d_ID ` set ds" using Cons.prems(2) by simp
  with ih(3) have first: "stored (bdata B (requeue_stale B L staleAfter (\<lambda>_. live) (\<lambda>a. cks (Suc a)) ds s1)) (d_ID d) = Some ?d"
    unfolding conjunct2 [OF s1] by simp
  show ?case unfolding step
  proof (intro conjI allI impI)
    fix k assume "k < length (d # ds)"
    then show "stored (bdata B (requeue_stale B L staleAfter (\<lambda>_. live) (\<lambda>a. cks (Suc a)) ds s1)) (d_ID ((d # ds) ! k)) =
        Some (if stale staleAfter (cks k) ((d # ds) ! k)
              then ((d # ds) ! k)\<lparr>d_Status := StatusQueued, d_UpdatedAt := cks k 1\<rparr> else (d # ds) ! k)"
      using first ih(2) by (cases k) simp_all
  next
    fix i assume "i \<notin> d_ID ` set (d # ds)"
    then show "stored (bdata B (requeue_stale B L staleAfter (\<lambda>_. live) (\<lambda>a. cks (Suc a)) ds s1)) i = stored (bdata B s) i"
      using ih(3) unfolding conjunct2 [OF s1] by simp
  qed (rule ih(1))
qed simp

end
