(* ===== verification/Routes.thy ===== *)
theory Routes
  imports Service_Lifecycle Queue_Service
begin

text \<open>
  The HTTP API of \<open>internal/api/routes\<close>: one handler per operation over the services.  Routing, reading a
  JSON body into a struct and writing the answer belong to the libraries huma and chi: a request is the
  input struct of its handler, and a reply is what the handler returns.  An error that is no status error
  of huma is answered with status 500.  A panic of a handler is caught by \<open>net/http\<close>, which drops the
  connection.
\<close>

section \<open>Requests and replies\<close>

record list_query =
  lq_status :: string
  lq_queue :: string
  lq_tags :: string
  lq_search :: string
  lq_limit :: string
  lq_offset :: string
  lq_order :: string
  lq_desc :: bool

text \<open>A body that is a pointer in the code may be absent.\<close>

datatype download_request =
    EnqueueDownload EnqueueDownloadRequest
  | ReadDownload string
  | QueryDownloads list_query
  | QueryCount list_query
  | StartDownload string
  | PauseDownload string
  | ResumeDownload string
  | CancelDownload string
  | RemoveDownload string
  | PutConfig string DownloadConfig
  | PutRequest string RequestOptions
  | PostPriority string "int option"
  | PostTags string "string list option"
  | DeleteTags string "string list option"
  | PostQueue string "string option"

datatype queue_request =
    PostNewQueue Queue
  | ReadQueue string
  | ReadQueues
  | PutQueue string Queue
  | RemoveQueue string
  | PausingQueue string
  | ResumingQueue string
  | ReadStats string
  | BulkRemove string
  | BulkMove string "string option"
  | BulkPriority string "int option"
  | BulkStatus string "DownloadStatus option"

datatype request = ForDownloads download_request | ForQueues queue_request

datatype reply =
    NoContent
  | EnqueuedReply EnqueueDownloadResponse
  | DownloadReply Download
  | DownloadsReply "Download list"
  | CountReply int
  | QueueReply Queue
  | QueuesReply "Queue list"
  | StatsReply QueueStats
  | StatusError int string
  | PlainError gerr

definition reply_of :: "('a \<Rightarrow> reply) \<Rightarrow> 'a res \<Rightarrow> reply" where
  "reply_of f r = (case r of Inl e \<Rightarrow> PlainError e | Inr x \<Rightarrow> f x)"

text \<open>Where the operations are registered: the method and the segments of the path.\<close>

fun download_endpoint :: "download_request \<Rightarrow> string \<times> string list" where
  "download_endpoint (EnqueueDownload r) = (''POST'', [''downloads''])"
| "download_endpoint (ReadDownload i) = (''GET'', [''downloads'', i])"
| "download_endpoint (QueryDownloads q) = (''GET'', [''downloads''])"
| "download_endpoint (QueryCount q) = (''GET'', [''downloads'', ''count''])"
| "download_endpoint (StartDownload i) = (''POST'', [''downloads'', i, ''start''])"
| "download_endpoint (PauseDownload i) = (''POST'', [''downloads'', i, ''pause''])"
| "download_endpoint (ResumeDownload i) = (''POST'', [''downloads'', i, ''resume''])"
| "download_endpoint (CancelDownload i) = (''POST'', [''downloads'', i, ''cancel''])"
| "download_endpoint (RemoveDownload i) = (''DELETE'', [''downloads'', i])"
| "download_endpoint (PutConfig i c) = (''PUT'', [''downloads'', i, ''config''])"
| "download_endpoint (PutRequest i r) = (''PUT'', [''downloads'', i, ''request''])"
| "download_endpoint (PostPriority i b) = (''POST'', [''downloads'', i, ''priority''])"
| "download_endpoint (PostTags i b) = (''POST'', [''downloads'', i, ''tags''])"
| "download_endpoint (DeleteTags i b) = (''DELETE'', [''downloads'', i, ''tags''])"
| "download_endpoint (PostQueue i b) = (''POST'', [''downloads'', i, ''queue''])"

fun queue_endpoint :: "queue_request \<Rightarrow> string \<times> string list" where
  "queue_endpoint (PostNewQueue q) = (''POST'', [''queues''])"
| "queue_endpoint (ReadQueue i) = (''GET'', [''queues'', i])"
| "queue_endpoint ReadQueues = (''GET'', [''queues''])"
| "queue_endpoint (PutQueue i q) = (''PUT'', [''queues'', i])"
| "queue_endpoint (RemoveQueue i) = (''DELETE'', [''queues'', i])"
| "queue_endpoint (PausingQueue i) = (''POST'', [''queues'', i, ''pause''])"
| "queue_endpoint (ResumingQueue i) = (''POST'', [''queues'', i, ''resume''])"
| "queue_endpoint (ReadStats i) = (''GET'', [''queues'', i, ''stats''])"
| "queue_endpoint (BulkRemove i) = (''POST'', [''queues'', i, ''bulk'', ''delete''])"
| "queue_endpoint (BulkMove i b) = (''POST'', [''queues'', i, ''bulk'', ''reassign''])"
| "queue_endpoint (BulkPriority i b) = (''POST'', [''queues'', i, ''bulk'', ''priority''])"
| "queue_endpoint (BulkStatus i b) = (''POST'', [''queues'', i, ''bulk'', ''status''])"

fun endpoint :: "request \<Rightarrow> string \<times> string list" where
  "endpoint (ForDownloads r) = download_endpoint r"
| "endpoint (ForQueues r) = queue_endpoint r"

section \<open>Reading a query\<close>

definition split_tags :: "(string \<Rightarrow> string) \<Rightarrow> string \<Rightarrow> string list" where
  "split_tags trim tags =
     (if tags = [] then []
      else filter (\<lambda>s. s \<noteq> []) (map (TrimSpace trim) (split_on (CHR '','') tags)))"

definition filter_opts :: "(string \<Rightarrow> string) \<Rightarrow> list_query \<Rightarrow> ListDownloadsOptions" where
  "filter_opts trim q =
     zero_Options\<lparr>o_Statuses := (if lq_status q \<noteq> [] then [lq_status q] else []),
       o_QueueIDs := (if lq_queue q \<noteq> [] then [lq_queue q] else []),
       o_Tags := split_tags trim (lq_tags q), o_Search := lq_search q\<rparr>"

definition query_opts :: "(string \<Rightarrow> string) \<Rightarrow> list_query \<Rightarrow> ListDownloadsOptions" where
  "query_opts trim q =
     (filter_opts trim q)\<lparr>o_OrderBy := lq_order q, o_OrderDesc := lq_desc q\<rparr>"

text \<open>\<open>strconv.Atoi\<close> of a parameter that is 0 when it is absent.\<close>

definition number_param :: "string \<Rightarrow> int option" where
  "number_param s = (if s = [] then Some 0 else ParseInt s)"

section \<open>The handlers\<close>

text \<open>
  What a handler reads: the contexts and the clock of its service call, the id that an enqueue draws, the
  errors of the operating system and the home directory, and \<open>strings.TrimSpace\<close> outside ASCII.
\<close>

record request_env =
  rq_cxs :: gctxs
  rq_ck :: clock
  rq_uid :: string
  rq_io :: oserrs
  rq_home :: "string res"
  rq_trim :: "string \<Rightarrow> string"

definition list_handler ::
    "'s badger \<Rightarrow> stdlib \<Rightarrow> request_env \<Rightarrow> list_query \<Rightarrow> 's svc \<Rightarrow> reply" where
  "list_handler B L rq q sv =
     (case number_param (lq_limit q) of
        None \<Rightarrow> StatusError 400 ''invalid limit parameter''
      | Some limit \<Rightarrow> (case number_param (lq_offset q) of
          None \<Rightarrow> StatusError 400 ''invalid offset parameter''
        | Some offset \<Rightarrow> reply_of DownloadsReply
            (svc_List B L (rq_cxs rq 0) sv (query_opts (rq_trim rq) q) limit offset)))"

definition get_handler :: "'s badger \<Rightarrow> request_env \<Rightarrow> string \<Rightarrow> 's svc \<Rightarrow> reply" where
  "get_handler B rq did sv =
     (case svc_Get B (rq_cxs rq 0) sv did of
        Inl e \<Rightarrow> if e = ErrNotFound then StatusError 404 ''download not found'' else PlainError e
      | Inr d \<Rightarrow> DownloadReply d)"

text \<open>A handler that only changes state.\<close>

definition changed :: "unit res \<times> 'w \<Rightarrow> reply \<times> 'w" where
  "changed r = (reply_of (\<lambda>u. NoContent) (fst r), snd r)"

text \<open>\<open>input.Body\<close> is dereferenced without a check.\<close>

definition with_body :: "'b option \<Rightarrow> ('b \<Rightarrow> reply \<times> 'w) \<Rightarrow> 'w \<Rightarrow> reply \<times> 'w" where
  "with_body body f w =
     (case body of None \<Rightarrow> (PlainError (ErrPanic ''nil pointer dereference''), w) | Some b \<Rightarrow> f b)"

fun handle_download ::
    "'s badger \<Rightarrow> stdlib \<Rightarrow> validator option \<Rightarrow> request_env \<Rightarrow> download_request \<Rightarrow> 's svc \<Rightarrow> reply \<times> 's svc" where
  "handle_download B L V rq (EnqueueDownload r) sv =
     (case Enqueue B L V (rq_cxs rq 0) (rq_ck rq) (rq_uid rq) r sv of (r, sv) \<Rightarrow> (reply_of EnqueuedReply r, sv))"
| "handle_download B L V rq (ReadDownload i) sv = (get_handler B rq i sv, sv)"
| "handle_download B L V rq (QueryDownloads q) sv = (list_handler B L rq q sv, sv)"
| "handle_download B L V rq (QueryCount q) sv =
     (reply_of CountReply (svc_Count B L (rq_cxs rq 0) sv (filter_opts (rq_trim rq) q)), sv)"
| "handle_download B L V rq (StartDownload i) sv = changed (Start B L (rq_cxs rq) (rq_ck rq) i sv)"
| "handle_download B L V rq (PauseDownload i) sv = changed (Pause B L (rq_cxs rq 0) (rq_ck rq) i sv)"
| "handle_download B L V rq (ResumeDownload i) sv = changed (Resume B L (rq_cxs rq 0) (rq_ck rq) i sv)"
| "handle_download B L V rq (CancelDownload i) sv = changed (Cancel B L (rq_cxs rq 0) (rq_ck rq) i sv)"
| "handle_download B L V rq (RemoveDownload i) sv =
     changed (Remove B L (rq_io rq) (rq_home rq) (rq_cxs rq) (rq_ck rq) i True sv)"
| "handle_download B L V rq (PutConfig i c) sv = changed (UpdateConfig B L V (rq_cxs rq 0) (rq_ck rq) i c sv)"
| "handle_download B L V rq (PutRequest i r) sv = changed (UpdateRequest B L V (rq_cxs rq 0) (rq_ck rq) i r sv)"
| "handle_download B L V rq (PostPriority i b) sv =
     with_body b (\<lambda>n. changed (SetPriority B L (rq_cxs rq 0) (rq_ck rq) i n sv)) sv"
| "handle_download B L V rq (PostTags i b) sv =
     with_body b (\<lambda>ts. changed (AddTags B L (rq_cxs rq 0) (rq_ck rq) i ts sv)) sv"
| "handle_download B L V rq (DeleteTags i b) sv =
     with_body b (\<lambda>ts. changed (RemoveTags B L (rq_cxs rq 0) (rq_ck rq) i ts sv)) sv"
| "handle_download B L V rq (PostQueue i b) sv =
     with_body b (\<lambda>q. changed (AssignQueue B L (rq_cxs rq 0) (rq_ck rq) i q sv)) sv"

fun handle_queue ::
    "'s badger \<Rightarrow> stdlib \<Rightarrow> request_env \<Rightarrow> queue_request \<Rightarrow> 's \<Rightarrow> reply \<times> 's" where
  "handle_queue B L rq (PostNewQueue q) s = changed (CreateQueue B (rq_cxs rq 0) (rq_ck rq) q s)"
| "handle_queue B L rq (ReadQueue i) s =
     (reply_of QueueReply (svc_GetQueue B (rq_cxs rq 0) i s), s)"
| "handle_queue B L rq ReadQueues s = (reply_of QueuesReply (svc_ListQueues B (rq_cxs rq 0) s), s)"
| "handle_queue B L rq (PutQueue i q) s =
     changed (UpdateQueue B (rq_cxs rq 0) (rq_ck rq) (q\<lparr>q_ID := i\<rparr>) s)"
| "handle_queue B L rq (RemoveQueue i) s = changed (svc_DeleteQueue B (rq_cxs rq 0) i s)"
| "handle_queue B L rq (PausingQueue i) s = changed (PauseQueue B (rq_cxs rq) (rq_ck rq) i s)"
| "handle_queue B L rq (ResumingQueue i) s = changed (ResumeQueue B (rq_cxs rq) (rq_ck rq) i s)"
| "handle_queue B L rq (ReadStats i) s = (reply_of StatsReply (Stats B (rq_cxs rq 0) i s), s)"
| "handle_queue B L rq (BulkRemove i) s = changed (BulkDelete B L (rq_cxs rq) (rq_ck rq) i s)"
| "handle_queue B L rq (BulkMove i b) s =
     with_body b (\<lambda>q. changed (BulkReassign B L (rq_cxs rq) (rq_ck rq) i q s)) s"
| "handle_queue B L rq (BulkPriority i b) s =
     with_body b (\<lambda>n. changed (BulkSetPriority B L (rq_cxs rq) (rq_ck rq) i n s)) s"
| "handle_queue B L rq (BulkStatus i b) s =
     with_body b (\<lambda>st. changed (BulkUpdateStatus B L (rq_cxs rq) (rq_ck rq) i st s)) s"

definition handle ::
    "'s badger \<Rightarrow> stdlib \<Rightarrow> validator option \<Rightarrow> request_env \<Rightarrow> request \<Rightarrow> 's svc \<Rightarrow> reply \<times> 's svc" where
  "handle B L V rq r sv =
     (case r of
        ForDownloads r \<Rightarrow> handle_download B L V rq r sv
      | ForQueues r \<Rightarrow> (case handle_queue B L rq r (sv_db sv) of (rep, s) \<Rightarrow> (rep, sv\<lparr>sv_db := s\<rparr>)))"

section \<open>The endpoints\<close>

text \<open>
  Of two requests that meet at one endpoint, both are of the same operation on the same download or
  queue; the only exception is a download whose id is \<open>count\<close>, which the counting hides.
\<close>

fun operation :: "request \<Rightarrow> nat" where
  "operation (ForDownloads r) = (case r of
     EnqueueDownload x \<Rightarrow> 0 | ReadDownload i \<Rightarrow> 1 | QueryDownloads q \<Rightarrow> 2 | QueryCount q \<Rightarrow> 3 | StartDownload i \<Rightarrow> 4
   | PauseDownload i \<Rightarrow> 5 | ResumeDownload i \<Rightarrow> 6 | CancelDownload i \<Rightarrow> 7 | RemoveDownload i \<Rightarrow> 8
   | PutConfig i c \<Rightarrow> 9 | PutRequest i x \<Rightarrow> 10 | PostPriority i b \<Rightarrow> 11 | PostTags i b \<Rightarrow> 12 | DeleteTags i b \<Rightarrow> 13
   | PostQueue i b \<Rightarrow> 14)"
| "operation (ForQueues r) = (case r of
     PostNewQueue q \<Rightarrow> 15 | ReadQueue i \<Rightarrow> 16 | ReadQueues \<Rightarrow> 17 | PutQueue i q \<Rightarrow> 18 | RemoveQueue i \<Rightarrow> 19
   | PausingQueue i \<Rightarrow> 20 | ResumingQueue i \<Rightarrow> 21 | ReadStats i \<Rightarrow> 22 | BulkRemove i \<Rightarrow> 23 | BulkMove i b \<Rightarrow> 24
   | BulkPriority i b \<Rightarrow> 25 | BulkStatus i b \<Rightarrow> 26)"

definition target :: "request \<Rightarrow> string option" where
  "target r = (case snd (endpoint r) of a # i # xs \<Rightarrow> Some i | _ \<Rightarrow> None)"

lemma endpoint_distinct:
  assumes "endpoint r = endpoint r'"
    "r \<noteq> ForDownloads (ReadDownload ''count'')" "r' \<noteq> ForDownloads (ReadDownload ''count'')"
  shows "operation r = operation r' \<and> target r = target r'"
proof -
  have down: "\<exists>m xs. download_endpoint x = (m, ''downloads'' # xs)" for x by (cases x) simp_all
  have que: "\<exists>m xs. queue_endpoint x = (m, ''queues'' # xs)" for x by (cases x) simp_all
  show ?thesis
  proof (cases r; cases r')
    fix x y assume "r = ForDownloads x" "r' = ForDownloads y"
    with assms show ?thesis by (cases x; cases y) (simp_all add: target_def)
  next
    fix x y assume "r = ForQueues x" "r' = ForQueues y"
    with assms show ?thesis by (cases x; cases y) (simp_all add: target_def)
  next
    fix x y assume "r = ForDownloads x" "r' = ForQueues y"
    with assms(1) down [of x] que [of y] show ?thesis by auto
  next
    fix x y assume "r = ForQueues x" "r' = ForDownloads y"
    with assms(1) down [of y] que [of x] show ?thesis by auto
  qed
qed

section \<open>Absent bodies\<close>

lemma nil_body_panics:
  assumes "r \<in> ForDownloads ` {PostPriority i None, PostTags i None, DeleteTags i None, PostQueue i None} \<union>
      ForQueues ` {BulkMove i None, BulkPriority i None, BulkStatus i None}"
  shows "handle B L V rq r sv = (PlainError (ErrPanic ''nil pointer dereference''), sv)"
  using assms by (auto simp: handle_def with_body_def)

section \<open>Downloads that are not there\<close>

lemma changed_Inl [simp]: "changed (Inl e, sv) = (PlainError e, sv)"
  by (simp add: changed_def reply_of_def)

lemma Get_live:
  assumes "badger_laws B" "badger_quiet B" "repo_ok L (bdata B s)" "alive 3 cx"
  shows "GetDownload B cx s did = (case stored (bdata B s) did of None \<Rightarrow> Inl ErrNotFound | Some d \<Rightarrow> Inr d)"
proof -
  have "cx 0 = None" "cx (Suc 0) = None" "cx 2 = None" using assms(4) by (simp_all add: alive_def)
  with repo_ok_get [OF assms(3), of did] show ?thesis
    by (cases "stored (bdata B s) did")
      (simp_all add: GetDownload_def repo_view_quiet [OF assms(2)] quiet_get [OF assms(1,2)] numeral_2_eq_2)
qed

lemma start_status_missing:
  assumes "badger_laws B" "badger_quiet B" "repo_ok L (bdata B (sv_db sv))"
    and "alive 4 (cxs 0)" "alive 4 (cxs 1)" "stored (bdata B (sv_db sv)) did = None"
  shows "start_status B L cxs ck did sv = (Inl ErrNotFound, sv)"
proof -
  have "alive 3 (cxs 0)" using assms(4) by (simp add: alive_def)
  from Get_live [OF assms(1-3) this] assms(6)
  have "start_limit B (cxs 0) (ck 0) did sv = Inr (sv_lim sv)"
    by (simp add: start_limit_def split: option.splits)
  then show ?thesis using updateStatus_missing [OF assms(1-3,5,6)] by (simp add: start_status_def)
qed

lemma Remove_missing:
  assumes "badger_laws B" "badger_quiet B" "repo_ok L (bdata B (sv_db sv))" "alive 4 (cxs 0)"
    and "stored (bdata B (sv_db sv)) did = None"
  shows "Remove B L io home cxs ck did del sv = (Inl ErrNotFound, sv)"
proof -
  have "alive 3 (cxs 0)" using assms(4) by (simp add: alive_def)
  from Get_live [OF assms(1-3) this] assms(5) show ?thesis by (simp add: Remove_def)
qed


definition demo_env :: request_env where
  "demo_env =
     \<lparr>rq_cxs = (\<lambda>j. live), rq_ck = demo_clock, rq_uid = ''b2'', rq_io = no_errors, rq_home = Inr ''/h'',
      rq_trim = (\<lambda>s. s)\<rparr>"


section \<open>Listing through the API\<close>

text \<open>The filters that a query stands for.\<close>

definition asked_for :: "stdlib \<Rightarrow> (string \<Rightarrow> string) \<Rightarrow> list_query \<Rightarrow> Download \<Rightarrow> bool" where
  "asked_for L trim q d \<longleftrightarrow>
     (lq_queue q = [] \<or> d_QueueID d = lq_queue q) \<and> (lq_status q = [] \<or> d_Status d = lq_status q) \<and>
     (split_tags trim (lq_tags q) = [] \<or>
        (\<exists>t \<in> set (split_tags trim (lq_tags q)). \<exists>dt \<in> set (d_Tags d). EqualFold (lib_fold L) dt t)) \<and>
     (lq_search q = [] \<or>
        sublist (ToLower (lib_lower L) (lq_search q))
          (ToLower (lib_lower L)
            (case d_File d of None \<Rightarrow> d_URL d | Some f \<Rightarrow> d_URL d @ ''|'' @ f_Filename f)))"

lemma matches_query:
  "matches L (query_opts trim q) d \<longleftrightarrow> asked_for L trim q d"
  "matches L (filter_opts trim q) d \<longleftrightarrow> asked_for L trim q d"
  by (auto simp: matches_def asked_for_def query_opts_def filter_opts_def zero_Options_def queue_filter_def
      status_filter_def tag_filter_def search_filter_def created_filter_def contains_iff Let_def list_ex_iff)

lemma opts_ok_query [simp]: "opts_ok (query_opts trim q)" "opts_ok (filter_opts trim q)"
  by (simp_all add: opts_ok_def query_opts_def filter_opts_def zero_Options_def)

text \<open>
  C39.  A listing through the API is a page of the stored downloads that the query asks for, and a count
  gives their number.  These downloads form one list, each in it once and no other, in the order of their
  creation; whatever the parameters \<open>limit\<close> and \<open>offset\<close>, which count as 0 when they are absent, the answer
  skips \<open>offset\<close> of them and holds all the rest for a negative limit, the next \<open>limit\<close> ones for a positive
  one, and one for 0, so a request without a limit gets one download; they are in the order that the query
  names.  A limit or an offset that is no number is answered with status 400.  Nothing changes.
\<close>

theorem list_request_exact:
  fixes q :: list_query
  assumes "badger_laws B" "badger_quiet B" "sort_contract L" "repo_ok L (bdata B (sv_db sv))"
    and "rq_cxs rq 0 = live"
  defines "D \<equiv> {d. stored (bdata B (sv_db sv)) (d_ID d) = Some d \<and> asked_for L (rq_trim rq) q d}"
  shows "handle B L V rq (ForDownloads (QueryCount q)) sv = (CountReply (int (card D)), sv) \<and>
    (\<exists>hs. distinct hs \<and> set hs = D \<and>
      (times_ok (bdata B (sv_db sv)) \<longrightarrow> sorted_wrt (\<lambda>a b. if lq_desc q then d_CreatedAt b \<le> d_CreatedAt a
         else d_CreatedAt a \<le> d_CreatedAt b) hs) \<and>
      (\<forall>limit offset.
        (case (if limit = [] then Some 0 else ParseInt limit, if offset = [] then Some 0 else ParseInt offset) of
          (None, _) \<Rightarrow> handle B L V rq (ForDownloads (QueryDownloads (q\<lparr>lq_limit := limit, lq_offset := offset\<rparr>))) sv =
            (StatusError 400 ''invalid limit parameter'', sv)
        | (Some n, None) \<Rightarrow> handle B L V rq (ForDownloads (QueryDownloads (q\<lparr>lq_limit := limit, lq_offset := offset\<rparr>))) sv =
            (StatusError 400 ''invalid offset parameter'', sv)
        | (Some n, Some m) \<Rightarrow> \<exists>ds.
            handle B L V rq (ForDownloads (QueryDownloads (q\<lparr>lq_limit := limit, lq_offset := offset\<rparr>))) sv =
              (DownloadsReply ds, sv) \<and> ordered (query_opts (rq_trim rq) q) ds \<and>
            mset ds = mset (if n < 0 then drop (nat m) hs else take (nat (max 1 n)) (drop (nat m) hs)))))"
proof -
  let ?opt = "query_opts (rq_trim rq) q"
  have D: "matching L (filter_opts (rq_trim rq) q) (bdata B (sv_db sv)) = D"
    "{d. stored (bdata B (sv_db sv)) (d_ID d) = Some d \<and> matches L ?opt d} = D"
    by (simp_all add: matching_def D_def matches_query)
  have desc: "o_OrderDesc ?opt = lq_desc q" by (simp add: query_opts_def)
  have opt: "query_opts (rq_trim rq) (q\<lparr>lq_limit := limit, lq_offset := offset\<rparr>) = ?opt" for limit offset
    by (simp add: query_opts_def filter_opts_def)
  from ListDownloads_pages [OF assms(1-4) opts_ok_query(1), of "rq_trim rq" q, unfolded D desc] obtain hs where
    hs: "distinct hs" "set hs = D"
    "times_ok (bdata B (sv_db sv)) \<longrightarrow> sorted_wrt (\<lambda>a b. if lq_desc q then d_CreatedAt b \<le> d_CreatedAt a
         else d_CreatedAt a \<le> d_CreatedAt b) hs"
    "\<forall>limit offset. \<exists>ds. ListDownloads B L live (sv_db sv) ?opt limit offset = Inr ds \<and> ordered ?opt ds \<and>
       mset ds = mset (if limit < 0 then drop (nat offset) hs else take (nat (max 1 limit)) (drop (nat offset) hs))"
    by (elim exE conjE) (rule that)
  let ?h = "\<lambda>limit offset. handle B L V rq (ForDownloads (QueryDownloads (q\<lparr>lq_limit := limit, lq_offset := offset\<rparr>))) sv"
  have listing: "?h limit offset =
      (case number_param limit of None \<Rightarrow> StatusError 400 ''invalid limit parameter''
       | Some n \<Rightarrow> (case number_param offset of None \<Rightarrow> StatusError 400 ''invalid offset parameter''
         | Some m \<Rightarrow> reply_of DownloadsReply (ListDownloads B L live (sv_db sv) ?opt n m)), sv)" for limit offset
    by (simp add: handle_def list_handler_def svc_List_def assms(5) opt split: option.split)
  have "case (number_param limit, number_param offset) of
      (None, _) \<Rightarrow> ?h limit offset = (StatusError 400 ''invalid limit parameter'', sv)
    | (Some n, None) \<Rightarrow> ?h limit offset = (StatusError 400 ''invalid offset parameter'', sv)
    | (Some n, Some m) \<Rightarrow> \<exists>ds. ?h limit offset = (DownloadsReply ds, sv) \<and> ordered ?opt ds \<and>
        mset ds = mset (if n < 0 then drop (nat m) hs else take (nat (max 1 n)) (drop (nat m) hs))" for limit offset
  proof (cases "number_param limit"; cases "number_param offset")
    fix n m assume nm: "number_param limit = Some n" "number_param offset = Some m"
    from hs(4) obtain ds where "ListDownloads B L live (sv_db sv) ?opt n m = Inr ds" "ordered ?opt ds"
      "mset ds = mset (if n < 0 then drop (nat m) hs else take (nat (max 1 n)) (drop (nat m) hs))" by blast
    then show ?thesis unfolding listing nm by (simp add: reply_of_def)
  qed (simp_all add: listing)
  note pages = this [unfolded number_param_def]
  have "handle B L V rq (ForDownloads (QueryCount q)) sv = (CountReply (int (card D)), sv)"
    using CountDownloads_live [OF assms(1,2,4) opts_ok_query(2), of "rq_trim rq" q] D(1)
    by (simp add: handle_def svc_Count_def reply_of_def assms(5))
  with hs(1-3) pages show ?thesis by (intro conjI exI [of _ hs] allI) assumption+
qed

definition demo_ask :: list_query where
  "demo_ask = \<lparr>lq_status = ''queued'', lq_queue = ''main'', lq_tags = [], lq_search = [], lq_limit = [],
     lq_offset = [], lq_order = ''priority'', lq_desc = True\<rparr>"

lemma demo_ask_facts:
  "asked_for basic_lib trim demo_ask newer" "asked_for basic_lib trim demo_ask urgent"
  by (simp_all add: demo_ask_def asked_for_def split_tags_def)

theorem list_request_exact_witness:
  "(\<exists>ds. handle mem_badger basic_lib None demo_env (ForDownloads (QueryDownloads (demo_ask\<lparr>lq_limit := ''-1''\<rparr>)))
       (demo_svc\<lparr>sv_db := demo_pair\<rparr>) = (DownloadsReply ds, demo_svc\<lparr>sv_db := demo_pair\<rparr>) \<and> set ds = {newer, urgent}) \<and>
   handle mem_badger basic_lib None demo_env (ForDownloads (QueryDownloads demo_ask)) (demo_svc\<lparr>sv_db := demo_pair\<rparr>) =
     (DownloadsReply [newer], demo_svc\<lparr>sv_db := demo_pair\<rparr>)"
proof -
  let ?sv = "demo_svc\<lparr>sv_db := demo_pair\<rparr>"
  let ?h = "\<lambda>limit offset. handle mem_badger basic_lib None demo_env
      (ForDownloads (QueryDownloads (demo_ask\<lparr>lq_limit := limit, lq_offset := offset\<rparr>))) ?sv"
  have D: "{d. stored (bdata mem_badger (sv_db ?sv)) (d_ID d) = Some d \<and>
      asked_for basic_lib (rq_trim demo_env) demo_ask d} = {newer, urgent}"
    using demo_ask_facts by (auto simp: demo_pair_facts(2) split: if_splits)
  have sv: "repo_ok basic_lib (bdata mem_badger (sv_db ?sv))" "rq_cxs demo_env 0 = live" "times_ok (bdata mem_badger (sv_db ?sv))"
    "lq_desc demo_ask"
    using demo_pair_facts(1) by (simp_all add: demo_env_def demo_ask_def)
  from conjunct2 [OF list_request_exact [where V = None and q = demo_ask, OF mem_badger_laws mem_badger_quiet
      basic_lib_sort_contract sv(1,2), unfolded D]] obtain hs where
    hs: "distinct hs" "set hs = {newer, urgent}"
      "times_ok (bdata mem_badger (sv_db ?sv)) \<longrightarrow> sorted_wrt (\<lambda>a b. if lq_desc demo_ask then d_CreatedAt b \<le> d_CreatedAt a
         else d_CreatedAt a \<le> d_CreatedAt b) hs"
    and pages: "\<forall>limit offset.
        (case (if limit = [] then Some 0 else ParseInt limit, if offset = [] then Some 0 else ParseInt offset) of
          (None, _) \<Rightarrow> ?h limit offset = (StatusError 400 ''invalid limit parameter'', ?sv)
        | (Some n, None) \<Rightarrow> ?h limit offset = (StatusError 400 ''invalid offset parameter'', ?sv)
        | (Some n, Some m) \<Rightarrow> \<exists>ds. ?h limit offset = (DownloadsReply ds, ?sv) \<and>
            ordered (query_opts (rq_trim demo_env) demo_ask) ds \<and>
            mset ds = mset (if n < 0 then drop (nat m) hs else take (nat (max 1 n)) (drop (nat m) hs)))"
    by (elim exE conjE) (rule that)
  have "length hs = 2" using distinct_card [OF hs(1)] hs(2) by simp
  then obtain a b where "hs = [a, b]" by (auto simp: length_Suc_conv numeral_2_eq_2)
  with hs sv(3,4) have h: "hs = [newer, urgent]" by (auto simp: doubleton_eq_iff)
  have n: "ParseInt ''-1'' = Some (- 1)" by code_simp
  from spec [OF spec [OF pages, of "''-1''"], of "[]"] n h obtain ds where ds: "?h ''-1'' [] = (DownloadsReply ds, ?sv)" "mset ds = mset hs" by auto
  have "set ds = {newer, urgent}" using mset_eq_setD [OF ds(2)] h by simp
  moreover from spec [OF spec [OF pages, of "[]"], of "[]"] h have "?h [] [] = (DownloadsReply [newer], ?sv)" by auto
  moreover have "demo_ask\<lparr>lq_limit := [], lq_offset := []\<rparr> = demo_ask"
    "demo_ask\<lparr>lq_limit := ''-1'', lq_offset := []\<rparr> = demo_ask\<lparr>lq_limit := ''-1''\<rparr>" by (simp_all add: demo_ask_def)
  ultimately show ?thesis using ds(1) by auto
qed

end
