(* ===== verification/Invariant.thy ===== *)
theory Invariant
  imports Worker Routes
begin

text \<open>
  The invariant \<open>repo_ok\<close> under every operation, whatever its outcome: on a database without faults an
  operation whose context ends at any of its checks, or whose row is missing or malformed, leaves the
  invariant intact as well as one that succeeds.  (The bulk operations need a context that stays alive,
  see \<open>bulk_update_interrupted\<close>.)
\<close>

named_theorems keeps \<open>operations under which the repository invariant is preserved\<close>

section \<open>Single transactions\<close>

lemma repo_update_keeps:
  assumes "badger_laws B" "repo_ok L (bdata B s)"
    and "\<And>a tx. f [] = Inr (a, tx) \<Longrightarrow> repo_ok L (apply_writes tx (bdata B s))"
  shows "repo_ok L (bdata B (snd (repo_update B cx s f)))"
proof (cases "repo_update B cx s f")
  case (Pair r s')
  show ?thesis
  proof (cases r)
    case (Inl e)
    with Pair assms(2) show ?thesis using repo_update_error by fastforce
  next
    case (Inr a)
    with Pair have u: "repo_update B cx s f = (Inr a, s')" by simp
    with repo_update_ok [OF assms(1) u] assms(3) Pair show ?thesis by (metis snd_conv)
  qed
qed

lemma updateDownloadTxn_effect:
  assumes "badger_laws B" "badger_quiet B" "repo_ok L (txview B s tx)"
    and "updateDownloadTxn B L cx ck s d tx = Inr (d', tx')"
  shows "\<exists>row. valid_download (d_ID d) row \<and> stored (txview B s tx) (d_ID d) \<noteq> None \<and>
    txview B s tx' = put_store L row (txview B s tx)"
proof -
  from assms(4) have cx: "cx 0 = None" and id: "d_ID d \<noteq> []"
    by (auto simp: updateDownloadTxn_def split: option.splits if_splits)
  show ?thesis
  proof (cases "stored (txview B s tx) (d_ID d)")
    case None
    then have "txview B s tx (kDownload (d_ID d)) = None"
      using repo_ok_get [OF assms(3)] by simp
    from updateDownloadTxn_missing [where cx = cx and ck = ck, OF assms(1,2) cx id this] assms(4) show ?thesis by simp
  next
    case (Some old)
    from update_effect [where cx = cx and ck = ck, OF assms(3,1,2) cx Some] assms(4) Some show ?thesis by auto
  qed
qed

lemma updateDownloadTxn_keeps:
  assumes "badger_laws B" "badger_quiet B" "repo_ok L (txview B s tx)"
    and "updateDownloadTxn B L cx ck s d tx = Inr (d', tx')"
  shows "repo_ok L (txview B s tx')"
  using updateDownloadTxn_effect [where cx = cx and ck = ck, OF assms] repo_ok_put_store [OF assms(3)] by auto

text \<open>An update of a download changes no other row, and neither creates nor deletes one.\<close>

lemma UpdateDownload_rows:
  fixes s :: 's and cx ck d
  assumes "badger_laws B" "badger_quiet B" "repo_ok L (bdata B s)"
  defines "s' \<equiv> snd (UpdateDownload B L cx ck s d)"
  shows "i \<noteq> d_ID d \<Longrightarrow> stored (bdata B s') i = stored (bdata B s) i"
    "(stored (bdata B s') i = None) = (stored (bdata B s) i = None)"
proof -
  have "s' = s \<or> (\<exists>row. valid_download (d_ID d) row \<and> stored (bdata B s) (d_ID d) \<noteq> None \<and>
      bdata B s' = put_store L row (bdata B s))"
  proof (cases "UpdateDownload B L cx ck s d")
    case (Pair r t)
    show ?thesis
    proof (cases r)
      case (Inl e)
      with Pair show ?thesis unfolding s'_def UpdateDownload_def using repo_update_error by fastforce
    next
      case (Inr d')
      with Pair have "repo_update B cx s (updateDownloadTxn B L (skip 2 cx) ck s d) = (Inr d', t)"
        by (simp add: UpdateDownload_def)
      from repo_update_ok [OF assms(1) this] obtain tx where
        "updateDownloadTxn B L (skip 2 cx) ck s d [] = Inr (d', tx)" "bdata B t = apply_writes tx (bdata B s)" by blast
      with updateDownloadTxn_effect [where cx = "skip 2 cx" and ck = ck, OF assms(1,2) _ this(1)] assms(3) Pair
      show ?thesis by (auto simp: s'_def txview_def)
    qed
  qed
  then show "i \<noteq> d_ID d \<Longrightarrow> stored (bdata B s') i = stored (bdata B s) i"
    "(stored (bdata B s') i = None) = (stored (bdata B s) i = None)"
    by (auto simp: valid_download_def split: if_splits)
qed

lemma UpdateDownload_keeps [keeps]:
  assumes "badger_laws B" "badger_quiet B" "repo_ok L (bdata B s)"
  shows "repo_ok L (bdata B (snd (UpdateDownload B L cx ck s d)))"
  unfolding UpdateDownload_def
proof (rule repo_update_keeps [OF assms(1,3)])
  fix d' tx assume "updateDownloadTxn B L (skip 2 cx) ck s d [] = Inr (d', tx)"
  from updateDownloadTxn_keeps [OF assms(1,2) _ this] assms(3)
  show "repo_ok L (apply_writes tx (bdata B s))" by (simp add: txview_def)
qed

lemma CreateDownload_keeps:
  assumes "badger_laws B" "repo_ok L (bdata B s)" "clock_ok ck"
    and "stored (bdata B s) (d_ID d) = None" "bar \<notin> set (d_ID d)"
  shows "repo_ok L (bdata B (snd (CreateDownload B L cx ck s d)))"
proof (cases "CreateDownload B L cx ck s d")
  case (Pair r s')
  show ?thesis
  proof (cases r)
    case (Inl e)
    with Pair assms(2) show ?thesis unfolding CreateDownload_def using repo_update_error by fastforce
  next
    case (Inr d')
    with Pair have c: "CreateDownload B L cx ck s d = (Inr d', s')" by simp
    then have "d_ID d \<noteq> []"
      unfolding CreateDownload_def
      by (auto simp: createDownloadTxn_def elim!: repo_update_ok [OF assms(1)] split: option.splits if_splits)
    from created_valid [OF assms(3) this assms(5)] CreateDownload_net [OF assms(1,3,4) c] Pair
      repo_ok_put_store [OF assms(2)]
    show ?thesis by simp
  qed
qed

lemma delete_keys_mono: "delete_keys B cx s ks tx = Inr tx' \<Longrightarrow> delete_keys B live s ks tx = Inr tx'"
  by (induction ks arbitrary: tx cx) (auto simp: bindE_eq_Inr split: option.splits)

lemma deleteByPrefix_mono:
  "deleteByPrefix B cx s p tx = Inr tx' \<Longrightarrow> deleteByPrefix B live s p tx = Inr tx'"
  unfolding deleteByPrefix_def by (rule delete_keys_mono)

lemma DeleteDownload_keeps [keeps]:
  assumes "badger_laws B" "badger_quiet B" "repo_ok L (bdata B s)"
  shows "repo_ok L (bdata B (snd (DeleteDownload B L cx ck s did)))"
proof -
  let ?f = "\<lambda>cx tx. case bget B s tx (kDownload did) of
         Inl e \<Rightarrow> (if e = ErrKeyNotFound then Inl ErrNotFound else Inl e)
       | Inr v \<Rightarrow>
           bindE (decode_download v) (\<lambda>d.
           bindE (txn_write B s tx (WDel (kDownload did))) (\<lambda>tx.
             let tx = unindexDownload B L ck s tx d
             in bindE (deleteByPrefix B (skip 2 cx) s (segment_prefix (d_ID d)) tx) (\<lambda>tx.
                Inr ((), tx))))"
  have del: "DeleteDownload B L cx ck s did = repo_update B cx s (?f cx)" for cx
    by (simp add: DeleteDownload_def)
  show ?thesis
    unfolding del
  proof (rule repo_update_keeps [OF assms(1,3)])
    fix u tx assume f: "?f cx [] = Inr (u, tx)"
    then obtain v where v: "bget B s [] (kDownload did) = Inr v" by (cases "bget B s [] (kDownload did)") (auto split: if_splits)
    with badger_get [OF assms(1)] have "bdata B s (kDownload did) = Some v" by (force simp: txview_def)
    with repo_ok_get [OF assms(3), of did] obtain d where d: "stored (bdata B s) did = Some d"
      by (cases "stored (bdata B s) did") auto
    from f v have live: "?f live [] = Inr ((), tx)"
      by (auto simp: bindE_eq_Inr Let_def dest: deleteByPrefix_mono)
    from DeleteDownload_live [OF assms d, of ck] obtain s' where
      s': "repo_update B live s (?f live) = (Inr (), s')" "bdata B s' = del_store L did (bdata B s)"
      unfolding del by blast
    obtain tx' where "?f live [] = Inr ((), tx')" "bdata B s' = apply_writes tx' (bdata B s)"
      by (rule repo_update_ok [OF assms(1) s'(1)])
    with live s'(2) have "apply_writes tx (bdata B s) = del_store L did (bdata B s)" by simp
    then show "repo_ok L (apply_writes tx (bdata B s))" by (simp add: repo_ok_del_store [OF assms(3)])
  qed
qed

lemma UpsertSegment_keeps [keeps]:
  assumes "badger_laws B" "repo_ok L (bdata B s)"
  shows "repo_ok L (bdata B (snd (UpsertSegment B cx s g)))"
  unfolding UpsertSegment_def
  by (rule repo_update_keeps [OF assms])
    (auto simp: bindE_eq_Inr txn_write_Inr repo_ok_puts [OF assms(2)] split: if_splits)

lemma SaveQueue_repo_ok [keeps]:
  assumes "badger_laws B" "repo_ok L (bdata B s)"
  shows "repo_ok L (bdata B (snd (SaveQueue B cx ck s q)))"
  unfolding SaveQueue_def
  by (rule repo_update_keeps [OF assms])
    (auto simp: bindE_eq_Inr txn_write_Inr Let_def intro!: repo_ok_puts(1) [OF assms(2)] split: if_splits)

lemma DeleteQueue_keeps [keeps]:
  assumes "badger_laws B" "repo_ok L (bdata B s)"
  shows "repo_ok L (bdata B (snd (DeleteQueue B cx s qid)))"
  unfolding DeleteQueue_def
  by (rule repo_update_keeps [OF assms])
    (auto simp: bindE_eq_Inr txn_write_Inr txn_try_def intro!: repo_ok_puts [OF assms(2)]
      repo_ok_puts(5) [OF repo_ok_puts(4) [OF assms(2)]] split: option.splits)

lemma SaveQueueStats_repo_ok [keeps]:
  assumes "badger_laws B" "repo_ok L (bdata B s)"
  shows "repo_ok L (bdata B (snd (SaveQueueStats B cx s st)))"
  using SaveQueueStats_keeps [OF assms] by simp

section \<open>The service\<close>

text \<open>A callback that leaves the invariant intact, with what it did outside the transaction too.\<close>

lemma RunInTx_invariant:
  assumes "badger_laws B" "repo_ok L (bdata B s)" "Q w"
    and "\<And>r s' w'. fn s w = (r, s', w') \<Longrightarrow> repo_ok L (bdata B s') \<and> Q w'"
    and "\<And>a tx s' w'. fn s w = (Inr (a, tx), s', w') \<Longrightarrow> repo_ok L (apply_writes tx (bdata B s'))"
    and "RunInTx B cx fn s w = (r, s', w')"
  shows "repo_ok L (bdata B s') \<and> Q w'"
proof (cases "fn s w")
  case (fields q t v)
  then have t: "repo_ok L (bdata B t)" "Q v" using assms(4) by blast+
  show ?thesis
  proof (cases q)
    case (Inl e)
    with assms(2,3,6) t fields show ?thesis by (auto simp: RunInTx_def split: option.splits)
  next
    case (Inr b)
    obtain a tx where b: "b = (a, tx)" by fastforce
    with Inr fields have "repo_ok L (apply_writes tx (bdata B t))" using assms(5) by blast
    with assms(2,3,6) t fields Inr b badger_commit [OF assms(1), of t tx t] show ?thesis
      by (auto simp: RunInTx_def badger_commit [OF assms(1)] split: option.splits sum.splits)
  qed
qed

lemma tx_update_keeps:
  assumes "badger_laws B" "badger_quiet B" "repo_ok L (bdata B s)"
    and "updateDownloadTxn B L cx ck s d [] = Inr (d', tx)"
  shows "repo_ok L (apply_writes tx (bdata B s))"
  using updateDownloadTxn_keeps [OF assms(1,2) _ assms(4)] assms(3) by (simp add: txview_def)

lemma tx_write_keeps:
  assumes "badger_laws B" "badger_quiet B" "repo_ok L (bdata B s)"
    and "bindE m (\<lambda>d. updateDownloadTxn B L cx ck s (f d) []) = Inr (d', tx)"
  shows "repo_ok L (apply_writes tx (bdata B s))"
  using assms(4) tx_update_keeps [OF assms(1-3)] by (cases m) simp_all

lemma modify_in_tx_keeps:
  assumes "badger_laws B" "badger_quiet B" "svc_ok B L sv"
  shows "svc_ok B L (snd (modify_in_tx B L cx ck did f sv))"
proof -
  let ?fn = "\<lambda>s (w :: unit). (bindE (txGetDownload B (skip 2 cx) s [] did) (\<lambda>d.
    bindE (updateDownloadTxn B L (skip 3 cx) ck s (f d) []) (\<lambda>(d, tx). Inr ((), tx))), s, w)"
  obtain r s' w' where run: "RunInTx B cx ?fn (sv_db sv) () = (r, s', w')" by (rule prod_cases3)
  have ok: "repo_ok L (bdata B (sv_db sv))" using assms(3) by (simp add: svc_ok_def)
  note upd = tx_write_keeps [where cx = "skip 3 cx" and ck = ck and f = f and
      m = "txGetDownload B (skip 2 cx) (sv_db sv) [] did", OF assms(1,2) ok]
  have "repo_ok L (bdata B s') \<and> True"
  proof (rule RunInTx_invariant [where fn = ?fn and Q = "\<lambda>_. True", OF assms(1) ok _ _ _ run])
    fix a tx t w assume fn: "?fn (sv_db sv) () = (Inr (a, tx), t, w)"
    let ?m = "bindE (txGetDownload B (skip 2 cx) (sv_db sv) [] did)
      (\<lambda>d. updateDownloadTxn B L (skip 3 cx) ck (sv_db sv) (f d) [])"
    from fn have t: "t = sv_db sv" and "bindE ?m (\<lambda>(d, tx). Inr ((), tx)) = Inr (a, tx)"
      by (auto simp only: bindE_assoc prod.inject)
    then obtain d' where "?m = Inr (d', tx)" by (cases ?m) (simp_all split: prod.splits)
    from upd [OF this] t show "repo_ok L (apply_writes tx (bdata B t))" by simp
  qed (use ok in simp_all)
  with assms(3) run show ?thesis by (simp add: modify_in_tx_def svc_ok_def)
qed

lemma updateStatus_keeps:
  assumes "badger_laws B" "badger_quiet B" "svc_ok B L sv"
  shows "svc_ok B L (snd (updateStatus B L cx ck did status mutate sv))"
proof -
  let ?f = "\<lambda>d. (mutate (ck 0) (d\<lparr>d_Status := status\<rparr>))\<lparr>d_UpdatedAt := ck 1\<rparr>"
  let ?fn = "\<lambda>s p. case bindE (txGetDownload B (skip 2 cx) s [] did) (\<lambda>d.
        updateDownloadTxn B L (skip 3 cx) (skip 3 ck) s (?f d) []) of
      Inl e \<Rightarrow> (Inl e, s, p)
    | Inr (d, tx) \<Rightarrow> (case svc_publish (ck 2) p (mapStatusToEvent status) d NoData of
        Inl e \<Rightarrow> (Inl e, s, p)
      | Inr p' \<Rightarrow> (Inr ((), tx), s, p'))"
  obtain r s' p' where run: "RunInTx B cx ?fn (sv_db sv) (sv_pub sv) = (r, s', p')" by (rule prod_cases3)
  have ok: "repo_ok L (bdata B (sv_db sv))" "pub_ready (sv_pub sv)" using assms(3) by (simp_all add: svc_ok_def)
  let ?m = "bindE (txGetDownload B (skip 2 cx) (sv_db sv) [] did)
    (\<lambda>d. updateDownloadTxn B L (skip 3 cx) (skip 3 ck) (sv_db sv) (?f d) [])"
  note upd = tx_write_keeps [where cx = "skip 3 cx" and ck = "skip 3 ck" and f = ?f and
      m = "txGetDownload B (skip 2 cx) (sv_db sv) [] did", OF assms(1,2) ok(1)]
  have "repo_ok L (bdata B s') \<and> pub_ready p'"
  proof (rule RunInTx_invariant [where fn = ?fn and Q = pub_ready, OF assms(1) ok(1) ok(2) _ _ run])
    fix r t p assume fn: "?fn (sv_db sv) (sv_pub sv) = (r, t, p)"
    show "repo_ok L (bdata B t) \<and> pub_ready p"
    proof (cases ?m)
      case (Inr x)
      with fn ok svc_publish_keeps [OF ok(2)] show ?thesis
        by (cases x; cases "svc_publish (ck 2) (sv_pub sv) (mapStatusToEvent status) (fst x) NoData") auto
    qed (use fn ok in simp)
  next
    fix a tx t p assume fn: "?fn (sv_db sv) (sv_pub sv) = (Inr (a, tx), t, p)"
    show "repo_ok L (apply_writes tx (bdata B t))"
    proof (cases ?m)
      case (Inr x)
      with fn upd [of "fst x" "snd x"] show ?thesis
        by (cases x; cases "svc_publish (ck 2) (sv_pub sv) (mapStatusToEvent status) (fst x) NoData") simp_all
    qed (use fn in simp)
  qed
  with run show ?thesis by (simp add: updateStatus_def svc_ok_def Let_def)
qed

lemma sv_frame [simp]:
  "svc_ok B L (sv\<lparr>sv_lim := rl\<rparr>) = svc_ok B L sv"
  "svc_ok B L (spawn_run did sv) = svc_ok B L sv"
  "svc_ok B L (finish_run r sv) = svc_ok B L sv"
  "svc_ok B L (cancel_run did sv) = svc_ok B L sv"
  by (simp_all add: svc_ok_def spawn_run_def finish_run_def cancel_run_def split: option.splits)

lemma svc_ok_db: "svc_ok B L sv \<Longrightarrow> repo_ok L (bdata B s) \<Longrightarrow> svc_ok B L (sv\<lparr>sv_db := s\<rparr>)"
  by (simp add: svc_ok_def)

lemma start_status_keeps:
  assumes "badger_laws B" "badger_quiet B" "svc_ok B L sv"
  shows "svc_ok B L (snd (start_status B L cxs ck did sv))"
  using updateStatus_keeps [OF assms(1,2)] assms(3)
  by (auto simp: start_status_def split: sum.splits)

lemma lifecycle_keeps:
  assumes "badger_laws B" "badger_quiet B" "svc_ok B L sv"
  shows "svc_ok B L (snd (Start B L cxs ck did sv))" "svc_ok B L (snd (Pause B L cx ck did sv))"
    "svc_ok B L (snd (Resume B L cx ck did sv))" "svc_ok B L (snd (Cancel B L cx ck did sv))"
proof -
  show "svc_ok B L (snd (Start B L cxs ck did sv))"
    using start_status_keeps [OF assms, of cxs ck did] assms(3)
    by (cases "start_status B L cxs ck did sv") (auto simp: Start_def split: sum.splits)
  show "svc_ok B L (snd (Pause B L cx ck did sv))" "svc_ok B L (snd (Cancel B L cx ck did sv))"
    using assms(3) by (simp_all add: Pause_def Cancel_def updateStatus_keeps [OF assms(1,2)])
  show "svc_ok B L (snd (Resume B L cx ck did sv))"
    using updateStatus_keeps [OF assms, of cx ck did StatusRunning "\<lambda>now d. d"]
    by (auto simp: Resume_def resume_status_def split: prod.splits sum.splits)
qed

lemma Enqueue_keeps:
  assumes "badger_laws B" "svc_ok B L sv" "clock_ok ck"
    and "stored (bdata B (sv_db sv)) uid = None" "bar \<notin> set uid"
  shows "svc_ok B L (snd (Enqueue B L V cx ck uid req sv))"
proof -
  let ?d = "enqueue_download uid (ck 0) req"
  have id: "d_ID ?d = uid" by (simp add: enqueue_download_def Let_def)
  obtain r s where c: "CreateDownload B L cx (skip 2 ck) (sv_db sv) ?d = (r, s)" by fastforce
  have "clock_ok (skip 2 ck)" using assms(3) by (simp add: clock_ok_def skip_apply)
  with CreateDownload_keeps [OF assms(1) _ this, of L "sv_db sv" ?d cx] assms(2,4,5) c id
  have "repo_ok L (bdata B s)" by (simp add: svc_ok_def)
  then have ok: "svc_ok B L (sv\<lparr>sv_db := s\<rparr>)" "pub_ready (sv_pub sv)"
    using assms(2) by (simp_all add: svc_ok_def)
  with c assms(2) svc_publish_keeps [OF ok(2)] show ?thesis
    by (auto simp: Enqueue_def Let_def svc_ok_def split: sum.splits)
qed

lemma Remove_keeps:
  assumes "badger_laws B" "badger_quiet B" "svc_ok B L sv"
  shows "svc_ok B L (snd (Remove B L io home cxs ck did del sv))"
proof -
  obtain r s where d: "DeleteDownload B L (cxs 1) (skip 1 ck) (sv_db sv) did = (r, s)" by fastforce
  with DeleteDownload_keeps [OF assms(1,2), of L "sv_db sv" "cxs 1" "skip 1 ck" did] assms(3)
  have "repo_ok L (bdata B s)" "pub_ready (sv_pub sv)" by (simp_all add: svc_ok_def)
  with d assms(3) svc_publish_keeps [OF this(2)] show ?thesis
    by (auto simp: Remove_def Let_def svc_ok_def split: sum.splits prod.splits)
qed

text \<open>\<open>SaveQueue\<close> inside the transaction of \<open>PauseQueue\<close> is a transaction of its own.\<close>

lemma set_paused_keeps [keeps]:
  assumes "badger_laws B" "repo_ok L (bdata B s)"
  shows "repo_ok L (bdata B (snd (set_paused B cxs ck paused qid s)))"
proof -
  let ?q = "\<lambda>q :: Queue. q\<lparr>q_Paused := paused, q_UpdatedAt := ck 0\<rparr>"
  let ?fn = "\<lambda>s (w :: unit). case txGetQueue B (skip 2 (cxs 0)) s [] qid of
       Inl e \<Rightarrow> (Inl e, s, w)
     | Inr q \<Rightarrow> (case SaveQueue B (cxs 1) (skip 1 ck) s (?q q) of
         (Inl e, s') \<Rightarrow> (Inl e, s', w)
       | (Inr q, s') \<Rightarrow> (Inr ((), [] :: wr list), s', w))"
  obtain r s' w' where run: "RunInTx B (cxs 0) ?fn s () = (r, s', w')" by (rule prod_cases3)
  have save: "repo_ok L (bdata B t)" if "SaveQueue B (cxs 1) (skip 1 ck) s q = (r, t)" for q r t
    using SaveQueue_repo_ok [OF assms, of "cxs 1" "skip 1 ck" q] that by simp
  have fn: "repo_ok L (bdata B t)" if "?fn s () = (r, t, w)" for r t w
    using that assms(2) save
    by (cases "txGetQueue B (skip 2 (cxs 0)) s [] qid") (auto split: prod.splits sum.splits)
  have "repo_ok L (bdata B s') \<and> True"
  proof (rule RunInTx_invariant [where fn = ?fn and Q = "\<lambda>_. True", OF assms _ _ _ run])
    fix a tx t w assume a: "?fn s () = (Inr (a, tx), t, w)"
    then have "tx = []"
      by (cases "txGetQueue B (skip 2 (cxs 0)) s [] qid") (auto split: prod.splits sum.splits)
    with fn [OF a] show "repo_ok L (apply_writes tx (bdata B t))" by simp
  qed (use fn in blast)+
  with run show ?thesis by (simp add: set_paused_def)
qed

section \<open>The workers\<close>

lemma requeue_stale_keeps [keeps]:
  assumes "badger_laws B" "badger_quiet B" "repo_ok L (bdata B s)"
  shows "repo_ok L (bdata B (requeue_stale B L staleAfter cxs cks ds s))"
  using assms(3)
proof (induction ds arbitrary: cxs cks s)
  case (Cons d ds)
  then show ?case by (simp add: UpdateDownload_keeps [OF assms(1,2)])
qed simp

lemma start_all_keeps:
  assumes "badger_laws B" "badger_quiet B" "svc_ok B L sv"
  shows "svc_ok B L (snd (start_all B L cxss cks ids sv))"
  using assms(3)
proof (induction ids arbitrary: cxss cks sv)
  case (Cons i ids)
  then have "svc_ok B L (snd (Start B L (cxss 0) (cks 0) i sv))" by (intro lifecycle_keeps(1) [OF assms(1,2)])
  with Cons.IH show ?case by (cases "Start B L (cxss 0) (cks 0) i sv") (auto split: sum.splits)
qed simp

lemma tick_queue_keeps:
  assumes "badger_laws B" "badger_quiet B" "svc_ok B L sv"
  shows "svc_ok B L (snd (tick_queue B L cxs cxss cks q sv))"
proof (cases "queue_limit (cks 0 0) q (sv_lim sv)")
  case (Inr rl)
  let ?db = "\<lambda>st. snd (SaveQueueStats B (cxs 4) (sv_db sv) st)"
  have ok: "svc_ok B L (sv\<lparr>sv_lim := rl, sv_db := ?db st\<rparr>)" for st
    using assms(3) SaveQueueStats_repo_ok [OF assms(1)] by (simp add: svc_ok_def)
  show ?thesis
    using assms(3) ok start_all_keeps [OF assms(1,2) ok] Inr
    by (auto simp: tick_queue_def Let_def split: sum.splits)
qed (use assms(3) in \<open>simp add: tick_queue_def\<close>)

lemma tick_queues_keeps:
  assumes "badger_laws B" "badger_quiet B" "svc_ok B L sv"
  shows "svc_ok B L (snd (tick_queues B L cq cs ck qs sv))"
  using assms(3)
proof (induction qs arbitrary: cq cs ck sv)
  case (Cons q qs)
  then have "svc_ok B L (snd (tick_queue B L (cq 0) (cs 0) (ck 0) q sv))" by (intro tick_queue_keeps [OF assms(1,2)])
  with Cons.IH show ?case by (cases "tick_queue B L (cq 0) (cs 0) (ck 0) q sv") (auto split: sum.splits)
qed simp

lemma tick_keeps:
  assumes "badger_laws B" "badger_quiet B" "svc_ok B L sv"
  shows "svc_ok B L (snd (tick B L cfg te sv))"
proof (cases "ListQueues B (te_queues te) (sv_db sv)")
  case (Inr qs)
  have "svc_ok B L (sv\<lparr>sv_db := requeue_stale B L a cxs cks ds (sv_db sv)\<rparr>)" for a cxs cks ds
    using assms(3) requeue_stale_keeps [OF assms(1,2)] by (simp add: svc_ok_def)
  from tick_queues_keeps [OF assms(1,2) this] Inr show ?thesis by (simp add: tick_def Let_def)
qed (use assms(3) in \<open>simp add: tick_def\<close>)

section \<open>The API\<close>

text \<open>
  What a request must bring: an id drawn from \<open>uuid\<close> that no download has and without the separator, on a
  clock past the zero time; and for the bulk operations, a context that stays alive, a queue without the
  separator, and fewer than 1000 downloads.
\<close>

fun bulk_target :: "request \<Rightarrow> string option" where
  "bulk_target (ForQueues r) =
     (case r of BulkRemove i \<Rightarrow> Some i | BulkMove i b \<Rightarrow> Some i | BulkPriority i b \<Rightarrow> Some i | BulkStatus i b \<Rightarrow> Some i
      | _ \<Rightarrow> None)"
| "bulk_target (ForDownloads r) = None"

definition request_ok :: "'s badger \<Rightarrow> request_env \<Rightarrow> request \<Rightarrow> 's \<Rightarrow> bool" where
  "request_ok B rq r s \<longleftrightarrow>
     ((\<exists>x. r = ForDownloads (EnqueueDownload x)) \<longrightarrow>
        clock_ok (rq_ck rq) \<and> stored (bdata B s) (rq_uid rq) = None \<and> bar \<notin> set (rq_uid rq)) \<and>
     (case bulk_target r of None \<Rightarrow> True
      | Some i \<Rightarrow> rq_cxs rq = (\<lambda>_. live) \<and> bar \<notin> set i \<and> card (under_queue (bdata B s) i) < 1000)"

lemma changed_snd [simp]: "snd (changed r) = snd r"
  by (simp add: changed_def)

lemma with_body_snd: "snd (with_body b f w) = (case b of None \<Rightarrow> w | Some x \<Rightarrow> snd (f x))"
  by (simp add: with_body_def split: option.splits)

lemma bulk_keeps:
  assumes "badger_laws B" "badger_quiet B" "repo_ok L (bdata B s)" "bar \<notin> set i"
    and "card (under_queue (bdata B s) i) < 1000"
  shows "repo_ok L (bdata B (snd (BulkDelete B L (\<lambda>_. live) ck i s)))"
    "repo_ok L (bdata B (snd (BulkReassign B L (\<lambda>_. live) ck i q s)))"
    "repo_ok L (bdata B (snd (BulkSetPriority B L (\<lambda>_. live) ck i n s)))"
    "repo_ok L (bdata B (snd (BulkUpdateStatus B L (\<lambda>_. live) ck i st s)))"
proof -
  note bulk_defs = BulkDelete_def BulkReassign_def BulkSetPriority_def BulkUpdateStatus_def
    BulkDeleteDownloadsByQueueID_def BulkReassignDownloadsQueue_def BulkSetPriorityByQueueID_def
    BulkUpdateStatusByQueueID_def
  have "repo_ok L (bdata B (snd (BulkDelete B L (\<lambda>_. live) ck i s))) \<and>
    repo_ok L (bdata B (snd (BulkReassign B L (\<lambda>_. live) ck i q s))) \<and>
    repo_ok L (bdata B (snd (BulkSetPriority B L (\<lambda>_. live) ck i n s))) \<and>
    repo_ok L (bdata B (snd (BulkUpdateStatus B L (\<lambda>_. live) ck i st s)))"
  proof (cases "i = []")
    case True
    with assms(3) show ?thesis by (simp add: bulk_defs)
  next
    case False
    note pre = assms(1-3) False assms(4,5)
    have "repo_ok L (bdata B (snd (BulkReassign B L (\<lambda>_. live) ck i q s)))"
    proof (cases "q = [] \<or> q = i")
      case True
      with assms(3) show ?thesis by (auto simp: bulk_defs split: option.splits)
    next
      case False
      with bulk_reassign_exact [OF pre, of q ck] show ?thesis by (auto simp: BulkReassign_def)
    qed
    moreover have "repo_ok L (bdata B (snd (BulkUpdateStatus B L (\<lambda>_. live) ck i st s)))"
    proof (cases "st = []")
      case True
      with assms(3) show ?thesis by (simp add: bulk_defs)
    next
      case False
      with BulkUpdateStatusByQueueID_live [OF pre, of st ck] show ?thesis by (auto simp: BulkUpdateStatus_def)
    qed
    moreover from BulkDeleteDownloadsByQueueID_live [OF pre, of ck] BulkSetPriorityByQueueID_live [OF pre, of ck n]
    have "repo_ok L (bdata B (snd (BulkDelete B L (\<lambda>_. live) ck i s)))"
      "repo_ok L (bdata B (snd (BulkSetPriority B L (\<lambda>_. live) ck i n s)))"
      by (auto simp: BulkDelete_def BulkSetPriority_def)
    ultimately show ?thesis by blast
  qed
  then show "repo_ok L (bdata B (snd (BulkDelete B L (\<lambda>_. live) ck i s)))"
    "repo_ok L (bdata B (snd (BulkReassign B L (\<lambda>_. live) ck i q s)))"
    "repo_ok L (bdata B (snd (BulkSetPriority B L (\<lambda>_. live) ck i n s)))"
    "repo_ok L (bdata B (snd (BulkUpdateStatus B L (\<lambda>_. live) ck i st s)))" by blast+
qed

lemma handle_download_keeps:
  assumes "badger_laws B" "badger_quiet B" "svc_ok B L sv" "request_ok B rq (ForDownloads r) (sv_db sv)"
  shows "svc_ok B L (snd (handle_download B L V rq r sv))"
proof (cases r)
  case (EnqueueDownload x)
  with assms(4) have "clock_ok (rq_ck rq)" "stored (bdata B (sv_db sv)) (rq_uid rq) = None" "bar \<notin> set (rq_uid rq)"
    by (simp_all add: request_ok_def)
  from Enqueue_keeps [OF assms(1,3) this, of V "rq_cxs rq 0" x] EnqueueDownload show ?thesis
    by (auto split: prod.splits)
qed (use assms(3) lifecycle_keeps [OF assms(1-3)] Remove_keeps [OF assms(1-3)] modify_in_tx_keeps [OF assms(1-3)]
  in \<open>simp_all add: with_body_snd UpdateConfig_def UpdateRequest_def SetPriority_def AddTags_def RemoveTags_def
    AssignQueue_def split: sum.splits option.splits\<close>)

lemma unit_of_snd [simp]: "snd (unit_of r) = snd r"
  by (simp add: unit_of_def)

lemma handle_queue_keeps:
  assumes "badger_laws B" "badger_quiet B" "repo_ok L (bdata B s)" "request_ok B rq (ForQueues r) s"
  shows "repo_ok L (bdata B (snd (handle_queue B L rq r s)))"
proof (cases "bulk_target (ForQueues r)")
  case None
  with assms(3) SaveQueue_repo_ok [OF assms(1,3)] DeleteQueue_keeps [OF assms(1,3)] set_paused_keeps [OF assms(1,3)]
  show ?thesis
    by (cases r) (simp_all add: CreateQueue_def UpdateQueue_def svc_DeleteQueue_def PauseQueue_def ResumeQueue_def)
next
  case (Some i)
  with assms(4) have i: "rq_cxs rq = (\<lambda>_. live)" "bar \<notin> set i" "card (under_queue (bdata B s) i) < 1000"
    by (simp_all add: request_ok_def)
  with Some assms(3) bulk_keeps [OF assms(1-3) i(2,3)] show ?thesis
    by (cases r) (simp_all add: with_body_snd split: option.splits)
qed

lemma handle_keeps:
  assumes "badger_laws B" "badger_quiet B" "svc_ok B L sv" "request_ok B rq r (sv_db sv)"
  shows "svc_ok B L (snd (handle B L V rq r sv))"
proof (cases r)
  case (ForDownloads x)
  with handle_download_keeps [OF assms(1-3), of rq x V] assms(4) show ?thesis by (simp add: handle_def)
next
  case (ForQueues x)
  with handle_queue_keeps [OF assms(1,2), of L "sv_db sv" rq x] assms(3,4) show ?thesis
    by (auto simp: handle_def svc_ok_def split: prod.splits)
qed

section \<open>An interrupted bulk update\<close>

text \<open>
  The bulk update removes the old entries in committed transactions before it writes the new ones.  When
  the context ends in between, the rows are left without entries: no listing finds them any more.  (The
  last hypothesis: a batch without calls changes nothing when it is released.)
\<close>

lemma bulk_update_interrupted:
  assumes laws: "badger_laws B" "badger_quiet B" and ok: "repo_ok L (bdata B s)"
    and row: "stored (bdata B s) (d_ID d) = Some old" and released: "\<And>t. bdata B (bbatch_db B t []) = bdata B t"
  shows "\<exists>s'. BulkUpdateDownloads B L ((\<lambda>_. live)(2 := \<lambda>_. Some ErrCanceled)) ck s [d] = (Inl ErrCanceled, s') \<and>
    stored (bdata B s') (d_ID d) = Some old \<and> (\<forall>k \<in> set (index_keys L old). bdata B s' k = None) \<and>
    \<not> repo_ok L (bdata B s')"
proof -
  let ?cxs = "(\<lambda>_. live)(2 := \<lambda>_. Some ErrCanceled) :: gctxs"
  have valid: "valid_download (d_ID d) old" by (rule repo_ok_valid [OF ok row])
  then have nz: "\<not> IsZero (d_CreatedAt old)" by (simp add: valid_download_def)
  have rd: "read_rows B live s [d_ID d] = Inr [old]"
    using read_rows_live [OF laws ok, of "[d_ID d]" "\<lambda>_. old"] row by simp
  have old: "lookup_old [old] [d_ID d] = (\<lambda>i. if i = d_ID d then old else zero_Download)"
    by (simp add: lookup_old_def fun_eq_iff)
  let ?step = "\<lambda>cx x tx. Inr (unindexDownload B L ck s tx (lookup_old [old] [d_ID d] (d_ID x)))"
  have "chunk_loop (skip 1 ?cxs) ?step [d] [] = Inr ((), map WDel (index_keys L old))"
    using nz by (simp add: old skip_apply live_apply unindexDownload_quiet [OF laws(2)])
  from db_update_quiet [where f = "chunk_loop (skip 1 ?cxs) ?step [d]", OF laws this] obtain s1 where
    s1: "db_update B s (chunk_loop (skip 1 ?cxs) ?step [d]) = (Inr (), s1)"
    "bdata B s1 = del_keys (set (index_keys L old)) (bdata B s)" by auto
  let ?s' = "bbatch_db B s1 []"
  have view: "repo_view B (skip 1 (?cxs 0)) s (read_rows B (skip 3 (?cxs 0)) s [d_ID d]) = Inr [old]"
    using rd by (simp add: repo_view_quiet [OF laws(2)] live_apply del: read_rows.simps)
  have "chunks [d] = [[d]]" by simp
  with s1(1) have run: "run_chunks B (skip 1 ?cxs) (\<lambda>s cx x tx. Inr (unindexDownload B L ck s tx
      (lookup_old [old] [d_ID d] (d_ID x)))) (chunks [d]) s = (Inr (), s1)"
    by (simp only: run_chunks.simps prod.case sum.case)
  have loop: "bulk_update_loop B L (?cxs (length [d] + 1)) ck s1 (lookup_old [old] [d_ID d]) 0 [d] [] =
      (Inl ErrCanceled, [])" by simp
  have "BulkUpdateDownloads B L ?cxs ck s [d] = (Inl ErrCanceled, ?s')"
    unfolding BulkUpdateDownloads_def Let_def list.map view sum.case run prod.case loop
    by (simp add: live_apply)
  moreover have m': "bdata B ?s' = del_keys (set (index_keys L old)) (bdata B s)" using released s1(2) by simp
  moreover have st: "stored (bdata B ?s') = stored (bdata B s)"
    unfolding m' by (rule stored_cong) (auto simp: del_keys_def)
  moreover have "\<not> repo_ok L (bdata B ?s')"
  proof
    assume "repo_ok L (bdata B ?s')"
    moreover have k: "kDownloadByCreatedAt 0 (d_CreatedAt old) (d_ID old) \<in> set (index_keys L old)" (is "?k \<in> _")
      by (simp add: index_keys_def)
    ultimately have "?k \<in> dom (bdata B ?s')"
      using repo_ok_index [OF _ index_keys_is_index [OF k]] st row by (auto simp: indexed_def)
    with k show False unfolding m' by (simp add: del_keys_def dom_def)
  qed
  ultimately show ?thesis using row by (auto simp: del_keys_def)
qed

end
