(* ===== verification/Jobs.thy ===== *)
theory Jobs
  imports Runner_Laws Invariant
begin

text \<open>
  A run as a state machine: \<open>job_step\<close> cuts \<open>Run\<close> of \<open>internal/service/runner.go\<close> where another goroutine
  may get between two accesses to what they share.  Every execution of \<open>Run\<close> is a path of the machine, and
  every step leaves the invariant of the repository intact and touches no other download.
\<close>

section \<open>Stages and moves\<close>

text \<open>\<open>Merging\<close> and \<open>Completing\<close> are the two halves of \<open>finalizeDownload\<close>.\<close>

datatype stage =
    Waiting
  | Loaded
  | Fetching "seg_phase list"
  | Merging
  | Completing
  | Failing gerr
  | Ended

datatype move =
    Load gctx
  | PrepareRun readings
  | Fetch nat readings
  | Monitor gctx clock
  | Join readings
  | Merge nat oserrs oserrs
  | Complete readings
  | Fail gctx clock

definition awaits_values :: "stage \<Rightarrow> bool" where
  "awaits_values st \<longleftrightarrow> st \<noteq> Waiting \<and> st \<noteq> Loaded"

fun job_step ::
    "'s badger \<Rightarrow> runtime \<Rightarrow> string \<Rightarrow> move \<Rightarrow> stage \<Rightarrow> 's rstate \<Rightarrow> (stage \<times> 's rstate) res option" where
  "job_step B ru did (Load cx) Waiting w =
     Some (Inr (case GetDownload B cx (rn_db w) did of
        Inl e \<Rightarrow> (Failing e, w\<lparr>rn_d := zero_Download\<lparr>d_ID := did, d_Status := StatusFailed, d_Error := err_text ru e\<rparr>\<rparr>)
      | Inr d \<Rightarrow> (Loaded, w\<lparr>rn_d := d\<rparr>)))"
| "job_step B ru did (PrepareRun rd) Loaded w =
     Some (Inr (case prepareDownload B ru rd w of
        (Inl e, w) \<Rightarrow> (Failing e, w)
      | (Inr gs, w) \<Rightarrow> (Fetching (map SegNew gs), w\<lparr>rn_progress := [], rn_errs := []\<rparr>)))"
| "job_step B ru did (Fetch i rd) (Fetching phs) w =
     (if i < length phs
      then Some (bindE (seg_step B ru rd (phs ! i) w) (\<lambda>(ph, w).
             Inr (Fetching (phs[i := ph]), note_error (phs ! i) ph w)))
      else None)"
| "job_step B ru did (Join rd) (Fetching phs) w =
     (if list_all seg_ended phs
      then Some (Inr (case rn_errs w of
          [] \<Rightarrow> (Merging, finish_begin B ru rd w)
        | e # es \<Rightarrow> (Failing e, w)))
      else None)"
| "job_step B ru did (Merge fuel mio vio) Merging w =
     (case merge_and_verify ru fuel mio vio w of
        None \<Rightarrow> None
      | Some (Inl e, w) \<Rightarrow> Some (Inr (Failing e, w))
      | Some (Inr u, w) \<Rightarrow> Some (Inr (Completing, w)))"
| "job_step B ru did (Complete rd) Completing w =
     Some (bindE (finish_complete B ru rd w) (\<lambda>w. Inr (Ended, w)))"
| "job_step B ru did (Fail cx ck) (Failing e) w =
     Some (if is_panic e then Inl e else bindE (run_fail B ru cx ck e w) (\<lambda>w. Inr (Ended, w)))"
| "job_step B ru did (Monitor cx ck) st w =
     (if awaits_values st then Some (bindE (monitor_step B ru cx ck w) (\<lambda>w. Inr (st, w))) else None)"
| "job_step B ru did mv st w = None"

fun job_path ::
    "'s badger \<Rightarrow> runtime \<Rightarrow> string \<Rightarrow> move list \<Rightarrow> stage \<Rightarrow> 's rstate \<Rightarrow> (stage \<times> 's rstate) res option" where
  "job_path B ru did [] st w = Some (Inr (st, w))"
| "job_path B ru did (mv # mvs) st w =
     (case job_step B ru did mv st w of
        None \<Rightarrow> None
      | Some (Inl e) \<Rightarrow> Some (Inl e)
      | Some (Inr (st', w')) \<Rightarrow> job_path B ru did mvs st' w')"

section \<open>The executions of a run\<close>

lemma job_path_append:
  "job_path B ru did ms st w = Some (Inr (st', w')) \<Longrightarrow>
     job_path B ru did (ms @ ns) st w = job_path B ru did ns st' w'"
  by (induction ms arbitrary: st w) (auto split: option.splits sum.splits prod.splits)

lemma job_path_panic:
  "job_path B ru did ms st w = Some (Inl e) \<Longrightarrow> job_path B ru did (ms @ ns) st w = Some (Inl e)"
  by (induction ms arbitrary: st w) (auto split: option.splits sum.splits prod.splits)

lemma job_path_monitor:
  assumes "awaits_values st"
  shows "job_path B ru did (map (\<lambda>(cx, ck). Monitor cx ck) ms) st w =
    Some (bindE (monitor_steps B ru ms w) (\<lambda>w. Inr (st, w)))"
  using assms
proof (induction ms arbitrary: w)
  case (Cons m ms)
  then show ?case by (cases m; cases "monitor_step B ru (fst m) (snd m) w") auto
qed simp

fun fetch_move :: "'s sched \<Rightarrow> move list" where
  "fetch_move (StepSeg i rd) = [Fetch i rd]"
| "fetch_move (StepMonitor cx ck) = [Monitor cx ck]"
| "fetch_move (StepOther s p rl) = []"

fun own :: "nat \<Rightarrow> 's sched \<Rightarrow> bool" where
  "own n (StepSeg i rd) \<longleftrightarrow> i < n"
| "own n (StepMonitor cx ck) \<longleftrightarrow> True"
| "own n (StepOther s p rl) \<longleftrightarrow> False"

fun alone :: "'s sched \<Rightarrow> bool" where
  "alone (StepOther s p rl) \<longleftrightarrow> False"
| "alone ev \<longleftrightarrow> True"

definition fetch_moves :: "nat \<Rightarrow> 's sched list \<Rightarrow> move list" where
  "fetch_moves n evs = concat (map fetch_move (filter (own n) evs))"

lemma job_path_fetch:
  assumes "list_all alone evs"
  shows "job_path B ru did (fetch_moves (length phs) evs) (Fetching phs) w =
    Some (bindE (run_segments B ru evs phs w) (\<lambda>(phs, w). Inr (Fetching phs, w)))"
  using assms
proof (induction evs arbitrary: phs w)
  case (Cons ev evs)
  show ?case
  proof (cases ev)
    case (StepSeg i rd)
    have ih: "job_path B ru did (concat (map fetch_move (filter (own (length phs)) evs))) (Fetching (phs[i := ph])) w =
        Some (bindE (run_segments B ru evs (phs[i := ph]) w) (\<lambda>(phs, w). Inr (Fetching phs, w)))" for ph w
      using Cons.IH [of "phs[i := ph]" w] Cons.prems by (simp add: fetch_moves_def)
    with StepSeg Cons show ?thesis
      by (cases "seg_step B ru rd (phs ! i) w") (auto simp: fetch_moves_def split: prod.splits)
  next
    case (StepMonitor cx ck)
    with Cons show ?thesis
      by (cases "monitor_step B ru cx ck w") (auto simp: awaits_values_def fetch_moves_def)
  qed (use Cons in simp)
qed (simp add: fetch_moves_def)

lemma job_path_failing:
  "job_path B ru did [Fail (rd_cx (sd_fail sd)) (rd_ck (sd_fail sd))] (Failing e) w =
     Some (bindE (run_failed B ru sd e w) (\<lambda>w. Inr (Ended, w)))"
  by (cases "run_fail B ru (rd_cx (sd_fail sd)) (rd_ck (sd_fail sd)) e w") (auto simp: run_failed_def)

lemma job_path_then:
  assumes "job_path B ru did ms st w = Some (bindE r (\<lambda>w. Inr (st', w)))"
    and "\<And>w'. r = Inr w' \<Longrightarrow> job_path B ru did ns st' w' = Some (f w')"
  shows "job_path B ru did (ms @ ns) st w = Some (bindE r f)"
  using assms job_path_append [of B ru did ms st w] job_path_panic [of B ru did ms st w] by (cases r) auto

lemma job_path_failing_late:
  "\<exists>mvs. job_path B ru did mvs (Failing e) w = Some (bindE (run_failed_late B ru sd e w) (\<lambda>w. Inr (Ended, w)))"
proof -
  let ?mon = "\<lambda>j. map (\<lambda>(cx, ck). Monitor cx ck) (sd_late sd j)"
  have mon: "job_path B ru did (?mon j) st w = Some (bindE (monitor_steps B ru (sd_late sd j) w) (\<lambda>w. Inr (st, w)))"
    if "st \<in> {Failing e, Ended}" for j st and w :: "'a rstate"
    by (rule job_path_monitor) (use that in \<open>auto simp: awaits_values_def\<close>)
  have "job_path B ru did (?mon 1 @ ([Fail (rd_cx (sd_fail sd)) (rd_ck (sd_fail sd))] @ ?mon 2)) (Failing e) w =
      Some (bindE (monitor_steps B ru (sd_late sd 1) w) (\<lambda>w. bindE (run_failed B ru sd e w)
        (\<lambda>w. bindE (monitor_steps B ru (sd_late sd 2) w) (\<lambda>w. Inr (Ended, w)))))"
    by (intro job_path_then [OF mon] job_path_then [OF job_path_failing] mon) simp_all
  then show ?thesis by (metis run_failed_late_def bindE_assoc)
qed

lemma finalize_path:
  fixes w :: "'s rstate"
  assumes "finalizeDownload B ru sd w = Some r"
  shows "\<exists>mvs. job_path B ru did mvs Merging (finish_begin B ru (sd_begin sd) w) =
    Some (bindE r (\<lambda>w. Inr (Ended, w)))"
proof -
  let ?mon = "\<lambda>j. map (\<lambda>(cx, ck). Monitor cx ck) (sd_late sd j)"
  let ?w0 = "finish_begin B ru (sd_begin sd) w"
  have mon: "job_path B ru did (?mon j) st w =
      Some (bindE (monitor_steps B ru (sd_late sd j) w) (\<lambda>w. Inr (st, w)))"
    if "st \<in> {Merging, Completing, Ended}" for j st and w :: "'s rstate"
    by (rule job_path_monitor) (use that in \<open>auto simp: awaits_values_def\<close>)
  note late0 = mon [of Merging 0 ?w0, simplified]
  show ?thesis
  proof (cases "monitor_steps B ru (sd_late sd 0) ?w0")
    case (Inl e)
    with assms late0 show ?thesis by (auto simp: finalizeDownload_def)
  next
    case (Inr w1)
    with late0 have p0: "job_path B ru did (?mon 0) Merging ?w0 = Some (Inr (Merging, w1))" by simp
    obtain q w2 where q: "merge_and_verify ru (sd_fuel sd) (sd_merge_io sd) (sd_verify_io sd) w1 = Some (q, w2)"
      using assms Inr by (cases "merge_and_verify ru (sd_fuel sd) (sd_merge_io sd) (sd_verify_io sd) w1")
        (auto simp: finalizeDownload_def)
    let ?merge = "?mon 0 @ [Merge (sd_fuel sd) (sd_merge_io sd) (sd_verify_io sd)]"
    show ?thesis
    proof (cases q)
      case (Inl e)
      with q job_path_append [OF p0] have "job_path B ru did ?merge Merging ?w0 = Some (Inr (Failing e, w2))" by simp
      note p1 = job_path_append [OF this]
      have "r = run_failed_late B ru sd e w2" using assms Inr Inl q by (simp add: finalizeDownload_def)
      with job_path_failing_late [of B ru did e w2 sd] p1 show ?thesis by metis
    next
      case (Inr u)
      with q job_path_append [OF p0] have p1: "job_path B ru did ?merge Merging ?w0 = Some (Inr (Completing, w2))" by simp
      have complete: "job_path B ru did [Complete (sd_complete sd)] Completing w3 =
          Some (bindE (finish_complete B ru (sd_complete sd) w3) (\<lambda>w. Inr (Ended, w)))" for w3 :: "'s rstate"
        by (cases "finish_complete B ru (sd_complete sd) w3") simp_all
      have "job_path B ru did (?mon 1 @ ([Complete (sd_complete sd)] @ ?mon 2)) Completing w2 =
          Some (bindE (monitor_steps B ru (sd_late sd 1) w2) (\<lambda>w. bindE (finish_complete B ru (sd_complete sd) w)
            (\<lambda>w. bindE (monitor_steps B ru (sd_late sd 2) w) (\<lambda>w. Inr (Ended, w)))))"
        by (intro job_path_then [OF mon] job_path_then [OF complete] mon) simp_all
      moreover have "r = bindE (monitor_steps B ru (sd_late sd 1) w2) (\<lambda>w. bindE (finish_complete B ru (sd_complete sd) w)
          (monitor_steps B ru (sd_late sd 2)))"
        using assms \<open>monitor_steps B ru (sd_late sd 0) ?w0 = Inr w1\<close> Inr q by (simp add: finalizeDownload_def)
      ultimately show ?thesis using job_path_append [OF p1] by (metis bindE_assoc)
    qed
  qed
qed

text \<open>Every execution of \<open>Run\<close> that is not disturbed is a path from \<open>Waiting\<close> to \<open>Ended\<close>, or to its panic.\<close>

lemma Run_path:
  assumes "Run B ru sd evs did w = Some r" "list_all alone evs"
  shows "\<exists>mvs. job_path B ru did mvs Waiting w = Some (bindE r (\<lambda>w. Inr (Ended, w)))"
proof -
  have fail: "\<exists>mvs. job_path B ru did mvs Waiting w = Some (bindE (run_failed B ru sd e w') (\<lambda>w. Inr (Ended, w)))"
    if "job_path B ru did ms Waiting w = Some (Inr (Failing e, w'))" for ms e w'
    using job_path_append [OF that, of "[Fail (rd_cx (sd_fail sd)) (rd_ck (sd_fail sd))]"]
    unfolding job_path_failing by blast
  have fail_late: "\<exists>mvs. job_path B ru did mvs Waiting w = Some (bindE (run_failed_late B ru sd e w') (\<lambda>w. Inr (Ended, w)))"
    if "job_path B ru did ms Waiting w = Some (Inr (Failing e, w'))" for ms e w'
    using job_path_append [OF that] job_path_failing_late [of B ru did e w' sd] by metis
  show ?thesis
  proof (cases "GetDownload B (sd_get sd) (rn_db w) did")
    case (Inl e)
    let ?w = "w\<lparr>rn_d := zero_Download\<lparr>d_ID := did, d_Status := StatusFailed, d_Error := err_text ru e\<rparr>\<rparr>"
    have "job_path B ru did [Load (sd_get sd)] Waiting w = Some (Inr (Failing e, ?w))" using Inl by simp
    from fail [OF this] assms(1) Inl show ?thesis by (simp add: Run_def)
  next
    case (Inr d)
    note load = Inr
    obtain q w1 where q: "prepareDownload B ru (sd_prepare sd) (w\<lparr>rn_d := d\<rparr>) = (q, w1)" by fastforce
    let ?ms = "[Load (sd_get sd), PrepareRun (sd_prepare sd)]"
    show ?thesis
    proof (cases q)
      case (Inl e)
      with load q have "job_path B ru did ?ms Waiting w = Some (Inr (Failing e, w1))" by simp
      from fail [OF this] assms(1) Inl load q show ?thesis by (simp add: Run_def)
    next
      case (Inr gs)
      let ?w1 = "w1\<lparr>rn_progress := [], rn_errs := []\<rparr>" and ?phs = "map SegNew gs"
      from Inr load q have p0: "job_path B ru did ?ms Waiting w = Some (Inr (Fetching ?phs, ?w1))" by simp
      note fetch = job_path_fetch [OF assms(2), of B ru did ?phs ?w1]
      show ?thesis
      proof (cases "run_segments B ru evs ?phs ?w1")
        case (Inl e)
        with assms(1) Inr load q have "r = Inl e" by (simp add: Run_def downloadSegments_def)
        moreover have "job_path B ru did (?ms @ fetch_moves (length ?phs) evs) Waiting w = Some (Inl e)"
          using job_path_append [OF p0, of "fetch_moves (length ?phs) evs"] fetch Inl by (simp del: job_path.simps)
        ultimately show ?thesis by (metis bindE_simps(1))
      next
        case (Inr x)
        obtain phs w2 where x: "x = (phs, w2)" by fastforce
        with job_path_append [OF p0] fetch Inr have p1: "job_path B ru did (?ms @ fetch_moves (length ?phs) evs)
            Waiting w = Some (Inr (Fetching phs, w2))" by simp
        have all: "list_all seg_ended phs" and
          r: "Some r = (case rn_errs w2 of [] \<Rightarrow> finalizeDownload B ru sd w2 | e # es \<Rightarrow> Some (run_failed_late B ru sd e w2))"
          using assms(1) \<open>q = Inr gs\<close> load q Inr x
          by (auto simp: Run_def downloadSegments_def split: list.splits if_splits)
        note p2 = job_path_append [OF p1, of "[Join (sd_begin sd)]"]
        show ?thesis
        proof (cases "rn_errs w2")
          case (Cons e es)
          with p2 all have "job_path B ru did ((?ms @ fetch_moves (length ?phs) evs) @ [Join (sd_begin sd)])
              Waiting w = Some (Inr (Failing e, w2))" by simp
          from fail_late [OF this] r Cons show ?thesis by simp
        next
          case Nil
          with p2 all have "job_path B ru did ((?ms @ fetch_moves (length ?phs) evs) @ [Join (sd_begin sd)])
              Waiting w = Some (Inr (Merging, finish_begin B ru (sd_begin sd) w2))" by simp
          note p3 = job_path_append [OF this]
          have "finalizeDownload B ru sd w2 = Some r" using r Nil by simp
          from finalize_path [OF this] obtain mvs where
            "job_path B ru did mvs Merging (finish_begin B ru (sd_begin sd) w2) = Some (bindE r (\<lambda>w. Inr (Ended, w)))"
            by blast
          with p3 [of mvs] show ?thesis by metis
        qed
      qed
    qed
  qed
qed

section \<open>What a step leaves intact\<close>

text \<open>The download whose segment a goroutine works on.\<close>

fun phase_seg :: "seg_phase \<Rightarrow> Segment" where
  "phase_seg (SegNew g) = g"
| "phase_seg (SegTry st) = sr_seg st"
| "phase_seg (SegEnd g e) = g"

text \<open>
  What a run shares with the rest of the process stays well-formed, and of the rows only the one of its
  download changes.
\<close>

definition quiet_change :: "'s badger \<Rightarrow> stdlib \<Rightarrow> string \<Rightarrow> 's rstate \<Rightarrow> 's rstate \<Rightarrow> bool" where
  "quiet_change B L did w w' \<longleftrightarrow>
     (repo_ok L (bdata B (rn_db w)) \<and> publisher_ok (rn_pub w) \<and> d_ID (rn_d w) = did \<longrightarrow>
        repo_ok L (bdata B (rn_db w')) \<and> publisher_ok (rn_pub w') \<and> d_ID (rn_d w') = did \<and>
        (\<forall>i. i \<noteq> did \<longrightarrow> stored (bdata B (rn_db w')) i = stored (bdata B (rn_db w)) i) \<and>
        (\<forall>i. (stored (bdata B (rn_db w')) i = None) = (stored (bdata B (rn_db w)) i = None)))"

lemma quiet_change_refl [simp]: "quiet_change B L did w w"
  by (simp add: quiet_change_def)

lemma quiet_change_trans: "quiet_change B L did w w' \<Longrightarrow> quiet_change B L did w' w'' \<Longrightarrow> quiet_change B L did w w''"
  by (simp add: quiet_change_def)

lemma quiet_change_local:
  "rn_db w' = rn_db w \<Longrightarrow> rn_pub w' = rn_pub w \<Longrightarrow> d_ID (rn_d w') = d_ID (rn_d w) \<Longrightarrow> quiet_change B L did w w'"
  by (simp add: quiet_change_def)

lemma save_copy_quiet:
  assumes "badger_laws B" "badger_quiet B"
  shows "quiet_change B (ru_lib ru) did w (snd (save_copy B ru cx ck w))"
proof -
  have db: "rn_db (snd (save_copy B ru cx ck w)) = snd (UpdateDownload B (ru_lib ru) cx ck (rn_db w) (rn_d w))"
    by (simp add: save_copy_def split: prod.splits sum.splits)
  show ?thesis
    unfolding quiet_change_def db
    using UpdateDownload_keeps [OF assms] UpdateDownload_rows [OF assms] coreD(1) [OF save_copy_core]
    by auto
qed

lemma run_publish_quiet:
  assumes "run_publish now ty dat w = Inr w'"
  shows "quiet_change B L did w w'"
proof -
  let ?e = "\<lparr>ev_Type = ty, ev_Download = rn_d w, ev_Timestamp = now, ev_Data = dat\<rparr>"
  from assms have w': "rn_db w' = rn_db w" "rn_d w' = rn_d w" "Publish (rn_pub w) ?e = Inr (rn_pub w')"
    by (auto simp: run_publish_def bindE_eq_Inr)
  have "publisher_ok (rn_pub w) \<Longrightarrow> publisher_ok (rn_pub w')"
    using bus.pub_returns [of "rn_pub w" ?e] w'(3) by auto
  with w' show ?thesis by (simp add: quiet_change_def)
qed

lemma saved_quiet:
  assumes "badger_laws B" "badger_quiet B" "rn_db w1 = rn_db w" "rn_pub w1 = rn_pub w" "d_ID (rn_d w1) = d_ID (rn_d w)"
  shows "quiet_change B (ru_lib ru) did w (snd (save_copy B ru cx ck w1))"
  by (rule quiet_change_trans [OF quiet_change_local save_copy_quiet [OF assms(1,2)]]) (use assms(3-5) in simp_all)

lemma monitor_step_quiet:
  assumes "badger_laws B" "badger_quiet B" "monitor_step B ru cx ck w = Inr w'"
  shows "quiet_change B (ru_lib ru) did w w'"
proof (cases "rn_progress w")
  case (Cons got rest)
  let ?d = "(rn_d w)\<lparr>d_BytesCompleted := add64 (d_BytesCompleted (rn_d w)) got\<rparr>"
  have "\<exists>w1. rn_db w1 = rn_db w \<and> rn_pub w1 = rn_pub w \<and> d_ID (rn_d w1) = d_ID (rn_d w) \<and>
      run_publish (ck 1) EventProgress (BytesData got) (snd (save_copy B ru cx (skip 2 ck) w1)) = Inr w'"
    using assms(3) Cons by (intro exI [of _ "w\<lparr>rn_d := (if 0 < d_BytesTotal ?d
        then ?d\<lparr>d_Progress := fp_round (ru_fpu ru) (fp_round (ru_fpu ru) (of_int (d_BytesCompleted ?d)) /
          fp_round (ru_fpu ru) (of_int (d_BytesTotal ?d)))\<rparr> else ?d)\<lparr>d_UpdatedAt := ck 0\<rparr>, rn_progress := rest\<rparr>"])
      (simp add: monitor_step_def Let_def)
  then obtain w1 where "rn_db w1 = rn_db w" "rn_pub w1 = rn_pub w" "d_ID (rn_d w1) = d_ID (rn_d w)"
    "run_publish (ck 1) EventProgress (BytesData got) (snd (save_copy B ru cx (skip 2 ck) w1)) = Inr w'"
    by blast
  with saved_quiet [OF assms(1,2)] run_publish_quiet quiet_change_trans show ?thesis by metis
qed (use assms(3) in \<open>simp add: monitor_step_def\<close>)

lemma run_fail_quiet:
  assumes "badger_laws B" "badger_quiet B" "run_fail B ru cx ck e w = Inr w'"
  shows "quiet_change B (ru_lib ru) did w w'"
proof -
  let ?w = "w\<lparr>rn_d := (rn_d w)\<lparr>d_Status := StatusFailed, d_Error := err_text ru e, d_UpdatedAt := ck 0\<rparr>\<rparr>"
  have "quiet_change B (ru_lib ru) did w (snd (save_copy B ru cx (skip 2 ck) ?w))"
    by (rule saved_quiet [OF assms(1,2)]) simp_all
  moreover have "run_publish (ck 1) EventFailed (ErrorData e) (snd (save_copy B ru cx (skip 2 ck) ?w)) = Inr w'"
    using assms(3) by (simp add: run_fail_def Let_def)
  ultimately show ?thesis using run_publish_quiet quiet_change_trans by metis
qed

lemma finish_quiet:
  assumes "badger_laws B" "badger_quiet B"
  shows "quiet_change B (ru_lib ru) did w (finish_begin B ru rd w)"
    "finish_complete B ru rd w = Inr w' \<Longrightarrow> quiet_change B (ru_lib ru) did w w'"
proof -
  show "quiet_change B (ru_lib ru) did w (finish_begin B ru rd w)"
    unfolding finish_begin_def by (rule saved_quiet [OF assms]) simp_all
  let ?now = "rd_ck rd 0"
  let ?w = "w\<lparr>rn_d := (rn_d w)\<lparr>d_Status := StatusCompleted, d_UpdatedAt := ?now, d_CompletedAt := Some ?now\<rparr>\<rparr>"
  have save: "quiet_change B (ru_lib ru) did w (snd (save_copy B ru (rd_cx rd) (skip 2 (rd_ck rd)) ?w))"
    by (rule saved_quiet [OF assms]) simp_all
  assume "finish_complete B ru rd w = Inr w'"
  then have "run_publish (rd_ck rd 1) EventCompleted NoData
      (snd (save_copy B ru (rd_cx rd) (skip 2 (rd_ck rd)) ?w)) = Inr w'"
    by (simp add: finish_complete_def Let_def)
  with save show "quiet_change B (ru_lib ru) did w w'" using run_publish_quiet quiet_change_trans by metis
qed

lemma UpsertSegment_rows:
  assumes "badger_laws B"
  shows "stored (bdata B (snd (UpsertSegment B cx s g))) = stored (bdata B s)"
proof (cases "UpsertSegment B cx s g")
  case (Pair r t)
  show ?thesis
  proof (cases r)
    case (Inl e)
    with Pair repo_update_error show ?thesis unfolding UpsertSegment_def by fastforce
  next
    case (Inr u)
    with Pair show ?thesis
      by (auto simp: UpsertSegment_def bindE_eq_Inr txn_write_Inr elim!: repo_update_ok [OF assms] split: if_splits)
  qed
qed

lemma finish_segment_quiet:
  assumes "badger_laws B" "finish_segment B ru rd bytes st w = (ph, w')"
  shows "quiet_change B L did w w' \<and> s_DownloadID (phase_seg ph) = s_DownloadID (sr_seg st)"
proof -
  define g where "g = (case segment_hash ru (rn_d w) of None \<Rightarrow> sr_seg st
      | Some alg \<Rightarrow> (sr_seg st)\<lparr>s_Checksum := ru_digest ru alg bytes\<rparr>)
    \<lparr>s_BytesCompleted := add64 (sr_existing st) (int (length bytes)),
     s_Status := SegmentCompleted, s_UpdatedAt := rd_ck rd 3\<rparr>"
  have id: "s_DownloadID g = s_DownloadID (sr_seg st)" by (simp add: g_def split: option.splits)
  from assms(2) have g: "rn_db w' = snd (UpsertSegment B (rd_cx rd) (rn_db w) g)" "rn_pub w' = rn_pub w"
    "rn_d w' = rn_d w" "ph = SegEnd g None"
    by (cases "UpsertSegment B (rd_cx rd) (rn_db w) g"; simp add: finish_segment_def Let_def g_def [symmetric]; force)+
  with id UpsertSegment_keeps [OF assms(1)] UpsertSegment_rows [OF assms(1)] show ?thesis
    by (simp add: quiet_change_def)
qed

lemma retry_seg [simp]: "phase_seg (retry limit e delay st) = sr_seg st"
  by (simp add: retry_def Let_def)

lemma failed_get_quiet:
  assumes "badger_laws B" "badger_quiet B" "failed_get B ru rd e st w = (ph, w')"
  shows "quiet_change B (ru_lib ru) did w w' \<and> phase_seg ph = sr_seg st"
proof -
  let ?w = "w\<lparr>rn_d := (rn_d w)\<lparr>d_RetriesAttempted := add64 (sr_attempts st) 1\<rparr>\<rparr>"
  have "quiet_change B (ru_lib ru) did w (snd (save_copy B ru (rd_cx rd) (skip 3 (rd_ck rd)) ?w))"
    by (rule saved_quiet [OF assms(1,2)]) simp_all
  with assms(3) show ?thesis by (auto simp: failed_get_def Let_def split: if_splits)
qed

lemma write_answer_quiet:
  assumes "badger_laws B" "write_answer B ru rd code bd st w = Inr (ph, w')"
  shows "quiet_change B L did w w' \<and> s_DownloadID (phase_seg ph) = s_DownloadID (sr_seg st)"
proof (cases "OpenSegmentWriter (rd_io rd) (ru_home ru) (rn_d w) (sr_seg st) (rn_fs w)")
  case (Pair r fs)
  show ?thesis
  proof (cases r)
    case (Inl e)
    with assms(2) Pair show ?thesis
      by (auto simp: write_answer_def Let_def unless_panic_def quiet_change_def split: if_splits)
  next
    case (Inr pn)
    obtain p n where pn: "pn = (p, n)" by fastforce
    show ?thesis
    proof (cases "range_reader code (sr_start st) (s_End (sr_seg st)) bd")
      case (Inl e)
      with assms(2) Pair \<open>r = Inr pn\<close> pn show ?thesis
        by (auto simp: write_answer_def Let_def quiet_change_def)
    next
      case (Inr rdr)
      obtain bytes err where c: "copied (rd_short rd) (size_reader (rn_d w) rdr) = (bytes, err)" by fastforce
      let ?w = "w\<lparr>rn_fs := append_part p bytes fs\<rparr>"
      have w: "quiet_change B L did w ?w" by (rule quiet_change_local) simp_all
      consider "w' = ?w" "phase_seg ph = sr_seg st" | "finish_segment B ru rd bytes st ?w = (ph, w')"
        using assms(2) Pair \<open>r = Inr pn\<close> pn Inr c
        by (simp add: write_answer_def Let_def split: if_splits) (metis prod.inject retry_seg)+
      then show ?thesis
      proof cases
        case 1
        with w show ?thesis by simp
      next
        case 2
        from finish_segment_quiet [OF assms(1) this] quiet_change_trans [OF w] show ?thesis by metis
      qed
    qed
  qed
qed

lemma seg_step_quiet:
  assumes "badger_laws B" "badger_quiet B" "seg_step B ru rd ph w = Inr (ph', w')"
  shows "quiet_change B (ru_lib ru) did w w' \<and> s_DownloadID (phase_seg ph') = s_DownloadID (phase_seg ph)"
proof (cases ph)
  case (SegNew g)
  with assms(3) show ?thesis
    by (auto simp: seg_step_def unless_panic_def quiet_change_def split: prod.splits sum.splits if_splits)
next
  case (SegEnd g e)
  with assms(3) show ?thesis by (auto simp: seg_step_def)
next
  case (SegTry st)
  show ?thesis
  proof (cases "rd_done rd")
    case (Some e)
    with assms(3) SegTry show ?thesis by (auto simp: seg_step_def seg_attempt_def)
  next
    case None
    let ?start = "sr_start st" and ?stop = "s_End (sr_seg st)"
    obtain waits rl where th: "throttle ru (rd_ck rd) (rn_d w) (safeSpan ?stop ?start) (rn_lim w) = (waits, rl)"
      using throttle_any by blast
    let ?w = "w\<lparr>rn_lim := rl\<rparr>" and ?st = "st\<lparr>sr_slept := sr_slept st @ waits\<rparr>"
    have w: "quiet_change B (ru_lib ru) did w ?w" by (rule quiet_change_local) simp_all
    from assms(3) SegTry None th obtain req where "d_Request (rn_d w) = Some req"
      by (cases "d_Request (rn_d w)") (auto simp: seg_step_def seg_attempt_def)
    with assms(3) SegTry None th consider
        (fail) e where "failed_get B ru rd e ?st ?w = (ph', w')"
      | (again) "w' = ?w" "phase_seg ph' = sr_seg st"
      | (answer) code bd where "write_answer B ru rd code bd ?st ?w = Inr (ph', w')"
      by (auto simp: seg_step_def seg_attempt_def Let_def split: range_result.splits if_splits)
    then show ?thesis
    proof cases
      case fail
      from failed_get_quiet [OF assms(1,2) this] quiet_change_trans [OF w] SegTry show ?thesis by fastforce
    next
      case again
      with w SegTry show ?thesis by simp
    next
      case answer
      from write_answer_quiet [OF assms(1) this] quiet_change_trans [OF w] SegTry show ?thesis by fastforce
    qed
  qed
qed

lemma GetDownload_row:
  assumes "badger_laws B" "repo_ok L (bdata B s)" "GetDownload B cx s did = Inr d"
  shows "d_ID d = did"
proof -
  from assms(3) obtain v where "bget B s [] (kDownload did) = Inr v" "decode_download v = Inr d"
    by (auto simp: GetDownload_def repo_view_def db_view_def bindE_eq_Inr split: option.splits sum.splits if_splits)
  with badger_get [OF assms(1), of s "[]"] have "bdata B s (kDownload did) = Some v" "decode_download v = Inr d"
    by simp_all
  with repo_ok_kind [OF assms(2) this(1)] show ?thesis by (auto simp: kind_ok_download valid_download_def)
qed

lemma Plan_ids: "Plan d n ranges = Inr gs \<Longrightarrow> g \<in> set gs \<Longrightarrow> s_DownloadID g = d_ID d"
  by (auto simp: Plan_def plan_segment_def Let_def split: if_splits)

lemma prepareDownload_quiet:
  assumes "badger_laws B" "badger_quiet B" "prepareDownload B ru rd w = (r, w')"
  shows "quiet_change B (ru_lib ru) did w w' \<and>
    (\<forall>gs. r = Inr gs \<longrightarrow> (\<forall>g \<in> set gs. s_DownloadID g = d_ID (rn_d w')))"
proof -
  consider "w' = w" "\<exists>e. r = Inl e"
    | md w1 where "rn_db w1 = rn_db w" "rn_pub w1 = rn_pub w" "d_ID (rn_d w1) = d_ID (rn_d w)"
      "w' = snd (save_copy B ru (rd_cx rd) (rd_ck rd) w1)"
      "(\<exists>e. r = Inl e) \<or> r = Plan (rn_d w') (m_ContentLength md) (accepts_ranges (rn_d w') md)"
  proof (cases "\<exists>md hdrs req u. Prepare (rd_io rd) (ru_home ru) (rn_d w) = Inr u \<and> d_Request (rn_d w) = Some req \<and>
      Head (ru_url ru) (rd_net rd) (ru_timeout ru) req (pickCfg (rn_d w)) = (Some (md, hdrs), None) \<and>
      content_type_ok (rn_d w) md")
    case False
    assume a: "w' = w \<Longrightarrow> \<exists>e. r = Inl e \<Longrightarrow> thesis"
    have "w' = w \<and> (\<exists>e. r = Inl e)"
    proof (cases "Prepare (rd_io rd) (ru_home ru) (rn_d w)"; cases "d_Request (rn_d w)")
      fix u req assume p: "Prepare (rd_io rd) (ru_home ru) (rn_d w) = Inr u" "d_Request (rn_d w) = Some req"
      show ?thesis
      proof (cases "Head (ru_url ru) (rd_net rd) (ru_timeout ru) req (pickCfg (rn_d w))")
        case (Pair m he)
        with p False assms(3) show ?thesis
          by (cases m; cases he) (auto simp: prepareDownload_def)
      qed
    qed (use assms(3) in \<open>auto simp: prepareDownload_def\<close>)
    then show thesis using a by blast
  next
    case True
    then obtain md hdrs req u where h: "Prepare (rd_io rd) (ru_home ru) (rn_d w) = Inr u" "d_Request (rn_d w) = Some req"
      "Head (ru_url ru) (rd_net rd) (ru_timeout ru) req (pickCfg (rn_d w)) = (Some (md, hdrs), None)"
      "content_type_ok (rn_d w) md" by blast
    assume b: "\<And>w1 md. rn_db w1 = rn_db w \<Longrightarrow> rn_pub w1 = rn_pub w \<Longrightarrow> d_ID (rn_d w1) = d_ID (rn_d w) \<Longrightarrow>
      w' = snd (save_copy B ru (rd_cx rd) (rd_ck rd) w1) \<Longrightarrow>
      (\<exists>e. r = Inl e) \<or> r = Plan (rn_d w') (m_ContentLength md) (accepts_ranges (rn_d w') md) \<Longrightarrow> thesis"
    let ?d = "(rn_d w)\<lparr>d_Response := Some md\<rparr>"
    let ?w1 = "w\<lparr>rn_d := (if d_BytesTotal ?d = 0 \<and> 0 < m_ContentLength md
      then ?d\<lparr>d_BytesTotal := m_ContentLength md\<rparr> else ?d)\<rparr>"
    obtain q w2 where s: "save_copy B ru (rd_cx rd) (rd_ck rd) ?w1 = (q, w2)" by fastforce
    show thesis
      by (rule b [of ?w1 md]) (use h s assms(3) in \<open>auto simp: prepareDownload_def Let_def split: sum.splits\<close>)
  qed
  then show ?thesis
  proof cases
    case (2 md w1)
    from saved_quiet [OF assms(1,2) 2(1-3), of ru did "rd_cx rd" "rd_ck rd"] 2(4) have "quiet_change B (ru_lib ru) did w w'" by simp
    with 2(5) Plan_ids show ?thesis by (metis Inr_not_Inl)
  qed auto
qed

lemma MergeSegments_id: "MergeSegments fuel io home d fs = Some (r, d', fs') \<Longrightarrow> d_ID d' = d_ID d"
  by (auto simp: MergeSegments_def Let_def split: sum.splits if_splits option.splits prod.splits)

lemma merge_quiet:
  assumes "merge_and_verify ru fuel mio vio w = Some (r, w')"
  shows "quiet_change B L did w w'"
proof -
  obtain q d fs where "MergeSegments fuel mio (ru_home ru) (rn_d w) (rn_fs w) = Some (q, d, fs)"
    using assms by (cases "MergeSegments fuel mio (ru_home ru) (rn_d w) (rn_fs w)") (auto simp: merge_and_verify_def)
  with assms MergeSegments_id [OF this] show ?thesis
    by (intro quiet_change_local) (auto simp: merge_and_verify_def Let_def split: sum.splits)
qed

section \<open>The invariant of a job\<close>

definition stage_ok :: "string \<Rightarrow> stage \<Rightarrow> Download \<Rightarrow> bool" where
  "stage_ok did st d \<longleftrightarrow> (st \<noteq> Waiting \<longrightarrow> d_ID d = did) \<and>
     (\<forall>phs. st = Fetching phs \<longrightarrow> (\<forall>ph \<in> set phs. s_DownloadID (phase_seg ph) = did))"

lemma stage_ok_simps [simp]:
  "stage_ok did Waiting d" "stage_ok did Loaded d = (d_ID d = did)" "stage_ok did Merging d = (d_ID d = did)"
  "stage_ok did Completing d = (d_ID d = did)" "stage_ok did (Failing e) d = (d_ID d = did)"
  "stage_ok did Ended d = (d_ID d = did)"
  "stage_ok did (Fetching phs) d = (d_ID d = did \<and> (\<forall>ph \<in> set phs. s_DownloadID (phase_seg ph) = did))"
  by (simp_all add: stage_ok_def)

definition rows_kept :: "'s badger \<Rightarrow> string \<Rightarrow> 's \<Rightarrow> 's \<Rightarrow> bool" where
  "rows_kept B did s s' \<longleftrightarrow> (\<forall>i. i \<noteq> did \<longrightarrow> stored (bdata B s') i = stored (bdata B s) i) \<and>
     (\<forall>i. (stored (bdata B s') i = None) = (stored (bdata B s) i = None))"

lemma quiet_changeD:
  assumes "quiet_change B L did w w'" "repo_ok L (bdata B (rn_db w))" "publisher_ok (rn_pub w)" "d_ID (rn_d w) = did"
  shows "repo_ok L (bdata B (rn_db w')) \<and> publisher_ok (rn_pub w') \<and> d_ID (rn_d w') = did \<and>
    rows_kept B did (rn_db w) (rn_db w')"
  using assms by (simp add: quiet_change_def rows_kept_def)

lemma note_error_sel [simp]:
  "rn_db (note_error a b w) = rn_db w" "rn_pub (note_error a b w) = rn_pub w" "rn_d (note_error a b w) = rn_d w"
  by (simp_all add: note_error_def split: seg_phase.splits option.splits)

lemma job_step_keeps:
  assumes "badger_laws B" "badger_quiet B" "job_step B ru did mv st w = Some (Inr (st', w'))"
    and "repo_ok (ru_lib ru) (bdata B (rn_db w))" "publisher_ok (rn_pub w)" "stage_ok did st (rn_d w)"
  shows "repo_ok (ru_lib ru) (bdata B (rn_db w')) \<and> publisher_ok (rn_pub w') \<and> stage_ok did st' (rn_d w') \<and>
    rows_kept B did (rn_db w) (rn_db w')"
proof -
  note kept = quiet_changeD [of B "ru_lib ru" did w, OF _ assms(4,5)]
  note step = assms(3)
  have refl: "rows_kept B did s s" for s by (simp add: rows_kept_def)
  show ?thesis
  proof (cases mv)
    case (Load cx)
    with step have "st = Waiting" by (cases st) simp_all
    with step Load assms(4,5) refl GetDownload_row [OF assms(1,4), of cx did] show ?thesis
      by (auto split: sum.splits)
  next
    case (PrepareRun rd)
    with step have st: "st = Loaded" by (cases st) simp_all
    obtain r w1 where p: "prepareDownload B ru rd w = (r, w1)" by fastforce
    from prepareDownload_quiet [OF assms(1,2) p] have q: "quiet_change B (ru_lib ru) did w w1"
      "\<And>gs g. r = Inr gs \<Longrightarrow> g \<in> set gs \<Longrightarrow> s_DownloadID g = d_ID (rn_d w1)" by blast+
    from kept [OF q(1)] q(2) step PrepareRun p st assms(6) show ?thesis by (auto split: sum.splits)
  next
    case (Fetch i rd)
    with step obtain phs where st: "st = Fetching phs" "i < length phs" by (cases st) (simp_all split: if_splits)
    with step Fetch obtain ph w1 where s: "seg_step B ru rd (phs ! i) w = Inr (ph, w1)"
      "st' = Fetching (phs[i := ph])" "w' = note_error (phs ! i) ph w1" by (auto simp: bindE_eq_Inr)
    from seg_step_quiet [OF assms(1,2) s(1)] have q: "quiet_change B (ru_lib ru) did w w1"
      "s_DownloadID (phase_seg ph) = s_DownloadID (phase_seg (phs ! i))" by blast+
    from assms(6) st have "\<forall>p \<in> set (phs[i := ph]). s_DownloadID (phase_seg p) = did"
      using q(2) set_update_subset_insert [of phs i ph] by fastforce
    with kept [OF q(1)] s(2,3) assms(6) st show ?thesis by simp
  next
    case (Monitor cx ck)
    with step obtain m: "st' = st" "monitor_step B ru cx ck w = Inr w'" and "st \<noteq> Waiting"
      by (cases st) (auto simp: bindE_eq_Inr awaits_values_def)
    with kept [OF monitor_step_quiet [OF assms(1,2) m(2)]] assms(6) show ?thesis by (simp add: stage_ok_def)
  next
    case (Join rd)
    with step obtain phs where "st = Fetching phs" by (cases st) simp_all
    with kept [OF finish_quiet(1) [OF assms(1,2), of ru did w rd]] step Join assms(4-6) refl show ?thesis
      by (auto split: if_splits list.splits)
  next
    case (Merge fuel mio vio)
    with step have st: "st = Merging" by (cases st) simp_all
    with step Merge obtain r where "merge_and_verify ru fuel mio vio w = Some (r, w')" "st' = Completing \<or> (\<exists>e. st' = Failing e)"
      by (auto split: option.splits sum.splits)
    with kept [OF merge_quiet] assms(6) st show ?thesis by auto
  next
    case (Complete rd)
    with step have st: "st = Completing" by (cases st) simp_all
    with step Complete have "finish_complete B ru rd w = Inr w'" "st' = Ended" by (auto simp: bindE_eq_Inr)
    with kept [OF finish_quiet(2) [OF assms(1,2)]] assms(6) st show ?thesis by simp
  next
    case (Fail cx ck)
    with step obtain e where st: "st = Failing e" by (cases st) simp_all
    with step Fail have "run_fail B ru cx ck e w = Inr w'" "st' = Ended" by (auto simp: bindE_eq_Inr split: if_splits)
    with kept [OF run_fail_quiet [OF assms(1,2)]] assms(6) st show ?thesis by simp
  qed
qed

end
