(* ===== verification/Server.thy ===== *)
theory Server
  imports Worker Options
begin

text \<open>
  \<open>internal/server/server.go\<close>: how the server is put together, what it runs, and its shutdown.  Opening
  the database, listening and \<open>http.Server.Shutdown\<close> belong to libraries: \<open>badger_Open\<close> is the first,
  and the other two do not touch the state of the service.
\<close>

section \<open>Opening the database\<close>

text \<open>
  \<open>internal/db/db.go\<close>: the options that are set over \<open>badger.DefaultOptions\<close>, with the cleaned directory;
  \<open>badger.Open\<close> is a parameter.
\<close>

datatype compression = Uncompressed | Snappy | ZSTD

record badger_options =
  bo_Dir :: string
  bo_NumVersionsToKeep :: int
  bo_Logging :: bool
  bo_Compression :: compression
  bo_IndexCacheSize :: int
  bo_BlockCacheSize :: int

definition OpenBadger :: "(badger_options \<Rightarrow> 's res) \<Rightarrow> string \<Rightarrow> 's res" where
  "OpenBadger badger_Open dir =
     badger_Open \<lparr>bo_Dir = Clean dir, bo_NumVersionsToKeep = 1, bo_Logging = False, bo_Compression = ZSTD,
       bo_IndexCacheSize = 64 * 2 ^ 20, bo_BlockCacheSize = 128 * 2 ^ 20\<rparr>"

definition NewBadgerRepository :: "(badger_options \<Rightarrow> 's res) \<Rightarrow> string \<Rightarrow> 's res" where
  "NewBadgerRepository badger_Open dir = bindE (OpenBadger badger_Open dir) Inr"

section \<open>Putting the server together\<close>

record 's server =
  se_cfg :: Config
  se_svc :: "'s svc"
  se_worker :: WorkerConfig
  se_addr :: string

definition resolvePort :: "Config \<Rightarrow> int" where
  "resolvePort cfg = (if g_HTTPPort cfg \<noteq> 0 then g_HTTPPort cfg else 8089)"

definition default_queue :: Queue where
  "default_queue =
     zero_Queue\<lparr>q_ID := DefaultQueueName, q_Name := DefaultQueueName, q_Concurrency := 32, q_Default := True\<rparr>"

text \<open>Any error of the read, not only a missing queue, makes the default queue be written.\<close>

definition ensure_default_queue :: "'s badger \<Rightarrow> gctxs \<Rightarrow> clock \<Rightarrow> 's \<Rightarrow> 's" where
  "ensure_default_queue B cxs ck s =
     (case GetQueue B (cxs 0) s DefaultQueueName of
        Inr q \<Rightarrow> s
      | Inl e \<Rightarrow> snd (SaveQueue B (cxs 1) ck s default_queue))"

text \<open>
  \<open>New\<close> gives the limiter \<open>&SimpleRateLimiter{}\<close>; \<open>opened\<close> is the result of \<open>NewBadgerRepository\<close>.  The contexts are \<open>context.Background()\<close>.
\<close>

definition New :: "'s badger \<Rightarrow> clock \<Rightarrow> fsys \<Rightarrow> 's res \<Rightarrow> Config \<Rightarrow> 's server res" where
  "New B ck fs opened cfg =
     bindE opened (\<lambda>s.
       let s = ensure_default_queue B (\<lambda>j. live) (skip 1 ck) s
       in bindE (if 0 < g_GlobalRateLimitBPS cfg
                 then SetLimit (ck 0) ZeroLimiter ''global'' (g_GlobalRateLimitBPS cfg)
                 else Inr ZeroLimiter) (\<lambda>rl.
            Inr \<lparr>se_cfg = cfg,
                 se_svc = NewDownloadService s (Some NewInMemoryPublisher) (Some rl) (Some fs),
                 se_worker = \<lparr>w_TickInterval = g_WorkerTickInterval cfg,
                              w_StaleDownloadTimeout = g_StaleDownloadTimeout cfg\<rparr>,
                 se_addr = '':'' @ FormatInt (resolvePort cfg)\<rparr>))"

section \<open>Shutdown\<close>

text \<open>The clock is read once before each update and then by the update itself.\<close>

fun pause_all :: "'s badger \<Rightarrow> stdlib \<Rightarrow> gctxs \<Rightarrow> (nat \<Rightarrow> clock) \<Rightarrow> Download list \<Rightarrow> 's \<Rightarrow> 's" where
  "pause_all B L cxs cks [] s = s"
| "pause_all B L cxs cks (d # ds) s =
     pause_all B L (skip 1 cxs) (skip 1 cks) ds
       (snd (UpdateDownload B L (cxs 0) (skip 1 (cks 0)) s
          (d\<lparr>d_Status := StatusPaused, d_UpdatedAt := cks 0 0\<rparr>)))"

definition running_opts :: ListDownloadsOptions where
  "running_opts = zero_Options\<lparr>o_Statuses := [StatusRunning]\<rparr>"

definition pauseRunningDownloads ::
    "'s badger \<Rightarrow> stdlib \<Rightarrow> gctxs \<Rightarrow> (nat \<Rightarrow> clock) \<Rightarrow> 's \<Rightarrow> unit res \<times> 's" where
  "pauseRunningDownloads B L cxs cks s =
     (case ListDownloads B L (cxs 0) s running_opts 1000 0 of
        Inl e \<Rightarrow> (Inl e, s)
      | Inr ds \<Rightarrow> (Inr (), pause_all B L (skip 1 cxs) cks ds s))"

text \<open>
  \<open>RunForeground\<close>: the workers tick while requests and runs change the service (\<open>ServeOther\<close>), until the
  context is done.  Then the running downloads are paused, under the same context, of which \<open>ended j\<close> is
  the error at its \<open>j\<close>th reading.  A panic of the worker's goroutine ends the process, and so does
  \<open>os.Exit(1)\<close> when the server cannot listen: the result is that error, with the state that was left.
\<close>

datatype 's serve_event = ServeTick tick_env | ServeOther "'s svc" | ListenFailed gerr

fun serve ::
    "'s badger \<Rightarrow> stdlib \<Rightarrow> WorkerConfig \<Rightarrow> 's serve_event list \<Rightarrow> 's svc \<Rightarrow> unit res \<times> 's svc" where
  "serve B L cfg [] sv = (Inr (), sv)"
| "serve B L cfg (ServeOther sv' # evs) sv = serve B L cfg evs sv'"
| "serve B L cfg (ListenFailed e # evs) sv = (Inl e, sv)"
| "serve B L cfg (ServeTick te # evs) sv =
     (case worker_loop B L cfg [Tick te] sv of
        (Inl e, sv') \<Rightarrow> (Inl e, sv')
      | (Inr u, sv') \<Rightarrow> serve B L cfg evs sv')"

definition RunForeground ::
    "'s badger \<Rightarrow> stdlib \<Rightarrow> 's serve_event list \<Rightarrow> (nat \<Rightarrow> gerr) \<Rightarrow> (nat \<Rightarrow> clock) \<Rightarrow> 's server \<Rightarrow>
       unit res \<times> 's server" where
  "RunForeground B L evs ended cks sr =
     (case NewTicker (w_TickInterval (se_worker sr)) of
        Inl e \<Rightarrow> (Inl e, sr)
      | Inr u \<Rightarrow> (case serve B L (se_worker sr) evs (se_svc sr) of
          (Inl e, sv) \<Rightarrow> (Inl e, sr\<lparr>se_svc := sv\<rparr>)
        | (Inr u, sv) \<Rightarrow>
            let (r, s) = pauseRunningDownloads B L (\<lambda>j k. Some (ended (j + k))) cks (sv_db sv)
            in (Inr (), sr\<lparr>se_svc := sv\<lparr>sv_db := s\<rparr>\<rparr>)))"

text \<open>\<open>Close\<close> drops the error of closing the HTTP server and returns that of closing the database.\<close>

definition Close :: "gerr option \<Rightarrow> unit res" where
  "Close db_close = (case db_close of None \<Rightarrow> Inr () | Some e \<Rightarrow> Inl e)"

section \<open>Properties\<close>

text \<open>
  C34.  The server is put together as its configuration says.  When the database cannot be opened its
  error is returned.  With a global rate limit the construction panics, because the limiter has no map to
  put it in.  Otherwise the queue \<open>main\<close> is the stored one or, when there was none, the default queue with
  room for 32 downloads, not paused and without a rate limit; no download and no other queue is touched,
  no run exists, the workers get the interval and the timeout of the configuration, and the address is the
  configured port, or 8089 when that is 0.
\<close>

theorem new_server_ready:
  assumes "badger_laws B" "badger_quiet B" "repo_ok L (bdata B s)"
  shows "New B ck fs (Inl e) cfg = Inl e \<and>
    (if 0 < g_GlobalRateLimitBPS cfg
     then New B ck fs (Inr s) cfg = Inl (ErrPanic ''assignment to entry in nil map'')
     else \<exists>s' q. New B ck fs (Inr s) cfg = Inr \<lparr>se_cfg = cfg,
         se_svc = \<lparr>sv_db = s', sv_pub = Some NewInMemoryPublisher, sv_lim = Some None, sv_fs = Some fs,
           sv_cancels = Map.empty, sv_runs = []\<rparr>,
         se_worker = \<lparr>w_TickInterval = g_WorkerTickInterval cfg, w_StaleDownloadTimeout = g_StaleDownloadTimeout cfg\<rparr>,
         se_addr = '':'' @ FormatInt (if g_HTTPPort cfg = 0 then 8089 else g_HTTPPort cfg)\<rparr> \<and>
       queues (bdata B s') = (queues (bdata B s))(''main'' \<mapsto> q) \<and>
       (case queues (bdata B s) ''main'' of Some q' \<Rightarrow> q = q'
        | None \<Rightarrow> q = zero_Queue\<lparr>q_ID := ''main'', q_Name := ''main'', q_Concurrency := 32,
            q_Default := True, q_CreatedAt := ck 1, q_UpdatedAt := ck 2\<rparr>) \<and>
       stored (bdata B s') = stored (bdata B s) \<and> repo_ok L (bdata B s'))"
proof (intro conjI)
  show "New B ck fs (Inl e) cfg = Inl e" by (simp add: New_def)
next
  let ?sr = "\<lambda>s'. \<lparr>se_cfg = cfg, se_svc = \<lparr>sv_db = s', sv_pub = Some NewInMemoryPublisher, sv_lim = Some None,
      sv_fs = Some fs, sv_cancels = Map.empty, sv_runs = []\<rparr>,
    se_worker = \<lparr>w_TickInterval = g_WorkerTickInterval cfg, w_StaleDownloadTimeout = g_StaleDownloadTimeout cfg\<rparr>,
    se_addr = '':'' @ FormatInt (if g_HTTPPort cfg = 0 then 8089 else g_HTTPPort cfg)\<rparr>"
  let ?db = "ensure_default_queue B (\<lambda>j. live) (skip 1 ck) s"
  let ?new = "zero_Queue\<lparr>q_ID := ''main'', q_Name := ''main'', q_Concurrency := 32,
            q_Default := True, q_CreatedAt := ck 1, q_UpdatedAt := ck 2\<rparr>"
  have get: "GetQueue B live s DefaultQueueName =
      (case queues (bdata B s) ''main'' of None \<Rightarrow> Inl ErrNotFound | Some q \<Rightarrow> Inr q)"
    using GetQueue_quiet [OF assms(1-3), of live DefaultQueueName] by (simp add: DefaultQueueName_def)
  have id: "q_ID default_queue = ''main''" by (simp add: default_queue_def DefaultQueueName_def)
  have zero: "IsZero (q_CreatedAt default_queue)" by (simp add: default_queue_def zero_Queue_def IsZero_def)
  have new: "default_queue\<lparr>q_CreatedAt := ck 1, q_UpdatedAt := ck 2\<rparr> = ?new"
    by (simp add: default_queue_def zero_Queue_def DefaultQueueName_def)
  have "\<exists>q. queues (bdata B ?db) = (queues (bdata B s))(''main'' \<mapsto> q) \<and>
      (case queues (bdata B s) ''main'' of Some q' \<Rightarrow> q = q' | None \<Rightarrow> q = ?new) \<and>
      stored (bdata B ?db) = stored (bdata B s) \<and> repo_ok L (bdata B ?db)"
  proof (cases "queues (bdata B s) ''main''")
    case (Some q)
    then have "?db = s" by (simp add: ensure_default_queue_def get)
    with Some assms(3) show ?thesis by (simp add: fun_upd_idem)
  next
    case None
    from SaveQueue_quiet [OF assms(1,2), of live default_queue "skip 1 ck" s] id obtain q s' where
      r: "SaveQueue B live (skip 1 ck) s default_queue = (Inr q, s')" by auto
    from None r have "?db = s'" by (simp add: ensure_default_queue_def get)
    with SaveQueue_keeps [OF assms(1-3) r] zero id None new show ?thesis
      by (intro exI [of _ q]) (simp add: numeral_2_eq_2)
  qed
  moreover have "New B ck fs (Inr s) cfg = Inr (?sr ?db)" if "\<not> 0 < g_GlobalRateLimitBPS cfg"
    using that by (auto simp: New_def Let_def NewDownloadService_def ZeroLimiter_def resolvePort_def)
  moreover have "New B ck fs (Inr s) cfg = Inl (ErrPanic ''assignment to entry in nil map'')" if "0 < g_GlobalRateLimitBPS cfg"
    using that by (simp add: New_def Let_def SetLimit_def ZeroLimiter_def)
  ultimately show "if 0 < g_GlobalRateLimitBPS cfg
     then New B ck fs (Inr s) cfg = Inl (ErrPanic ''assignment to entry in nil map'')
     else \<exists>s' q. New B ck fs (Inr s) cfg = Inr (?sr s') \<and>
       queues (bdata B s') = (queues (bdata B s))(''main'' \<mapsto> q) \<and>
       (case queues (bdata B s) ''main'' of Some q' \<Rightarrow> q = q' | None \<Rightarrow> q = ?new) \<and>
       stored (bdata B s') = stored (bdata B s) \<and> repo_ok L (bdata B s')"
    by (cases "0 < g_GlobalRateLimitBPS cfg") (simp, auto)
qed

theorem new_server_ready_witness:
  "\<exists>sr q. New mem_badger demo_clock [] (Inr demo_store) Default = Inr sr \<and>
     queues (bdata mem_badger (sv_db (se_svc sr))) = [''main'' \<mapsto> q] \<and> q_Concurrency q = 32 \<and> q_Default q \<and>
     stored (bdata mem_badger (sv_db (se_svc sr))) = [''a1'' \<mapsto> created demo_clock demo_download]"
proof -
  have none: "queues (bdata mem_badger demo_store) = Map.empty"
    unfolding mem_badger_sel(1) demo_net by (simp add: fun_eq_iff queues_def put_store_untouched)
  have "g_GlobalRateLimitBPS Default \<le> 0" by (simp add: Default_def)
  then have noneg: "\<not> 0 < g_GlobalRateLimitBPS Default" by simp
  let ?addr = "'':'' @ FormatInt (if g_HTTPPort Default = 0 then 8089 else g_HTTPPort Default)"
  note n = new_server_ready [where ck = demo_clock and fs = "[]" and cfg = Default and e = ErrEOF,
      OF mem_badger_laws mem_badger_quiet demo_repo_ok [folded mem_badger_sel(1)], unfolded if_not_P [OF noneg]]
  from conjunct2 [OF n] obtain s' q where
    new: "New mem_badger demo_clock [] (Inr demo_store) Default = Inr \<lparr>se_cfg = Default,
       se_svc = \<lparr>sv_db = s', sv_pub = Some NewInMemoryPublisher, sv_lim = Some None, sv_fs = Some [],
         sv_cancels = Map.empty, sv_runs = []\<rparr>,
       se_worker = \<lparr>w_TickInterval = g_WorkerTickInterval Default, w_StaleDownloadTimeout = g_StaleDownloadTimeout Default\<rparr>,
       se_addr = ?addr\<rparr>"
    and q: "queues (bdata mem_badger s') = (queues (bdata mem_badger demo_store))(''main'' \<mapsto> q)"
    and dq: "case queues (bdata mem_badger demo_store) ''main'' of Some q' \<Rightarrow> q = q'
        | None \<Rightarrow> q = zero_Queue\<lparr>q_ID := ''main'', q_Name := ''main'', q_Concurrency := 32,
            q_Default := True, q_CreatedAt := demo_clock 1, q_UpdatedAt := demo_clock 2\<rparr>"
    and st: "stored (bdata mem_badger s') = stored (bdata mem_badger demo_store)"
    by (elim exE conjE) (rule that)
  have "q_Concurrency q = 32" "q_Default q" using dq unfolding none by simp_all
  with new q st show ?thesis unfolding none
    by (intro exI [of _ "\<lparr>se_cfg = Default,
       se_svc = \<lparr>sv_db = s', sv_pub = Some NewInMemoryPublisher, sv_lim = Some None, sv_fs = Some [],
         sv_cancels = Map.empty, sv_runs = []\<rparr>,
       se_worker = \<lparr>w_TickInterval = g_WorkerTickInterval Default, w_StaleDownloadTimeout = g_StaleDownloadTimeout Default\<rparr>,
       se_addr = ?addr\<rparr>"] exI [of _ q]) (simp add: demo_stored)
qed


end
