(* ===== verification/System.thy ===== *)
theory System
  imports Jobs Server
begin

text \<open>
  The composition of the process: the service behind the API, the workers, and one job for every run that
  the service has spawned.  A step is a request, a tick of the workers, a move of one job, or the end of
  its goroutine.  The calls that start, resume, pause and cancel a download may also overlap in pieces, cut
  as in \<open>lifecycle\<close>, of which every state of the process is a state.
\<close>

section \<open>State\<close>

record job =
  jb_stage :: stage
  jb_d :: Download
  jb_progress :: "int list"
  jb_errs :: "gerr list"

definition new_job :: job where
  "new_job = \<lparr>jb_stage = Waiting, jb_d = zero_Download, jb_progress = [], jb_errs = []\<rparr>"

text \<open>Job \<open>r\<close> is that of run \<open>r\<close> of the service.\<close>

record 's sys =
  sy_svc :: "'s svc"
  sy_jobs :: "job list"
  sy_threads :: "thread list"

text \<open>What a job sees of the service, and the service after it has moved.\<close>

definition job_view :: "'s svc \<Rightarrow> job \<Rightarrow> 's rstate option" where
  "job_view sv j =
     (case (sv_pub sv, sv_fs sv) of
        (Some p, Some fs) \<Rightarrow> Some \<lparr>rn_db = sv_db sv, rn_pub = p, rn_lim = sv_lim sv, rn_fs = fs, rn_d = jb_d j,
                                  rn_progress = jb_progress j, rn_errs = jb_errs j\<rparr>
      | _ \<Rightarrow> None)"

definition put_view :: "'s rstate \<Rightarrow> 's svc \<Rightarrow> 's svc" where
  "put_view w sv = sv\<lparr>sv_db := rn_db w, sv_pub := Some (rn_pub w), sv_lim := rn_lim w, sv_fs := Some (rn_fs w)\<rparr>"

definition put_job :: "nat \<Rightarrow> stage \<Rightarrow> 's rstate \<Rightarrow> 's sys \<Rightarrow> 's sys" where
  "put_job r st w y =
     y\<lparr>sy_svc := put_view w (sy_svc y),
       sy_jobs := (sy_jobs y)[r := \<lparr>jb_stage = st, jb_d = rn_d w, jb_progress = rn_progress w, jb_errs = rn_errs w\<rparr>]\<rparr>"

text \<open>The service and the calls under way have changed; the runs that were spawned get their jobs.\<close>

definition with_svc :: "'s svc \<Rightarrow> thread list \<Rightarrow> 's sys \<Rightarrow> 's sys" where
  "with_svc sv ts y =
     \<lparr>sy_svc = sv, sy_jobs = sy_jobs y @ replicate (length (sv_runs sv) - length (sy_jobs y)) new_job,
      sy_threads = ts\<rparr>"

section \<open>Steps\<close>

inductive sys_reach ::
    "'s badger \<Rightarrow> runtime \<Rightarrow> validator option \<Rightarrow> WorkerConfig \<Rightarrow> 's sys \<Rightarrow> bool" for B ru V cfg where
  sys_boot: "New B ck fs (Inr s) gcfg = Inr sr \<Longrightarrow> repo_ok (ru_lib ru) (bdata B s) \<Longrightarrow>
    sys_reach B ru V cfg \<lparr>sy_svc = se_svc sr, sy_jobs = [], sy_threads = []\<rparr>"
| sys_request: "sys_reach B ru V cfg y \<Longrightarrow> request_ok B rq r (sv_db (sy_svc y)) \<Longrightarrow>
    handle B (ru_lib ru) V rq r (sy_svc y) = (rep, sv) \<Longrightarrow> sys_reach B ru V cfg (with_svc sv (sy_threads y) y)"
| sys_tick: "sys_reach B ru V cfg y \<Longrightarrow> tick B (ru_lib ru) cfg te (sy_svc y) = (Inr u, sv) \<Longrightarrow>
    sys_reach B ru V cfg (with_svc sv (sy_threads y) y)"
| sys_check: "sys_reach B ru V cfg y \<Longrightarrow> start_check did (sy_svc y) \<Longrightarrow>
    sys_reach B ru V cfg (with_svc (sy_svc y) (AfterCheck did # sy_threads y) y)"
| sys_status: "sys_reach B ru V cfg y \<Longrightarrow> AfterCheck did \<in> set (sy_threads y) \<Longrightarrow>
    start_status B (ru_lib ru) cxs ck did (sy_svc y) = (q, sv) \<Longrightarrow>
    sys_reach B ru V cfg (with_svc sv (next_thread q (AfterStatus did) (remove1 (AfterCheck did) (sy_threads y))) y)"
| sys_resume: "sys_reach B ru V cfg y \<Longrightarrow> resume_status B (ru_lib ru) cx ck did (sy_svc y) = (q, sv) \<Longrightarrow>
    sys_reach B ru V cfg (with_svc sv (next_thread q (AfterStatus did) (sy_threads y)) y)"
| sys_spawn: "sys_reach B ru V cfg y \<Longrightarrow> AfterStatus did \<in> set (sy_threads y) \<Longrightarrow>
    sys_reach B ru V cfg (with_svc (spawn_run did (sy_svc y)) (remove1 (AfterStatus did) (sy_threads y)) y)"
| sys_cancel: "sys_reach B ru V cfg y \<Longrightarrow> stat \<in> {StatusPaused, StatusCancelled} \<Longrightarrow>
    sys_reach B ru V cfg (with_svc (cancel_run did (sy_svc y)) (AfterCancel did stat # sy_threads y) y)"
| sys_settle: "sys_reach B ru V cfg y \<Longrightarrow> AfterCancel did stat \<in> set (sy_threads y) \<Longrightarrow>
    updateStatus B (ru_lib ru) cx ck did stat (\<lambda>now d. d) (sy_svc y) = (q, sv) \<Longrightarrow>
    sys_reach B ru V cfg (with_svc sv (remove1 (AfterCancel did stat) (sy_threads y)) y)"
| sys_job: "sys_reach B ru V cfg y \<Longrightarrow> r < length (sy_jobs y) \<Longrightarrow> job_view (sy_svc y) (sy_jobs y ! r) = Some w \<Longrightarrow>
    job_step B ru (run_of (sv_runs (sy_svc y) ! r)) mv (jb_stage (sy_jobs y ! r)) w = Some (Inr (st, w')) \<Longrightarrow>
    sys_reach B ru V cfg (put_job r st w' y)"
| sys_end: "sys_reach B ru V cfg y \<Longrightarrow> r < length (sy_jobs y) \<Longrightarrow> jb_stage (sy_jobs y ! r) = Ended \<Longrightarrow>
    \<not> run_done (sv_runs (sy_svc y) ! r) \<Longrightarrow>
    sys_reach B ru V cfg (y\<lparr>sy_svc := finish_run r (sy_svc y)\<rparr>)"

section \<open>What the service does to its runs\<close>

text \<open>Requests and ticks spawn runs; they neither remove one nor change its download.\<close>

definition grows :: "'s svc \<Rightarrow> 's svc \<Rightarrow> bool" where
  "grows sv sv' \<longleftrightarrow> (\<exists>new. map run_of (sv_runs sv') = map run_of (sv_runs sv) @ new) \<and>
     (sv_pub sv \<noteq> None \<longrightarrow> sv_pub sv' \<noteq> None) \<and> (sv_fs sv \<noteq> None \<longrightarrow> sv_fs sv' \<noteq> None)"

lemma grows_trans: "grows sv sv' \<Longrightarrow> grows sv' sv'' \<Longrightarrow> grows sv sv''"
  by (fastforce simp: grows_def)

lemma grows_same:
  "map run_of (sv_runs sv') = map run_of (sv_runs sv) \<Longrightarrow> sv_pub sv' = sv_pub sv \<Longrightarrow> sv_fs sv' = sv_fs sv \<Longrightarrow> grows sv sv'"
  by (simp add: grows_def)

lemma grows_refl [simp]: "grows sv sv"
  by (simp add: grows_same)

lemma svc_publish_Some: "svc_publish now pub ty d dat = Inr pub' \<Longrightarrow> pub' = None \<longleftrightarrow> pub = None"
  by (auto simp: svc_publish_def bindE_eq_Inr split: option.splits)

lemma RunInTx_world:
  "RunInTx B cx fn s w = (r, s', w') \<Longrightarrow> w' = w \<or> w' = snd (snd (fn s w))"
  by (auto simp: RunInTx_def split: option.splits prod.splits sum.splits)

lemma updateStatus_grows: "grows sv (snd (updateStatus B L cx ck did status mutate sv))"
proof -
  let ?fn = "\<lambda>s p. case bindE (txGetDownload B (skip 2 cx) s [] did) (\<lambda>d.
        updateDownloadTxn B L (skip 3 cx) (skip 3 ck) s ((mutate (ck 0) (d\<lparr>d_Status := status\<rparr>))\<lparr>d_UpdatedAt := ck 1\<rparr>) []) of
      Inl e \<Rightarrow> (Inl e, s, p)
    | Inr (d, tx) \<Rightarrow> (case svc_publish (ck 2) p (mapStatusToEvent status) d NoData of
        Inl e \<Rightarrow> (Inl e, s, p)
      | Inr p' \<Rightarrow> (Inr ((), tx), s, p'))"
  obtain r s' p' where run: "RunInTx B cx ?fn (sv_db sv) (sv_pub sv) = (r, s', p')" by (rule prod_cases3)
  have "snd (snd (?fn (sv_db sv) (sv_pub sv))) = None \<longleftrightarrow> sv_pub sv = None"
    by (auto split: sum.splits dest: svc_publish_Some)
  with RunInTx_world [OF run] have "p' = None \<longleftrightarrow> sv_pub sv = None" by auto
  with run show ?thesis by (auto simp: updateStatus_def Let_def grows_def)
qed

lemma modify_in_tx_grows: "grows sv (snd (modify_in_tx B L cx ck did f sv))"
  by (simp add: modify_in_tx_def grows_def split: prod.splits)

lemma spawn_run_grows [simp]: "grows sv (spawn_run did sv)"
  by (simp add: grows_def spawn_run_def)

lemma map_update_same: "f x = f (xs ! i) \<Longrightarrow> map f (xs[i := x]) = map f xs"
  by (cases "i < length xs") (simp_all add: map_update list_update_same_conv list_update_beyond)

lemma cancel_run_grows [simp]: "grows sv (cancel_run did sv)"
  by (auto simp: grows_def cancel_run_def map_update_same split: option.splits)

lemma finish_run_grows [simp]: "grows sv (finish_run r sv)"
  by (rule grows_same) (simp_all add: finish_run_def map_update_same)

lemma start_status_grows: "grows sv (snd (start_status B L cxs ck did sv))"
proof (cases "start_limit B (cxs 0) (ck 0) did sv")
  case (Inr rl)
  have "grows sv (sv\<lparr>sv_lim := rl\<rparr>)" by (rule grows_same) simp_all
  from grows_trans [OF this updateStatus_grows] Inr show ?thesis by (simp add: start_status_def)
qed (simp add: start_status_def)

lemma lifecycle_grows:
  "grows sv (snd (Start B L cxs ck did sv))" "grows sv (snd (Pause B L cx ck did sv))"
  "grows sv (snd (Resume B L cx ck did sv))" "grows sv (snd (Cancel B L cx ck did sv))"
proof -
  show "grows sv (snd (Pause B L cx ck did sv))" "grows sv (snd (Cancel B L cx ck did sv))"
    unfolding Pause_def Cancel_def by (rule grows_trans [OF cancel_run_grows updateStatus_grows])+
  show "grows sv (snd (Resume B L cx ck did sv))"
    using updateStatus_grows [of sv B L cx ck did StatusRunning "\<lambda>now d. d"]
      grows_trans [OF _ spawn_run_grows]
    by (auto simp: Resume_def resume_status_def split: prod.splits sum.splits)
  show "grows sv (snd (Start B L cxs ck did sv))"
    using start_status_grows [of sv B L cxs ck did] grows_trans [OF _ spawn_run_grows]
    by (cases "start_status B L cxs ck did sv") (auto simp: Start_def split: sum.splits)
qed

lemma Enqueue_grows: "grows sv (snd (Enqueue B L V cx ck uid req sv))"
  by (auto simp: Enqueue_def Let_def grows_def split: sum.splits prod.splits dest: svc_publish_Some)

lemma remove_files_Some: "remove_files io home d fs = (r, fs') \<Longrightarrow> fs' = None \<longleftrightarrow> fs = None"
  by (auto simp: remove_files_def split: option.splits prod.splits sum.splits)

lemma Remove_grows: "grows sv (snd (Remove B L io home cxs ck did del sv))"
  by (auto simp: Remove_def Let_def grows_def split: sum.splits prod.splits if_splits
      dest: svc_publish_Some remove_files_Some)

lemma start_all_grows: "grows sv (snd (start_all B L cxss cks ids sv))"
proof (induction ids arbitrary: cxss cks sv)
  case (Cons i ids)
  have "grows sv (snd (Start B L (cxss 0) (cks 0) i sv))" by (rule lifecycle_grows)
  with Cons [of "snd (Start B L (cxss 0) (cks 0) i sv)" "skip 1 cxss" "skip 1 cks"] show ?case
    by (cases "Start B L (cxss 0) (cks 0) i sv") (auto split: sum.splits intro: grows_trans)
qed simp

lemma tick_queue_grows: "grows sv (snd (tick_queue B L cxs cxss cks q sv))"
proof -
  have "grows sv (sv\<lparr>sv_lim := rl, sv_db := s\<rparr>)" for rl s by (rule grows_same) simp_all
  with grows_trans [OF this start_all_grows] show ?thesis
    by (auto simp: tick_queue_def Let_def split: sum.splits)
qed

lemma tick_queues_grows: "grows sv (snd (tick_queues B L cq cs ck qs sv))"
proof (induction qs arbitrary: cq cs ck sv)
  case (Cons q qs)
  have "grows sv (snd (tick_queue B L (cq 0) (cs 0) (ck 0) q sv))" by (rule tick_queue_grows)
  with Cons [of "snd (tick_queue B L (cq 0) (cs 0) (ck 0) q sv)" "skip 1 cq" "skip 1 cs" "skip 1 ck"] show ?case
    by (cases "tick_queue B L (cq 0) (cs 0) (ck 0) q sv") (auto split: sum.splits intro: grows_trans)
qed simp

lemma tick_grows: "grows sv (snd (tick B L cfg te sv))"
proof -
  have "grows sv (sv\<lparr>sv_db := s\<rparr>)" for s by (rule grows_same) simp_all
  from grows_trans [OF this tick_queues_grows] show ?thesis
    by (auto simp: tick_def Let_def split: sum.splits)
qed

lemma handle_grows: "grows sv (snd (handle B L V rq r sv))"
proof (cases r)
  case (ForQueues x)
  have "grows sv (sv\<lparr>sv_db := s\<rparr>)" for s by (rule grows_same) simp_all
  with ForQueues show ?thesis by (auto simp: handle_def split: prod.splits)
next
  case (ForDownloads x)
  have "grows sv (snd (handle_download B L V rq x sv))"
  proof (cases x)
    case (EnqueueDownload y)
    with Enqueue_grows [of sv B L V "rq_cxs rq 0" "rq_ck rq" "rq_uid rq" y] show ?thesis
      by (auto split: prod.splits)
  qed (simp_all add: lifecycle_grows Remove_grows modify_in_tx_grows with_body_snd UpdateConfig_def UpdateRequest_def
    SetPriority_def AddTags_def RemoveTags_def AssignQueue_def split: sum.splits option.splits)
  with ForDownloads show ?thesis by (simp add: handle_def)
qed

section \<open>The invariant of the process\<close>

definition sys_ok :: "'s badger \<Rightarrow> stdlib \<Rightarrow> 's sys \<Rightarrow> bool" where
  "sys_ok B L y \<longleftrightarrow>
     (let sv = sy_svc y; jobs = sy_jobs y in
      svc_ok B L sv \<and> sv_pub sv \<noteq> None \<and> sv_fs sv \<noteq> None \<and> length jobs = length (sv_runs sv) \<and>
      (\<forall>r < length jobs. stage_ok (run_of (sv_runs sv ! r)) (jb_stage (jobs ! r)) (jb_d (jobs ! r))))"

lemma sys_ok_svc:
  assumes "sys_ok B L y" "grows (sy_svc y) sv" "svc_ok B L sv"
  shows "sys_ok B L (with_svc sv ts y)"
proof -
  obtain new where new: "map run_of (sv_runs sv) = map run_of (sv_runs (sy_svc y)) @ new"
    using assms(2) by (auto simp: grows_def)
  then have "length (map run_of (sv_runs sv)) = length (map run_of (sv_runs (sy_svc y)) @ new)" by simp
  then have len: "length (sv_runs sv) = length (sy_jobs y) + length new"
    using assms(1) by (simp add: sys_ok_def Let_def)
  have same: "run_of (sv_runs sv ! r) = run_of (sv_runs (sy_svc y) ! r)" if "r < length (sy_jobs y)" for r
  proof -
    have r: "r < length (sv_runs (sy_svc y))" using that assms(1) by (simp add: sys_ok_def Let_def)
    then have "map run_of (sv_runs sv) ! r = map run_of (sv_runs (sy_svc y)) ! r" unfolding new by (simp add: nth_append)
    with r that len show ?thesis by simp
  qed
  show ?thesis
    using assms same by (auto simp: sys_ok_def Let_def with_svc_def grows_def len nth_append new_job_def)
qed

lemma job_view_Some:
  "job_view sv j = Some w \<Longrightarrow> sv_pub sv = Some (rn_pub w) \<and> rn_db w = sv_db sv \<and> rn_d w = jb_d j"
  by (auto simp: job_view_def split: option.splits)

lemma put_view_sel [simp]:
  "sv_db (put_view w sv) = rn_db w" "sv_pub (put_view w sv) = Some (rn_pub w)" "sv_fs (put_view w sv) = Some (rn_fs w)"
  "sv_runs (put_view w sv) = sv_runs sv" "sv_cancels (put_view w sv) = sv_cancels sv"
  by (simp_all add: put_view_def)

text \<open>A move of a job, seen from the process.\<close>

lemma sys_job_keeps:
  assumes "badger_laws B" "badger_quiet B" "sys_ok B (ru_lib ru) y" "r < length (sy_jobs y)"
    and "job_view (sy_svc y) (sy_jobs y ! r) = Some w"
    and "job_step B ru (run_of (sv_runs (sy_svc y) ! r)) mv (jb_stage (sy_jobs y ! r)) w = Some (Inr (st, w'))"
  shows "sys_ok B (ru_lib ru) (put_job r st w' y) \<and>
    rows_kept B (run_of (sv_runs (sy_svc y) ! r)) (sv_db (sy_svc y)) (sv_db (sy_svc (put_job r st w' y)))"
proof -
  note v = job_view_Some [OF assms(5)]
  have "repo_ok (ru_lib ru) (bdata B (rn_db w))" "publisher_ok (rn_pub w)"
    "stage_ok (run_of (sv_runs (sy_svc y) ! r)) (jb_stage (sy_jobs y ! r)) (rn_d w)"
    using assms(3,4) v by (auto simp: sys_ok_def Let_def svc_ok_def pub_ready_def)
  from job_step_keeps [OF assms(1,2,6) this] assms(3,4) v show ?thesis
    by (auto simp: sys_ok_def Let_def put_job_def svc_ok_def pub_ready_def nth_list_update)
qed

lemma New_ok:
  assumes "badger_laws B" "repo_ok L (bdata B s)" "New B ck fs (Inr s) gcfg = Inr sr"
  shows "svc_ok B L (se_svc sr) \<and> sv_pub (se_svc sr) \<noteq> None \<and> sv_fs (se_svc sr) \<noteq> None \<and> sv_runs (se_svc sr) = []"
proof -
  have "repo_ok L (bdata B (ensure_default_queue B (\<lambda>j. live) (skip 1 ck) s))"
    using assms(2) SaveQueue_repo_ok [OF assms(1,2)] by (simp add: ensure_default_queue_def split: sum.splits)
  with assms(3) show ?thesis
    by (auto simp: New_def Let_def bindE_eq_Inr NewDownloadService_def svc_ok_def)
qed

lemma sys_reach_ok:
  assumes "badger_laws B" "badger_quiet B" "sys_reach B ru V cfg y"
  shows "sys_ok B (ru_lib ru) y"
  using assms(3)
proof (induction rule: sys_reach.induct)
  case (sys_boot ck fs s gcfg sr)
  with New_ok [OF assms(1)] show ?case by (fastforce simp: sys_ok_def Let_def)
next
  case (sys_request y rq r rep sv)
  then have "svc_ok B (ru_lib ru) sv" "grows (sy_svc y) sv"
    using handle_keeps [OF assms(1,2), of "ru_lib ru" "sy_svc y" rq r V] handle_grows [of "sy_svc y" B "ru_lib ru" V rq r]
    by (simp_all add: sys_ok_def Let_def)
  with sys_request.IH show ?case by (blast intro: sys_ok_svc)
next
  case (sys_tick y te u sv)
  then have "svc_ok B (ru_lib ru) sv" "grows (sy_svc y) sv"
    using tick_keeps [OF assms(1,2), of "ru_lib ru" "sy_svc y" cfg te] tick_grows [of "sy_svc y" B "ru_lib ru" cfg te]
    by (simp_all add: sys_ok_def Let_def)
  with sys_tick.IH show ?case by (blast intro: sys_ok_svc)
next
  case (sys_status y did cxs ck q sv)
  then have "svc_ok B (ru_lib ru) sv" "grows (sy_svc y) sv"
    using start_status_keeps [OF assms(1,2), of "ru_lib ru" "sy_svc y" cxs ck did]
      start_status_grows [of "sy_svc y" B "ru_lib ru" cxs ck did]
    by (simp_all add: sys_ok_def Let_def)
  with sys_status.IH show ?case by (blast intro: sys_ok_svc)
next
  case (sys_resume y cx ck did q sv)
  then have "svc_ok B (ru_lib ru) sv" "grows (sy_svc y) sv"
    using updateStatus_keeps [OF assms(1,2), of "ru_lib ru" "sy_svc y" cx ck did StatusRunning "\<lambda>now d. d"]
      updateStatus_grows [of "sy_svc y" B "ru_lib ru" cx ck did StatusRunning "\<lambda>now d. d"]
    by (simp_all add: sys_ok_def Let_def resume_status_def)
  with sys_resume.IH show ?case by (blast intro: sys_ok_svc)
next
  case (sys_settle y did stat cx ck q sv)
  then have "svc_ok B (ru_lib ru) sv" "grows (sy_svc y) sv"
    using updateStatus_keeps [OF assms(1,2), of "ru_lib ru" "sy_svc y" cx ck did stat "\<lambda>now d. d"]
      updateStatus_grows [of "sy_svc y" B "ru_lib ru" cx ck did stat "\<lambda>now d. d"]
    by (simp_all add: sys_ok_def Let_def)
  with sys_settle.IH show ?case by (blast intro: sys_ok_svc)
next
  case (sys_check y did)
  show ?case by (rule sys_ok_svc [OF sys_check.IH]) (use sys_check.IH in \<open>simp_all add: sys_ok_def Let_def\<close>)
next
  case (sys_spawn y did)
  show ?case by (rule sys_ok_svc [OF sys_spawn.IH]) (use sys_spawn.IH in \<open>simp_all add: sys_ok_def Let_def\<close>)
next
  case (sys_cancel y stat did)
  show ?case by (rule sys_ok_svc [OF sys_cancel.IH]) (use sys_cancel.IH in \<open>simp_all add: sys_ok_def Let_def\<close>)
next
  case (sys_job y r w mv st w')
  with sys_job_keeps [OF assms(1,2)] show ?case by blast
next
  case (sys_end y r)
  then have "r < length (sv_runs (sy_svc y))" by (simp add: sys_ok_def Let_def)
  then have "length (sv_runs (finish_run r (sy_svc y))) = length (sv_runs (sy_svc y))"
    "\<And>i. i < length (sv_runs (sy_svc y)) \<Longrightarrow> run_of (sv_runs (finish_run r (sy_svc y)) ! i) = run_of (sv_runs (sy_svc y) ! i)"
    by (simp_all add: finish_run_def nth_list_update)
  moreover have "sv_pub (finish_run r (sy_svc y)) = sv_pub (sy_svc y)" "sv_fs (finish_run r (sy_svc y)) = sv_fs (sy_svc y)"
    by (simp_all add: finish_run_def)
  ultimately show ?case using sys_end.IH by (simp add: sys_ok_def Let_def)
qed

text \<open>Every state of the process is a state of the interleavings of \<open>lifecycle\<close>.\<close>

lemma lifecycle_same_runs:
  assumes "lifecycle B L sv ts" "sv_runs sv' = sv_runs sv" "sv_cancels sv' = sv_cancels sv"
  shows "lifecycle B L sv' ts"
proof -
  have "sv' = sv\<lparr>sv_db := sv_db sv', sv_pub := sv_pub sv', sv_lim := sv_lim sv', sv_fs := sv_fs sv'\<rparr>"
    using assms(2,3) by simp
  then show ?thesis using lc_other [OF assms(1)] by metis
qed

lemma modify_in_tx_runs:
  "sv_runs (snd (modify_in_tx B L cx ck did f sv)) = sv_runs sv"
  "sv_cancels (snd (modify_in_tx B L cx ck did f sv)) = sv_cancels sv"
  by (simp_all add: modify_in_tx_def split: prod.splits)

lemma Enqueue_runs:
  "sv_runs (snd (Enqueue B L V cx ck uid req sv)) = sv_runs sv"
  "sv_cancels (snd (Enqueue B L V cx ck uid req sv)) = sv_cancels sv"
  by (simp_all add: Enqueue_def Let_def split: sum.splits prod.splits)

lemma Remove_keeps_runs:
  "sv_runs (snd (Remove B L io home cxs ck did del sv)) = sv_runs sv"
  "sv_cancels (snd (Remove B L io home cxs ck did del sv)) = sv_cancels sv"
  by (auto simp: Remove_def Let_def split: sum.splits prod.splits)

lemma handle_lifecycle:
  assumes "lifecycle B L sv ts"
  shows "lifecycle B L (snd (handle B L V rq r sv)) ts"
proof (cases r)
  case (ForQueues x)
  then show ?thesis by (intro lifecycle_same_runs [OF assms]) (auto simp: handle_def split: prod.splits)
next
  case (ForDownloads x)
  have "lifecycle B L (snd (handle_download B L V rq x sv)) ts"
  proof (cases x)
    case (EnqueueDownload y)
    with lifecycle_same_runs [OF assms Enqueue_runs, of B L V "rq_cxs rq 0" "rq_ck rq" "rq_uid rq" y] show ?thesis
      by (auto split: prod.splits)
  qed (use assms lifecycle_same_runs [OF assms Remove_keeps_runs] lifecycle_same_runs [OF assms modify_in_tx_runs]
    in \<open>auto simp: lifecycle_Start lifecycle_Pause lifecycle_Resume lifecycle_Cancel with_body_snd UpdateConfig_def
      UpdateRequest_def SetPriority_def AddTags_def RemoveTags_def AssignQueue_def split: sum.splits option.splits\<close>)
  with ForDownloads show ?thesis by (simp add: handle_def)
qed

lemma start_all_lifecycle:
  "lifecycle B L sv ts \<Longrightarrow> lifecycle B L (snd (start_all B L cxss cks ids sv)) ts"
proof (induction ids arbitrary: cxss cks sv)
  case (Cons i ids)
  then have "lifecycle B L (snd (Start B L (cxss 0) (cks 0) i sv)) ts" by (intro lifecycle_Start)
  with Cons.IH show ?case by (cases "Start B L (cxss 0) (cks 0) i sv") (auto split: sum.splits)
qed simp

lemma tick_queue_lifecycle:
  assumes "lifecycle B L sv ts"
  shows "lifecycle B L (snd (tick_queue B L cxs cxss cks q sv)) ts"
proof -
  have "lifecycle B L (sv\<lparr>sv_lim := rl, sv_db := s\<rparr>) ts" for rl s
    by (rule lifecycle_same_runs [OF assms]) simp_all
  with assms start_all_lifecycle [OF this] show ?thesis
    by (auto simp: tick_queue_def Let_def split: sum.splits)
qed

lemma tick_queues_lifecycle:
  "lifecycle B L sv ts \<Longrightarrow> lifecycle B L (snd (tick_queues B L cq cs ck qs sv)) ts"
proof (induction qs arbitrary: cq cs ck sv)
  case (Cons q qs)
  then have "lifecycle B L (snd (tick_queue B L (cq 0) (cs 0) (ck 0) q sv)) ts" by (intro tick_queue_lifecycle)
  with Cons.IH show ?case by (cases "tick_queue B L (cq 0) (cs 0) (ck 0) q sv") (auto split: sum.splits)
qed simp

lemma tick_lifecycle:
  assumes "lifecycle B L sv ts"
  shows "lifecycle B L (snd (tick B L cfg te sv)) ts"
proof -
  have "lifecycle B L (sv\<lparr>sv_db := s\<rparr>) ts" for s by (rule lifecycle_same_runs [OF assms]) simp_all
  with assms tick_queues_lifecycle [OF this] show ?thesis
    by (auto simp: tick_def Let_def split: sum.splits)
qed

lemma with_svc_sel [simp]: "sy_svc (with_svc sv ts y) = sv" "sy_threads (with_svc sv ts y) = ts"
  by (simp_all add: with_svc_def)

lemma sys_reach_lifecycle:
  assumes "badger_laws B" "badger_quiet B" "sys_reach B ru V cfg y"
  shows "lifecycle B (ru_lib ru) (sy_svc y) (sy_threads y)"
  using assms(3)
proof (induction rule: sys_reach.induct)
  case (sys_boot ck fs s gcfg sr)
  then show ?case by (auto simp: New_def Let_def bindE_eq_Inr intro: lc_new)
next
  case (sys_request y rq r rep sv)
  with handle_lifecycle [OF sys_request.IH, of V rq r] show ?case by simp
next
  case (sys_tick y te u sv)
  with tick_lifecycle [OF sys_tick.IH, of cfg te] show ?case by simp
next
  case (sys_job y r w mv st w')
  from lifecycle_same_runs [OF sys_job.IH] show ?case by (simp add: put_job_def)
next
  case (sys_end y r)
  from sys_reach_ok [OF assms(1,2) sys_end.hyps(1)] sys_end.hyps(2) have "r < length (sv_runs (sy_svc y))"
    by (simp add: sys_ok_def Let_def)
  with lc_finish [OF sys_end.IH] sys_end.hyps(4) show ?case by simp
qed (simp_all add: lc_check lc_status lc_resume lc_spawn lc_cancel lc_settle)

section \<open>Properties\<close>


text \<open>A server on the demo store whose download was resumed.\<close>

lemma demo_boot:
  "\<exists>s. sys_reach mem_badger demo_runtime None default_WorkerConfig
      \<lparr>sy_svc = NewDownloadService s (Some NewInMemoryPublisher) (Some ZeroLimiter) (Some []), sy_jobs = [], sy_threads = []\<rparr> \<and>
    stored (bdata mem_badger s) = [''a1'' \<mapsto> created demo_clock demo_download]"
proof -
  let ?s = "ensure_default_queue mem_badger (\<lambda>j. live) (skip 1 demo_clock) demo_store"
  let ?sr = "\<lparr>se_cfg = Default, se_svc = NewDownloadService ?s (Some NewInMemoryPublisher) (Some ZeroLimiter) (Some []),
    se_worker = \<lparr>w_TickInterval = g_WorkerTickInterval Default, w_StaleDownloadTimeout = g_StaleDownloadTimeout Default\<rparr>,
    se_addr = '':'' @ FormatInt (resolvePort Default)\<rparr>"
  have "\<not> 0 < g_GlobalRateLimitBPS Default" by (simp add: Default_def)
  then have "New mem_badger demo_clock [] (Inr demo_store) Default = Inr ?sr" by (simp add: New_def Let_def)
  moreover have "repo_ok (ru_lib demo_runtime) (bdata mem_badger demo_store)"
    using demo_repo_ok by (simp add: demo_runtime_def)
  moreover have "stored (bdata mem_badger ?s) = [''a1'' \<mapsto> created demo_clock demo_download]"
  proof (cases "GetQueue mem_badger live demo_store DefaultQueueName")
    case (Inl e)
    obtain r s' where r: "SaveQueue mem_badger live (skip 1 demo_clock) demo_store default_queue = (r, s')" by fastforce
    from SaveQueue_quiet [OF mem_badger_laws mem_badger_quiet, of live default_queue "skip 1 demo_clock" demo_store] r
    obtain q where "r = Inr q" by (fastforce simp: default_queue_def DefaultQueueName_def)
    with r have "SaveQueue mem_badger live (skip 1 demo_clock) demo_store default_queue = (Inr q, s')" by simp
    from SaveQueue_keeps(3) [OF mem_badger_laws mem_badger_quiet demo_repo_ok [folded mem_badger_sel(1)] this]
    show ?thesis using Inl r demo_stored by (simp add: ensure_default_queue_def)
  qed (simp add: ensure_default_queue_def demo_stored)
  ultimately show ?thesis
    using sys_boot [where B = mem_badger and ru = demo_runtime and V = None and cfg = default_WorkerConfig] by force
qed

lemma demo_loaded:
  "\<exists>y. sys_reach mem_badger demo_runtime None default_WorkerConfig y \<and> length (sy_jobs y) = 1 \<and>
     jb_stage (sy_jobs y ! 0) = Loaded \<and> run_of (sv_runs (sy_svc y) ! 0) = ''a1''"
proof -
  from demo_boot obtain s where boot: "sys_reach mem_badger demo_runtime None default_WorkerConfig
      \<lparr>sy_svc = NewDownloadService s (Some NewInMemoryPublisher) (Some ZeroLimiter) (Some []), sy_jobs = [], sy_threads = []\<rparr>"
    (is "sys_reach _ _ _ _ ?y0") and st: "stored (bdata mem_badger s) = [''a1'' \<mapsto> created demo_clock demo_download]" by blast
  let ?sv = "NewDownloadService s (Some NewInMemoryPublisher) (Some ZeroLimiter) (Some [])"
  have lib: "ru_lib demo_runtime = basic_lib" by (simp add: demo_runtime_def)
  have ok: "repo_ok basic_lib (bdata mem_badger s)"
    using sys_reach_ok [OF mem_badger_laws mem_badger_quiet boot]
    by (simp add: sys_ok_def Let_def svc_ok_def lib NewDownloadService_def)
  have sel: "sv_db ?sv = s" "sv_pub ?sv = Some NewInMemoryPublisher" "sv_fs ?sv = Some []" "sv_lim ?sv = Some ZeroLimiter"
    "sv_runs ?sv = []" by (simp_all add: NewDownloadService_def)
  have "stored (bdata mem_badger (sv_db ?sv)) ''a1'' = Some (created demo_clock demo_download)"
    using st by (simp add: sel)
  from updateStatus_found [where cx = live and ck = demo_clock and status = StatusRunning
      and mutate = "\<lambda>now d. d" and sv = ?sv and L = basic_lib, OF mem_badger_laws mem_badger_quiet _ alive_live this] ok
  obtain s' p' d where u: "resume_status mem_badger basic_lib live demo_clock ''a1'' ?sv =
      (Inr (), ?sv\<lparr>sv_db := s', sv_pub := p'\<rparr>)"
    "rewrote mem_badger basic_lib ''a1'' d s s'" "svc_publish (demo_clock 2) (Some NewInMemoryPublisher)
       (mapStatusToEvent StatusRunning) d NoData = Inr p'" by (auto simp: resume_status_def sel)
  obtain p where p: "p' = Some p" using svc_publish_Some [OF u(3)] by auto
  let ?sv1 = "spawn_run ''a1'' (?sv\<lparr>sv_db := s', sv_pub := p'\<rparr>)"
  let ?r = "ForDownloads (ResumeDownload ''a1'')"
  have "rq_cxs demo_env 0 = live" "rq_ck demo_env = demo_clock" by (simp_all add: demo_env_def)
  with u(1) have h: "handle mem_badger (ru_lib demo_runtime) None demo_env ?r (sy_svc ?y0) = (NoContent, ?sv1)"
    by (simp add: handle_def Resume_def lib changed_def reply_of_def)
  have "request_ok mem_badger demo_env ?r (sv_db (sy_svc ?y0))" by (simp add: request_ok_def)
  from sys_request [OF boot this h] have y1: "sys_reach mem_badger demo_runtime None default_WorkerConfig
      \<lparr>sy_svc = ?sv1, sy_jobs = [new_job], sy_threads = []\<rparr>" (is "sys_reach _ _ _ _ ?y1")
    by (simp add: with_svc_def spawn_run_def sel)
  have sel1: "sv_db ?sv1 = s'" "sv_pub ?sv1 = Some p" "sv_fs ?sv1 = Some []" "sv_runs ?sv1 ! 0 = \<lparr>run_of = ''a1'', run_live = True, run_done = False\<rparr>"
    by (simp_all add: spawn_run_def sel p)
  have "stored (bdata mem_badger s') ''a1'' = Some d" "repo_ok basic_lib (bdata mem_badger s')"
    using u(2) by (simp_all add: rewrote_def)
  with Get_live [OF mem_badger_laws mem_badger_quiet _ alive_live, of basic_lib s' "''a1''"]
  have get: "GetDownload mem_badger live s' ''a1'' = Inr d" by simp
  obtain w where w: "job_view ?sv1 new_job = Some w" "rn_db w = s'" by (simp add: job_view_def sel1)
  have "job_step mem_badger demo_runtime (run_of (sv_runs (sy_svc ?y1) ! 0)) (Load live) (jb_stage (sy_jobs ?y1 ! 0)) w =
      Some (Inr (Loaded, w\<lparr>rn_d := d\<rparr>))"
    using get w(2) by (simp add: sel1 new_job_def)
  from sys_job [OF y1 _ _ this] w(1) have "sys_reach mem_badger demo_runtime None default_WorkerConfig
      (put_job 0 Loaded (w\<lparr>rn_d := d\<rparr>) ?y1)" by simp
  then show ?thesis
    by (intro exI [of _ "put_job 0 Loaded (w\<lparr>rn_d := d\<rparr>) ?y1"]) (simp add: put_job_def sel1)
qed


text \<open>
  C12.  A run touches no row but that of its own download, and brings none back: whatever move a job makes,
  every other download is stored as before, and a download that was removed stays removed.
\<close>

theorem runs_keep_other_rows:
  assumes "badger_laws B" "badger_quiet B" "sys_reach B ru V cfg y" "r < length (sy_jobs y)"
    and "job_view (sy_svc y) (sy_jobs y ! r) = Some w"
    and "job_step B ru (run_of (sv_runs (sy_svc y) ! r)) mv (jb_stage (sy_jobs y ! r)) w = Some (Inr (st, w'))"
  shows "(\<forall>i. i \<noteq> run_of (sv_runs (sy_svc y) ! r) \<longrightarrow> stored (bdata B (rn_db w')) i = stored (bdata B (sv_db (sy_svc y))) i) \<and>
    {i. stored (bdata B (rn_db w')) i \<noteq> None} = {i. stored (bdata B (sv_db (sy_svc y))) i \<noteq> None}"
  using sys_job_keeps [OF assms(1,2) sys_reach_ok [OF assms(1-3)] assms(4-6)]
  by (auto simp: rows_kept_def put_job_def)

theorem runs_keep_other_rows_witness:
  "\<exists>y w st w'. sys_reach mem_badger demo_runtime None default_WorkerConfig y \<and>
     job_view (sy_svc y) (sy_jobs y ! 0) = Some w \<and>
     job_step mem_badger demo_runtime ''a1'' (PrepareRun demo_readings) Loaded w = Some (Inr (st, w')) \<and>
     {i. stored (bdata mem_badger (rn_db w')) i \<noteq> None} = {i. stored (bdata mem_badger (sv_db (sy_svc y))) i \<noteq> None}"
proof -
  from demo_loaded obtain y where y: "sys_reach mem_badger demo_runtime None default_WorkerConfig y"
    "length (sy_jobs y) = 1" "jb_stage (sy_jobs y ! 0) = Loaded" "run_of (sv_runs (sy_svc y) ! 0) = ''a1''" by blast
  from sys_reach_ok [OF mem_badger_laws mem_badger_quiet y(1)] obtain w where
    w: "job_view (sy_svc y) (sy_jobs y ! 0) = Some w" by (auto simp: sys_ok_def Let_def job_view_def)
  have "\<exists>x. job_step mem_badger demo_runtime ''a1'' (PrepareRun demo_readings) Loaded w = Some (Inr x)" by simp
  then obtain st w' where s: "job_step mem_badger demo_runtime ''a1'' (PrepareRun demo_readings) Loaded w = Some (Inr (st, w'))"
    by (metis surj_pair)
  from runs_keep_other_rows [OF mem_badger_laws mem_badger_quiet y(1) _ w, of "PrepareRun demo_readings" st w'] s y
  show ?thesis using w by auto
qed

section \<open>Runs that nobody stops\<close>

text \<open>
  \<open>Remove\<close> leaves the run of the download alone (\<open>Remove_keeps_runs\<close>), and the run goes on: the rows of the
  segments that it still completes are stored under a download that no longer exists, where nothing deletes
  them.
\<close>

lemma removed_run_leaves_segments:
  assumes "badger_laws B" "badger_quiet B" "alive 2 (rd_cx rd)"
    and "stored (bdata B (rn_db w)) did = None" "s_DownloadID (sr_seg st) = did" "did \<noteq> []"
    and "finish_segment B ru rd bytes st w = (ph, w')"
  shows "stored (bdata B (rn_db w')) did = None \<and>
    bdata B (rn_db w') (kSegment did (s_Index (sr_seg st))) = Some (SegmentJ (phase_seg ph))"
proof -
  define g where "g = (case segment_hash ru (rn_d w) of None \<Rightarrow> sr_seg st
      | Some alg \<Rightarrow> (sr_seg st)\<lparr>s_Checksum := ru_digest ru alg bytes\<rparr>)
    \<lparr>s_BytesCompleted := add64 (sr_existing st) (int (length bytes)),
     s_Status := SegmentCompleted, s_UpdatedAt := rd_ck rd 3\<rparr>"
  have g: "s_DownloadID g = did" "s_Index g = s_Index (sr_seg st)"
    using assms(5) by (simp_all add: g_def split: option.splits)
  have cx: "rd_cx rd 0 = None" "rd_cx rd 1 = None" using assms(3) by (simp_all add: alive_def)
  from UpsertSegment_quiet [OF assms(1,2) cx, of g "rn_db w"] g assms(6) obtain s where
    s: "UpsertSegment B (rd_cx rd) (rn_db w) g = (Inr (), s)"
    "bdata B s = (bdata B (rn_db w))(kSegment did (s_Index (sr_seg st)) \<mapsto> SegmentJ g)" by auto
  then have "ph = SegEnd g None" "rn_db w' = s"
    using assms(7) by (auto simp: finish_segment_def Let_def g_def [symmetric])
  moreover have "stored (bdata B s) = stored (bdata B (rn_db w))"
    using UpsertSegment_rows [OF assms(1), of "rd_cx rd" "rn_db w" g] s(1) by simp
  ultimately show ?thesis using s(2) assms(4) by simp
qed

text \<open>
  \<open>Resume\<close> does not look for a run of the download: one that is still going keeps going beside the new
  one, and its cancel function is overwritten, so that \<open>Pause\<close> and \<open>Cancel\<close> stop the new one only.
\<close>

lemma resume_doubles_run:
  assumes "tracked sv" "sv_cancels sv did = Some r" "resume_status B L cx ck did sv = (Inr u, sv1)"
  defines "sv' \<equiv> snd (Resume B L cx ck did sv)"
  shows "sv_runs sv' ! r = \<lparr>run_of = did, run_live = True, run_done = False\<rparr>"
    "sv_runs sv' ! length (sv_runs sv) = \<lparr>run_of = did, run_live = True, run_done = False\<rparr>"
    "\<forall>i. sv_cancels sv' i \<noteq> Some r"
    "sv_runs (cancel_run did sv') ! r = \<lparr>run_of = did, run_live = True, run_done = False\<rparr>"
proof -
  have r: "r < length (sv_runs sv)" "sv_runs sv ! r = \<lparr>run_of = did, run_live = True, run_done = False\<rparr>"
    using assms(1,2) by (simp_all add: tracked_def)
  have "sv_runs sv1 = sv_runs sv" "sv_cancels sv1 = sv_cancels sv"
    using updateStatus_frame [of B L cx ck did StatusRunning "\<lambda>now d. d" sv] assms(3)
    by (simp_all add: resume_status_def)
  then have sv': "sv_runs sv' = sv_runs sv @ [\<lparr>run_of = did, run_live = True, run_done = False\<rparr>]"
    "sv_cancels sv' = (sv_cancels sv)(did \<mapsto> length (sv_runs sv))"
    using assms(3) by (simp_all add: sv'_def Resume_def spawn_run_def)
  show "sv_runs sv' ! r = \<lparr>run_of = did, run_live = True, run_done = False\<rparr>"
    "sv_runs sv' ! length (sv_runs sv) = \<lparr>run_of = did, run_live = True, run_done = False\<rparr>"
    using r by (simp_all add: sv' nth_append)
  show "\<forall>i. sv_cancels sv' i \<noteq> Some r"
    using r assms(1) by (auto simp: sv' tracked_def)
  show "sv_runs (cancel_run did sv') ! r = \<lparr>run_of = did, run_live = True, run_done = False\<rparr>"
    using r by (simp add: cancel_run_def sv' nth_append)
qed

end
