(* ===== verification/Scheduler.thy ===== *)
theory Scheduler
  imports Worker
begin

text \<open>
  That the worker makes progress (\<open>tick\<close> of \<open>internal/service/workers.go\<close>): a tick of a queue that is
  not paused starts as many of its queued downloads as its free places and its queued downloads
  allow, and each of them ends with a run of its own.  With \<open>Worker\<close>, which bounds what a tick starts,
  this says exactly what a tick does.
\<close>

section \<open>What a start needs\<close>

text \<open>
  A limiter made with \<open>ratelimit.New\<close> takes every limit.  The dependency container gives the service
  the zero value of the struct, which takes none, so there a download must not ask for one.
\<close>

definition unlimited :: "Download \<Rightarrow> bool" where
  "unlimited d \<longleftrightarrow> (case d_Config d of None \<Rightarrow> True | Some c \<Rightarrow> c_RateLimit c \<le> 0)"

definition startable :: "limiter option \<Rightarrow> Download option \<Rightarrow> bool" where
  "startable l r \<longleftrightarrow> (\<exists>d. r = Some d \<and> (limiter_usable l \<or> unlimited d))"

definition idle :: "'s svc \<Rightarrow> string \<Rightarrow> bool" where
  "idle sv i \<longleftrightarrow> sv_cancels sv i = None"

definition started :: "clock \<Rightarrow> Download \<Rightarrow> Download" where
  "started ck d = d\<lparr>d_Status := StatusRunning, d_StartedAt := Some (ck 1), d_UpdatedAt := ck 4\<rparr>"

definition new_run :: "string \<Rightarrow> run" where
  "new_run i = \<lparr>run_of = i, run_live = True, run_done = False\<rparr>"

lemma SetLimit_usable: "SetLimit now l i n = Inr l' \<Longrightarrow> limiter_usable (Some l) \<Longrightarrow> limiter_usable (Some l')"
  by (auto simp: SetLimit_def limiter_usable_def ZeroLimiter_def split: option.splits if_splits)

lemma start_limit_ok:
  assumes "badger_laws B" "badger_quiet B" "repo_ok L (bdata B (sv_db sv))" "alive 3 cx"
    and "startable (sv_lim sv) (stored (bdata B (sv_db sv)) i)"
  shows "\<exists>rl. start_limit B cx now i sv = Inr rl \<and> (rl = sv_lim sv \<or> limiter_usable rl)"
proof (cases "limiter_usable (sv_lim sv)")
  case True
  then obtain rl where "start_limit B cx now i sv = Inr rl" using start_limit_usable by blast
  with True show ?thesis
    by (auto simp: start_limit_def bindE_eq_Inr dest: SetLimit_usable split: option.splits sum.splits if_splits)
next
  case False
  with assms(5) obtain d where d: "stored (bdata B (sv_db sv)) i = Some d" "unlimited d"
    by (auto simp: startable_def)
  have "GetDownload B cx (sv_db sv) i = Inr d"
    using assms(4) repo_ok_get [OF assms(3), of i] assms(1,2) d(1)
    by (simp add: GetDownload_def repo_view_quiet quiet_get alive_def numeral_2_eq_2)
  with d(2) show ?thesis
    by (auto simp: start_limit_def unlimited_def split: option.splits)
qed

lemma queue_limit_usable:
  "queue_limit now q l = Inr l' \<Longrightarrow> l' = l \<or> limiter_usable l'"
proof (cases l)
  case (Some m)
  assume "queue_limit now q l = Inr l'"
  with Some show ?thesis
    by (auto simp: queue_limit_def bindE_eq_Inr SetLimit_def limiter_usable_def ZeroLimiter_def
        split: if_splits option.splits)
qed (simp add: queue_limit_def)

section \<open>Starting a list of downloads\<close>

text \<open>The state after \<open>ids\<close> were started one after the other.\<close>

definition all_started ::
    "'s badger \<Rightarrow> stdlib \<Rightarrow> (nat \<Rightarrow> clock) \<Rightarrow> string list \<Rightarrow> 's svc \<Rightarrow> 's svc \<Rightarrow> bool" where
  "all_started B L cks ids sv sv' \<longleftrightarrow> svc_ok B L sv' \<and>
     (sv_lim sv' = sv_lim sv \<or> limiter_usable (sv_lim sv')) \<and>
     sv_runs sv' = sv_runs sv @ map new_run ids \<and>
     (\<forall>k < length ids. sv_cancels sv' (ids ! k) = Some (length (sv_runs sv) + k) \<and>
        stored (bdata B (sv_db sv')) (ids ! k) =
          map_option (started (cks k)) (stored (bdata B (sv_db sv)) (ids ! k))) \<and>
     (\<forall>i. i \<notin> set ids \<longrightarrow> sv_cancels sv' i = sv_cancels sv i \<and>
        stored (bdata B (sv_db sv')) i = stored (bdata B (sv_db sv)) i)"

lemma all_started_Cons:
  assumes "svc_ok B L sv'" "sv_runs sv1 = sv_runs sv @ [new_run i]"
    and "sv_cancels sv1 = (sv_cancels sv)(i \<mapsto> length (sv_runs sv))"
    and "stored (bdata B (sv_db sv1)) =
      (stored (bdata B (sv_db sv)))(i := map_option (started (cks 0)) (stored (bdata B (sv_db sv)) i))"
    and "sv_lim sv1 = sv_lim sv \<or> limiter_usable (sv_lim sv1)"
    and "all_started B L (skip 1 cks) ids sv1 sv'" "i \<notin> set ids"
  shows "all_started B L cks (i # ids) sv sv'"
proof -
  have "sv_cancels sv' ((i # ids) ! k) = Some (length (sv_runs sv) + k) \<and>
      stored (bdata B (sv_db sv')) ((i # ids) ! k) =
        map_option (started (cks k)) (stored (bdata B (sv_db sv)) ((i # ids) ! k))"
    if "k < length (i # ids)" for k
  proof (cases k)
    case 0
    with assms show ?thesis by (simp add: all_started_def)
  next
    case (Suc j)
    then have j: "j < length ids" using that by simp
    then have "ids ! j \<noteq> i" using assms(7) nth_mem by fastforce
    with j Suc assms(2-6) show ?thesis by (simp add: all_started_def skip_apply)
  qed
  with assms show ?thesis unfolding all_started_def by auto
qed

lemma Start_once:
  fixes ck :: clock
  assumes "badger_laws B" "badger_quiet B" "svc_ok B L sv" "idle sv i"
    and "startable (sv_lim sv) (stored (bdata B (sv_db sv)) i)"
  shows "\<exists>sv'. Start B L (\<lambda>_. live) ck i sv = (Inr (), sv') \<and> svc_ok B L sv' \<and>
    sv_runs sv' = sv_runs sv @ [new_run i] \<and>
    sv_cancels sv' = (sv_cancels sv)(i \<mapsto> length (sv_runs sv)) \<and>
    stored (bdata B (sv_db sv')) =
      (stored (bdata B (sv_db sv)))(i := map_option (started ck) (stored (bdata B (sv_db sv)) i)) \<and>
    (sv_lim sv' = sv_lim sv \<or> limiter_usable (sv_lim sv')) \<and>
    sv_fs sv' = sv_fs sv \<and> (sv_pub sv' = None) = (sv_pub sv = None)"
proof -
  have ok: "repo_ok L (bdata B (sv_db sv))" "pub_ready (sv_pub sv)" using assms(3) by (simp_all add: svc_ok_def)
  from assms(5) obtain d where d: "stored (bdata B (sv_db sv)) i = Some d" by (auto simp: startable_def)
  from start_limit_ok [where cx = live and now = "ck 0", OF assms(1,2) ok(1) alive_live assms(5)]
  obtain rl where rl: "start_limit B live (ck 0) i sv = Inr rl" "rl = sv_lim sv \<or> limiter_usable rl" by blast
  have c: "sv_cancels sv i = None" using assms(4) by (simp add: idle_def)
  from Start_spawns [where cxs = "\<lambda>_. live" and ck = ck, OF assms(1,2) ok alive_live rl(1) d c]
  obtain s' p' where st: "Start B L (\<lambda>_. live) ck i sv =
      (Inr (), spawn_run i (sv\<lparr>sv_lim := rl, sv_db := s', sv_pub := p'\<rparr>))"
    "rewrote B L i (started ck d) (sv_db sv) s'"
    "svc_publish (ck 3) (sv_pub sv) EventStarted (started ck d) NoData = Inr p'"
    unfolding started_def by blast
  have "pub_ready p'" by (rule svc_publish_keeps [OF ok(2) st(3)])
  moreover have "(p' = None) = (sv_pub sv = None)"
    using st(3) by (auto simp: svc_publish_def bindE_eq_Inr split: option.splits)
  moreover have "sv_fs (spawn_run i x) = sv_fs x" for x :: "'a svc" by (simp add: spawn_run_def)
  ultimately show ?thesis
    using st(1,2) rl(2) d by (auto simp: svc_ok_def rewrote_def sv_updates new_run_def)
qed

lemma start_all_starts:
  fixes cks :: "nat \<Rightarrow> clock"
  assumes "badger_laws B" "badger_quiet B" "svc_ok B L sv" "distinct ids"
    and "\<forall>i \<in> set ids. idle sv i \<and> startable (sv_lim sv) (stored (bdata B (sv_db sv)) i)"
  shows "\<exists>sv'. start_all B L (\<lambda>_ _. live) cks ids sv = (Inr (), sv') \<and> all_started B L cks ids sv sv'"
  using assms(3-5)
proof (induction ids arbitrary: cks sv)
  case Nil
  then show ?case by (simp add: all_started_def)
next
  case (Cons i ids)
  from Cons.prems(3) have i: "idle sv i" "startable (sv_lim sv) (stored (bdata B (sv_db sv)) i)" by simp_all
  from Start_once [where ck = "cks 0", OF assms(1,2) Cons.prems(1) i] obtain sv1 where
    sv1: "Start B L (\<lambda>_. live) (cks 0) i sv = (Inr (), sv1)" "svc_ok B L sv1"
    "sv_runs sv1 = sv_runs sv @ [new_run i]"
    "sv_cancels sv1 = (sv_cancels sv)(i \<mapsto> length (sv_runs sv))"
    "stored (bdata B (sv_db sv1)) =
      (stored (bdata B (sv_db sv)))(i := map_option (started (cks 0)) (stored (bdata B (sv_db sv)) i))"
    "sv_lim sv1 = sv_lim sv \<or> limiter_usable (sv_lim sv1)" by blast
  have "idle sv1 j \<and> startable (sv_lim sv1) (stored (bdata B (sv_db sv1)) j)" if "j \<in> set ids" for j
  proof -
    have "j \<noteq> i" using that Cons.prems(2) by auto
    with that Cons.prems(3) sv1(4-6) show ?thesis by (auto simp: idle_def startable_def)
  qed
  with Cons.IH [where cks = "skip 1 cks", OF sv1(2)] Cons.prems(2) obtain sv' where
    sv': "start_all B L (\<lambda>_ _. live) (skip 1 cks) ids sv1 = (Inr (), sv')"
    "all_started B L (skip 1 cks) ids sv1 sv'" by auto
  from sv'(2) have "svc_ok B L sv'" by (simp add: all_started_def)
  from all_started_Cons [where cks = cks, OF this sv1(3-6) sv'(2)] Cons.prems(2)
  have "all_started B L cks (i # ids) sv sv'" by simp
  moreover have "start_all B L (\<lambda>_ _. live) cks (i # ids) sv = (Inr (), sv')"
    using sv1(1) sv'(1) by (simp add: skip_def)
  ultimately show ?case by blast
qed

section \<open>A tick of a queue\<close>

lemma queued_page:
  assumes "badger_laws B" "badger_quiet B" "sort_contract L" "repo_ok L (bdata B s)" "q_ID q \<noteq> []" "0 < n"
  shows "\<exists>ds. ListDownloads B L live s
      ((queue_opts StatusQueued q)\<lparr>o_OrderBy := ''priority'', o_OrderDesc := True\<rparr>) n 0 = Inr ds \<and>
    distinct (map d_ID ds) \<and> set (map d_ID ds) \<subseteq> in_queue StatusQueued (q_ID q) (bdata B s) \<and>
    int (length ds) = min n (int (card (in_queue StatusQueued (q_ID q) (bdata B s))))"
proof -
  let ?o = "(queue_opts StatusQueued q)\<lparr>o_OrderBy := ''priority'', o_OrderDesc := True\<rparr>"
  let ?h = "hits B L s [] ?o"
  let ?ds = "sort_result L ?o (page n 0 ?h)"
  have oo: "opts_ok ?o" using assms(5) by (simp add: opts_ok_def const_defs)
  have set: "set ?h = {d. stored (bdata B s) (d_ID d) = Some d \<and> matches L ?o d}"
    using set_hits [OF assms(1), of L s "[]" ?o] assms(4) oo by (simp add: matching_def)
  have pg: "page n 0 ?h = take (nat n) ?h" using assms(6) by (simp add: page_def)
  have "matching L ?o (bdata B s) = matching L (queue_opts StatusQueued q) (bdata B s)"
    by (simp add: matching_def)
  then have len: "length ?h = card (in_queue StatusQueued (q_ID q) (bdata B s))"
    using card_hits [OF assms(1,4) oo] card_in_queue [OF assms(4)] by simp
  have mset: "mset ?ds = mset (take (nat n) ?h)"
    using mset_sort_result [OF assms(3)] pg by simp
  have "distinct ?h" using distinct_hits [OF assms(1), of L s "[]"] assms(4) by simp
  then have "distinct (map d_ID ?h)"
    using set by (simp add: distinct_map inj_on_def) (metis option.inject)
  then have "distinct (map d_ID (take (nat n) ?h))" by (simp add: take_map [symmetric] distinct_take)
  moreover have "mset (map d_ID ?ds) = mset (map d_ID (take (nat n) ?h))" using mset by simp
  ultimately have "distinct (map d_ID ?ds)" using mset_eq_imp_distinct_iff by blast
  moreover have "set ?ds \<subseteq> set ?h" using mset_eq_setD [OF mset] set_take_subset [of "nat n" ?h] by simp
  then have "set (map d_ID ?ds) \<subseteq> in_queue StatusQueued (q_ID q) (bdata B s)"
    using set by (auto simp: in_queue_def)
  moreover have "length ?ds = min (nat n) (length ?h)" using mset_eq_length [OF mset] by simp
  then have "int (length ?ds) = min n (int (card (in_queue StatusQueued (q_ID q) (bdata B s))))"
    using len assms(6) by simp
  ultimately show ?thesis
    by (simp add: ListDownloads_live [OF assms(1,2,4)])
qed

text \<open>
  A tick of a queue that is not paused starts as many of its queued downloads as there are, but no more
  than the places its concurrency (one when none is set) leaves free beside the running ones.
\<close>

lemma tick_queue_starts:
  fixes cks :: "nat \<Rightarrow> clock"
  assumes "badger_laws B" "badger_quiet B" "sort_contract L" "svc_ok B L sv" "q_ID q \<noteq> []"
    and "in64 (q_Concurrency q)" "int (card (in_queue StatusRunning (q_ID q) (bdata B (sv_db sv)))) < 2 ^ 63"
    and "\<not> q_Paused q" "queue_limit (cks 0 0) q (sv_lim sv) = Inr rl"
    and "\<forall>i \<in> in_queue StatusQueued (q_ID q) (bdata B (sv_db sv)).
      idle sv i \<and> startable (sv_lim sv) (stored (bdata B (sv_db sv)) i)"
  defines "free \<equiv> max 1 (q_Concurrency q) - int (card (in_queue StatusRunning (q_ID q) (bdata B (sv_db sv))))"
  shows "\<exists>ids sv'. tick_queue B L (\<lambda>_. live) (\<lambda>_ _. live) cks q sv = (Inr (), sv') \<and>
    all_started B L (skip 1 cks) ids sv sv' \<and> distinct ids \<and>
    set ids \<subseteq> in_queue StatusQueued (q_ID q) (bdata B (sv_db sv)) \<and>
    int (length ids) = min (max 0 free) (int (card (in_queue StatusQueued (q_ID q) (bdata B (sv_db sv)))))"
proof -
  have ok: "repo_ok L (bdata B (sv_db sv))" using assms(4) by (simp add: svc_ok_def)
  from tick_queue_live [where cks = cks and cxss = "\<lambda>_ _. live", OF assms(1,2) ok assms(5-9), folded free_def]
  obtain db where db: "repo_ok L (bdata B db)" "stored (bdata B db) = stored (bdata B (sv_db sv))"
    and tick: "tick_queue B L (\<lambda>_. live) (\<lambda>_ _. live) cks q sv =
      (if free \<le> 0 then (Inr (), sv\<lparr>sv_lim := rl, sv_db := db\<rparr>)
       else case ListDownloads B L live db
           ((queue_opts StatusQueued q)\<lparr>o_OrderBy := ''priority'', o_OrderDesc := True\<rparr>) free 0 of
         Inl e \<Rightarrow> (Inr (), sv\<lparr>sv_lim := rl, sv_db := db\<rparr>)
       | Inr ds \<Rightarrow> start_all B L (\<lambda>_ _. live) (skip 1 cks) (map d_ID ds) (sv\<lparr>sv_lim := rl, sv_db := db\<rparr>))"
    by blast
  let ?sv = "sv\<lparr>sv_lim := rl, sv_db := db\<rparr>"
  have ok1: "svc_ok B L ?sv" using assms(4) db(1) by (simp add: svc_ok_def)
  have same: "in_queue x y (bdata B db) = in_queue x y (bdata B (sv_db sv))" for x y
    by (simp add: in_queue_def db(2))
  show ?thesis
  proof (cases "free \<le> 0")
    case True
    then have "all_started B L (skip 1 cks) [] sv ?sv"
      using ok1 db(2) queue_limit_usable [OF assms(9)] by (simp add: all_started_def)
    with True tick show ?thesis by (intro exI [of _ "[]"] exI [of _ ?sv]) simp
  next
    case False
    from queued_page [OF assms(1-3) db(1) assms(5), of free] False obtain ds where
      ds: "ListDownloads B L live db
        ((queue_opts StatusQueued q)\<lparr>o_OrderBy := ''priority'', o_OrderDesc := True\<rparr>) free 0 = Inr ds"
      "distinct (map d_ID ds)" "set (map d_ID ds) \<subseteq> in_queue StatusQueued (q_ID q) (bdata B (sv_db sv))"
      "int (length ds) = min free (int (card (in_queue StatusQueued (q_ID q) (bdata B (sv_db sv)))))"
      by (auto simp: same)
    have "\<forall>i \<in> set (map d_ID ds). idle ?sv i \<and> startable (sv_lim ?sv) (stored (bdata B (sv_db ?sv)) i)"
    proof
      fix i assume "i \<in> set (map d_ID ds)"
      with ds(3) assms(10) have "idle sv i" "startable (sv_lim sv) (stored (bdata B (sv_db sv)) i)" by blast+
      with queue_limit_usable [OF assms(9)] db(2)
      show "idle ?sv i \<and> startable (sv_lim ?sv) (stored (bdata B (sv_db ?sv)) i)"
        by (auto simp: idle_def startable_def)
    qed
    from start_all_starts [where cks = "skip 1 cks", OF assms(1,2) ok1 ds(2) this] obtain sv' where
      sv': "start_all B L (\<lambda>_ _. live) (skip 1 cks) (map d_ID ds) ?sv = (Inr (), sv')"
      "all_started B L (skip 1 cks) (map d_ID ds) ?sv sv'" by blast
    from sv'(2) have "all_started B L (skip 1 cks) (map d_ID ds) sv sv'"
      using queue_limit_usable [OF assms(9)] by (auto simp: all_started_def db(2))
    moreover have "tick_queue B L (\<lambda>_. live) (\<lambda>_ _. live) cks q sv = (Inr (), sv')"
      unfolding tick if_not_P [OF False] ds(1) sum.case by (rule sv'(1))
    moreover have "int (length (map d_ID ds)) =
        min (max 0 free) (int (card (in_queue StatusQueued (q_ID q) (bdata B (sv_db sv)))))"
      using ds(4) False by simp
    ultimately show ?thesis using ds(2,3) by blast
  qed
qed

section \<open>All queues of a tick\<close>

text \<open>
  Between two states the downloads \<open>ids\<close>, queued in a queue of \<open>Q\<close>, were started one after the other,
  and nothing else happened to a row or a registration.
\<close>

definition launched :: "'s badger \<Rightarrow> string set \<Rightarrow> string list \<Rightarrow> 's svc \<Rightarrow> 's svc \<Rightarrow> bool" where
  "launched B Q ids sv sv' \<longleftrightarrow> distinct ids \<and> sv_runs sv' = sv_runs sv @ map new_run ids \<and>
     (\<forall>k < length ids. sv_cancels sv' (ids ! k) = Some (length (sv_runs sv) + k)) \<and>
     (\<forall>i \<in> set ids. \<exists>d ck. stored (bdata B (sv_db sv)) i = Some d \<and> d_Status d = StatusQueued \<and>
        d_QueueID d \<in> Q \<and> stored (bdata B (sv_db sv')) i = Some (started ck d)) \<and>
     (\<forall>i. i \<notin> set ids \<longrightarrow> sv_cancels sv' i = sv_cancels sv i \<and>
        stored (bdata B (sv_db sv')) i = stored (bdata B (sv_db sv)) i)"

lemma launchedD:
  assumes "launched B Q ids sv sv'"
  shows "distinct ids" "sv_runs sv' = sv_runs sv @ map new_run ids"
    "k < length ids \<Longrightarrow> sv_cancels sv' (ids ! k) = Some (length (sv_runs sv) + k)"
    "i \<in> set ids \<Longrightarrow> \<exists>d ck. stored (bdata B (sv_db sv)) i = Some d \<and> d_Status d = StatusQueued \<and>
        d_QueueID d \<in> Q \<and> stored (bdata B (sv_db sv')) i = Some (started ck d)"
    "i \<notin> set ids \<Longrightarrow> sv_cancels sv' i = sv_cancels sv i"
    "i \<notin> set ids \<Longrightarrow> stored (bdata B (sv_db sv')) i = stored (bdata B (sv_db sv)) i"
  using assms by (auto simp: launched_def)

lemma launched_refl:
  "sv_runs sv' = sv_runs sv \<Longrightarrow> sv_cancels sv' = sv_cancels sv \<Longrightarrow>
     stored (bdata B (sv_db sv')) = stored (bdata B (sv_db sv)) \<Longrightarrow> launched B Q [] sv sv'"
  by (simp add: launched_def)

lemma launched_mono: "launched B Q ids sv sv' \<Longrightarrow> Q \<subseteq> R \<Longrightarrow> launched B R ids sv sv'"
  unfolding launched_def by blast

lemma launched_trans:
  assumes "launched B Q ids sv sv1" "launched B Q ids' sv1 sv'"
  shows "launched B Q (ids @ ids') sv sv'"
proof -
  note a = launchedD [OF assms(1)] and b = launchedD [OF assms(2)]
  have new: "i \<notin> set ids" if "i \<in> set ids'" for i
    using a(4) [of i] b(4) [OF that] by (auto simp: started_def const_defs)
  have reg: "sv_cancels sv' ((ids @ ids') ! k) = Some (length (sv_runs sv) + k)"
    if "k < length (ids @ ids')" for k
  proof (cases "k < length ids")
    case True
    then have "ids ! k \<notin> set ids'" using new nth_mem by blast
    with True a(3) b(5) show ?thesis by (simp add: nth_append)
  next
    case False
    with b(3) [of "k - length ids"] that a(2) show ?thesis by (simp add: nth_append)
  qed
  have row: "\<exists>d ck. stored (bdata B (sv_db sv)) i = Some d \<and> d_Status d = StatusQueued \<and>
        d_QueueID d \<in> Q \<and> stored (bdata B (sv_db sv')) i = Some (started ck d)"
    if "i \<in> set (ids @ ids')" for i
  proof (cases "i \<in> set ids")
    case True
    then have "i \<notin> set ids'" using new by blast
    with a(4) [OF True] b(6) show ?thesis by simp
  next
    case False
    with b(4) [of i] that a(6) show ?thesis by simp
  qed
  have "distinct (ids @ ids')" using a(1) b(1) new by auto
  with a(2,5,6) b(2,5,6) reg row show ?thesis unfolding launched_def by simp
qed

lemma launched_other:
  assumes "launched B Q ids sv sv'" "y \<notin> Q"
  shows "in_queue st y (bdata B (sv_db sv')) = in_queue st y (bdata B (sv_db sv))"
proof (rule set_eqI)
  fix i
  show "i \<in> in_queue st y (bdata B (sv_db sv')) \<longleftrightarrow> i \<in> in_queue st y (bdata B (sv_db sv))"
    using launchedD(4) [OF assms(1), of i] launchedD(6) [OF assms(1), of i] assms(2)
    by (cases "i \<in> set ids") (auto simp: in_queue_def started_def)
qed

lemma launched_running:
  assumes "badger_laws B" "launched B {y} ids sv sv'"
  shows "card (in_queue StatusRunning y (bdata B (sv_db sv'))) =
    card (in_queue StatusRunning y (bdata B (sv_db sv))) + length ids"
proof -
  let ?m = "bdata B (sv_db sv)"
  note l = launchedD [OF assms(2)]
  have "in_queue StatusRunning y (bdata B (sv_db sv')) = in_queue StatusRunning y ?m \<union> set ids"
  proof (rule set_eqI)
    fix i
    show "i \<in> in_queue StatusRunning y (bdata B (sv_db sv')) \<longleftrightarrow> i \<in> in_queue StatusRunning y ?m \<union> set ids"
      using l(4,6) [of i] by (cases "i \<in> set ids") (auto simp: in_queue_def started_def)
  qed
  moreover have "in_queue StatusRunning y ?m \<inter> set ids = {}"
    using l(4) by (fastforce simp: in_queue_def const_defs)
  moreover have "in_queue StatusRunning y ?m \<subseteq> {i. stored ?m i \<noteq> None}" by (auto simp: in_queue_def)
  then have "finite (in_queue StatusRunning y ?m)" by (rule finite_subset [OF _ finite_stored [OF assms(1)]])
  ultimately show ?thesis by (simp add: card_Un_disjoint distinct_card [OF l(1)])
qed

lemma all_started_launched:
  assumes "all_started B L cks ids sv sv'" "distinct ids"
    and "set ids \<subseteq> in_queue StatusQueued y (bdata B (sv_db sv))"
  shows "launched B {y} ids sv sv'"
proof -
  have "\<exists>d ck. stored (bdata B (sv_db sv)) i = Some d \<and> d_Status d = StatusQueued \<and>
      d_QueueID d \<in> {y} \<and> stored (bdata B (sv_db sv')) i = Some (started ck d)" if i: "i \<in> set ids" for i
  proof -
    obtain k where k: "k < length ids" "i = ids ! k" using i by (auto simp: in_set_conv_nth)
    from i assms(3) obtain d where "stored (bdata B (sv_db sv)) i = Some d" "d_Status d = StatusQueued" "d_QueueID d = y"
      by (auto simp: in_queue_def)
    with k assms(1) show ?thesis by (auto simp: all_started_def)
  qed
  with assms show ?thesis by (simp add: launched_def all_started_def)
qed

text \<open>
  What a tick owes a queue: when it is not paused, as many of its queued downloads as its concurrency
  leaves room for are running as well.
\<close>

definition fills :: "Queue \<Rightarrow> store \<Rightarrow> store \<Rightarrow> bool" where
  "fills q m m' \<longleftrightarrow>
     (let running = int (card (in_queue StatusRunning (q_ID q) m));
          queued = int (card (in_queue StatusQueued (q_ID q) m));
          free = max 0 (max 1 (q_Concurrency q) - running)
      in int (card (in_queue StatusRunning (q_ID q) m')) =
           (if q_Paused q then running else running + min free queued))"

lemma fills_cong:
  "(\<And>st. in_queue st (q_ID q) m = in_queue st (q_ID q) m1) \<Longrightarrow>
   (\<And>st. in_queue st (q_ID q) m' = in_queue st (q_ID q) m2) \<Longrightarrow> fills q m m' = fills q m1 m2"
  by (simp add: fills_def)

text \<open>The limits of a queue and of its downloads can be set.\<close>

definition schedulable :: "limiter option \<Rightarrow> Queue \<Rightarrow> bool" where
  "schedulable l q \<longleftrightarrow> q_ID q \<noteq> [] \<and> in64 (q_Concurrency q) \<and> (limiter_usable l \<or> q_RateLimit q \<le> 0)"

definition ready_rows :: "'s badger \<Rightarrow> 's svc \<Rightarrow> bool" where
  "ready_rows B sv \<longleftrightarrow> (\<forall>i d. stored (bdata B (sv_db sv)) i = Some d \<longrightarrow> d_Status d = StatusQueued \<longrightarrow>
     idle sv i \<and> (limiter_usable (sv_lim sv) \<or> unlimited d))"

lemma queue_limit_ok: "schedulable l q \<Longrightarrow> \<exists>l'. queue_limit now q l = Inr l'"
  by (cases l; cases "the l")
    (auto simp: schedulable_def queue_limit_def SetLimit_def limiter_usable_def ZeroLimiter_def split: option.splits)

lemma ready_launched:
  assumes "ready_rows B sv" "launched B Q ids sv sv'" "sv_lim sv' = sv_lim sv \<or> limiter_usable (sv_lim sv')"
  shows "ready_rows B sv'"
proof -
  have "idle sv' i \<and> (limiter_usable (sv_lim sv') \<or> unlimited d)"
    if "stored (bdata B (sv_db sv')) i = Some d" "d_Status d = StatusQueued" for i d
  proof -
    have "i \<notin> set ids" using launchedD(4) [OF assms(2), of i] that by (auto simp: started_def const_defs)
    then have old: "stored (bdata B (sv_db sv)) i = Some d" "sv_cancels sv' i = sv_cancels sv i"
      using launchedD(5,6) [OF assms(2), of i] that(1) by simp_all
    with assms(1) that(2) have "idle sv i" "limiter_usable (sv_lim sv) \<or> unlimited d"
      unfolding ready_rows_def by blast+
    with old(2) assms(3) show ?thesis by (auto simp: idle_def)
  qed
  then show ?thesis by (simp add: ready_rows_def)
qed

lemma launched_dom:
  assumes "launched B Q ids sv sv'"
  shows "{i. stored (bdata B (sv_db sv')) i \<noteq> None} = {i. stored (bdata B (sv_db sv)) i \<noteq> None}"
proof (rule set_eqI)
  fix i
  show "i \<in> {i. stored (bdata B (sv_db sv')) i \<noteq> None} \<longleftrightarrow> i \<in> {i. stored (bdata B (sv_db sv)) i \<noteq> None}"
    using launchedD(4,6) [OF assms, of i] by (cases "i \<in> set ids") auto
qed

definition few_rows :: "'s badger \<Rightarrow> 's svc \<Rightarrow> bool" where
  "few_rows B sv \<longleftrightarrow> int (card {i. stored (bdata B (sv_db sv)) i \<noteq> None}) < 2 ^ 63"

lemma few_running:
  assumes "badger_laws B" "few_rows B sv"
  shows "int (card (in_queue st y (bdata B (sv_db sv)))) < 2 ^ 63"
proof -
  have "in_queue st y (bdata B (sv_db sv)) \<subseteq> {i. stored (bdata B (sv_db sv)) i \<noteq> None}"
    by (auto simp: in_queue_def)
  from card_mono [OF finite_stored [OF assms(1)] this] assms(2) show ?thesis by (simp add: few_rows_def)
qed

definition open_queues :: "Queue list \<Rightarrow> string set" where
  "open_queues qs = {y. \<exists>q \<in> set qs. \<not> q_Paused q \<and> y = q_ID q}"

text \<open>What the worker needs, and keeps from one queue to the next.\<close>

definition ready :: "'s badger \<Rightarrow> stdlib \<Rightarrow> Queue list \<Rightarrow> 's svc \<Rightarrow> bool" where
  "ready B L qs sv \<longleftrightarrow> svc_ok B L sv \<and> few_rows B sv \<and> ready_rows B sv \<and>
     (\<forall>q \<in> set qs. schedulable (sv_lim sv) q)"

lemma tick_queue_fills:
  fixes cks :: "nat \<Rightarrow> clock"
  assumes "badger_laws B" "badger_quiet B" "sort_contract L" "ready B L (q # qs) sv"
  shows "\<exists>ids sv'. tick_queue B L (\<lambda>_. live) (\<lambda>_ _. live) cks q sv = (Inr (), sv') \<and>
    launched B (open_queues [q]) ids sv sv' \<and> fills q (bdata B (sv_db sv)) (bdata B (sv_db sv')) \<and>
    ready B L qs sv'"
proof (cases "q_Paused q")
  case True
  then have "tick_queue B L (\<lambda>_. live) (\<lambda>_ _. live) cks q sv = (Inr (), sv)" by (simp add: tick_queue_def)
  with True assms(4) show ?thesis
    by (intro exI [of _ "[]"] exI [of _ sv]) (simp add: launched_refl fills_def ready_def)
next
  case False
  have r: "svc_ok B L sv" "few_rows B sv" "ready_rows B sv" "schedulable (sv_lim sv) q"
    using assms(4) by (simp_all add: ready_def)
  from r(4) have q: "q_ID q \<noteq> []" "in64 (q_Concurrency q)" by (simp_all add: schedulable_def)
  obtain rl where rl: "queue_limit (cks 0 0) q (sv_lim sv) = Inr rl" using queue_limit_ok [OF r(4)] by blast
  have "\<forall>i \<in> in_queue StatusQueued (q_ID q) (bdata B (sv_db sv)).
      idle sv i \<and> startable (sv_lim sv) (stored (bdata B (sv_db sv)) i)"
    using r(3) by (auto simp: in_queue_def ready_rows_def startable_def)
  from tick_queue_starts [where cks = cks, OF assms(1-3) r(1) q few_running [OF assms(1) r(2)] False rl this]
  obtain ids sv' where t: "tick_queue B L (\<lambda>_. live) (\<lambda>_ _. live) cks q sv = (Inr (), sv')"
    "all_started B L (skip 1 cks) ids sv sv'" "distinct ids"
    "set ids \<subseteq> in_queue StatusQueued (q_ID q) (bdata B (sv_db sv))"
    "int (length ids) = min (max 0 (max 1 (q_Concurrency q) - int (card (in_queue StatusRunning (q_ID q) (bdata B (sv_db sv))))))
       (int (card (in_queue StatusQueued (q_ID q) (bdata B (sv_db sv)))))"
    by blast
  have l: "launched B {q_ID q} ids sv sv'" by (rule all_started_launched [OF t(2-4)])
  have lim: "sv_lim sv' = sv_lim sv \<or> limiter_usable (sv_lim sv')" using t(2) by (simp add: all_started_def)
  have "fills q (bdata B (sv_db sv)) (bdata B (sv_db sv'))"
    using launched_running [OF assms(1) l] False t(5) by (simp add: fills_def)
  moreover have "ready B L qs sv'"
    unfolding ready_def
  proof (intro conjI ballI)
    show "svc_ok B L sv'" using t(2) by (simp add: all_started_def)
    show "few_rows B sv'" using r(2) unfolding few_rows_def launched_dom [OF l] .
    show "ready_rows B sv'" by (rule ready_launched [OF r(3) l lim])
    show "schedulable (sv_lim sv') p" if "p \<in> set qs" for p
    proof -
      have "schedulable (sv_lim sv) p" using assms(4) that by (simp add: ready_def)
      with lim show ?thesis by (elim disjE) (simp_all add: schedulable_def)
    qed
  qed
  moreover have "launched B (open_queues [q]) ids sv sv'"
    using l False by (simp add: open_queues_def)
  ultimately show ?thesis using t(1) by (intro exI [of _ ids] exI [of _ sv'] conjI)
qed

lemma tick_queues_fill:
  fixes ck :: "nat \<Rightarrow> nat \<Rightarrow> clock"
  assumes "badger_laws B" "badger_quiet B" "sort_contract L" "ready B L qs sv" "distinct (map q_ID qs)"
  shows "\<exists>ids sv'. tick_queues B L (\<lambda>_ _. live) (\<lambda>_ _ _. live) ck qs sv = (Inr (), sv') \<and>
    launched B (open_queues qs) ids sv sv' \<and> svc_ok B L sv' \<and>
    (\<forall>q \<in> set qs. fills q (bdata B (sv_db sv)) (bdata B (sv_db sv')))"
  using assms(4,5)
proof (induction qs arbitrary: sv ck)
  case Nil
  then show ?case by (intro exI [of _ "[]"] exI [of _ sv]) (simp add: launched_refl ready_def)
next
  case (Cons q qs)
  from tick_queue_fills [where cks = "ck 0", OF assms(1-3) Cons.prems(1)] obtain ids sv1 where
    a: "tick_queue B L (\<lambda>_. live) (\<lambda>_ _. live) (ck 0) q sv = (Inr (), sv1)"
    "launched B (open_queues [q]) ids sv sv1" "fills q (bdata B (sv_db sv)) (bdata B (sv_db sv1))"
    "ready B L qs sv1" by blast
  from Cons.IH [where ck = "skip 1 ck", OF a(4)] Cons.prems(2) obtain ids' sv' where
    b: "tick_queues B L (\<lambda>_ _. live) (\<lambda>_ _ _. live) (skip 1 ck) qs sv1 = (Inr (), sv')"
    "launched B (open_queues qs) ids' sv1 sv'" "svc_ok B L sv'"
    "\<forall>q \<in> set qs. fills q (bdata B (sv_db sv1)) (bdata B (sv_db sv'))" by auto
  have other: "q_ID q \<notin> open_queues qs" "q' \<in> set qs \<Longrightarrow> q_ID q' \<notin> open_queues [q]" for q'
    using Cons.prems(2) by (auto simp: open_queues_def image_iff)
  have "launched B (open_queues (q # qs)) (ids @ ids') sv sv'"
    by (rule launched_trans [OF launched_mono [OF a(2)] launched_mono [OF b(2)]]) (auto simp: open_queues_def)
  moreover have "fills p (bdata B (sv_db sv)) (bdata B (sv_db sv'))" if "p \<in> set (q # qs)" for p
  proof (cases "p = q")
    case True
    from launched_other [OF b(2) other(1)]
    have "fills q (bdata B (sv_db sv)) (bdata B (sv_db sv')) \<longleftrightarrow> fills q (bdata B (sv_db sv)) (bdata B (sv_db sv1))"
      by (intro fills_cong) simp_all
    with a(3) True show ?thesis by blast
  next
    case False
    with that have p: "p \<in> set qs" by simp
    from launched_other [OF a(2) other(2) [OF p]]
    have "fills p (bdata B (sv_db sv)) (bdata B (sv_db sv')) \<longleftrightarrow> fills p (bdata B (sv_db sv1)) (bdata B (sv_db sv'))"
      by (intro fills_cong) simp_all
    with b(4) p show ?thesis by blast
  qed
  moreover have "tick_queues B L (\<lambda>_ _. live) (\<lambda>_ _ _. live) ck (q # qs) sv = (Inr (), sv')"
    using a(1) b(1) by (simp add: skip_def)
  ultimately show ?case using b(3) by blast
qed

section \<open>The whole tick\<close>

definition live_tick :: "(nat \<Rightarrow> clock) \<Rightarrow> (nat \<Rightarrow> nat \<Rightarrow> clock) \<Rightarrow> tick_env" where
  "live_tick sck ck = \<lparr>te_queues = live, te_running = live, te_stale = (\<lambda>_. live), te_stale_ck = sck,
     te_queue = (\<lambda>_ _. live), te_start = (\<lambda>_ _ _. live), te_ck = ck\<rparr>"

text \<open>
  The recovery of stale downloads: of the running downloads all, but no more than 1000, are looked at;
  those that are stale are queued again, and no other row changes.
\<close>

definition recovered :: "duration \<Rightarrow> (nat \<Rightarrow> clock) \<Rightarrow> store \<Rightarrow> store \<Rightarrow> bool" where
  "recovered staleAfter sck m m' \<longleftrightarrow>
     (\<exists>ds. distinct (map d_ID ds) \<and>
        set ds \<subseteq> {d. stored m (d_ID d) = Some d \<and> d_Status d = StatusRunning} \<and>
        length ds = min 1000 (card {d. stored m (d_ID d) = Some d \<and> d_Status d = StatusRunning}) \<and>
        (\<forall>k < length ds. stored m' (d_ID (ds ! k)) = Some (if stale staleAfter (sck k) (ds ! k)
           then (ds ! k)\<lparr>d_Status := StatusQueued, d_UpdatedAt := sck k 1\<rparr> else ds ! k)) \<and>
        (\<forall>i. i \<notin> d_ID ` set ds \<longrightarrow> stored m' i = stored m i))"

lemma recovered_row:
  assumes "recovered staleAfter sck m m'"
  shows "stored m' i = stored m i \<or>
     (\<exists>d k. stored m i = Some d \<and> d_Status d = StatusRunning \<and> stale staleAfter (sck k) d \<and>
        stored m' i = Some (d\<lparr>d_Status := StatusQueued, d_UpdatedAt := sck k 1\<rparr>))"
proof -
  from assms obtain ds where
    run: "set ds \<subseteq> {d. stored m (d_ID d) = Some d \<and> d_Status d = StatusRunning}"
    and seen: "\<forall>k < length ds. stored m' (d_ID (ds ! k)) = Some (if stale staleAfter (sck k) (ds ! k)
           then (ds ! k)\<lparr>d_Status := StatusQueued, d_UpdatedAt := sck k 1\<rparr> else ds ! k)"
    and other: "\<forall>i. i \<notin> d_ID ` set ds \<longrightarrow> stored m' i = stored m i"
    unfolding recovered_def by (elim exE conjE) (rule that)
  show ?thesis
  proof (cases "i \<in> d_ID ` set ds")
    case True
    then obtain k where k: "k < length ds" "i = d_ID (ds ! k)" by (auto simp: in_set_conv_nth)
    then have "stored m i = Some (ds ! k)" "d_Status (ds ! k) = StatusRunning" using run nth_mem by fastforce+
    with seen k show ?thesis by (cases "stale staleAfter (sck k) (ds ! k)") auto
  next
    case False
    with other show ?thesis by blast
  qed
qed

lemma requeue_recovers:
  fixes sck :: "nat \<Rightarrow> clock" and staleAfter :: duration
  assumes "badger_laws B" "badger_quiet B" "sort_contract L" "repo_ok L (bdata B s)"
  defines "s' \<equiv> requeue_stale B L staleAfter (\<lambda>_. live) sck
    (case ListDownloads B L live s (zero_Options\<lparr>o_Statuses := [StatusRunning]\<rparr>) 1000 0 of Inl e \<Rightarrow> [] | Inr ds \<Rightarrow> ds) s"
  shows "repo_ok L (bdata B s') \<and> recovered staleAfter sck (bdata B s) (bdata B s')"
proof -
  let ?o = "zero_Options\<lparr>o_Statuses := [StatusRunning]\<rparr>"
  let ?h = "hits B L s [] ?o"
  let ?ds = "sort_result L ?o (page 1000 0 ?h)"
  have oo: "opts_ok ?o" by (simp add: opts_ok_def const_defs zero_Options_def)
  have ms: "matches L ?o d \<longleftrightarrow> d_Status d = StatusRunning" for d
    by (auto simp: matches_def queue_filter_def status_filter_def tag_filter_def search_filter_def
        created_filter_def zero_Options_def)
  have set: "set ?h = {d. stored (bdata B s) (d_ID d) = Some d \<and> d_Status d = StatusRunning}"
    using set_hits [OF assms(1), of L s "[]" ?o] assms(4) oo ms by (simp add: matching_def)
  have mset: "mset ?ds = mset (take 1000 ?h)"
    using mset_sort_result [OF assms(3)] by (simp add: page_def)
  have sub: "set ?ds \<subseteq> set ?h" using mset_eq_setD [OF mset] set_take_subset [of 1000 ?h] by simp
  have "distinct ?h" using distinct_hits [OF assms(1), of L s "[]"] assms(4) by simp
  then have "distinct (map d_ID ?h)"
    using set by (simp add: distinct_map inj_on_def) (metis option.inject)
  then have "distinct (map d_ID (take 1000 ?h))" by (simp add: take_map [symmetric] distinct_take)
  moreover have "mset (map d_ID ?ds) = mset (map d_ID (take 1000 ?h))" using mset by simp
  ultimately have dist: "distinct (map d_ID ?ds)" using mset_eq_imp_distinct_iff by blast
  have rows: "\<forall>d \<in> set ?ds. stored (bdata B s) (d_ID d) = Some d" using sub set by auto
  have s': "s' = requeue_stale B L staleAfter (\<lambda>_. live) sck ?ds s"
    by (simp add: s'_def ListDownloads_live [OF assms(1,2,4)])
  note r = requeue_stale_rows [where cks = sck and staleAfter = staleAfter, OF assms(1,2,4) dist rows,
      folded s']
  have "matching L ?o (bdata B s) = {d. stored (bdata B s) (d_ID d) = Some d \<and> d_Status d = StatusRunning}"
    using ms by (simp add: matching_def)
  then have "length ?h = card {d. stored (bdata B s) (d_ID d) = Some d \<and> d_Status d = StatusRunning}"
    using card_hits [OF assms(1,4) oo] by simp
  then have "length ?ds = min 1000 (card {d. stored (bdata B s) (d_ID d) = Some d \<and> d_Status d = StatusRunning})"
    using mset_eq_length [OF mset] by simp
  moreover have "set ?ds \<subseteq> {d. stored (bdata B s) (d_ID d) = Some d \<and> d_Status d = StatusRunning}"
    using sub set by simp
  ultimately have "recovered staleAfter sck (bdata B s) (bdata B s')"
    unfolding recovered_def using dist r by (intro exI [of _ ?ds]) blast
  with r show ?thesis by blast
qed

text \<open>
  C9.  A tick of the worker first looks at the running downloads, all of them but no more than 1000, and
  puts exactly the stale ones back in their queue (their update time is zero or further back than the
  timeout), and then gives every queue that is not paused what it is owed: as many of its queued downloads as there
  are, but no more than its concurrency leaves room for, become running, each with one new run whose
  cancel function is registered.  No other row or registration changes, in whatever order the queues
  come; it is assumed that no run is registered for a queued or stale download, and that the limits
  that are set can be.
\<close>

theorem tick_fills_queues:
  fixes ck :: "nat \<Rightarrow> nat \<Rightarrow> clock"
  assumes "badger_laws B" "badger_quiet B" "sort_contract L" "svc_ok B L sv" "few_rows B sv"
    and "\<forall>i d. stored (bdata B (sv_db sv)) i = Some d \<longrightarrow>
      d_Status d = StatusQueued \<or> d_Status d = StatusRunning \<and> (\<exists>k. stale (w_StaleDownloadTimeout cfg) (sck k) d) \<longrightarrow>
      idle sv i \<and> (limiter_usable (sv_lim sv) \<or> unlimited d)"
    and "\<forall>q \<in> ran (queues (bdata B (sv_db sv))).
      in64 (q_Concurrency q) \<and> (limiter_usable (sv_lim sv) \<or> q_RateLimit q \<le> 0)"
  shows "\<exists>db ids sv'. tick B L cfg (live_tick sck ck) sv = (Inr (), sv') \<and>
    recovered (w_StaleDownloadTimeout cfg) sck (bdata B (sv_db sv)) (bdata B db) \<and>
    launched B {y. \<exists>q \<in> ran (queues (bdata B (sv_db sv))). \<not> q_Paused q \<and> y = q_ID q} ids (sv\<lparr>sv_db := db\<rparr>) sv' \<and>
    svc_ok B L sv' \<and>
    (\<forall>q \<in> ran (queues (bdata B (sv_db sv))). fills q (bdata B db) (bdata B (sv_db sv')))"
proof -
  have ok: "repo_ok L (bdata B (sv_db sv))" using assms(4) by (simp add: svc_ok_def)
  from ListQueues_live [OF assms(1,2) ok] obtain qs where
    qs: "ListQueues B live (sv_db sv) = Inr qs" "sorted_wrt (\<lambda>a b. q_ID a < q_ID b) qs"
    "set qs = ran (queues (bdata B (sv_db sv)))" by blast
  define db where "db = requeue_stale B L (w_StaleDownloadTimeout cfg) (\<lambda>_. live) sck
    (case ListDownloads B L live (sv_db sv) (zero_Options\<lparr>o_Statuses := [StatusRunning]\<rparr>) 1000 0 of
       Inl e \<Rightarrow> [] | Inr ds \<Rightarrow> ds) (sv_db sv)"
  from requeue_recovers [where sck = sck and staleAfter = "w_StaleDownloadTimeout cfg", OF assms(1-3) ok, folded db_def]
  have db: "repo_ok L (bdata B db)" "recovered (w_StaleDownloadTimeout cfg) sck (bdata B (sv_db sv)) (bdata B db)" by blast+
  have dom: "stored (bdata B db) i = None \<longleftrightarrow> stored (bdata B (sv_db sv)) i = None" for i
    using recovered_row [OF db(2), of i] by auto
  let ?sv = "sv\<lparr>sv_db := db\<rparr>"
  have dist: "distinct (map q_ID qs)"
    using qs(2) by (induction qs) (auto simp: image_iff)
  have "ready B L qs ?sv"
    unfolding ready_def
  proof (intro conjI ballI)
    show "svc_ok B L ?sv" using assms(4) db(1) by (simp add: svc_ok_def)
    show "few_rows B ?sv" using assms(5) by (simp add: few_rows_def dom)
    show "schedulable (sv_lim ?sv) q" if "q \<in> set qs" for q
    proof -
      from that qs(3) have q: "q \<in> ran (queues (bdata B (sv_db sv)))" by simp
      then obtain i where "queues (bdata B (sv_db sv)) i = Some q" by (auto simp: ran_def)
      from repo_ok_queue_id [OF ok this] have "q_ID q \<noteq> []" by simp
      with bspec [OF assms(7) q] show ?thesis by (simp add: schedulable_def)
    qed
    show "ready_rows B ?sv"
      unfolding ready_rows_def
    proof (intro allI impI)
      fix i d assume d: "stored (bdata B (sv_db ?sv)) i = Some d" "d_Status d = StatusQueued"
      from recovered_row [OF db(2), of i]
      show "idle ?sv i \<and> (limiter_usable (sv_lim ?sv) \<or> unlimited d)"
      proof (elim disjE exE conjE)
        assume "stored (bdata B db) i = stored (bdata B (sv_db sv)) i"
        with d assms(6) show ?thesis by (simp add: idle_def)
      next
        fix e k assume e: "stored (bdata B (sv_db sv)) i = Some e" "d_Status e = StatusRunning"
          "stale (w_StaleDownloadTimeout cfg) (sck k) e"
          "stored (bdata B db) i = Some (e\<lparr>d_Status := StatusQueued, d_UpdatedAt := sck k 1\<rparr>)"
        with assms(6) have "idle sv i" "limiter_usable (sv_lim sv) \<or> unlimited e" by blast+
        moreover have "d = e\<lparr>d_Status := StatusQueued, d_UpdatedAt := sck k 1\<rparr>" using d(1) e(4) by simp
        ultimately show ?thesis by (simp add: idle_def unlimited_def)
      qed
    qed
  qed
  from tick_queues_fill [where ck = ck, OF assms(1-3) this dist] obtain ids sv' where
    t: "tick_queues B L (\<lambda>_ _. live) (\<lambda>_ _ _. live) ck qs ?sv = (Inr (), sv')"
    "launched B (open_queues qs) ids ?sv sv'" "svc_ok B L sv'"
    "\<forall>q \<in> set qs. fills q (bdata B db) (bdata B (sv_db sv'))" by auto
  have "tick B L cfg (live_tick sck ck) sv = (Inr (), sv')"
    using qs(1) t(1) by (simp add: tick_def live_tick_def db_def)
  with t(2-4) db(2) show ?thesis unfolding open_queues_def qs(3) by blast
qed

definition demo_queue_svc :: "mem svc" where
  "demo_queue_svc = demo_svc\<lparr>sv_db := snd (SaveQueue mem_badger live demo_clock demo_store demo_queue)\<rparr>"

lemma demo_queue_facts:
  "svc_ok mem_badger basic_lib demo_queue_svc"
  "stored (bdata mem_badger (sv_db demo_queue_svc)) = [''a1'' \<mapsto> created demo_clock demo_download]"
  "\<exists>q. queues (bdata mem_badger (sv_db demo_queue_svc)) = [''main'' \<mapsto> q] \<and> q_ID q = ''main'' \<and>
     q_Concurrency q = 4 \<and> \<not> q_Paused q \<and> q_RateLimit q = 0"
  "limiter_usable (sv_lim demo_queue_svc)" "sv_cancels demo_queue_svc = Map.empty" "sv_runs demo_queue_svc = []"
proof -
  obtain q s where r: "SaveQueue mem_badger live demo_clock demo_store demo_queue = (Inr q, s)"
    using SaveQueue_quiet [OF mem_badger_laws mem_badger_quiet, of live demo_queue demo_clock demo_store] by auto
  from SaveQueue_net [OF mem_badger_laws r] have q: "q_ID q = ''main''" "q_Concurrency q = 4" "\<not> q_Paused q"
    "q_RateLimit q = 0" "bdata mem_badger s = (bdata mem_badger demo_store)(kQueue ''main'' \<mapsto> QueueJ q)"
    by (simp_all add: demo_queue_def zero_Queue_def)
  have db: "sv_db demo_queue_svc = s" by (simp add: demo_queue_svc_def r)
  have ok: "repo_ok basic_lib (bdata mem_badger s)" unfolding q(5)
    using repo_ok_puts(1) [OF demo_repo_ok [folded mem_badger_sel(1)], of q] q(1) by simp
  then show "svc_ok mem_badger basic_lib demo_queue_svc"
    using demo_svc_facts(5) by (simp add: svc_ok_def db, simp add: demo_queue_svc_def)
  show "stored (bdata mem_badger (sv_db demo_queue_svc)) = [''a1'' \<mapsto> created demo_clock demo_download]"
    unfolding db q(5) using demo_stored by (simp add: fun_eq_iff stored_def)
  have none: "queues (bdata mem_badger demo_store) i = None" for i
    by (simp add: demo_net queues_def kQueue_def)
  show "\<exists>q. queues (bdata mem_badger (sv_db demo_queue_svc)) = [''main'' \<mapsto> q] \<and> q_ID q = ''main'' \<and>
     q_Concurrency q = 4 \<and> \<not> q_Paused q \<and> q_RateLimit q = 0"
    unfolding db q(5) using q(1-4) none by (intro exI [of _ q]) (auto simp: fun_eq_iff queues_def)
qed (simp_all add: demo_queue_svc_def limiter_usable_def ZeroLimiter_def NewLimiter_def)

theorem tick_fills_queues_witness:
  "\<exists>sv'. tick mem_badger basic_lib default_WorkerConfig (live_tick (\<lambda>_. demo_clock) (\<lambda>_ _. demo_clock))
      demo_queue_svc = (Inr (), sv') \<and> sv_runs sv' = [new_run ''a1''] \<and> sv_cancels sv' ''a1'' = Some 0"
proof -
  note f = demo_queue_facts
  let ?m = "bdata mem_badger (sv_db demo_queue_svc)"
  let ?row = "created demo_clock demo_download"
  have row: "d_Status ?row = StatusQueued" "d_QueueID ?row = ''main''"
    by (simp_all add: created_def demo_download_def)
  obtain q where q: "queues ?m = [''main'' \<mapsto> q]" "q_ID q = ''main''" "q_Concurrency q = 4" "\<not> q_Paused q"
    using f(3) by blast
  have "{i. stored ?m i \<noteq> None} = {''a1''}" unfolding f(2) by auto
  then have few: "few_rows mem_badger demo_queue_svc" by (simp add: few_rows_def)
  have ready: "\<forall>i d. stored ?m i = Some d \<longrightarrow> d_Status d = StatusQueued \<or>
      d_Status d = StatusRunning \<and> (\<exists>k. stale (w_StaleDownloadTimeout default_WorkerConfig) ((\<lambda>_. demo_clock) k) d) \<longrightarrow>
      idle demo_queue_svc i \<and> (limiter_usable (sv_lim demo_queue_svc) \<or> unlimited d)"
    using f(4,5) by (simp add: idle_def)
  have qs: "\<forall>q \<in> ran (queues ?m). in64 (q_Concurrency q) \<and> (limiter_usable (sv_lim demo_queue_svc) \<or> q_RateLimit q \<le> 0)"
    unfolding q(1) using f(4) q(3) by (simp add: in64_def)
  have main: "{y. \<exists>q \<in> ran (queues ?m). \<not> q_Paused q \<and> y = q_ID q} = {''main''}" "q \<in> ran (queues ?m)"
    unfolding q(1) using q(2,4) by auto
  from tick_fills_queues [where ck = "\<lambda>_ _. demo_clock", OF demo_svc_facts(1,2) basic_lib_sort_contract
      f(1) few ready qs, unfolded main(1)] main(2)
  obtain db ids sv' where
    r: "tick mem_badger basic_lib default_WorkerConfig (live_tick (\<lambda>_. demo_clock) (\<lambda>_ _. demo_clock)) demo_queue_svc = (Inr (), sv')"
    "recovered (w_StaleDownloadTimeout default_WorkerConfig) (\<lambda>_. demo_clock) ?m (bdata mem_badger db)"
    "launched mem_badger {''main''} ids (demo_queue_svc\<lparr>sv_db := db\<rparr>) sv'"
    "fills q (bdata mem_badger db) (bdata mem_badger (sv_db sv'))"
    by blast
  have db: "stored (bdata mem_badger db) = [''a1'' \<mapsto> ?row]"
  proof
    fix i
    from recovered_row [OF r(2), of i] row(1)
    show "stored (bdata mem_badger db) i = [''a1'' \<mapsto> ?row] i" unfolding f(2)
      by (auto simp: const_defs split: if_splits)
  qed
  have in_queue: "in_queue StatusRunning ''main'' (bdata mem_badger db) = {}"
    "in_queue StatusQueued ''main'' (bdata mem_badger db) = {''a1''}"
    unfolding in_queue_def db using row by (auto simp: const_defs split: if_splits)
  have "int (card (in_queue StatusRunning ''main'' (bdata mem_badger (sv_db sv')))) = 1"
    using r(4) in_queue q(2-4) by (simp add: fills_def)
  with launched_running [OF demo_svc_facts(1) r(3)] in_queue(1) have len: "length ids = 1" by simp
  note l = launchedD [OF r(3)]
  have "i = ''a1''" if "i \<in> set ids" for i
    using l(4) [OF that] db [unfolded mem_badger_sel(1)] by (auto split: if_splits)
  then have "set ids \<subseteq> {''a1''}" by blast
  with len have "ids = [''a1'']" by (cases ids) auto
  with l(2) l(3) [of 0] f(6) r(1) show ?thesis by simp
qed

end
