(* ===== verification/Delivery.thy ===== *)
theory Delivery
  imports Runner_Run System Scheduler
begin

text \<open>
  From the start of a download to its file: \<open>Start\<close> of the service (\<open>internal/service/download.go\<close>) composed
  with the run that it spawns (\<open>internal/service/runner.go\<close>) over the same database, publisher, limiter and
  file system.  When nothing disturbs the run, the file is delivered and the stored download says so.
\<close>

section \<open>Undisturbed runs\<close>

text \<open>No checksum and no content type is asked for.\<close>

definition no_checks :: "Download \<Rightarrow> bool" where
  "no_checks d \<longleftrightarrow> (case d_File d of None \<Rightarrow> False | Some f \<Rightarrow> f_Checksum f = []) \<and>
     (case d_Config d of None \<Rightarrow> True | Some c \<Rightarrow> \<not> c_VerifyContentType c \<or> c_Mime c = [])"

text \<open>
  The contexts that matter stay alive, the servers answer every request with the file or its range and
  announce its length, the operating system and the disk work, and each segment gets two rounds.
\<close>

definition undisturbed :: "runtime \<Rightarrow> surroundings \<Rightarrow> 's sched list \<Rightarrow> string \<Rightarrow> Download \<Rightarrow> bool" where
  "undisturbed ru sd evs body d \<longleftrightarrow>
     alive 3 (sd_get sd) \<and> alive 3 (rd_cx (sd_prepare sd)) \<and> alive 3 (rd_cx (sd_complete sd)) \<and>
     smooth ru d (sd_prepare sd) \<and> announces ru (rd_net (sd_prepare sd)) body d \<and>
     list_all (calm_event ru body d) evs \<and> (\<forall>i. int i < max_conns d \<longrightarrow> 2 \<le> rounds i evs)"

lemma no_checks_core:
  assumes "core d = core d'" shows "no_checks d \<longleftrightarrow> no_checks d'"
  unfolding no_checks_def coreD [OF assms] by (rule refl)

lemma announces_core:
  assumes "core d = core d'" shows "announces ru net body d \<longleftrightarrow> announces ru net body d'"
  unfolding announces_def plan_fits_def accepts_ranges_def core_cong [OF assms] coreD [OF assms] by (rule refl)

lemma undisturbed_core:
  assumes "core d = core d'" shows "undisturbed ru sd evs body d \<longleftrightarrow> undisturbed ru sd evs body d'"
  unfolding undisturbed_def announces_core [OF assms] smooth_core [OF assms] calm_core [OF assms]
    core_cong(4) [OF assms] by (rule refl)

lemma run_setting_core:
  assumes "core d = core d'"
  shows "run_setting ru sd evs body tmp out d fs \<longleftrightarrow> run_setting ru sd evs body tmp out d' fs"
  unfolding run_setting_def run_ready_core [OF assms] core_cong [OF assms] coreD [OF assms] by (rule refl)

section \<open>The preparation\<close>

lemma Prepare_smooth:
  assumes "tempDir home d = Inr tmp" "d_File d = Some f"
  shows "Prepare no_errors home d = Inr ()"
proof -
  have "Paths.Join [case home of Inl e \<Rightarrow> ''.'' | Inr h \<Rightarrow> h, ''Downloads''] \<noteq> []"
    by (rule Clean_clean(2) [OF Join_clean [of "''Downloads''"]]) simp_all
  with assms show ?thesis by (simp add: Prepare_def Let_def failE_def)
qed

lemma GetDownload_alive:
  assumes "badger_laws B" "badger_quiet B" "repo_ok L (bdata B s)" "alive 3 cx" "stored (bdata B s) did = Some d"
  shows "GetDownload B cx s did = Inr d"
  using Get_live [OF assms(1-4), of did] assms(5) by simp

text \<open>The run's copy of the download is written when its row is there.\<close>

lemma save_copy_writes:
  assumes "badger_laws B" "badger_quiet B" "repo_ok (ru_lib ru) (bdata B (rn_db w))" "alive 3 cx"
    and "stored (bdata B (rn_db w)) (d_ID (rn_d w)) = Some old"
  shows "\<exists>s d'. save_copy B ru cx ck w = (Inr (), w\<lparr>rn_db := s, rn_d := d'\<rparr>) \<and> core d' = core (rn_d w) \<and>
    d_Status d' = d_Status (rn_d w) \<and> stored (bdata B s) (d_ID (rn_d w)) = Some d'"
proof -
  have cx: "cx 0 = None" "cx 1 = None" "cx 2 = None" using assms(4) by (simp_all add: alive_def)
  from UpdateDownload_quiet [where ck = ck, OF assms(1-3) cx assms(5)] obtain s where
    u: "UpdateDownload B (ru_lib ru) cx ck (rn_db w) (rn_d w) = (Inr (updated ck old (rn_d w)), s)"
    "bdata B s = put_store (ru_lib ru) (updated ck old (rn_d w)) (bdata B (rn_db w))" by blast
  have d': "core (updated ck old (rn_d w)) = core (rn_d w)" "d_Status (updated ck old (rn_d w)) = d_Status (rn_d w)"
    "d_ID (updated ck old (rn_d w)) = d_ID (rn_d w)"
    by (simp_all add: updated_def)
  have "stored (bdata B s) (d_ID (rn_d w)) = Some (updated ck old (rn_d w))"
    unfolding u(2) by (simp add: d'(3))
  with u(1) d'(1,2) show ?thesis
    by (intro exI [of _ s] exI [of _ "updated ck old (rn_d w)"]) (simp add: save_copy_def)
qed

lemma prepare_smooth:
  assumes "badger_laws B" "badger_quiet B" "repo_ok (ru_lib ru) (bdata B (rn_db w))"
    and "stored (bdata B (rn_db w)) (d_ID (rn_d w)) = Some old" "alive 3 (rd_cx rd)"
    and "run_ready ru tmp (rn_d w)" "no_checks (rn_d w)" "smooth ru (rn_d w) rd"
  shows "\<exists>gs w'. prepareDownload B ru rd w = (Inr gs, w')"
proof -
  let ?d = "rn_d w"
  obtain f where f: "d_File ?d = Some f" using assms(7) by (auto simp: no_checks_def split: option.splits)
  obtain req where req: "d_Request ?d = Some req" using assms(6) by (auto simp: run_ready_def)
  have pre: "Prepare (rd_io rd) (ru_home ru) ?d = Inr ()"
    using Prepare_smooth [OF _ f] assms(6,8) by (simp add: run_ready_def smooth_def)
  have "answering (ru_url ru) (rd_net rd) req" using assms(8) req by (simp add: smooth_def)
  from Head_answering [OF this] obtain md h where
    hd: "Head (ru_url ru) (rd_net rd) (ru_timeout ru) req (pickCfg ?d) = (Some (md, h), None)" by blast
  have ct: "content_type_ok ?d md"
    using assms(7) by (auto simp: no_checks_def content_type_ok_def split: option.splits)
  let ?w = "w\<lparr>rn_d := (let d = ?d\<lparr>d_Response := Some md\<rparr>
    in if d_BytesTotal d = 0 \<and> 0 < m_ContentLength md then d\<lparr>d_BytesTotal := m_ContentLength md\<rparr> else d)\<rparr>"
  have id: "d_ID (rn_d ?w) = d_ID ?d" by (simp add: Let_def)
  have "repo_ok (ru_lib ru) (bdata B (rn_db ?w))" "stored (bdata B (rn_db ?w)) (d_ID (rn_d ?w)) = Some old"
    unfolding id using assms(3,4) by simp_all
  from save_copy_writes [where ck = "rd_ck rd", OF assms(1,2) this(1) assms(5) this(2)] obtain w' where
    "save_copy B ru (rd_cx rd) (rd_ck rd) ?w = (Inr (), w')" by blast
  moreover obtain gs where "Plan (rn_d w') (m_ContentLength md) (accepts_ranges (rn_d w') md) = Inr gs"
    by (cases "Plan (rn_d w') (m_ContentLength md) (accepts_ranges (rn_d w') md)")
      (auto simp: Plan_def Let_def split: if_splits)
  ultimately have "prepareDownload B ru rd w = (Inr gs, w')"
    using pre req hd ct by (simp add: prepareDownload_def Let_def split del: if_split)
  then show ?thesis by blast
qed

section \<open>The row at the end of a run\<close>

lemma monitor_steps_quiet:
  "badger_laws B \<Longrightarrow> badger_quiet B \<Longrightarrow> monitor_steps B ru ms w = Inr w' \<Longrightarrow> quiet_change B (ru_lib ru) did w w'"
proof (induction ms arbitrary: w)
  case (Cons m ms)
  obtain cx ck where m: "m = (cx, ck)" by (cases m)
  with Cons.prems(3) obtain w1 where "monitor_step B ru cx ck w = Inr w1" "monitor_steps B ru ms w1 = Inr w'"
    by (auto simp: bindE_eq_Inr)
  with Cons.IH [OF Cons.prems(1,2)] monitor_step_quiet [OF Cons.prems(1,2)] quiet_change_trans show ?case by metis
qed simp

text \<open>While no other part of the process moves.\<close>

lemma run_segments_quiet:
  assumes "badger_laws B" "badger_quiet B" "run_segments B ru evs phs w = Inr (phs', w')"
    and "\<forall>s p rl. StepOther s p rl \<notin> set evs"
  shows "quiet_change B (ru_lib ru) did w w'"
  using assms(3,4)
proof (induction evs arbitrary: phs w)
  case (Cons ev evs)
  have rest: "\<forall>s p rl. StepOther s p rl \<notin> set evs" using Cons.prems(2) by simp
  show ?case
  proof (cases ev)
    case (StepSeg i rd)
    show ?thesis
    proof (cases "i < length phs")
      case True
      with Cons.prems(1) StepSeg obtain ph w1 where s: "seg_step B ru rd (phs ! i) w = Inr (ph, w1)"
        "run_segments B ru evs (phs[i := ph]) (note_error (phs ! i) ph w1) = Inr (phs', w')"
        by (auto simp: bindE_eq_Inr)
      have "quiet_change B (ru_lib ru) did w w1" using seg_step_quiet [OF assms(1,2) s(1)] by blast
      moreover have "quiet_change B (ru_lib ru) did w1 (note_error (phs ! i) ph w1)"
        by (rule quiet_change_local) simp_all
      ultimately show ?thesis using Cons.IH [OF s(2) rest] quiet_change_trans by metis
    next
      case False
      with Cons.prems(1) StepSeg have "run_segments B ru evs phs w = Inr (phs', w')" by simp
      then show ?thesis by (rule Cons.IH [OF _ rest])
    qed
  next
    case (StepMonitor cx ck)
    with Cons.prems(1) obtain w1 where "monitor_step B ru cx ck w = Inr w1" "run_segments B ru evs phs w1 = Inr (phs', w')"
      by (auto simp: bindE_eq_Inr)
    with Cons.IH [OF _ rest] monitor_step_quiet [OF assms(1,2)] quiet_change_trans show ?thesis by metis
  next
    case (StepOther s p rl)
    with Cons.prems(2) show ?thesis by auto
  qed
qed simp

lemma downloadSegments_quiet:
  assumes "badger_laws B" "badger_quiet B" "downloadSegments B ru evs gs w = Inr (r, w')"
    and "\<forall>s p rl. StepOther s p rl \<notin> set evs"
  shows "quiet_change B (ru_lib ru) did w w'"
proof -
  let ?w = "w\<lparr>rn_progress := [], rn_errs := []\<rparr>"
  from assms(3) obtain phs where "run_segments B ru evs (map SegNew gs) ?w = Inr (phs, w')"
    by (auto simp: downloadSegments_def bindE_eq_Inr)
  from run_segments_quiet [OF assms(1,2) this assms(4)] have "quiet_change B (ru_lib ru) did ?w w'" .
  moreover have "quiet_change B (ru_lib ru) did w ?w" by (rule quiet_change_local) simp_all
  ultimately show ?thesis using quiet_change_trans by metis
qed

lemma finish_complete_row:
  assumes "badger_laws B" "badger_quiet B" "repo_ok (ru_lib ru) (bdata B (rn_db w))" "alive 3 (rd_cx rd)"
    and "stored (bdata B (rn_db w)) (d_ID (rn_d w)) = Some old" "finish_complete B ru rd w = Inr w'"
  shows "\<exists>d. stored (bdata B (rn_db w')) (d_ID (rn_d w)) = Some d \<and> d_Status d = StatusCompleted"
proof -
  let ?now = "rd_ck rd 0"
  let ?w = "w\<lparr>rn_d := (rn_d w)\<lparr>d_Status := StatusCompleted, d_UpdatedAt := ?now, d_CompletedAt := Some ?now\<rparr>\<rparr>"
  have w: "repo_ok (ru_lib ru) (bdata B (rn_db ?w))" "stored (bdata B (rn_db ?w)) (d_ID (rn_d ?w)) = Some old"
    using assms(3,5) by simp_all
  from save_copy_writes [where ck = "skip 2 (rd_ck rd)", OF assms(1,2) w(1) assms(4) w(2)] obtain s d where
    s: "save_copy B ru (rd_cx rd) (skip 2 (rd_ck rd)) ?w = (Inr (), ?w\<lparr>rn_db := s, rn_d := d\<rparr>)"
    "d_Status d = StatusCompleted" "stored (bdata B s) (d_ID (rn_d w)) = Some d" by auto
  from assms(6) s(1) have "run_publish (rd_ck rd 1) EventCompleted NoData (?w\<lparr>rn_db := s, rn_d := d\<rparr>) = Inr w'"
    by (simp add: finish_complete_def Let_def)
  then have "rn_db w' = s" by (auto simp: run_publish_def bindE_eq_Inr)
  with s(2,3) show ?thesis by blast
qed

text \<open>Progress that is saved late does not change the status of the row again.\<close>

lemma UpdateDownload_row_status:
  assumes "badger_laws B" "badger_quiet B" "repo_ok L (bdata B s)"
    and "stored (bdata B s) (d_ID d) = Some old" "d_Status old = st" "d_Status d = st"
  shows "\<exists>row. stored (bdata B (snd (UpdateDownload B L cx ck s d))) (d_ID d) = Some row \<and> d_Status row = st"
proof (cases "UpdateDownload B L cx ck s d")
  case (Pair r t)
  show ?thesis
  proof (cases r)
    case (Inl e)
    with Pair have "t = s" unfolding UpdateDownload_def using repo_update_error by fastforce
    with Pair assms(4,5) show ?thesis by simp
  next
    case (Inr d')
    with Pair have "repo_update B cx s (updateDownloadTxn B L (skip 2 cx) ck s d) = (Inr d', t)"
      by (simp add: UpdateDownload_def)
    from repo_update_ok [OF assms(1) this] obtain tx where
      tx: "updateDownloadTxn B L (skip 2 cx) ck s d [] = Inr (d', tx)" "bdata B t = apply_writes tx (bdata B s)" by blast
    then have cx: "skip 2 cx 0 = None" by (auto simp: updateDownloadTxn_def split: option.splits)
    have view: "repo_ok L (txview B s [])" "stored (txview B s []) (d_ID d) = Some old"
      using assms(3,4) by (simp_all add: txview_def)
    obtain tx' where "updateDownloadTxn B L (skip 2 cx) ck s d [] = Inr (updated ck old d, tx')"
      "txview B s tx' = put_store L (updated ck old d) (txview B s [])"
      by (rule update_effect [where tx = "[]" and cx = "skip 2 cx" and ck = ck, OF view(1) assms(1,2) cx view(2)])
    with tx have "bdata B t = put_store L (updated ck old d) (bdata B s)" by (simp add: txview_def)
    then show ?thesis using assms(6) Pair by (simp add: updated_def)
  qed
qed

lemma monitor_step_row:
  assumes "badger_laws B" "badger_quiet B" "repo_ok (ru_lib ru) (bdata B (rn_db w))"
    and "stored (bdata B (rn_db w)) (d_ID (rn_d w)) = Some old" "d_Status old = d_Status (rn_d w)"
    and "monitor_step B ru cx ck w = Inr w'"
  shows "\<exists>row. stored (bdata B (rn_db w')) (d_ID (rn_d w)) = Some row \<and> d_Status row = d_Status (rn_d w)"
proof (cases "rn_progress w")
  case (Cons got rest)
  let ?d = "(rn_d w)\<lparr>d_BytesCompleted := add64 (d_BytesCompleted (rn_d w)) got\<rparr>"
  let ?e = "(if 0 < d_BytesTotal ?d then ?d\<lparr>d_Progress := fp_round (ru_fpu ru) (fp_round (ru_fpu ru)
      (of_int (d_BytesCompleted ?d)) / fp_round (ru_fpu ru) (of_int (d_BytesTotal ?d)))\<rparr> else ?d)\<lparr>d_UpdatedAt := ck 0\<rparr>"
  have e: "d_ID ?e = d_ID (rn_d w)" "d_Status ?e = d_Status (rn_d w)" by simp_all
  let ?w = "w\<lparr>rn_d := ?e, rn_progress := rest\<rparr>"
  have "run_publish (ck 1) EventProgress (BytesData got) (snd (save_copy B ru cx (skip 2 ck) ?w)) = Inr w'"
    using assms(6) Cons by (simp add: monitor_step_def Let_def)
  then have "rn_db w' = rn_db (snd (save_copy B ru cx (skip 2 ck) ?w))" by (rule run_publish_frame(4))
  also have "\<dots> = snd (UpdateDownload B (ru_lib ru) cx (skip 2 ck) (rn_db w) ?e)"
    by (simp add: save_copy_def split: prod.splits sum.splits)
  finally show ?thesis
    using UpdateDownload_row_status [of B "ru_lib ru" "rn_db w" ?e old "d_Status (rn_d w)" cx "skip 2 ck", unfolded e]
      assms(1-5) by simp
qed (use assms(4-6) in \<open>simp add: monitor_step_def\<close>)

lemma monitor_steps_row:
  assumes "badger_laws B" "badger_quiet B" "repo_ok (ru_lib ru) (bdata B (rn_db w))" "publisher_ok (rn_pub w)"
    and "d_ID (rn_d w) = did" "stored (bdata B (rn_db w)) did = Some old" "d_Status old = st" "d_Status (rn_d w) = st"
    and "monitor_steps B ru ms w = Inr w'"
  shows "\<exists>row. stored (bdata B (rn_db w')) did = Some row \<and> d_Status row = st"
  using assms(3-9)
proof (induction ms arbitrary: w old)
  case (Cons m ms)
  obtain cx ck where "m = (cx, ck)" by (cases m)
  with Cons.prems(7) obtain w1 where m: "monitor_step B ru cx ck w = Inr w1" "monitor_steps B ru ms w1 = Inr w'"
    by (auto simp: bindE_eq_Inr)
  from quiet_changeD [OF monitor_step_quiet [OF assms(1,2) m(1)] Cons.prems(1-3)]
  have q: "repo_ok (ru_lib ru) (bdata B (rn_db w1))" "publisher_ok (rn_pub w1)" "d_ID (rn_d w1) = did" by simp_all
  from monitor_step_row [OF assms(1,2) Cons.prems(1) _ _ m(1)] Cons.prems(3-6) obtain row where
    row: "stored (bdata B (rn_db w1)) did = Some row" "d_Status row = st" by auto
  have "d_Status (rn_d w1) = st" using monitor_step_status [OF m(1)] Cons.prems(6) by simp
  from Cons.IH [OF q row this m(2)] show ?case .
qed simp

text \<open>A completed run has left its row as completed and the other rows alone.\<close>

lemma completed_run_row:
  assumes "badger_laws B" "badger_quiet B" "repo_ok (ru_lib ru) (bdata B (rn_db w))" "publisher_ok (rn_pub w)"
    and "stored (bdata B (rn_db w)) did = Some d" "alive 3 (sd_get sd)" "alive 3 (rd_cx (sd_complete sd))"
    and "\<forall>s p rl. StepOther s p rl \<notin> set evs"
    and "Run B ru sd evs did w = Some (Inr w')" "d_Status (rn_d w') = StatusCompleted"
  shows "repo_ok (ru_lib ru) (bdata B (rn_db w')) \<and> publisher_ok (rn_pub w') \<and>
    (\<exists>d'. stored (bdata B (rn_db w')) did = Some d' \<and> d_Status d' = StatusCompleted) \<and>
    (\<forall>i. i \<noteq> did \<longrightarrow> stored (bdata B (rn_db w')) i = stored (bdata B (rn_db w)) i)"
proof -
  let ?L = "ru_lib ru"
  have get: "GetDownload B (sd_get sd) (rn_db w) did = Inr d" by (rule GetDownload_alive [OF assms(1-3,6,5)])
  have id: "d_ID d = did" by (rule GetDownload_row [OF assms(1,3) get])
  from Run_completed [OF assms(9,10) get] obtain gs w1 w2 w3 w4 w5 w6 where
    p: "prepareDownload B ru (sd_prepare sd) (w\<lparr>rn_d := d\<rparr>) = (Inr gs, w1)"
    and s: "downloadSegments B ru evs gs w1 = Inr (Some None, w2)"
    and m: "monitor_steps B ru (sd_late sd 0) (finish_begin B ru (sd_begin sd) w2) = Inr w3"
    and v: "merge_and_verify ru (sd_fuel sd) (sd_merge_io sd) (sd_verify_io sd) w3 = Some (Inr (), w4)"
    and t: "monitor_steps B ru (sd_late sd 1) w4 = Inr w5" "finish_complete B ru (sd_complete sd) w5 = Inr w6"
      "monitor_steps B ru (sd_late sd 2) w6 = Inr w'" by blast
  note trans = quiet_change_trans [of B ?L did]
  have "quiet_change B ?L did (w\<lparr>rn_d := d\<rparr>) w1" using prepareDownload_quiet [OF assms(1,2) p] by blast
  note q = trans [OF trans [OF trans [OF trans [OF trans [OF this downloadSegments_quiet [OF assms(1,2) s assms(8)]]
    finish_quiet(1) [OF assms(1,2)]] monitor_steps_quiet [OF assms(1,2) m]] merge_quiet [OF v]]
    monitor_steps_quiet [OF assms(1,2) t(1)]]
  from quiet_changeD [OF q] assms(3,4) id have w5: "repo_ok ?L (bdata B (rn_db w5))" "publisher_ok (rn_pub w5)"
    "d_ID (rn_d w5) = did" "rows_kept B did (rn_db w) (rn_db w5)" by simp_all
  from quiet_changeD [OF finish_quiet(2) [OF assms(1,2) t(2)] w5(1-3)]
  have w6: "repo_ok ?L (bdata B (rn_db w6))" "publisher_ok (rn_pub w6)" "d_ID (rn_d w6) = did"
    "rows_kept B did (rn_db w5) (rn_db w6)" by simp_all
  from quiet_changeD [OF monitor_steps_quiet [OF assms(1,2) t(3)] w6(1-3)]
  have w': "repo_ok ?L (bdata B (rn_db w'))" "publisher_ok (rn_pub w')" "rows_kept B did (rn_db w6) (rn_db w')" by simp_all
  obtain old where "stored (bdata B (rn_db w5)) did = Some old"
    using w5(4) assms(5) by (cases "stored (bdata B (rn_db w5)) did") (auto simp: rows_kept_def)
  with finish_complete_row [OF assms(1,2) w5(1) assms(7) _ t(2)] w5(3)
  obtain d6 where d6: "stored (bdata B (rn_db w6)) did = Some d6" "d_Status d6 = StatusCompleted" by auto
  have "d_Status (rn_d w6) = StatusCompleted" using monitor_steps_status [OF t(3)] assms(10) by simp
  from monitor_steps_row [OF assms(1,2) w6(1-3) d6 this t(3)]
  have "\<exists>d'. stored (bdata B (rn_db w')) did = Some d' \<and> d_Status d' = StatusCompleted" .
  with w' w5(4) w6(4) show ?thesis by (auto simp: rows_kept_def)
qed

section \<open>Delivery\<close>

lemma run_delivers:
  fixes B :: "'s badger" and evs :: "'s sched list"
  assumes "badger_laws B" "badger_quiet B" "repo_ok (ru_lib ru) (bdata B (rn_db w))" "publisher_ok (rn_pub w)"
    and "stored (bdata B (rn_db w)) did = Some d" "no_checks d"
    and set: "run_setting ru sd evs body tmp out d (rn_fs w)"
    and res: "\<And>gs ranges. Plan d (int (length body)) ranges = Inr gs \<Longrightarrow> resumable body tmp gs (rn_fs w)"
    and und: "undisturbed ru sd evs body d"
  shows "\<exists>w'. Run B ru sd evs did w = Some (Inr w') \<and>
    map_of (rn_fs w') out = Some body \<and> repo_ok (ru_lib ru) (bdata B (rn_db w')) \<and> publisher_ok (rn_pub w') \<and>
    (\<exists>d'. stored (bdata B (rn_db w')) did = Some d' \<and> d_Status d' = StatusCompleted) \<and>
    (\<forall>i. i \<noteq> did \<longrightarrow> stored (bdata B (rn_db w')) i = stored (bdata B (rn_db w)) i)"
proof -
  have u: "alive 3 (sd_get sd)" "alive 3 (rd_cx (sd_prepare sd))" "alive 3 (rd_cx (sd_complete sd))"
    "smooth ru d (sd_prepare sd)" "announces ru (rd_net (sd_prepare sd)) body d"
    "list_all (calm_event ru body d) evs" "\<forall>i. int i < max_conns d \<longrightarrow> 2 \<le> rounds i evs"
    using und by (simp_all add: undisturbed_def)
  have ready: "run_ready ru tmp d" using set by (simp add: run_setting_def)
  obtain f where f: "d_File d = Some f" "f_Checksum f = []" using assms(6) by (auto simp: no_checks_def split: option.splits)
  have get: "GetDownload B (sd_get sd) (rn_db w) did = Inr d" by (rule GetDownload_alive [OF assms(1-3) u(1) assms(5)])
  have id: "d_ID d = did" by (rule GetDownload_row [OF assms(1,3) get])
  let ?w = "w\<lparr>rn_d := d\<rparr>"
  have "\<exists>gs w1. prepareDownload B ru (sd_prepare sd) ?w = (Inr gs, w1)"
    by (rule prepare_smooth [OF assms(1,2) _ _ u(2)]) (use assms(3,5,6) id ready u(4) in simp_all)
  then obtain gs w1 where prep: "prepareDownload B ru (sd_prepare sd) ?w = (Inr gs, w1)" by blast
  from prepared_plan [OF prep _ u(5) ready] obtain ranges where
    w1: "rn_fs w1 = rn_fs w" and plan: "Plan d (int (length body)) ranges = Inr gs" by auto
  have n: "int (length gs) \<le> max_conns d"
    using plan max_conns_pos [of d] by (auto simp: Plan_def Let_def split: if_splits)
  have pub: "publisher_ok (rn_pub w1)"
    using prepareDownload_ok [OF prep] assms(4) by auto
  have "\<forall>i < length gs. 2 \<le> rounds i evs" using u(7) n by auto
  from smooth_run [OF get prep u(5) set res [OF plan] u(6) this pub f] obtain w' where
    run: "Run B ru sd evs did w = Some (Inr w')" "d_Status (rn_d w') = StatusCompleted"
      "map_of (rn_fs w') out = Some body" by blast
  from completed_run_row [OF assms(1-5) u(1,3) calm_alone [OF u(6)] run(1,2)] run(1,3) show ?thesis by blast
qed

text \<open>
  C2.  A download that is started is delivered.  Starting a stored download that has no run spawns one
  run, which reads the state that the start left.  That run ends without a panic, the target holds the file,
  the stored download is completed, and no other row has changed, under these conditions:
  the service has a publisher and a file store; the download has no rate limit, or the limiter can take one;
  it asks for no checksum, no content type and no size limit; its request keeps the range header; its target
  is free or may be overwritten, and lies outside its temporary directory, where parts of an earlier run may
  be if they are the beginnings of their segments; the file is not empty and, when it is planned in ranges,
  has at least as many bytes as there are connections; the servers announce its length and answer every
  request with the file or the range; the operating system and the disk work; and the contexts stay alive.
  The schedule is any interleaving of the segments' goroutines with the monitor in which each segment gets
  two rounds and no other part of the process moves; the monitor may receive at any time, also late.
\<close>

theorem start_delivers:
  fixes B :: "'s badger" and ck :: clock and evs :: "'s sched list"
  assumes "badger_laws B" "badger_quiet B" "svc_ok B (ru_lib ru) sv" "sv_pub sv \<noteq> None" "sv_fs sv = Some fs"
    and "stored (bdata B (sv_db sv)) did = Some d" "idle sv did" "limiter_usable (sv_lim sv) \<or> unlimited d"
    and "tempDir (ru_home ru) d = Inr tmp" "finalPath d = Inr out"
    and "tmp \<noteq> ''.''" "tmp \<noteq> [slash]" "\<not> below tmp out" "\<not> below tmp (out @ ''.merge.tmp'')"
    and "d_File d = Some f" "f_MaxFileSize f \<le> 0" "f_Overwrite f \<or> \<not> fs_exists fs out" "f_Checksum f = []"
    and "case d_Config d of None \<Rightarrow> True | Some c \<Rightarrow> \<not> c_VerifyContentType c \<or> c_Mime c = []"
    and "d_Request d = Some req" "plain_range req (pickCfg d)"
    and "body \<noteq> []" "in64 (int (length body))" "announcing (rd_net (sd_prepare sd)) body"
    and "\<And>md h. Head (ru_url ru) (rd_net (sd_prepare sd)) (ru_timeout ru) req (pickCfg d) = (Some (md, h), None) \<Longrightarrow>
      accepts_ranges d md \<Longrightarrow> max_conns d \<le> int (length body) \<and> max_conns d \<le> 10 ^ 9"
    and "\<And>gs ranges. Plan d (int (length body)) ranges = Inr gs \<Longrightarrow> resumable body tmp gs fs"
    and "alive 3 (sd_get sd)" "alive 3 (rd_cx (sd_prepare sd))" "alive 3 (rd_cx (sd_complete sd))"
    and "smooth ru d (sd_prepare sd)" "sd_merge_io sd = no_errors"
    and "list_all (calm_event ru body d) evs" "\<And>i. int i < max_conns d \<Longrightarrow> 2 \<le> rounds i evs"
  shows "\<exists>sv' w w'. Start B (ru_lib ru) (\<lambda>_. live) ck did sv = (Inr (), sv') \<and>
    sv_runs sv' = sv_runs sv @ [new_run did] \<and> job_view sv' new_job = Some w \<and>
    Run B ru sd evs did w = Some (Inr w') \<and>
    map_of (rn_fs w') out = Some body \<and> svc_ok B (ru_lib ru) (put_view w' sv') \<and>
    (\<exists>d'. stored (bdata B (rn_db w')) did = Some d' \<and> d_Status d' = StatusCompleted) \<and>
    (\<forall>i. i \<noteq> did \<longrightarrow> stored (bdata B (rn_db w')) i = stored (bdata B (sv_db sv)) i)"
proof -
  have "startable (sv_lim sv) (stored (bdata B (sv_db sv)) did)" using assms(6,8) by (simp add: startable_def)
  from Start_once [where ck = ck, OF assms(1-3,7) this] obtain sv' where
    st: "Start B (ru_lib ru) (\<lambda>_. live) ck did sv = (Inr (), sv')" and ok: "svc_ok B (ru_lib ru) sv'"
    and runs: "sv_runs sv' = sv_runs sv @ [new_run did]"
    and rows: "stored (bdata B (sv_db sv')) = (stored (bdata B (sv_db sv)))(did \<mapsto> started ck d)"
    and same: "sv_fs sv' = sv_fs sv" "(sv_pub sv' = None) = (sv_pub sv = None)"
    by (auto simp: assms(6))
  obtain p where p: "sv_pub sv' = Some p" using same(2) assms(4) by auto
  define w where "w = \<lparr>rn_db = sv_db sv', rn_pub = p, rn_lim = sv_lim sv', rn_fs = fs, rn_d = jb_d new_job,
    rn_progress = jb_progress new_job, rn_errs = jb_errs new_job\<rparr>"
  have view: "job_view sv' new_job = Some w" using p same(1) assms(5) by (simp add: job_view_def w_def)
  have w: "repo_ok (ru_lib ru) (bdata B (rn_db w))" "publisher_ok (rn_pub w)" "rn_fs w = fs"
    "stored (bdata B (rn_db w)) did = Some (started ck d)"
    using ok p rows by (simp_all add: w_def svc_ok_def pub_ready_def)
  have core: "core (started ck d) = core d" by (simp add: started_def core_def)
  have "no_checks d" using assms(15,18,19) by (simp add: no_checks_def)
  then have "no_checks (started ck d)" using no_checks_core [OF core] by simp
  moreover have "run_setting ru sd evs body tmp out d fs"
    using assms(9-17,20,21,31) calm_steady [OF assms(32)] by (auto simp: run_setting_def run_ready_def unlimited_size_def)
  then have "run_setting ru sd evs body tmp out (started ck d) (rn_fs w)"
    unfolding run_setting_core [OF core] w(3) .
  moreover have "resumable body tmp gs (rn_fs w)" if "Plan (started ck d) (int (length body)) ranges = Inr gs" for gs ranges
  proof -
    have "Plan d (int (length body)) ranges = Inr gs"
      using that unfolding Plan_def plan_segment_def [abs_def] core_cong(4) [OF core] coreD(1) [OF core] .
    with assms(26) w(3) show ?thesis by simp
  qed
  moreover have "announces ru (rd_net (sd_prepare sd)) body d"
    using assms(20,22-25) by (auto simp: announces_def plan_fits_def)
  then have "undisturbed ru sd evs body d" using assms(27-30,32,33) by (simp add: undisturbed_def)
  then have "undisturbed ru sd evs body (started ck d)" unfolding undisturbed_core [OF core] .
  ultimately obtain w' where
    run: "Run B ru sd evs did w = Some (Inr w')"
      "map_of (rn_fs w') out = Some body" "repo_ok (ru_lib ru) (bdata B (rn_db w'))" "publisher_ok (rn_pub w')"
      "\<exists>d'. stored (bdata B (rn_db w')) did = Some d' \<and> d_Status d' = StatusCompleted"
      "\<forall>i. i \<noteq> did \<longrightarrow> stored (bdata B (rn_db w')) i = stored (bdata B (rn_db w)) i"
    using run_delivers [OF assms(1,2) w(1,2,4)] by blast
  have "svc_ok B (ru_lib ru) (put_view w' sv')"
    using run(3,4) by (simp add: svc_ok_def put_view_def pub_ready_def)
  moreover have "\<forall>i. i \<noteq> did \<longrightarrow> stored (bdata B (rn_db w')) i = stored (bdata B (sv_db sv)) i"
    using run(6) rows by (simp add: w_def)
  ultimately show ?thesis using st runs view run(1,2,5) by blast
qed

definition demo_run_svc :: "mem svc" where
  "demo_run_svc = NewDownloadService
     (snd (CreateDownload mem_badger basic_lib live demo_clock [] demo_run_download))
     (Some NewInMemoryPublisher) (Some NewLimiter) (Some [])"

lemma demo_run_row:
  "svc_ok mem_badger basic_lib demo_run_svc"
  "stored (bdata mem_badger (sv_db demo_run_svc)) ''a1'' = Some (created demo_clock demo_run_download)"
proof -
  have id: "d_ID demo_run_download = ''a1''" by (simp add: demo_run_download_def)
  then have "d_ID demo_run_download \<noteq> []" by simp
  from CreateDownload_quiet [OF mem_badger_laws mem_badger_quiet demo_clock_ok this, of live basic_lib "[]"] obtain s where
    c: "CreateDownload mem_badger basic_lib live demo_clock [] demo_run_download =
      (Inr (created demo_clock demo_run_download), s)" by auto
  from CreateDownload_net [OF mem_badger_laws demo_clock_ok _ c]
  have net: "bdata mem_badger s = put_store basic_lib (created demo_clock demo_run_download) Map.empty" by simp
  have "repo_ok basic_lib (bdata mem_badger s)"
    unfolding net using repo_ok_put_store [OF repo_ok_empty created_valid, of demo_clock demo_run_download basic_lib]
    by (simp add: bar_def id)
  then show "svc_ok mem_badger basic_lib demo_run_svc"
    by (simp add: svc_ok_def demo_run_svc_def NewDownloadService_def c)
  show "stored (bdata mem_badger (sv_db demo_run_svc)) ''a1'' = Some (created demo_clock demo_run_download)"
    using net id by (simp add: demo_run_svc_def NewDownloadService_def c)
qed

definition demo_schedule :: "mem sched list" where
  "demo_schedule = [StepSeg 1 demo_readings, StepSeg 0 demo_readings, StepSeg 1 demo_readings,
     StepMonitor live demo_clock, StepSeg 0 demo_readings]"

definition demo_late :: surroundings where
  "demo_late = demo_surroundings\<lparr>sd_late := (\<lambda>j. if j = 2 then [(live, demo_clock)] else [])\<rparr>"

theorem start_delivers_witness:
  "\<exists>sv' w w'. Start mem_badger basic_lib (\<lambda>_. live) demo_clock ''a1'' demo_run_svc = (Inr (), sv') \<and>
     job_view sv' new_job = Some w \<and>
     Run mem_badger demo_runtime demo_late demo_schedule ''a1'' w = Some (Inr w') \<and>
     map_of (rn_fs w') ''/out/f.iso'' = Some ''hello'' \<and>
     (\<exists>d'. stored (bdata mem_badger (rn_db w')) ''a1'' = Some d' \<and> d_Status d' = StatusCompleted)"
proof -
  let ?d = "created demo_clock demo_run_download"
  let ?f = "zero_FileOptions\<lparr>f_Path := ''/out'', f_Filename := ''f.iso'', f_TempDir := ''/tmp''\<rparr>"
  let ?req = "zero_RequestOptions\<lparr>r_URL := ''http://h/f''\<rparr>"
  have core: "core ?d = core demo_run_download" by (simp add: created_def core_def)
  have lib: "ru_lib demo_runtime = basic_lib" by (simp add: demo_runtime_def)
  have sel: "sv_pub demo_run_svc \<noteq> None" "sv_fs demo_run_svc = Some (rn_fs demo_state)" "idle demo_run_svc ''a1''"
    "limiter_usable (sv_lim demo_run_svc) \<or> unlimited ?d"
    by (simp_all add: demo_run_svc_def NewDownloadService_def demo_state_def idle_def limiter_usable_def ZeroLimiter_def
        NewLimiter_def)
  have conns: "max_conns ?d = 2" unfolding core_cong(4) [OF core] by code_simp
  have opts: "d_File ?d = Some ?f" "f_MaxFileSize ?f \<le> 0" "f_Checksum ?f = []" "d_Request ?d = Some ?req"
    "case d_Config ?d of None \<Rightarrow> True | Some c \<Rightarrow> \<not> c_VerifyContentType c \<or> c_Mime c = []"
    unfolding coreD [OF core] by (simp_all add: demo_run_download_def demo_config_def zero_FileOptions_def zero_DownloadConfig_def)
  have set: "run_setting demo_runtime demo_surroundings (in_turn (\<lambda>i. demo_readings) 0 :: mem sched list) ''hello''
      ''/tmp/a1'' ''/out/f.iso'' ?d (rn_fs demo_state)"
    unfolding run_setting_core [OF core] by (rule demo_setting)
  have paths: "tempDir (ru_home demo_runtime) ?d = Inr ''/tmp/a1''"
    "finalPath ?d = Inr ''/out/f.iso''" "''/tmp/a1'' \<noteq> ''.''" "''/tmp/a1'' \<noteq> [slash]"
    "\<not> below ''/tmp/a1'' ''/out/f.iso''" "\<not> below ''/tmp/a1'' (''/out/f.iso'' @ ''.merge.tmp'')"
    and free: "f_Overwrite ?f \<or> \<not> fs_exists (rn_fs demo_state) ''/out/f.iso''" and plain: "plain_range ?req (pickCfg ?d)"
    using set opts(4) by (simp_all add: run_setting_def run_ready_def demo_state_def fs_exists_def)
  have sd: "sd_get demo_late = live" "sd_prepare demo_late = demo_readings" "sd_complete demo_late = demo_readings"
    "sd_merge_io demo_late = no_errors" "rd_cx demo_readings = live" "rd_net demo_readings = demo_net"
    by (simp_all add: demo_late_def demo_surroundings_def demo_readings_def)
  have smooth: "smooth demo_runtime ?d demo_readings" unfolding smooth_core [OF core] by (rule demo_smooth)
  have calm: "list_all (calm_event demo_runtime ''hello'' ?d) demo_schedule"
    using smooth demo_origin by (simp add: demo_schedule_def sd)
  have two: "2 \<le> rounds i demo_schedule" if "int i < max_conns ?d" for i
    using that unfolding conns by (cases i) (auto simp: demo_schedule_def)
  show ?thesis
    using start_delivers [where ru = demo_runtime and sv = demo_run_svc and ck = demo_clock and sd = demo_late and
        body = "''hello''" and evs = demo_schedule and did = "''a1''", unfolded lib sd,
        OF mem_badger_laws mem_badger_quiet demo_run_row(1) sel(1,2) demo_run_row(2) sel(3,4) paths opts(1,2) free
          opts(3,5,4) plain _ _ demo_announcing _ demo_resumable _ _ _ smooth _ calm two]
    by (auto simp: alive_live conns in64_def)
qed

end
