(* ===== verification/EventStream.thy ===== *)
theory EventStream
  imports Events
begin

text \<open>
  The server-sent events of \<open>internal/api/routes/events.go\<close>: a connection subscribes to all events, and
  its goroutine writes each one that it receives as a frame, with a comment every 30 seconds to keep the
  connection open.  \<open>json.Marshal\<close> is a parameter; the pipe to the client keeps the bytes in order, and an
  error of a write to it is dropped.
\<close>

section \<open>Frames\<close>

definition newline :: char where "newline = CHR 0x0A"

record SSEEvent =
  ss_ID :: string
  ss_Status :: DownloadStatus
  ss_Data :: event_data

definition sse_of :: "DownloadEvent \<Rightarrow> SSEEvent" where
  "sse_of e =
     \<lparr>ss_ID = d_ID (ev_Download e), ss_Status = d_Status (ev_Download e), ss_Data = ev_Data e\<rparr>"

definition sse_types :: "DownloadEventType list" where
  "sse_types =
     [EventEnqueued, EventStarted, EventProgress, EventPaused, EventResumed, EventCompleted, EventFailed,
      EventCancelled]"

text \<open>An event that cannot be encoded is left out.\<close>

definition sse_frame :: "(SSEEvent \<Rightarrow> string res) \<Rightarrow> DownloadEvent \<Rightarrow> string" where
  "sse_frame marshal e =
     (case marshal (sse_of e) of
        Inl err \<Rightarrow> []
      | Inr eventData \<Rightarrow>
          ''event: '' @ ev_Type e @ [newline] @ ''data: '' @ eventData @ [newline, newline])"

definition keep_alive :: string where
  "keep_alive = '': keep-alive'' @ [newline, newline]"

section \<open>The goroutine of a connection\<close>

text \<open>
  What happens next: the context is done, the goroutine receives, the ticker fires, or another part of
  the process publishes.  A receive from an empty channel waits.
\<close>

datatype stream_event = StreamDone | StreamReceive | StreamTick | StreamPublish DownloadEvent

definition open_stream :: "publisher \<Rightarrow> nat \<times> publisher" where
  "open_stream p = Subscribe p sse_types"

fun stream ::
    "(SSEEvent \<Rightarrow> string res) \<Rightarrow> nat \<Rightarrow> stream_event list \<Rightarrow> publisher \<Rightarrow> (string \<times> publisher) res" where
  "stream marshal c [] p = Inr ([], p)"
| "stream marshal c (StreamDone # evs) p = bindE (cancel_sub p c sse_types) (\<lambda>p. Inr ([], p))"
| "stream marshal c (StreamTick # evs) p =
     bindE (stream marshal c evs p) (\<lambda>(out, p). Inr (keep_alive @ out, p))"
| "stream marshal c (StreamPublish e # evs) p = bindE (Publish p e) (stream marshal c evs)"
| "stream marshal c (StreamReceive # evs) p =
     (case receive p c of
        None \<Rightarrow> stream marshal c evs p
      | Some (e, p) \<Rightarrow>
          bindE (stream marshal c evs p) (\<lambda>(out, p). Inr (sse_frame marshal e @ out, p)))"

section \<open>What a client reads\<close>

text \<open>
  The fields of the \<open>text/event-stream\<close> format that the frames use: \<open>event\<close> and \<open>data\<close>; a line that begins
  with a colon is a comment, and an empty line ends a frame.
\<close>

fun sse_decode :: "string \<Rightarrow> string \<Rightarrow> string list \<Rightarrow> (string \<times> string) list" where
  "sse_decode ty dat [] = []"
| "sse_decode ty dat (l # ls) =
     (if l = [] then (if dat = [] then [] else [(ty, dat)]) @ sse_decode [] [] ls
      else if prefix '':'' l then sse_decode ty dat ls
      else if prefix ''event: '' l then sse_decode (drop 7 l) dat ls
      else if prefix ''data: '' l then sse_decode ty (drop 6 l) ls
      else sse_decode ty dat ls)"

definition client_reads :: "string \<Rightarrow> (string \<times> string) list" where
  "client_reads out = sse_decode [] [] (split_on newline out)"

definition published :: "stream_event list \<Rightarrow> DownloadEvent list" where
  "published evs = concat (map (\<lambda>ev. case ev of StreamPublish e \<Rightarrow> [e] | _ \<Rightarrow> []) evs)"

lemma published_simps [simp]:
  "published [] = []" "published (StreamTick # evs) = published evs"
  "published (StreamReceive # evs) = published evs" "published (StreamPublish e # evs) = e # published evs"
  by (simp_all add: published_def)

lemma client_reads_Nil [simp]: "client_reads [] = []"
  by (simp add: client_reads_def)

lemma client_reads_keep_alive [simp]: "client_reads (keep_alive @ out) = client_reads out"
proof -
  have "split_on newline (keep_alive @ out) = '': keep-alive'' # [] # split_on newline out"
    using split_on_append [of newline "'': keep-alive''" "newline # out"]
    by (simp add: keep_alive_def newline_def)
  then show ?thesis by (simp add: client_reads_def)
qed

lemma client_reads_frame:
  assumes "marshal (sse_of e) = Inr j" "newline \<notin> set (ev_Type e)" "newline \<notin> set j" "j \<noteq> []"
  shows "client_reads (sse_frame marshal e @ out) = (ev_Type e, j) # client_reads out"
proof -
  have "split_on newline (sse_frame marshal e @ out) =
      (''event: '' @ ev_Type e) # (''data: '' @ j) # [] # split_on newline out"
    using split_on_append [of newline "''event: '' @ ev_Type e" "''data: '' @ j @ [newline, newline] @ out"]
      split_on_append [of newline "''data: '' @ j" "[newline] @ out"] assms
    by (simp add: sse_frame_def newline_def)
  with assms(4) show ?thesis by (simp add: client_reads_def)
qed

lemma sse_types_facts [simp]:
  "distinct sse_types" "t \<in> set sse_types \<Longrightarrow> newline \<notin> set t"
  by (auto simp: sse_types_def const_defs newline_def)

lemma open_stream_reach:
  "reach p hs \<Longrightarrow> open_stream p = (c, p') \<Longrightarrow> reach p' ((c, sse_types) # hs)"
  unfolding open_stream_def by (rule reach_subscribe)

lemma subs_of_stream:
  assumes "pub_ok p hs" "(c, sse_types) \<in> set hs" "t \<in> set sse_types"
  shows "subs_of hs c t = 1"
proof -
  from assms(1) have "distinct (map fst hs)" by (simp add: pub_ok_def)
  with assms(2) have "map_of hs c = Some sse_types" by simp
  with assms(3) show ?thesis
    by (simp add: subs_of_def distinct_count_atmost_1 [THEN iffD1, OF sse_types_facts(1), rule_format])
qed

section \<open>Properties\<close>

text \<open>
  C40.  Nothing published is lost, doubled or reordered on its way to a connected client: as long as the
  channel has room, what the client has read from the bytes on the wire, followed by what still waits in
  its channel, is what waited there at the start followed by all events published since, whatever the
  interleaving of publications, receives and comments.
\<close>

theorem stream_delivers:
  assumes "reach p hs" "(c, sse_types) \<in> set hs" "StreamDone \<notin> set evs"
    and "\<forall>e \<in> set (published evs). ev_Type e \<in> set sse_types"
    and "\<forall>e \<in> set (ch_buf (p_chans p c)). ev_Type e \<in> set sse_types"
    and "length (ch_buf (p_chans p c)) + length (published evs) \<le> chan_cap"
    and "\<forall>e. marshal (sse_of e) = Inr (json e) \<and> newline \<notin> set (json e) \<and> json e \<noteq> []"
  shows "\<exists>out p'. stream marshal c evs p = Inr (out, p') \<and> reach p' hs \<and>
    client_reads out @ map (\<lambda>e. (ev_Type e, json e)) (ch_buf (p_chans p' c)) =
      map (\<lambda>e. (ev_Type e, json e)) (ch_buf (p_chans p c) @ published evs)"
  using assms(1,3-6)
proof (induction evs arbitrary: p)
  case Nil
  then show ?case by simp
next
  case (Cons ev evs)
  let ?show = "map (\<lambda>e. (ev_Type e, json e))"
  show ?case
  proof (cases ev)
    case StreamTick
    with Cons.IH [OF Cons.prems(1)] Cons.prems(2-) show ?thesis by auto
  next
    case (StreamPublish e)
    have ok: "pub_ok p hs" by (rule reach_ok [OF Cons.prems(1)])
    from Publish_ok [OF ok, of e] obtain p' where p': "Publish p e = Inr p'"
      "ch_buf (p_chans p' c) = take chan_cap (ch_buf (p_chans p c) @ replicate (subs_of hs c (ev_Type e)) e)"
      by blast
    with StreamPublish Cons.prems(3,5) subs_of_stream [OF ok assms(2)]
    have buf: "ch_buf (p_chans p' c) = ch_buf (p_chans p c) @ [e]" by simp
    from Cons.IH [OF reach_publish [OF Cons.prems(1) p'(1)]] Cons.prems(2-) StreamPublish
    show ?thesis by (simp add: buf p'(1) Ball_def)
  next
    case StreamReceive
    show ?thesis
    proof (cases "receive p c")
      case None
      with Cons.IH [OF Cons.prems(1)] Cons.prems(2-) StreamReceive show ?thesis by simp
    next
      case (Some r)
      then obtain e es p' where r: "receive p c = Some (e, p')"
        and buf: "ch_buf (p_chans p c) = e # es" "ch_buf (p_chans p' c) = es"
        by (auto simp: receive_def split: list.splits)
      from Cons.prems(4) buf have nl: "newline \<notin> set (ev_Type e)" by simp
      from Cons.IH [OF reach_receive [OF Cons.prems(1) r]] Cons.prems(2-) StreamReceive buf
      obtain out p'' where "stream marshal c evs p' = Inr (out, p'')" "reach p'' hs"
        "client_reads out @ ?show (ch_buf (p_chans p'' c)) = ?show (es @ published evs)" by auto
      with StreamReceive r buf client_reads_frame [of marshal e "json e", OF _ nl] assms(7)
      show ?thesis by simp
    qed
  qed (use Cons.prems(2) in simp)
qed

definition demo_marshal :: "SSEEvent \<Rightarrow> string res" where
  "demo_marshal x = Inr (''{id:'' @ filter (\<lambda>c. c \<noteq> newline) (ss_ID x) @ ''}'')"

theorem stream_delivers_witness:
  "\<exists>out p'. stream demo_marshal 0 [StreamTick, StreamPublish demo_event, StreamReceive]
      (snd (open_stream NewInMemoryPublisher)) = Inr (out, p') \<and>
     client_reads out @ map (\<lambda>e. (ev_Type e, ''{id:}'')) (ch_buf (p_chans p' 0)) = [(''paused'', ''{id:}'')]"
proof -
  let ?p = "snd (open_stream NewInMemoryPublisher)"
  let ?json = "\<lambda>e. ''{id:'' @ filter (\<lambda>c. c \<noteq> newline) (d_ID (ev_Download e)) @ ''}''"
  have r: "reach ?p [(0, sse_types)]"
    by (rule open_stream_reach [OF reach_new])
      (simp add: open_stream_def Subscribe_def NewInMemoryPublisher_def)
  have buf: "ch_buf (p_chans ?p 0) = []"
    by (simp add: open_stream_def Subscribe_def NewInMemoryPublisher_def)
  have e: "ev_Type demo_event = EventPaused" "EventPaused \<in> set sse_types"
    by (simp_all add: demo_event_def sse_types_def)
  have json: "\<forall>e. demo_marshal (sse_of e) = Inr (?json e) \<and> newline \<notin> set (?json e) \<and> ?json e \<noteq> []"
    by (simp add: demo_marshal_def sse_of_def newline_def)
  obtain out p' where s: "stream demo_marshal 0 [StreamTick, StreamPublish demo_event, StreamReceive] ?p = Inr (out, p')"
    and c: "client_reads out @ map (\<lambda>e. (ev_Type e, ?json e)) (ch_buf (p_chans p' 0)) =
      map (\<lambda>e. (ev_Type e, ?json e)) [demo_event]"
    using stream_delivers [OF r _ _ _ _ _ json, of 0 "[StreamTick, StreamPublish demo_event, StreamReceive]"] buf e
    by (auto simp: chan_cap_def)
  have "p_subs ?p EventPaused = [0]" by code_simp
  then have "ch_buf (p_chans p' 0) = []"
    using s buf e(1) by (auto simp: Publish_def receive_def try_send_def chan_cap_def open_stream_def
        Subscribe_def NewInMemoryPublisher_def bindE_eq_Inr split: list.splits)
  with s c show ?thesis by (simp add: demo_event_def const_defs)
qed

end
