(* ===== verification/Daemon.thy ===== *)
theory Daemon
  imports Options FileStore
begin

text \<open>
  \<open>internal/cli/daemon.go\<close> and the commands of \<open>cli.go\<close>: the PID file, starting the server as a child
  process, stopping it, and its status.  Executing a program, signalling a process and parsing flags
  belong to the operating system and to libraries: a command reads their results from an environment
  and says which processes it started and signalled.
\<close>

section \<open>Processes\<close>

text \<open>
  What \<open>processAlive\<close> sees: the result of \<open>os.FindProcess\<close>, and of signal 0 when the process was found.
  \<open>os.ErrProcessDone\<close> is the error for a process that has exited.
\<close>

datatype process_probe = NotFound gerr | Signalled "gerr option"

definition ErrProcessDone :: gerr where
  "ErrProcessDone = ErrOther ''os: process already finished''"

definition processAlive :: "process_probe \<Rightarrow> bool" where
  "processAlive p =
     (case p of
        NotFound e \<Rightarrow> False
      | Signalled (Some e) \<Rightarrow> e \<noteq> ErrProcessDone
      | Signalled None \<Rightarrow> True)"

datatype process_act = Spawn string "string list" | Terminate int | Kill int

section \<open>The PID file\<close>

text \<open>
  The file system and its errors are those of the file store.  A write may fail after the file was
  opened, and then \<open>short\<close> bytes of it are there.
\<close>

definition ErrNotExist :: gerr where
  "ErrNotExist = ErrOther ''file does not exist''"

definition writePIDFile :: "oserrs \<Rightarrow> nat \<Rightarrow> string \<Rightarrow> int \<Rightarrow> fsys \<Rightarrow> unit res \<times> fsys" where
  "writePIDFile io short pidFile pid fs =
     (case io 0 of Some e \<Rightarrow> (Inl e, fs)
      | None \<Rightarrow> (case io 1 of Some e \<Rightarrow> (Inl e, fs)
          | None \<Rightarrow> (case io 2 of
                Some e \<Rightarrow> (Inl e, fs_write pidFile (take short (FormatInt pid)) fs)
              | None \<Rightarrow> (Inr (), fs_write pidFile (FormatInt pid) fs))))"

text \<open>
  \<open>strconv.Atoi\<close> is \<open>ParseInt\<close> with 64 bits here; \<open>trim\<close> is \<open>strings.TrimSpace\<close> outside ASCII and \<open>syntax\<close>
  the error of a text that is no number.
\<close>

definition readPID :: "(string \<Rightarrow> string) \<Rightarrow> (string \<Rightarrow> gerr) \<Rightarrow> oserrs \<Rightarrow> string \<Rightarrow> fsys \<Rightarrow> int res" where
  "readPID trim syntax io pidFile fs =
     (case io 0 of Some e \<Rightarrow> Inl e
      | None \<Rightarrow> (case map_of fs pidFile of None \<Rightarrow> Inl ErrNotExist
          | Some b \<Rightarrow> (case ParseInt (TrimSpace trim b) of
                None \<Rightarrow> Inl (syntax (TrimSpace trim b)) | Some pid \<Rightarrow> Inr pid)))"

definition removePIDFile :: "oserrs \<Rightarrow> string \<Rightarrow> fsys \<Rightarrow> unit res \<times> fsys" where
  "removePIDFile io pidFile fs =
     (let (r, fs) = (case io 0 of Some e \<Rightarrow> (Some e, fs)
            | None \<Rightarrow> if fs_exists fs pidFile then (None, fs_remove pidFile fs) else (Some ErrNotExist, fs))
      in case r of None \<Rightarrow> (Inr (), fs)
         | Some e \<Rightarrow> if e \<noteq> ErrNotExist then (Inl e, fs) else (Inr (), fs))"

section \<open>Starting\<close>

text \<open>
  What \<open>startDaemon\<close> reads: the path of its own program, the errors of its file operations, the probe
  of the process that the PID file names, the result of starting the child and of killing it.
\<close>

record daemon_env =
  de_exec :: "string res"
  de_io :: oserrs
  de_short :: nat
  de_probe :: process_probe
  de_child :: "int res"
  de_kill :: "gerr option"
  de_trim :: "string \<Rightarrow> string"
  de_syntax :: "string \<Rightarrow> gerr"
  de_text :: "gerr \<Rightarrow> string"

text \<open>
  The PID file of an earlier server: an error when that one is alive, otherwise the file is removed.
  What cannot be read counts as the process 0.
\<close>

definition earlier_server :: "daemon_env \<Rightarrow> string \<Rightarrow> fsys \<Rightarrow> unit res \<times> fsys" where
  "earlier_server E pidFile fs =
     (if de_io E 1 = None \<and> fs_exists fs pidFile
      then let pid = (case readPID (de_trim E) (de_syntax E) (skip 2 (de_io E)) pidFile fs of
                 Inl e \<Rightarrow> 0 | Inr pid \<Rightarrow> pid)
           in if 0 < pid \<and> processAlive (de_probe E) then (Inl (ErrText ''already running''), fs)
              else (Inr (), snd (removePIDFile (skip 3 (de_io E)) pidFile fs))
      else (Inr (), fs))"

definition open_log :: "daemon_env \<Rightarrow> string \<Rightarrow> fsys \<Rightarrow> unit res \<times> fsys" where
  "open_log E logFile fs =
     (case de_io E 4 of Some e \<Rightarrow> (Inl e, fs)
      | None \<Rightarrow> (case de_io E 5 of Some e \<Rightarrow> (Inl e, fs)
          | None \<Rightarrow> (Inr (), if fs_exists fs logFile then fs else fs_write logFile [] fs)))"

text \<open>The child is started and its PID written; a child whose PID cannot be written is killed.\<close>

definition start_child ::
    "daemon_env \<Rightarrow> string \<Rightarrow> string list \<Rightarrow> string \<Rightarrow> fsys \<Rightarrow> unit res \<times> fsys \<times> process_act list" where
  "start_child E execPath args pidFile fs =
     (case de_child E of Inl e \<Rightarrow> (Inl e, fs, [])
      | Inr pid \<Rightarrow>
          (case writePIDFile (skip 6 (de_io E)) (de_short E) pidFile pid fs of
             (Inr u, fs) \<Rightarrow> (Inr (), fs, [Spawn execPath args])
           | (Inl e, fs) \<Rightarrow>
               ((case de_kill E of None \<Rightarrow> Inr ()
                 | Some e \<Rightarrow> Inl (ErrText
                     (''failed to write pid file and failed to kill process: '' @ de_text E e))),
                fs, [Spawn execPath args, Kill pid])))"

text \<open>The result, the options (\<open>Daemonize\<close> is set on the way), the files and what was done to processes.\<close>

definition startDaemon ::
    "daemon_env \<Rightarrow> Options \<Rightarrow> fsys \<Rightarrow> unit res \<times> Options \<times> fsys \<times> process_act list" where
  "startDaemon E opt fs =
     (case de_exec E of Inl e \<Rightarrow> (Inl e, opt, fs, [])
      | Inr execPath \<Rightarrow> (case de_io E 0 of Some e \<Rightarrow> (Inl e, opt, fs, [])
          | None \<Rightarrow> (case earlier_server E (op_PIDFile opt) fs of
                (Inl e, fs) \<Rightarrow> (Inl e, opt, fs, [])
              | (Inr u, fs) \<Rightarrow>
                  let opt = opt\<lparr>op_Daemonize := True\<rparr>; args = buildArgsFromOptions opt
                  in (case open_log E (op_LogFile opt) fs of
                        (Inl e, fs) \<Rightarrow> (Inl e, opt, fs, [])
                      | (Inr u, fs) \<Rightarrow>
                          (let (r, fs, acts) = start_child E execPath args (op_PIDFile opt) fs
                           in (r, opt, fs, acts))))))"

section \<open>Stopping\<close>

text \<open>
  The rounds of the wait: the time of each and the probe of the process.  \<open>None\<close> when the readings end
  before the loop, otherwise whether the process was seen to exit.
\<close>

fun stop_wait :: "gtime \<Rightarrow> (gtime \<times> process_probe) list \<Rightarrow> bool option" where
  "stop_wait deadline [] = None"
| "stop_wait deadline ((now, p) # rounds) =
     (if now < deadline then if \<not> processAlive p then Some True else stop_wait deadline rounds
      else Some False)"

record stop_env =
  se_io :: oserrs
  se_find :: "gerr option"
  se_now :: gtime
  se_trim :: "string \<Rightarrow> string"
  se_syntax :: "string \<Rightarrow> gerr"

definition stopDaemon ::
    "stop_env \<Rightarrow> Options \<Rightarrow> int \<Rightarrow> (gtime \<times> process_probe) list \<Rightarrow> fsys \<Rightarrow>
       (unit res \<times> fsys \<times> process_act list) option" where
  "stopDaemon E opt gracefulSecs rounds fs =
     (case readPID (se_trim E) (se_syntax E) (se_io E) (op_PIDFile opt) fs of
        Inl e \<Rightarrow> Some (Inl (ErrText ''not running''), fs, [])
      | Inr pid \<Rightarrow>
          if pid \<le> 0 then Some (Inl (ErrText ''not running''), fs, [])
          else (case se_find E of Some e \<Rightarrow> Some (Inl e, fs, [])
            | None \<Rightarrow>
                let deadline = se_now E + mul64 gracefulSecs time_Second;
                    fs' = snd (removePIDFile (skip 1 (se_io E)) (op_PIDFile opt) fs)
                in map_option (\<lambda>exited. (Inr (), fs', if exited then [Terminate pid] else [Terminate pid, Kill pid]))
                     (stop_wait deadline rounds)))"

section \<open>The commands\<close>

text \<open>
  Every command fills in the defaults first.  \<open>graceful\<close> is the number of seconds that \<open>stop\<close> and
  \<open>restart\<close> wait; an error of \<open>start\<close>, \<open>stop\<close> or \<open>restart\<close> ends the program with \<open>log.Fatal\<close>.
\<close>

definition graceful :: "duration \<Rightarrow> Options \<Rightarrow> Options" where
  "graceful d opt =
     (if op_GracefulShutdownSecs opt = 0 then opt\<lparr>op_GracefulShutdownSecs := div64 d time_Second\<rparr> else opt)"

definition start_cmd ::
    "(string \<Rightarrow> string) \<Rightarrow> daemon_env \<Rightarrow> Options \<Rightarrow> fsys \<Rightarrow> unit res \<times> Options \<times> fsys \<times> process_act list" where
  "start_cmd getenv E opt fs =
     (let opt = applyDynamicDefaults getenv opt
      in startDaemon E (graceful (g_GracefulSecs (toConfig opt)) opt) fs)"

definition stop_cmd ::
    "(string \<Rightarrow> string) \<Rightarrow> stop_env \<Rightarrow> Options \<Rightarrow> (gtime \<times> process_probe) list \<Rightarrow> fsys \<Rightarrow>
       (unit res \<times> fsys \<times> process_act list) option" where
  "stop_cmd getenv E opt rounds fs =
     (let opt = graceful (g_GracefulSecs Default) (applyDynamicDefaults getenv opt)
      in stopDaemon E opt (op_GracefulShutdownSecs opt) rounds fs)"

definition restart_cmd ::
    "(string \<Rightarrow> string) \<Rightarrow> stop_env \<Rightarrow> daemon_env \<Rightarrow> Options \<Rightarrow> (gtime \<times> process_probe) list \<Rightarrow> fsys \<Rightarrow>
       (unit res \<times> fsys \<times> process_act list) option" where
  "restart_cmd getenv SE DE opt rounds fs =
     (let opt = graceful (g_GracefulSecs Default) (applyDynamicDefaults getenv opt)
      in case stopDaemon SE opt (op_GracefulShutdownSecs opt) rounds fs of
           None \<Rightarrow> None
         | Some (Inl e, fs, acts) \<Rightarrow> Some (Inl e, fs, acts)
         | Some (Inr u, fs, acts) \<Rightarrow>
             (let (r, opt, fs, acts') = startDaemon DE opt fs in Some (r, fs, acts @ acts')))"

datatype server_status = NotRunning | Running int | StalePID int

definition status_cmd ::
    "(string \<Rightarrow> string) \<Rightarrow> stop_env \<Rightarrow> process_probe \<Rightarrow> Options \<Rightarrow> fsys \<Rightarrow> server_status" where
  "status_cmd getenv E p opt fs =
     (let opt = applyDynamicDefaults getenv opt
      in case readPID (se_trim E) (se_syntax E) (se_io E) (op_PIDFile opt) fs of
           Inl e \<Rightarrow> NotRunning
         | Inr pid \<Rightarrow>
             if pid \<le> 0 then NotRunning else if processAlive p then Running pid else StalePID pid)"

section \<open>Laws\<close>

lemma writePID_reads_back:
  assumes "writePIDFile io short pidFile pid fs = (Inr (), fs')" "in64 pid" "io' 0 = None"
  shows "readPID trim syntax io' pidFile fs' = Inr pid" "fs_exists fs' pidFile"
  using assms by (auto simp: writePIDFile_def readPID_def ParseInt_FormatInt fs_exists_map split: option.splits)

lemma startDaemon_ok:
  assumes "startDaemon E opt fs = (Inr (), opt', fs', [Spawn p args])"
  shows "opt' = opt\<lparr>op_Daemonize := True\<rparr> \<and> args = buildArgsFromOptions opt' \<and>
    (\<exists>pid fs1. de_child E = Inr pid \<and>
       writePIDFile (skip 6 (de_io E)) (de_short E) (op_PIDFile opt) pid fs1 = (Inr (), fs'))"
  using assms
  by (auto simp: startDaemon_def start_child_def Let_def split: sum.splits option.splits prod.splits)

lemma stop_wait_ends:
  assumes "\<exists>r \<in> set rounds. deadline \<le> fst r"
  shows "stop_wait deadline rounds \<noteq> None"
  using assms by (induction deadline rounds rule: stop_wait.induct) auto

text \<open>The index of a round before the deadline at which the process is seen to have exited.\<close>

definition seen_exit :: "gtime \<Rightarrow> (gtime \<times> process_probe) list \<Rightarrow> bool" where
  "seen_exit deadline rounds \<longleftrightarrow>
     (\<exists>i < length rounds. (\<forall>j \<le> i. fst (rounds ! j) < deadline) \<and> \<not> processAlive (snd (rounds ! i)))"

lemma seen_exit_Cons:
  "seen_exit deadline ((now, p) # rounds) \<longleftrightarrow> now < deadline \<and> (\<not> processAlive p \<or> seen_exit deadline rounds)"
proof -
  have split: "(\<forall>j \<le> Suc i. P j) \<longleftrightarrow> P 0 \<and> (\<forall>j \<le> i. P (Suc j))" for P and i :: nat
    by (metis Suc_le_mono le0 not0_implies_Suc)
  show ?thesis
    unfolding seen_exit_def by (simp only: length_Cons Ex_less_Suc2) (auto simp: split)
qed

lemma stop_wait_seen:
  assumes "stop_wait deadline rounds = Some b"
  shows "b \<longleftrightarrow> seen_exit deadline rounds"
  using assms
proof (induction rounds)
  case (Cons r rounds)
  then show ?case by (cases r) (auto simp: seen_exit_Cons split: if_splits)
qed simp

text \<open>The rounds of the wait sleep 200 milliseconds each.\<close>

definition round_gap :: duration where "round_gap = 200000000"

definition paced :: "gtime \<Rightarrow> (gtime \<times> process_probe) list \<Rightarrow> bool" where
  "paced now rounds \<longleftrightarrow> (\<forall>i < length rounds. now + int i * round_gap \<le> fst (rounds ! i))"

section \<open>Properties\<close>

text \<open>
  C37.  There is one background server per PID file: after a start that succeeded, the file holds the PID of
  the child, the status names it, and another start while that process is alive is refused, starts no
  process and leaves the files as they are.
\<close>

theorem daemon_single_instance:
  assumes "startDaemon E opt fs = (Inr (), opt', fs', [Spawn path args])"
    and "de_child E = Inr pid" "0 < pid" "in64 pid"
    and "de_exec E2 = Inr path2" "de_io E2 0 = None" "de_io E2 1 = None" "de_io E2 2 = None"
    and "processAlive (de_probe E2)"
  shows "readPID trim syntax no_errors (op_PIDFile opt) fs' = Inr pid \<and>
    startDaemon E2 opt' fs' = (Inl (ErrText ''already running''), opt', fs', [])"
proof -
  from startDaemon_ok [OF assms(1)] assms(2) obtain fs1 where opt': "op_PIDFile opt' = op_PIDFile opt"
    and w: "writePIDFile (skip 6 (de_io E)) (de_short E) (op_PIDFile opt) pid fs1 = (Inr (), fs')" by auto
  have "readPID (de_trim E2) (de_syntax E2) (skip 2 (de_io E2)) (op_PIDFile opt) fs' = Inr pid"
    by (rule writePID_reads_back(1) [OF w assms(4)]) (simp add: assms(8))
  then have "earlier_server E2 (op_PIDFile opt) fs' = (Inl (ErrText ''already running''), fs')"
    using writePID_reads_back(2) [OF w assms(4), of no_errors] assms(3,7,9)
    by (simp add: earlier_server_def)
  with assms(5,6) opt' writePID_reads_back(1) [OF w assms(4), of no_errors] show ?thesis
    by (simp add: startDaemon_def)
qed

definition demo_options :: Options where
  "demo_options =
     \<lparr>op_Port = 8089, op_DataDir = ''/d'', op_BadgerDir = ''/d/badger'', op_MaxBodyBytes = 0, op_DefaultQueueID = [],
      op_GracefulShutdownSecs = 1, op_GlobalRateLimitBPS = 0, op_Daemonize = False, op_PIDFile = ''/d/pid'',
      op_LogFile = ''/d/log'', op_APIKey = [], op_EnableAuth = False, op_WorkerTickInterval = 2,
      op_StaleDownloadTimeout = 300\<rparr>"

definition demo_daemon_env :: daemon_env where
  "demo_daemon_env =
     \<lparr>de_exec = Inr ''/bin/svc'', de_io = no_errors, de_short = 0, de_probe = Signalled None,
      de_child = Inr 4711, de_kill = None, de_trim = (\<lambda>s. s), de_syntax = ErrOther, de_text = (\<lambda>e. [])\<rparr>"

definition demo_running :: Options where "demo_running = demo_options\<lparr>op_Daemonize := True\<rparr>"

lemma demo_options_sel [simp]:
  "op_PIDFile demo_options = ''/d/pid''" "op_LogFile demo_running = ''/d/log''"
  "op_PIDFile demo_running = ''/d/pid''"
  by (simp_all add: demo_options_def demo_running_def)

lemma demo_daemon_env_sel [simp]:
  "de_exec demo_daemon_env = Inr ''/bin/svc''" "de_io demo_daemon_env = no_errors"
  "de_child demo_daemon_env = Inr 4711" "processAlive (de_probe demo_daemon_env)"
  by (simp_all add: demo_daemon_env_def processAlive_def)

lemma demo_start:
  "startDaemon demo_daemon_env demo_options [] =
     (Inr (), demo_running, [(''/d/log'', []), (''/d/pid'', FormatInt 4711)],
      [Spawn ''/bin/svc'' (buildArgsFromOptions demo_running)])"
  by (simp add: startDaemon_def Let_def earlier_server_def open_log_def start_child_def writePIDFile_def
      demo_running_def [symmetric] fs_exists_def fs_write_def)

theorem daemon_single_instance_witness:
  "readPID (\<lambda>s. s) ErrOther no_errors ''/d/pid'' [(''/d/log'', []), (''/d/pid'', FormatInt 4711)] = Inr 4711 \<and>
   startDaemon demo_daemon_env demo_running [(''/d/log'', []), (''/d/pid'', FormatInt 4711)] =
     (Inl (ErrText ''already running''), demo_running, [(''/d/log'', []), (''/d/pid'', FormatInt 4711)], [])"
proof -
  have "in64 4711" by (simp add: in64_def)
  with daemon_single_instance [OF demo_start, of 4711 demo_daemon_env "''/bin/svc''" "\<lambda>s. s" ErrOther]
  show ?thesis by simp
qed

text \<open>
  Stopping ends: when the rounds of the wait are 200 ms apart, five per second of the grace period
  and one more are enough, whatever the process does.  The process was sent the termination signal, it
  is killed exactly when it was not seen to exit before the deadline, and the PID file is gone.
\<close>

lemma stop_ends:
  assumes "readPID (se_trim E) (se_syntax E) (se_io E) (op_PIDFile opt) fs = Inr pid" "0 < pid"
    and "se_find E = None" "se_io E 1 = None"
    and "0 \<le> secs" "in64 (secs * time_Second)" "paced (se_now E) rounds" "5 * secs < int (length rounds)"
  shows "\<exists>fs' acts. stopDaemon E opt secs rounds fs = Some (Inr (), fs', acts) \<and>
    map_of fs' = (map_of fs)(op_PIDFile opt := None) \<and>
    acts = (if seen_exit (se_now E + secs * time_Second) rounds then [Terminate pid] else [Terminate pid, Kill pid])"
proof -
  let ?deadline = "se_now E + secs * time_Second"
  let ?last = "nat (5 * secs)"
  have "?last < length rounds" "int ?last = 5 * secs" using assms(5,8) by simp_all
  with assms(7) have "rounds ! ?last \<in> set rounds" "?deadline \<le> fst (rounds ! ?last)"
    by (auto simp: paced_def round_gap_def time_Second_def dest!: spec [of _ ?last])
  then obtain b where b: "stop_wait ?deadline rounds = Some b"
    using stop_wait_ends [of rounds ?deadline] by blast
  have "fs_exists fs (op_PIDFile opt)"
    using assms(1) by (auto simp: readPID_def fs_exists_map split: option.splits)
  then have rm: "removePIDFile (skip 1 (se_io E)) (op_PIDFile opt) fs = (Inr (), fs_remove (op_PIDFile opt) fs)"
    using assms(4) by (simp add: removePIDFile_def)
  have m: "mul64 secs time_Second = secs * time_Second" using assms(6) by (simp add: mul64_def)
  from b assms(1-3) stop_wait_seen [OF b] show ?thesis
    by (simp add: stopDaemon_def Let_def m rm [unfolded One_nat_def])
qed

definition demo_stop_env :: stop_env where
  "demo_stop_env = \<lparr>se_io = no_errors, se_find = None, se_now = 0, se_trim = (\<lambda>s. s), se_syntax = ErrOther\<rparr>"

definition demo_rounds :: "(gtime \<times> process_probe) list" where
  "demo_rounds = map (\<lambda>i. (int i * round_gap, Signalled None)) [0..<6]"

lemma stop_ends_witness:
  "\<exists>fs' acts. stopDaemon demo_stop_env demo_running 1 demo_rounds [(''/d/pid'', FormatInt 4711)] = Some (Inr (), fs', acts) \<and>
     map_of fs' = Map.empty \<and> acts = [Terminate 4711, Kill 4711]"
proof -
  have "in64 4711" by (simp add: in64_def)
  then have "readPID (se_trim demo_stop_env) (se_syntax demo_stop_env) (se_io demo_stop_env)
      (op_PIDFile demo_running) [(''/d/pid'', FormatInt 4711)] = Inr 4711"
    by (simp add: readPID_def demo_stop_env_def ParseInt_FormatInt)
  moreover have "in64 (1 * time_Second)" by (simp add: in64_def time_Second_def)
  moreover have "paced (se_now demo_stop_env) demo_rounds"
    by (simp add: paced_def demo_rounds_def demo_stop_env_def)
  moreover have "\<not> seen_exit (se_now demo_stop_env + 1 * time_Second) demo_rounds"
    by (auto simp: seen_exit_def demo_rounds_def processAlive_def)
  ultimately show ?thesis
    using stop_ends [of demo_stop_env demo_running "[(''/d/pid'', FormatInt 4711)]" 4711 1 demo_rounds]
    by (auto simp: demo_stop_env_def demo_rounds_def)
qed

text \<open>
  A child whose PID cannot be written is killed, and the start still reports success: \<open>startDaemon\<close> returns
  an error only when the killing fails.
\<close>

lemma unwritten_pid_succeeds:
  assumes "de_child E = Inr pid" "de_io E 7 = Some e" "de_io E 6 = None" "de_kill E = None"
  shows "start_child E execPath args pidFile fs = (Inr (), fs, [Spawn execPath args, Kill pid])"
  using assms by (simp add: start_child_def writePIDFile_def)

end
