(* ===== verification/Frontend.thy ===== *)
theory Frontend
  imports Routes Server EventStream Transport Daemon
begin

text \<open>
  The two places where the program is put together: the HTTP handler of \<open>internal/api/register.go\<close> behind
  the authentication of \<open>internal/auth/auth.go\<close>, and the command \<open>serve\<close> of \<open>internal/cli/cli.go\<close> around
  \<open>internal/server/server.go\<close>.  Matching a request to an operation belongs to chi and huma: a call is the
  operation that was matched, with the path under which the code registers it.
\<close>

section \<open>Writing an answer\<close>

text \<open>
  \<open>http.ResponseWriter\<close>: the first \<open>WriteHeader\<close> fixes the status and the header; a later one only logs.
\<close>

record writer =
  wr_header :: header
  wr_sent :: "(int \<times> header) option"
  wr_body :: string

definition new_writer :: writer where
  "new_writer = \<lparr>wr_header = no_headers, wr_sent = None, wr_body = []\<rparr>"

definition SetHeader :: "string \<Rightarrow> string \<Rightarrow> writer \<Rightarrow> writer" where
  "SetHeader k v w = w\<lparr>wr_header := hdr_set k v (wr_header w)\<rparr>"

definition WriteHeader :: "int \<Rightarrow> writer \<Rightarrow> writer" where
  "WriteHeader code w =
     (case wr_sent w of None \<Rightarrow> w\<lparr>wr_sent := Some (code, wr_header w)\<rparr> | Some x \<Rightarrow> w)"

definition WriteBody :: "string \<Rightarrow> writer \<Rightarrow> writer" where
  "WriteBody b w = (WriteHeader 200 w)\<lparr>wr_body := wr_body w @ b\<rparr>"

definition http_Error :: "string \<Rightarrow> int \<Rightarrow> writer \<Rightarrow> writer" where
  "http_Error msg code w =
     WriteBody (msg @ [newline]) (WriteHeader code
       (SetHeader ''X-Content-Type-Options'' ''nosniff''
         (SetHeader ''Content-Type'' ''text/plain; charset=utf-8'' w)))"

text \<open>The handler of the document; \<open>yaml\<close> is what huma makes of the registered operations.\<close>

definition openapi_handler :: "string res \<Rightarrow> writer \<Rightarrow> writer" where
  "openapi_handler yaml w =
     (let w = SetHeader ''Content-Type'' ''application/x-yaml'' w;
          w = WriteHeader 200 w
      in case yaml of
           Inl e \<Rightarrow> http_Error ''Failed to generate OpenAPI spec'' 500 w
         | Inr yamlData \<Rightarrow> WriteBody yamlData w)"

section \<open>The handler of the server\<close>

datatype call = ApiCall request | EventsCall | SpecCall

definition path_of :: "string list \<Rightarrow> string" where
  "path_of parts = concat (map (\<lambda>s. CHR ''/'' # s) parts)"

fun call_path :: "call \<Rightarrow> string" where
  "call_path (ApiCall r) = path_of (snd (endpoint r))"
| "call_path EventsCall = ''/events''"
| "call_path SpecCall = ''/openapi.yaml''"

text \<open>What the handler did: a reply of an operation, a stream on a channel, or a written answer.\<close>

datatype served = Replied reply | Streaming nat | Written writer

fun NewServer ::
    "'s badger \<Rightarrow> stdlib \<Rightarrow> validator option \<Rightarrow> string res \<Rightarrow> request_env \<Rightarrow> call \<Rightarrow> 's svc \<Rightarrow> served \<times> 's svc" where
  "NewServer B L V yaml rq (ApiCall r) sv = (case handle B L V rq r sv of (rep, sv) \<Rightarrow> (Replied rep, sv))"
| "NewServer B L V yaml rq EventsCall sv =
     (case sv_pub sv of
        None \<Rightarrow> (Replied (PlainError (ErrPanic ''nil pointer dereference'')), sv)
      | Some p \<Rightarrow> (case open_stream p of (c, p) \<Rightarrow> (Streaming c, sv\<lparr>sv_pub := Some p\<rparr>)))"
| "NewServer B L V yaml rq SpecCall sv = (Written (openapi_handler yaml new_writer), sv)"

text \<open>The handler that \<open>server.New\<close> installs.\<close>

definition ServeHTTP ::
    "Config \<Rightarrow> 's badger \<Rightarrow> stdlib \<Rightarrow> validator option \<Rightarrow> string res \<Rightarrow> request_env \<Rightarrow> header \<Rightarrow> call \<Rightarrow> 's svc \<Rightarrow>
       served \<times> 's svc" where
  "ServeHTTP cfg B L V yaml rq h c sv =
     (case guarded cfg (call_path c) (hdr_get h ''Authorization'') of
        Unauthorized msg \<Rightarrow> (Written (http_Error msg 401 new_writer), sv)
      | Serve apiKey \<Rightarrow> NewServer B L V yaml rq c sv)"

section \<open>The command \<open>serve\<close>\<close>

text \<open>
  What the command reads: the environment, the errors of the operations on the PID file and its own PID,
  \<open>badger.Open\<close> and the error of closing the database, the events until the signal comes, and the clocks.
\<close>

record 's serve_env =
  sc_getenv :: "string \<Rightarrow> string"
  sc_io :: oserrs
  sc_short :: nat
  sc_pid :: int
  sc_open :: "badger_options \<Rightarrow> 's res"
  sc_closed :: "gerr option"
  sc_events :: "'s serve_event list"
  sc_ended :: "nat \<Rightarrow> gerr"
  sc_ck :: clock
  sc_cks :: "nat \<Rightarrow> clock"

text \<open>
  How it ends: it returns, with the error of \<open>Close\<close> that it prints; \<open>log.Fatalf\<close> ends it, which runs no
  deferred call; or it is killed by a panic or by \<open>os.Exit\<close>.
\<close>

datatype serve_exit = Returned "gerr option" | FatalExit gerr | Killed gerr

text \<open>
  A panic of \<open>server.New\<close> is in the goroutine of the command and runs the deferred removal of the PID
  file; one of the worker is in another goroutine and does not.
\<close>

definition serve_cmd ::
    "'s badger \<Rightarrow> stdlib \<Rightarrow> 's serve_env \<Rightarrow> Options \<Rightarrow> fsys \<Rightarrow> serve_exit \<times> fsys" where
  "serve_cmd B L E opt fs =
     (let opt = applyDynamicDefaults (sc_getenv E) opt;
          cfg = toConfig opt;
          fs = (if op_Daemonize opt then fs
                else snd (writePIDFile (sc_io E) (sc_short E) (op_PIDFile opt) (sc_pid E) fs));
          unlock = (\<lambda>fs. if op_Daemonize opt then fs
                else snd (removePIDFile (skip 3 (sc_io E)) (op_PIDFile opt) fs))
      in case New B (sc_ck E) fs (NewBadgerRepository (sc_open E) (g_BadgerDir cfg)) cfg of
           Inl e \<Rightarrow> if is_panic e then (Killed e, unlock fs) else (FatalExit e, fs)
         | Inr sr \<Rightarrow>
             (case RunForeground B L (sc_events E) (sc_ended E) (sc_cks E) sr of
                (Inl e, sr) \<Rightarrow> (Killed e, case sv_fs (se_svc sr) of None \<Rightarrow> fs | Some fs \<Rightarrow> fs)
              | (Inr u, sr) \<Rightarrow>
                  (Returned (case Close (sc_closed E) of Inl e \<Rightarrow> Some e | Inr u \<Rightarrow> None),
                   unlock (case sv_fs (se_svc sr) of None \<Rightarrow> fs | Some fs \<Rightarrow> fs))))"

section \<open>Laws\<close>

lemma sent_once [simp]:
  "wr_sent (SetHeader k v w) = wr_sent w"
  "wr_sent (WriteHeader code w) = Some (case wr_sent w of None \<Rightarrow> (code, wr_header w) | Some x \<Rightarrow> x)"
  "wr_sent (WriteBody b w) = Some (case wr_sent w of None \<Rightarrow> (200, wr_header w) | Some x \<Rightarrow> x)"
  "wr_body (SetHeader k v w) = wr_body w" "wr_body (WriteHeader code w) = wr_body w"
  "wr_body (WriteBody b w) = wr_body w @ b"
  by (simp_all add: SetHeader_def WriteHeader_def WriteBody_def split: option.splits)

lemma http_Error_status:
  "wr_sent w = None \<Longrightarrow> map_option fst (wr_sent (http_Error msg code w)) = Some code"
  "wr_body (http_Error msg code w) = wr_body w @ msg @ [newline]"
  by (simp_all add: http_Error_def)

text \<open>A document that cannot be made is answered with status 200, and with the text of the error.\<close>

lemma openapi_error_is_ok:
  "map_option fst (wr_sent (openapi_handler (Inl e) new_writer)) = Some 200 \<and>
   wr_body (openapi_handler (Inl e) new_writer) = ''Failed to generate OpenAPI spec'' @ [newline]"
  by (simp add: openapi_handler_def Let_def http_Error_def new_writer_def)

text \<open>No operation is registered under a public path.\<close>

lemma path_of_Cons: "path_of (s # ss) = CHR ''/'' # s @ path_of ss"
  by (simp add: path_of_def)

lemma api_paths_guarded:
  "c \<noteq> SpecCall \<Longrightarrow> call_path c \<notin> {''/health'', ''/openapi.yaml'', ''/openapi.json''}"
proof (cases c)
  case (ApiCall r)
  have down: "\<exists>m xs. download_endpoint x = (m, ''downloads'' # xs)" for x by (cases x) simp_all
  have que: "\<exists>m xs. queue_endpoint x = (m, ''queues'' # xs)" for x by (cases x) simp_all
  have "\<exists>m a xs. endpoint r = (m, a # xs) \<and> (a = ''downloads'' \<or> a = ''queues'')"
  proof (cases r)
    case (ForDownloads x)
    with down [of x] show ?thesis by auto
  next
    case (ForQueues x)
    with que [of x] show ?thesis by auto
  qed
  with ApiCall show ?thesis by (auto simp: path_of_Cons)
qed simp_all

section \<open>Properties\<close>

text \<open>
  C11.  Behind an API key nothing is done for a request that does not carry it: every call of the API and
  of the event stream, on whatever flags and environment the server was started, is answered with 401 and
  leaves the service as it is, unless its \<open>Authorization\<close> header is \<open>Bearer\<close> followed by the key; with
  that header, and for the OpenAPI document, the handler runs as it does without a key.
\<close>

theorem key_guards_api:
  assumes "cfg = toConfig (applyDynamicDefaults getenv opt)" "op_APIKey opt \<noteq> []"
  shows "if c = SpecCall \<or> hdr_get h ''Authorization'' = ''Bearer '' @ op_APIKey opt
    then ServeHTTP cfg B L V yaml rq h c sv = NewServer B L V yaml rq c sv
    else \<exists>w. ServeHTTP cfg B L V yaml rq h c sv = (Written w, sv) \<and> map_option fst (wr_sent w) = Some 401"
proof (cases "c = SpecCall \<or> hdr_get h ''Authorization'' = ''Bearer '' @ op_APIKey opt")
  case True
  then have "\<exists>k. guarded cfg (call_path c) (hdr_get h ''Authorization'') = Serve k"
    using assms by (auto simp: auth_exact)
  with True show ?thesis by (auto simp: ServeHTTP_def)
next
  case False
  then have "call_path c \<notin> {''/health'', ''/openapi.yaml'', ''/openapi.json''}" using api_paths_guarded by blast
  then have "\<exists>msg. guarded cfg (call_path c) (hdr_get h ''Authorization'') = Unauthorized msg"
    using assms False by (auto simp: auth_exact)
  with False http_Error_status(1) [of new_writer] show ?thesis
    by (auto simp: ServeHTTP_def new_writer_def)
qed

theorem key_guards_api_witness:
  "(\<exists>w. ServeHTTP (toConfig (applyDynamicDefaults (\<lambda>k. []) (zero_CliOptions\<lparr>op_APIKey := ''k1''\<rparr>)))
      mem_badger basic_lib None (Inr []) demo_env no_headers (ApiCall (ForDownloads (RemoveDownload ''a1''))) demo_svc =
      (Written w, demo_svc) \<and> map_option fst (wr_sent w) = Some 401) \<and>
   ServeHTTP (toConfig (applyDynamicDefaults (\<lambda>k. []) (zero_CliOptions\<lparr>op_APIKey := ''k1''\<rparr>)))
      mem_badger basic_lib None (Inr []) demo_env (hdr_set ''Authorization'' ''Bearer k1'' no_headers) EventsCall demo_svc =
     NewServer mem_badger basic_lib None (Inr []) demo_env EventsCall demo_svc"
  using key_guards_api [OF refl, of "zero_CliOptions\<lparr>op_APIKey := ''k1''\<rparr>" "ApiCall (ForDownloads (RemoveDownload ''a1''))"
      no_headers "\<lambda>k. []" mem_badger basic_lib None "Inr []" demo_env demo_svc]
    key_guards_api [OF refl, of "zero_CliOptions\<lparr>op_APIKey := ''k1''\<rparr>" EventsCall
      "hdr_set ''Authorization'' ''Bearer k1'' no_headers" "\<lambda>k. []" mem_badger basic_lib None "Inr []" demo_env demo_svc]
  by (simp add: hdr_get_def hdr_set_def no_headers_def)

lemma removePID_gone:
  assumes "io 0 = None" shows "\<not> fs_exists (snd (removePIDFile io p fs)) p"
  using assms by (auto simp: removePIDFile_def fs_exists_map fs_remove_def delete_conv Let_def)

lemma writePID_works:
  assumes "io 0 = None" "io 1 = None" "io 2 = None"
  shows "writePIDFile io short p pid fs = (Inr (), fs_write p (FormatInt pid) fs)"
  using assms by (simp add: writePIDFile_def numeral_2_eq_2)

lemma New_fails:
  assumes "New B ck fs opened cfg = Inl e"
  shows "opened = Inl e \<or> 0 < g_GlobalRateLimitBPS cfg \<and> is_panic e"
  using assms by (auto simp: New_def bindE_def SetLimit_def ZeroLimiter_def Let_def split: sum.splits if_splits)

lemma New_global_limit:
  assumes "0 < g_GlobalRateLimitBPS cfg"
  shows "\<exists>e. New B ck fs opened cfg = Inl e"
  using assms by (auto simp: New_def bindE_def SetLimit_def ZeroLimiter_def Let_def split: sum.splits)

text \<open>
  C36.  The PID file of a server in the foreground is gone when the command returns, and when a global
  limit makes putting the server together panic; but when the database cannot be opened the file stays
  behind and names the process that has ended.
\<close>

theorem serve_pid_file:
  assumes "\<not> op_Daemonize opt" "\<forall>k. sc_io E k = None"
  defines "p \<equiv> op_PIDFile (applyDynamicDefaults (sc_getenv E) opt)"
    and "cfg \<equiv> toConfig (applyDynamicDefaults (sc_getenv E) opt)"
    and "opened \<equiv> NewBadgerRepository (sc_open E) (g_BadgerDir (toConfig (applyDynamicDefaults (sc_getenv E) opt)))"
  shows "(case serve_cmd B L E opt fs of (r, fs') \<Rightarrow>
    (case r of
       Returned m \<Rightarrow> \<not> fs_exists fs' p
     | FatalExit e \<Rightarrow> opened = Inl e \<and> fs' = fs_write p (FormatInt (sc_pid E)) fs
     | Killed e \<Rightarrow> 0 < g_GlobalRateLimitBPS cfg \<longrightarrow> \<not> fs_exists fs' p)) \<and>
   (\<forall>e. opened = Inl e \<longrightarrow> \<not> is_panic e \<longrightarrow> fst (serve_cmd B L E opt fs) = FatalExit e) \<and>
   ((\<exists>s. opened = Inr s) \<longrightarrow> 0 < g_GlobalRateLimitBPS cfg \<longrightarrow> (\<exists>e. fst (serve_cmd B L E opt fs) = Killed e))"
proof -
  let ?fs = "fs_write p (FormatInt (sc_pid E)) fs"
  let ?unlock = "\<lambda>fs. snd (removePIDFile (skip 3 (sc_io E)) p fs)"
  have fg: "\<not> op_Daemonize (applyDynamicDefaults (sc_getenv E) opt)" using assms(1) by simp
  have w: "writePIDFile (sc_io E) n x pid fs = (Inr (), fs_write x (FormatInt pid) fs)" for n x pid
    by (rule writePID_works) (simp_all add: assms(2))
  have run: "serve_cmd B L E opt fs =
      (case New B (sc_ck E) ?fs (opened) cfg of
         Inl e \<Rightarrow> if is_panic e then (Killed e, ?unlock ?fs) else (FatalExit e, ?fs)
       | Inr sr \<Rightarrow>
           (case RunForeground B L (sc_events E) (sc_ended E) (sc_cks E) sr of
              (Inl e, sr) \<Rightarrow> (Killed e, case sv_fs (se_svc sr) of None \<Rightarrow> ?fs | Some fs \<Rightarrow> fs)
            | (Inr u, sr) \<Rightarrow>
                (Returned (case Close (sc_closed E) of Inl e \<Rightarrow> Some e | Inr u \<Rightarrow> None),
                 ?unlock (case sv_fs (se_svc sr) of None \<Rightarrow> ?fs | Some fs \<Rightarrow> fs))))"
    unfolding serve_cmd_def Let_def p_def cfg_def opened_def if_not_P [OF fg] w snd_conv by (rule refl)
  have gone: "\<not> fs_exists (?unlock x) p" for x
    by (rule removePID_gone) (simp add: assms(2))
  show ?thesis
  proof (cases "New B (sc_ck E) ?fs (opened) cfg")
    case (Inl e)
    from New_fails [OF Inl] have why: "opened = Inl e \<or> 0 < g_GlobalRateLimitBPS cfg \<and> is_panic e" .
    have same: "opened = Inl e' \<Longrightarrow> e' = e" for e' using Inl by (simp add: New_def)
    show ?thesis
    proof (cases "is_panic e")
      case True
      then have "serve_cmd B L E opt fs = (Killed e, ?unlock ?fs)" by (simp add: run Inl)
      with gone True same show ?thesis by auto
    next
      case False
      with why have op: "opened = Inl e" by blast
      from False have "serve_cmd B L E opt fs = (FatalExit e, ?fs)" by (simp add: run Inl)
      with op same show ?thesis by auto
    qed
  next
    case (Inr sr)
    then have op: "\<nexists>e. opened = Inl e" and zero: "\<not> 0 < g_GlobalRateLimitBPS cfg"
      using New_global_limit [of cfg B "sc_ck E" ?fs "opened"] by (auto simp: New_def)
    show ?thesis
    proof (cases "RunForeground B L (sc_events E) (sc_ended E) (sc_cks E) sr")
      case (Pair r sr')
      with op zero gone show ?thesis by (cases r) (simp_all add: run Inr)
    qed
  qed
qed

definition demo_serve :: "mem res \<Rightarrow> mem serve_env" where
  "demo_serve opened =
     \<lparr>sc_getenv = (\<lambda>k. []), sc_io = no_errors, sc_short = 0, sc_pid = 4711, sc_open = (\<lambda>opts. opened), sc_closed = None,
      sc_events = [], sc_ended = (\<lambda>j. ErrCanceled), sc_ck = demo_clock, sc_cks = (\<lambda>j. demo_clock)\<rparr>"

theorem serve_pid_file_witness:
  "serve_cmd mem_badger basic_lib (demo_serve (Inl (ErrText ''locked''))) demo_options [] =
     (FatalExit (ErrText ''locked''), [(''/d/pid'', FormatInt 4711)])"
proof -
  let ?E = "demo_serve (Inl (ErrText ''locked''))"
  have p: "op_PIDFile (applyDynamicDefaults (sc_getenv ?E) demo_options) = ''/d/pid''" by code_simp
  have h: "\<not> op_Daemonize demo_options" "\<forall>k. sc_io ?E k = None"
    by (simp_all add: demo_options_def demo_serve_def no_errors_def)
  have e: "NewBadgerRepository (sc_open ?E) dir = Inl (ErrText ''locked'')" "\<not> is_panic (ErrText ''locked'')" "sc_pid ?E = 4711"
    for dir by (simp_all add: demo_serve_def NewBadgerRepository_def OpenBadger_def)
  obtain r fs' where r: "serve_cmd mem_badger basic_lib ?E demo_options [] = (r, fs')" by fastforce
  note pid = serve_pid_file [where B = mem_badger and L = basic_lib and fs = "[]", OF h, unfolded p r prod.case fst_conv]
  from pid e(1,2) have "r = FatalExit (ErrText ''locked'')" by blast
  with pid e(3) have "fs' = fs_write ''/d/pid'' (FormatInt 4711) []" by (simp only: serve_exit.case)
  with \<open>r = _\<close> r show ?thesis by (simp only: fs_write_def AList.update.simps)
qed

end
