(* ===== verification/Spec2Isabelle.thy ===== *)
theory Spec2Isabelle
  imports Repo_Spec Tx_Repo Planner RateLimit Events FileStore Queue_Service Options Runner_Loop Delivery Frontend
begin

text \<open>
  \<^bold>\<open>A verification library for svc-downloader\<close>

  svc-downloader is an HTTP service that downloads files in segments.  A request of the API
  (\<open>internal/api\<close>) reaches the download or the queue service (\<open>internal/service\<close>), which keeps its data in
  a Badger database through the repository (\<open>internal/repository\<close>).  A worker (\<open>workers.go\<close>) starts queued
  downloads; each start spawns a run (\<open>runner.go\<close>), which plans segments (\<open>internal/planner\<close>), fetches them
  with range requests (\<open>internal/transport\<close>) at a limited rate (\<open>internal/ratelimit\<close>), keeps them as part
  files and merges them (\<open>internal/filestore\<close>).  All of them publish events (\<open>internal/events\<close>), which the
  API streams to its clients.  \<open>internal/server\<close> puts the parts together, and \<open>internal/cli\<close> runs the server
  in the foreground or as a daemon.

  \<^bold>\<open>Conventions.\<close>  A Go string is a list of bytes.  An error is a value of \<open>gerr\<close>, and an operation that may
  fail returns \<open>'a res = gerr + 'a\<close>; a panic is the error \<open>ErrPanic\<close>.  An \<open>int\<close> or \<open>int64\<close> is an integer with
  wrap-around written out (\<open>add64\<close>, \<open>mul64\<close>, \<open>wrap64\<close>).  A context is the sequence of its readings (\<open>cx k\<close> is
  the error at the \<open>k\<close>-th look, \<open>live\<close> never ends), a clock the sequence of its readings.  A
  name \<open>f_quiet\<close>, \<open>f_live\<close> or \<open>f_net\<close> is a lemma on \<open>f\<close> where the database has no faults, where the
  context stays alive, and on the net effect on the stored data; \<open>f_keeps\<close> says that \<open>f\<close> keeps the invariant.

  \<^bold>\<open>Theories.\<close>
  \<^item> \<open>Prelude\<close>, \<open>Models\<close>: errors, arithmetic, the string functions of Go's library, time; the data model
    (\<open>models.go\<close>, the types of \<open>interfaces.go\<close>).
  \<^item> \<open>Badger\<close>: the database as a parameter \<open>B\<close> with the laws \<open>badger_laws\<close>, the absence of faults
    \<open>badger_quiet\<close>, and an instance \<open>mem_badger\<close> for the witnesses.
  \<^item> \<open>Keys\<close>, \<open>Repo_Core\<close>, \<open>Repo_Index\<close>, \<open>Repo_Crud\<close>, \<open>Repo_Queues\<close>, \<open>Repo_List\<close>, \<open>Repo_Bulk\<close>, \<open>Tx_Repo\<close>:
    \<open>repository.go\<close>.  The abstract state is \<open>stored m\<close>, the map of downloads, with \<open>queues\<close>, \<open>stats\<close> and
    \<open>segs\<close>; \<open>repo_ok\<close> says that every key holds a value of its kind and that the index entries are exactly
    those of the stored downloads.  \<open>Repo_Spec\<close> specifies all operations of the interface \<open>Repository\<close> on
    its four tables (\<open>table\<close>, \<open>repo_op\<close>, \<open>spec_op\<close>) and relates the two by a simulation.
  \<^item> \<open>Interfaces\<close>: the contracts between components (\<open>interfaces.go\<close>) as locales: the repository inside a
    transaction, the planner, the limiter, the publisher; \<open>range_source\<close> in \<open>Transport\<close> is that of the
    transport.  Each is interpreted on the model of its implementation.
  \<^item> \<open>Planner\<close>, \<open>RateLimit\<close>, \<open>Events\<close>, \<open>Paths\<close> with \<open>FileStore\<close>, \<open>Transport\<close>: the components a run uses.
  \<^item> \<open>Service\<close>, \<open>Service_Laws\<close>, \<open>Service_Lifecycle\<close>, \<open>Queue_Service\<close>, \<open>Worker\<close>: \<open>download.go\<close>, \<open>queue.go\<close>,
    \<open>workers.go\<close>.  \<open>lifecycle\<close> is the step relation of calls that interleave at the mutex; \<open>Scheduler\<close> holds
    what a whole tick of the worker does.
  \<^item> \<open>Runner\<close>, \<open>Runner_Laws\<close>, \<open>Runner_Loop\<close>, \<open>Runner_Run\<close>: \<open>runner.go\<close>.  A goroutine takes a step per round
    of its loop, and a schedule says which one moves.  \<open>Servers\<close> says what a server of a file answers
    (\<open>announcing\<close>, \<open>answering\<close>, with \<open>origin\<close> of \<open>Transport\<close>), and what the code makes of such answers.
  \<^item> \<open>Options\<close>, \<open>Server\<close>, \<open>Daemon\<close>, \<open>Routes\<close>, \<open>EventStream\<close>: configuration, \<open>options.go\<close>, \<open>auth.go\<close>,
    \<open>server.go\<close>, \<open>daemon.go\<close> and \<open>cli.go\<close>, \<open>routes.go\<close> and \<open>queues.go\<close>, \<open>events.go\<close>.  \<open>Frontend\<close> composes
    them: the handler of \<open>register.go\<close> behind the authentication, and the command \<open>serve\<close>.
  \<^item> \<open>Invariant\<close>, \<open>Jobs\<close>, \<open>System\<close>: every operation keeps the invariant whatever its outcome; a run as
    a state machine of which every execution of \<open>Run\<close> is a path; the process, whose steps are requests,
    pieces of calls, ticks of the worker and moves of its runs.  \<open>Delivery\<close> composes a
    start with the run that it spawns.

  \<^bold>\<open>What is shown.\<close>
  \<^item> Repository: create, update, delete and read refine a map and keep the index exact, and an error leaves
    the data as it was; listing returns exactly the matching downloads in the order asked for, counting
    agrees with it; the bulk operations rewrite exactly their downloads.  The bulk operations by queue reach
    every queue whose id begins with the given one, as the code does.  Every sequence of operations refines
    the specification of the tables (\<open>repository_refines\<close>).
  \<^item> Services and worker: what each operation stores, answers and publishes; a tick starts no more
    downloads than the concurrency of the queue leaves room for, and, when the rows are idle and their limits
    can be set, exactly as many as it does (\<open>tick_fills_queues\<close>); a registered cancel function always belongs
    to a run that is alive; an absent download fails every operation and changes nothing.
  \<^item> Runs: the segments tile the file; whatever the schedule, a run that completes has merged exactly the
    bytes of the server, also over parts of an earlier run; with servers and disks that work, a start delivers
    the file and leaves the stored download completed (\<open>start_delivers\<close>);
    the loop of a segment ends within the number of retries.
  \<^item> Limiter, publisher, file store: at most the capacity and the refill in any period; events reach exactly
    the subscribers that match, and never a cancelled one; the merge never replaces a file that it must keep.
  \<^item> Process: in every reachable state the stored data is well-formed and every job works on the download
    of its run; a run touches no other download and brings no removed one back.  Behind an API key no request
    without it has an effect (\<open>key_guards_api\<close>); \<open>serve_pid_file\<close> says when the PID file of a server goes.
  \<^item> Where the code does something else than it means to, a lemma states what it does: for example
    \<open>mismatch_retries_forever\<close>, \<open>broken_answer_duplicates\<close>, \<open>restart_loses_cancel\<close>, \<open>resume_doubles_run\<close>,
    \<open>list_limit_zero\<close>, \<open>bulk_update_interrupted\<close>, \<open>saved_queue_escapes\<close>, \<open>start_zero_limiter_panics\<close>.

  \<^bold>\<open>Bounds and fuel.\<close>  The loops of the code are structural recursions over what they walk, or over the
  readings of their rounds.  The search for a free file name in \<open>MergeSegments\<close> may go on for as long as the
  names are taken, so it has fuel: \<open>sd_fuel\<close> for a run, of which more than the number of files is enough.
  \<open>stopDaemon\<close> looks at the process until its deadline, five times a second; \<open>stop_wait\<close> takes as many rounds.
  The retry loop of a segment and the schedules of a run are lists, and \<open>segment_ends\<close> and \<open>start_delivers\<close>
  say how long a list is enough.  The bulk theorems are about fewer than 1000 downloads, because Badger
  documents \<open>Flush\<close> as the last call on a \<open>WriteBatch\<close> and the code goes on using it.

  \<^bold>\<open>Parameters.\<close>  Badger (\<open>B\<close>); Unicode case mapping, case folding and sorting of Go's library (\<open>L\<close>, with
  \<open>sort_contract\<close>); rounding of floats (\<open>fp_ok\<close>); the errors of the operating system (\<open>io\<close>), the home
  directory and digests; \<open>net/url\<close> and the answers of servers (\<open>net\<close>, with \<open>origin\<close> for servers that serve a
  file as HTTP says); \<open>uuid\<close>, the clock and the contexts; JSON encoding of events.

  \<^bold>\<open>Not modelled.\<close>  \<open>cmd/server/main.go\<close> only calls \<open>cli.Run\<close>, and \<open>internal/config/sys\<close> only sets process
  attributes.  The container of dependencies (\<open>internal/api/deps\<close>) only holds the services, whose state
  the handlers take; opening and closing Badger (\<open>internal/db\<close>) are parameters, given the options of the code.  Routing, reading JSON bodies and the
  OpenAPI document belong to huma and chi, the parsing of flags to humacli, listening and the drain of
  connections to \<open>net/http\<close>.  Logging and the printed messages are left out.  Directories of the file system
  exist as far as files need them, and the contents of an HTTP proxy or TLS setting are only passed on.
\<close>

end
